(* ===== verification/Prelude.thy ===== *)
theory Prelude
  imports Complex_Main "HOL-Library.AList" "HOL-Library.Multiset"
begin

text \<open>
  The shared base of the development: exceptions as values, the state-and-exception
  composition every database operation is written with, ordered dictionaries, and the
  generic lemmas on lists and tables the components use.
\<close>

named_theorems run_simps \<open>unfolding rules for operations composed with bindS\<close>

named_theorems table_simps \<open>rewriting rules for tables kept as lists of rows\<close>

section \<open>Text\<close>

text \<open>
  A Python \<open>str\<close> is a sequence of code points: it is a list of natural numbers here, so
  \<open>len\<close> is \<open>length\<close> for every text, ASCII or not. An ASCII literal of the source is
  written \<open>lit ''abc''\<close>.
\<close>

type_synonym pystr = "nat list"

definition lit :: "string \<Rightarrow> pystr" where
  "lit s = map of_char s"

lemma lit_inject [simp]: "lit a = lit b \<longleftrightarrow> a = b"
  by (auto simp: lit_def inj_map_eq_map inj_of_char)

lemma lit_Nil [simp]: "lit [] = []"
  by (simp add: lit_def)

lemma lit_eq_Nil [simp]: "lit a = [] \<longleftrightarrow> a = []"
  by (simp add: lit_def)

lemma Nil_eq_lit [simp]: "[] = lit a \<longleftrightarrow> a = []"
  by (auto simp: lit_def)

lemma length_lit [simp]: "length (lit a) = length a"
  by (simp add: lit_def)

section \<open>Exceptions\<close>

text \<open>
  The exceptions the modelled code raises or lets through. The ones defined by the
  repository keep their name and payload; \<open>OtherExn\<close> is any other exception with its text.
\<close>

datatype exn =
    ValueError pystr
  | TypeError pystr
  | KeyError pystr
  | AttributeError pystr
  | AssertionError pystr
  | ValidationError pystr
  | BlockedFetchError int
  | ConnectorDisabledError pystr
  | UnknownConnectorError pystr
  | SourceNotConfiguredError pystr
  | UnknownFailureTypeError pystr
  | FetchScopeNotSupportedError pystr
  | ProfileNotFoundError int
  | UnsupportedFileTypeError pystr
  | CVExtractionError pystr
  | MatcherError pystr
  | HTTPException int
  | OtherExn pystr

text \<open>\<open>SchedulerLookupError\<close> is the common base of the two lookup errors.\<close>

fun is_scheduler_lookup_error :: "exn \<Rightarrow> bool" where
  "is_scheduler_lookup_error (UnknownConnectorError _) = True"
| "is_scheduler_lookup_error (SourceNotConfiguredError _) = True"
| "is_scheduler_lookup_error _ = False"

section \<open>Sequencing\<close>

text \<open>Pure fallible code: \<open>Inl\<close> is a raised exception.\<close>

fun bindE :: "exn + 'a \<Rightarrow> ('a \<Rightarrow> exn + 'b) \<Rightarrow> exn + 'b" where
  "bindE (Inl e) f = Inl e"
| "bindE (Inr x) f = f x"

lemma bindE_Inr_iff: "bindE m f = Inr y \<longleftrightarrow> (\<exists>x. m = Inr x \<and> f x = Inr y)"
  by (cases m) auto

lemma bindE_split:
  "P (bindE m f) \<longleftrightarrow> (\<forall>e. m = Inl e \<longrightarrow> P (Inl e)) \<and> (\<forall>x. m = Inr x \<longrightarrow> P (f x))"
  by (cases m) auto

text \<open>
  Effectful code: a function of the state that gives a result or an exception, and the
  state it leaves behind. The state survives an exception, as the session of the code does.
\<close>

type_synonym ('s, 'a) prog = "'s \<Rightarrow> (exn + 'a) \<times> 's"

definition retS :: "'a \<Rightarrow> ('s, 'a) prog" where
  "retS x s = (Inr x, s)"

definition raiseS :: "exn \<Rightarrow> ('s, 'a) prog" where
  "raiseS e s = (Inl e, s)"

definition bindS :: "('s, 'a) prog \<Rightarrow> ('a \<Rightarrow> ('s, 'b) prog) \<Rightarrow> ('s, 'b) prog" where
  "bindS m f s = (case m s of (Inl e, t) \<Rightarrow> (Inl e, t) | (Inr x, t) \<Rightarrow> f x t)"

definition liftE :: "exn + 'a \<Rightarrow> ('s, 'a) prog" where
  "liftE r s = (r, s)"

definition getS :: "('s \<Rightarrow> 'a) \<Rightarrow> ('s, 'a) prog" where
  "getS f s = (Inr (f s), s)"

definition modS :: "('s \<Rightarrow> 's) \<Rightarrow> ('s, unit) prog" where
  "modS f s = (Inr (), f s)"

declare retS_def [run_simps] raiseS_def [run_simps] bindS_def [run_simps]
  liftE_def [run_simps] getS_def [run_simps] modS_def [run_simps]

lemma bindS_Inr_iff:
  "bindS m f s = (Inr y, t) \<longleftrightarrow> (\<exists>x s'. m s = (Inr x, s') \<and> f x s' = (Inr y, t))"
  by (auto simp: bindS_def split: prod.splits sum.splits)

lemma bindS_retS [simp]: "bindS (retS x) f = f x"
  by (simp add: fun_eq_iff run_simps)

lemma bindS_assoc: "bindS (bindS m f) g = bindS m (\<lambda>x. bindS (f x) g)"
  by (auto simp: fun_eq_iff bindS_def split: prod.splits sum.splits)

text \<open>A Python \<open>for\<close> loop whose body may raise.\<close>

fun forS :: "'a list \<Rightarrow> ('a \<Rightarrow> ('s, unit) prog) \<Rightarrow> ('s, unit) prog" where
  "forS [] f = retS ()"
| "forS (x # xs) f = bindS (f x) (\<lambda>_. forS xs f)"

text \<open>A comprehension whose body may raise; also \<open>asyncio.gather\<close>, which gives the results in the
  order of its arguments, or the exception of one.\<close>

fun gather :: "('a \<Rightarrow> exn + 'b) \<Rightarrow> 'a list \<Rightarrow> exn + 'b list" where
  "gather f [] = Inr []"
| "gather f (x # xs) = bindE (f x) (\<lambda>y. bindE (gather f xs) (\<lambda>ys. Inr (y # ys)))"

lemma gather_Inr:
  "gather f xs = Inr ys \<Longrightarrow> length ys = length xs \<and> (\<forall>i < length xs. f (xs ! i) = Inr (ys ! i))"
proof (induction xs arbitrary: ys)
  case (Cons x xs)
  then obtain y zs where "f x = Inr y" "gather f xs = Inr zs" "ys = y # zs"
    by (auto simp: bindE_Inr_iff)
  with Cons.IH show ?case by (auto simp: nth_Cons split: nat.splits)
qed auto

section \<open>Dictionaries\<close>

text \<open>
  A Python \<open>dict\<close> keeps its insertion order: it is an association list, \<open>d.get(k)\<close> is
  \<open>map_of d k\<close>, \<open>d[k] = v\<close> is \<open>AList.update k v d\<close> (which replaces in place or appends).
\<close>

type_synonym 'v pydict = "(pystr \<times> 'v) list"

definition dict_merge :: "'v pydict \<Rightarrow> 'v pydict \<Rightarrow> 'v pydict" where
  \<comment> \<open>\<open>{**a, **b}\<close>\<close>
  "dict_merge a b = fold (\<lambda>(k, v). AList.update k v) b a"

lemma map_of_dict_merge: "distinct (map fst b) \<Longrightarrow> map_of (dict_merge a b) = map_of a ++ map_of b"
proof (induction b arbitrary: a)
  case Nil
  then show ?case by (simp add: dict_merge_def)
next
  case (Cons kv b)
  obtain k v where kv: "kv = (k, v)" by (cases kv)
  have "map_of (dict_merge a (kv # b)) = map_of (dict_merge (AList.update k v a) b)"
    by (simp add: dict_merge_def kv)
  also have "\<dots> = (map_of a)(k \<mapsto> v) ++ map_of b"
    using Cons by (simp add: update_conv')
  also have "\<dots> = map_of a ++ map_of (kv # b)"
    using Cons.prems by (simp add: kv map_add_upd_left dom_map_of_conv_image_fst)
  finally show ?case .
qed

lemma distinct_dict_update [simp]:
  "distinct (map fst d) \<Longrightarrow> distinct (map fst (AList.update k v d))"
  by (rule distinct_update)

section \<open>Lists\<close>

text \<open>\<open>list(dict.fromkeys(xs))\<close>: the first occurrences, in order.\<close>

fun dedup_aux :: "'a list \<Rightarrow> 'a list \<Rightarrow> 'a list" where
  "dedup_aux seen [] = []"
| "dedup_aux seen (x # xs) = (if x \<in> set seen then dedup_aux seen xs else x # dedup_aux (x # seen) xs)"

definition py_dedup :: "'a list \<Rightarrow> 'a list" where
  "py_dedup xs = dedup_aux [] xs"

lemma set_dedup_aux: "set (dedup_aux seen xs) = set xs - set seen"
  by (induction seen xs rule: dedup_aux.induct) auto

lemma distinct_dedup_aux: "distinct (dedup_aux seen xs)"
  by (induction seen xs rule: dedup_aux.induct) (auto simp: set_dedup_aux)

lemma set_py_dedup [simp]: "set (py_dedup xs) = set xs"
  by (simp add: py_dedup_def set_dedup_aux)

lemma distinct_py_dedup [simp]: "distinct (py_dedup xs)"
  by (simp add: py_dedup_def distinct_dedup_aux)

section \<open>Tables\<close>

text \<open>
  A database table is the list of its rows in insertion order. An \<open>UPDATE .. WHERE\<close> maps
  over it, a \<open>DELETE .. WHERE\<close> filters it, a scalar \<open>SELECT\<close> finds the first match.
\<close>

definition update_where :: "('r \<Rightarrow> bool) \<Rightarrow> ('r \<Rightarrow> 'r) \<Rightarrow> 'r list \<Rightarrow> 'r list" where
  "update_where P f rows = map (\<lambda>r. if P r then f r else r) rows"

definition delete_where :: "('r \<Rightarrow> bool) \<Rightarrow> 'r list \<Rightarrow> 'r list" where
  "delete_where P rows = filter (\<lambda>r. \<not> P r) rows"

lemma length_update_where [table_simps]: "length (update_where P f rows) = length rows"
  by (simp add: update_where_def)

lemma map_update_where [table_simps]:
  "(\<And>r. g (f r) = g r) \<Longrightarrow> map g (update_where P f rows) = map g rows"
  by (simp add: update_where_def)

lemma set_update_where [table_simps]:
  "set (update_where P f rows) = f ` {r \<in> set rows. P r} \<union> {r \<in> set rows. \<not> P r}"
  by (auto simp: update_where_def)

lemma update_where_cong_False [table_simps]:
  "(\<And>r. r \<in> set rows \<Longrightarrow> \<not> P r) \<Longrightarrow> update_where P f rows = rows"
  by (auto simp: update_where_def intro: map_idI)

lemma list_all_update_where [table_simps]:
  "(\<And>r. Q (f r) = Q r) \<Longrightarrow> list_all Q (update_where P f rows) = list_all Q rows"
  by (induction rows) (auto simp: update_where_def)

lemma image_update_where:
  "(\<And>r. g (f r) = g r) \<Longrightarrow> g ` set (update_where P f rows) = g ` set rows"
  by (metis list.set_map map_update_where)

lemma set_delete_where [table_simps]: "set (delete_where P rows) = {r \<in> set rows. \<not> P r}"
  by (auto simp: delete_where_def)

lemma distinct_map_delete_where [table_simps]:
  "distinct (map g rows) \<Longrightarrow> distinct (map g (delete_where P rows))"
  by (simp add: delete_where_def distinct_map_filter)

lemma find_Some_in_set: "find P xs = Some x \<Longrightarrow> x \<in> set xs \<and> P x"
  by (auto simp: find_Some_iff)

lemma find_None_all: "find P xs = None \<longleftrightarrow> (\<forall>x \<in> set xs. \<not> P x)"
  by (auto simp: find_None_iff)

lemma find_append: "find P (xs @ ys) = (case find P xs of None \<Rightarrow> find P ys | Some x \<Rightarrow> Some x)"
  by (induction xs) auto

lemma find_Some_first:
  "find P xs = Some x \<longleftrightarrow> (\<exists>pre post. xs = pre @ x # post \<and> P x \<and> list_all (\<lambda>y. \<not> P y) pre)"
proof (induction xs)
  case (Cons y ys)
  show ?case
  proof (cases "P y")
    case True
    then show ?thesis by (auto simp: Cons_eq_append_conv)
  next
    case False
    have "(\<exists>pre post. y # ys = pre @ x # post \<and> P x \<and> list_all (\<lambda>z. \<not> P z) pre)
        \<longleftrightarrow> (\<exists>pre post. ys = pre @ x # post \<and> P x \<and> list_all (\<lambda>z. \<not> P z) pre)"
      (is "?L \<longleftrightarrow> ?R")
    proof
      assume ?L then show ?R using False by (auto simp: Cons_eq_append_conv)
    next
      assume ?R
      then obtain pre post where "ys = pre @ x # post" "P x" "list_all (\<lambda>z. \<not> P z) pre" by blast
      then have "y # ys = (y # pre) @ x # post \<and> P x \<and> list_all (\<lambda>z. \<not> P z) (y # pre)"
        using False by simp
      then show ?L by blast
    qed
    with False Cons.IH show ?thesis by simp
  qed
qed simp

lemma find_unique:
  assumes "distinct (map g xs)" and "x \<in> set xs"
  shows "find (\<lambda>y. g y = g x) xs = Some x"
  using assms by (induction xs) auto

lemma distinct_map_inj: "distinct (map g xs) \<Longrightarrow> x \<in> set xs \<Longrightarrow> y \<in> set xs \<Longrightarrow> g x = g y \<Longrightarrow> x = y"
  by (auto simp: distinct_map inj_on_def)

text \<open>Replacing one element of a list changes what the whole collects by what that element collects.\<close>

lemma mset_concat_update:
  assumes "c < length xs"
  shows "mset (concat (map f (xs[c := y]))) + mset (f (xs ! c)) = mset (concat (map f xs)) + mset (f y)"
proof -
  let ?xs = "take c xs" and ?ys = "drop (Suc c) xs"
  have "concat (map f xs) = concat (map f (?xs @ xs ! c # ?ys))"
    using assms by (simp add: id_take_nth_drop [symmetric])
  moreover have "xs[c := y] = ?xs @ y # ?ys" using assms by (simp add: upd_conv_take_nth_drop)
  ultimately show ?thesis by simp
qed

lemma length_filter_le_1:
  assumes "\<And>i j. i < length xs \<Longrightarrow> j < length xs \<Longrightarrow> P (xs ! i) \<Longrightarrow> P (xs ! j) \<Longrightarrow> i = j"
  shows "length (filter P xs) \<le> 1"
proof -
  have "\<forall>i\<in>{i. i < length xs \<and> P (xs ! i)}. \<forall>j\<in>{i. i < length xs \<and> P (xs ! i)}. i = j"
    using assms by blast
  then show ?thesis by (simp add: length_filter_conv_card card_le_Suc0_iff_eq)
qed

lemma distinct_mset_le:
  assumes "mset xs \<subseteq># mset ys" and "distinct ys"
  shows "distinct xs"
proof -
  obtain zs where "mset ys = mset (xs @ zs)"
    using assms(1) by (metis ex_mset mset_append subset_mset.le_iff_add)
  then show ?thesis using assms(2) by (metis distinct_append mset_eq_imp_distinct_iff)
qed

end
