(* ===== verification/PyStd.thy ===== *)
theory PyStd
  imports Prelude
begin

text \<open>
  What the source uses of Python and its standard library: string methods, JSON values and
  their truth value, number formatting and conversion, date-times with and without a zone,
  \<open>round\<close>, and \<open>urllib.parse.urlsplit\<close>/\<open>urlunsplit\<close>.

  Case mapping and character classes are written out for ASCII, Latin-1 and Latin
  Extended-A (which holds every Polish letter); code points from other blocks keep their
  case, and are neither white space nor word characters. JSON numbers with a fraction are
  rationals: the non-finite literals \<open>NaN\<close> and \<open>Infinity\<close> are left out.
\<close>

section \<open>Characters\<close>

definition is_space :: "nat \<Rightarrow> bool" where
  "is_space c \<longleftrightarrow> (9 \<le> c \<and> c \<le> 13) \<or> (28 \<le> c \<and> c \<le> 32) \<or> c = 133 \<or> c = 160"

definition is_digit :: "nat \<Rightarrow> bool" where
  "is_digit c \<longleftrightarrow> 48 \<le> c \<and> c \<le> 57"

definition is_ascii_alpha :: "nat \<Rightarrow> bool" where
  "is_ascii_alpha c \<longleftrightarrow> (65 \<le> c \<and> c \<le> 90) \<or> (97 \<le> c \<and> c \<le> 122)"

text \<open>\<open>\w\<close> of a Unicode pattern: letters, numeric characters and the underscore.\<close>

definition is_word :: "nat \<Rightarrow> bool" where
  "is_word c \<longleftrightarrow> is_ascii_alpha c \<or> is_digit c \<or> c = 95
     \<or> c \<in> {170, 178, 179, 181, 185, 186, 188, 189, 190}
     \<or> (192 \<le> c \<and> c \<le> 383 \<and> c \<noteq> 215 \<and> c \<noteq> 247)"

definition lower_cp :: "nat \<Rightarrow> nat" where
  "lower_cp c =
     (if 65 \<le> c \<and> c \<le> 90 then c + 32
      else if 192 \<le> c \<and> c \<le> 222 \<and> c \<noteq> 215 then c + 32
      else if 256 \<le> c \<and> c \<le> 311 \<and> c \<noteq> 304 \<and> even c then c + 1
      else if 313 \<le> c \<and> c \<le> 328 \<and> odd c then c + 1
      else if 330 \<le> c \<and> c \<le> 375 \<and> even c then c + 1
      else if c = 376 then 255
      else if 377 \<le> c \<and> c \<le> 382 \<and> odd c then c + 1
      else c)"

definition upper_ascii :: "nat \<Rightarrow> nat" where
  "upper_ascii c = (if 97 \<le> c \<and> c \<le> 122 then c - 32 else c)"

section \<open>String methods\<close>

definition py_lower :: "pystr \<Rightarrow> pystr" where
  "py_lower s = map lower_cp s"

definition py_upper :: "pystr \<Rightarrow> pystr" where
  \<comment> \<open>on ASCII letters, all the source calls it on are currency codes\<close>
  "py_upper s = map upper_ascii s"

definition lstrip_by :: "(nat \<Rightarrow> bool) \<Rightarrow> pystr \<Rightarrow> pystr" where
  "lstrip_by P s = dropWhile P s"

definition rstrip_by :: "(nat \<Rightarrow> bool) \<Rightarrow> pystr \<Rightarrow> pystr" where
  "rstrip_by P s = rev (dropWhile P (rev s))"

definition py_strip :: "pystr \<Rightarrow> pystr" where
  "py_strip s = rstrip_by is_space (lstrip_by is_space s)"

fun py_join :: "pystr \<Rightarrow> pystr list \<Rightarrow> pystr" where
  "py_join sep [] = []"
| "py_join sep [x] = x"
| "py_join sep (x # y # ys) = x @ sep @ py_join sep (y # ys)"

fun is_prefix :: "'a list \<Rightarrow> 'a list \<Rightarrow> bool" where
  "is_prefix [] ys = True"
| "is_prefix (x # xs) [] = False"
| "is_prefix (x # xs) (y # ys) = (x = y \<and> is_prefix xs ys)"

text \<open>\<open>needle in haystack\<close>\<close>

fun py_contains :: "pystr \<Rightarrow> pystr \<Rightarrow> bool" where
  "py_contains needle [] = (needle = [])"
| "py_contains needle (c # cs) = (is_prefix needle (c # cs) \<or> py_contains needle cs)"

text \<open>\<open>s.split(c, 1)\<close> when \<open>c\<close> occurs: what stands before and after the first one.\<close>

definition before_char :: "nat \<Rightarrow> pystr \<Rightarrow> pystr" where
  "before_char c s = takeWhile (\<lambda>d. d \<noteq> c) s"

definition after_char :: "nat \<Rightarrow> pystr \<Rightarrow> pystr" where
  "after_char c s = tl (dropWhile (\<lambda>d. d \<noteq> c) s)"

fun show_nat_aux :: "nat \<Rightarrow> pystr \<Rightarrow> pystr" where
  "show_nat_aux n acc =
     (if n < 10 then (48 + n) # acc else show_nat_aux (n div 10) ((48 + n mod 10) # acc))"

declare show_nat_aux.simps [simp del]

definition show_int :: "int \<Rightarrow> pystr" where
  "show_int i = (if i < 0 then 45 # show_nat_aux (nat (- i)) [] else show_nat_aux (nat i) [])"

text \<open>\<open>str(exc)\<close> of a caught exception.\<close>

fun exn_text :: "exn \<Rightarrow> pystr" where
  "exn_text (ValueError m) = m"
| "exn_text (TypeError m) = m"
| "exn_text (KeyError m) = m"
| "exn_text (AttributeError m) = m"
| "exn_text (AssertionError m) = m"
| "exn_text (ValidationError m) = m"
| "exn_text (BlockedFetchError n) = show_int n"
| "exn_text (ConnectorDisabledError m) = m"
| "exn_text (UnknownConnectorError m) = m"
| "exn_text (SourceNotConfiguredError m) = m"
| "exn_text (UnknownFailureTypeError m) = m"
| "exn_text (FetchScopeNotSupportedError m) = m"
| "exn_text (ProfileNotFoundError n) = show_int n"
| "exn_text (UnsupportedFileTypeError m) = m"
| "exn_text (CVExtractionError m) = m"
| "exn_text (MatcherError m) = m"
| "exn_text (HTTPException n) = show_int n"
| "exn_text (OtherExn m) = m"

section \<open>Date-times\<close>

text \<open>
  A \<open>datetime\<close> is aware (an instant, in microseconds) or naive (a wall-clock reading).
  Ordering the two kinds against each other raises \<open>TypeError\<close>.
\<close>

datatype pydt = Aware int | Naive int

fun dt_less :: "pydt \<Rightarrow> pydt \<Rightarrow> exn + bool" where
  "dt_less (Aware a) (Aware b) = Inr (a < b)"
| "dt_less (Naive a) (Naive b) = Inr (a < b)"
| "dt_less _ _ = Inl (TypeError (lit ''can't compare offset-naive and offset-aware datetimes''))"

section \<open>JSON values\<close>

text \<open>
  The dynamic values the code passes around: JSON, plus the \<open>datetime\<close> a connector may
  have parsed already.
\<close>

datatype json =
    JNull
  | JBool bool
  | JInt int
  | JFloat rat
  | JStr pystr
  | JDate pydt
  | JArr "json list"
  | JObj "(pystr \<times> json) list"

type_synonym jdict = "json pydict"

text \<open>\<open>json.dumps\<close> raises \<open>TypeError\<close> on a \<open>datetime\<close>.\<close>

fun json_serializable :: "json \<Rightarrow> bool" where
  "json_serializable (JDate _) = False"
| "json_serializable (JArr xs) = list_all json_serializable xs"
| "json_serializable (JObj d) = list_all (\<lambda>(_, v). json_serializable v) d"
| "json_serializable _ = True"

text \<open>\<open>d.get(k)\<close> and \<open>d.get(k, default)\<close>\<close>

definition jget :: "jdict \<Rightarrow> pystr \<Rightarrow> json" where
  "jget d k = (case map_of d k of None \<Rightarrow> JNull | Some v \<Rightarrow> v)"

definition jget_default :: "jdict \<Rightarrow> pystr \<Rightarrow> json \<Rightarrow> json" where
  "jget_default d k dflt = (case map_of d k of None \<Rightarrow> dflt | Some v \<Rightarrow> v)"

lemma jget_default_update:
  "jget_default (AList.update k v cfg) k' dflt = (if k' = k then v else jget_default cfg k' dflt)"
  by (simp add: jget_default_def update_conv')

fun truthy :: "json \<Rightarrow> bool" where
  "truthy JNull = False"
| "truthy (JBool b) = b"
| "truthy (JInt n) = (n \<noteq> 0)"
| "truthy (JFloat q) = (q \<noteq> 0)"
| "truthy (JStr s) = (s \<noteq> [])"
| "truthy (JDate _) = True"
| "truthy (JArr xs) = (xs \<noteq> [])"
| "truthy (JObj d) = (d \<noteq> [])"

text \<open>\<open>x or y\<close>\<close>

definition py_or :: "json \<Rightarrow> json \<Rightarrow> json" where
  "py_or x y = (if truthy x then x else y)"

fun is_dict :: "json \<Rightarrow> bool" where
  "is_dict (JObj _) = True"
| "is_dict _ = False"

text \<open>\<open>x if isinstance(x, dict) else {}\<close>\<close>

fun dict_or_empty :: "json \<Rightarrow> jdict" where
  "dict_or_empty (JObj d) = d"
| "dict_or_empty _ = []"

section \<open>Library functions the code relies on\<close>

text \<open>
  Functions of libraries whose code is not part of the repository, as one record the
  definitions that need them take as an argument: the digest of \<open>hashlib\<close>, the host
  check of \<open>urllib.parse\<close> (bracketed addresses, NFKC), pydantic's lax conversions to
  \<open>str\<close>, \<open>int\<close>, \<open>bool\<close> and \<open>datetime\<close> (\<open>None\<close> for what it rejects), the
  instant the database driver stores for a \<open>datetime\<close>, and \<open>str\<close> of floats,
  date-times and containers.
\<close>

record pylib =
  sha256_hex :: "pystr \<Rightarrow> pystr"
  netloc_ok :: "pystr \<Rightarrow> bool"
  as_str :: "json \<Rightarrow> pystr option"
  as_int :: "json \<Rightarrow> int option"
  as_bool :: "json \<Rightarrow> bool option"
  as_dt :: "json \<Rightarrow> pydt option"
  db_instant :: "pydt \<Rightarrow> int"
  str_other :: "json \<Rightarrow> pystr"

fun py_str :: "pylib \<Rightarrow> json \<Rightarrow> pystr" where
  "py_str L JNull = lit ''None''"
| "py_str L (JBool b) = (if b then lit ''True'' else lit ''False'')"
| "py_str L (JInt n) = show_int n"
| "py_str L (JStr s) = s"
| "py_str L j = str_other L j"

section \<open>Numbers\<close>

text \<open>\<open>int(x)\<close> of a float truncates towards zero; \<open>round(x)\<close> rounds halves to even.\<close>

definition py_trunc :: "rat \<Rightarrow> int" where
  "py_trunc q = (if q < 0 then - \<lfloor>- q\<rfloor> else \<lfloor>q\<rfloor>)"

definition py_round :: "rat \<Rightarrow> int" where
  "py_round q =
     (let f = \<lfloor>q\<rfloor>; d = q - of_int f
      in if d < 1 / 2 then f else if d > 1 / 2 then f + 1 else if even f then f else f + 1)"

lemma py_round_bounds:
  assumes "of_int a \<le> q" and "q \<le> of_int b"
  shows "a \<le> py_round q" and "py_round q \<le> b"
proof -
  have fl: "a \<le> \<lfloor>q\<rfloor>" using assms(1) by (simp add: le_floor_iff)
  have fu: "\<lfloor>q\<rfloor> \<le> b" using assms(2) by (metis floor_mono floor_of_int)
  have "a \<le> py_round q" using fl by (auto simp: py_round_def Let_def)
  moreover have "py_round q \<le> b"
  proof (cases "\<lfloor>q\<rfloor> = b")
    case True
    then have "q = of_int b" using assms(2) by (metis floor_eq_iff order_antisym)
    then show ?thesis by (simp add: py_round_def)
  next
    case False
    with fu show ?thesis by (auto simp: py_round_def Let_def)
  qed
  ultimately show "a \<le> py_round q" and "py_round q \<le> b" by simp_all
qed

lemma py_round_of_int [simp]: "py_round (of_int n) = n"
  by (simp add: py_round_def)

text \<open>\<open>int(s)\<close> of a string: optional sign, digits, single underscores between digits.\<close>

fun parse_digits :: "int \<Rightarrow> bool \<Rightarrow> pystr \<Rightarrow> int option" where
  "parse_digits acc ok [] = (if ok then Some acc else None)"
| "parse_digits acc ok (c # cs) =
     (if is_digit c then parse_digits (10 * acc + int (c - 48)) True cs
      else if c = 95 \<and> ok then parse_digits acc False cs
      else None)"

definition parse_int :: "pystr \<Rightarrow> int option" where
  "parse_int s =
     (case py_strip s of
        [] \<Rightarrow> None
      | c # cs \<Rightarrow>
          if c = 45 then map_option uminus (parse_digits 0 False cs)
          else if c = 43 then parse_digits 0 False cs
          else parse_digits 0 False (c # cs))"

fun py_int :: "json \<Rightarrow> exn + int" where
  "py_int (JInt n) = Inr n"
| "py_int (JBool b) = Inr (if b then 1 else 0)"
| "py_int (JFloat q) = Inr (py_trunc q)"
| "py_int (JStr s) =
     (case parse_int s of Some n \<Rightarrow> Inr n | None \<Rightarrow> Inl (ValueError (lit ''invalid literal for int()'')))"
| "py_int _ = Inl (TypeError (lit ''int() argument must be a string or a real number''))"

section \<open>urlsplit and urlunsplit\<close>

record split_url =
  url_scheme :: pystr
  url_netloc :: pystr
  url_path :: pystr

definition is_c0_or_space :: "nat \<Rightarrow> bool" where
  "is_c0_or_space c \<longleftrightarrow> c \<le> 32"

definition is_unsafe_url_byte :: "nat \<Rightarrow> bool" where
  "is_unsafe_url_byte c \<longleftrightarrow> c \<in> {9, 10, 13}"

definition is_scheme_char :: "nat \<Rightarrow> bool" where
  "is_scheme_char c \<longleftrightarrow> is_ascii_alpha c \<or> is_digit c \<or> c \<in> {43, 45, 46}"

text \<open>The scheme is the text before the first colon, when that is a well-formed scheme.\<close>

definition split_scheme :: "pystr \<Rightarrow> pystr \<times> pystr" where
  "split_scheme url =
     (if 58 \<in> set url \<and> url \<noteq> [] \<and> hd url \<noteq> 58 \<and> is_ascii_alpha (hd url)
         \<and> list_all is_scheme_char (before_char 58 url)
      then (py_lower (before_char 58 url), after_char 58 url)
      else ([], url))"

definition is_netloc_end :: "nat \<Rightarrow> bool" where
  "is_netloc_end c \<longleftrightarrow> c \<in> {47, 63, 35}"

definition split_netloc :: "pystr \<Rightarrow> pystr \<times> pystr" where
  "split_netloc url =
     (if take 2 url = lit ''//''
      then (takeWhile (\<lambda>c. \<not> is_netloc_end c) (drop 2 url),
            dropWhile (\<lambda>c. \<not> is_netloc_end c) (drop 2 url))
      else ([], url))"

definition brackets_balanced :: "pystr \<Rightarrow> bool" where
  "brackets_balanced netloc \<longleftrightarrow> (91 \<in> set netloc \<longleftrightarrow> 93 \<in> set netloc)"

text \<open>The fragment is cut at the first \<open>#\<close>, then the query at the first \<open>?\<close>.\<close>

definition cut_fragment_query :: "pystr \<Rightarrow> pystr" where
  "cut_fragment_query url = before_char 63 (before_char 35 url)"

definition urlsplit :: "pylib \<Rightarrow> pystr \<Rightarrow> exn + split_url" where
  "urlsplit L url0 =
     (let url1 = filter (\<lambda>c. \<not> is_unsafe_url_byte c) (lstrip_by is_c0_or_space url0);
          (scheme, url2) = split_scheme url1;
          (netloc, url3) = split_netloc url2
      in if \<not> brackets_balanced netloc then Inl (ValueError (lit ''Invalid IPv6 URL''))
         else if \<not> netloc_ok L netloc then Inl (ValueError (lit ''invalid netloc''))
         else Inr \<lparr>url_scheme = scheme, url_netloc = netloc, url_path = cut_fragment_query url3\<rparr>)"

definition uses_netloc :: "pystr list" where
  "uses_netloc = map lit
     [''ftp'', ''http'', ''gopher'', ''nntp'', ''telnet'', ''imap'', ''wais'', ''file'', ''mms'',
      ''https'', ''shttp'', ''snews'', ''prospero'', ''rtsp'', ''rtsps'', ''rtspu'', ''rsync'',
      ''svn'', ''svn+ssh'', ''sftp'', ''nfs'', ''git'', ''git+ssh'', ''ws'', ''wss'',
      ''itms-services'']"

text \<open>\<open>urlunsplit((scheme, netloc, path, "", ""))\<close>\<close>

definition urlunsplit :: "pystr \<Rightarrow> pystr \<Rightarrow> pystr \<Rightarrow> pystr" where
  "urlunsplit scheme netloc path =
     (let url =
            (if netloc \<noteq> [] then
               lit ''//'' @ netloc @ (if path \<noteq> [] \<and> hd path \<noteq> 47 then 47 # path else path)
             else if take 2 path = lit ''//'' then lit ''//'' @ path
             else if scheme \<noteq> [] \<and> scheme \<in> set uses_netloc \<and> (path = [] \<or> hd path = 47)
               then lit ''//'' @ path
             else path)
      in if scheme \<noteq> [] then scheme @ lit '':'' @ url else url)"

section \<open>Facts about the primitives\<close>

lemma lower_cp_idem [simp]: "lower_cp (lower_cp c) = lower_cp c"
  by (auto simp: lower_cp_def)

lemma py_lower_idem [simp]: "py_lower (py_lower s) = py_lower s"
  by (simp add: py_lower_def)

lemma py_lower_append [simp]: "py_lower (a @ b) = py_lower a @ py_lower b"
  by (simp add: py_lower_def)

lemma py_lower_eq_Nil [simp]: "py_lower s = [] \<longleftrightarrow> s = []"
  by (simp add: py_lower_def)

lemma length_py_lower [simp]: "length (py_lower s) = length s"
  by (simp add: py_lower_def)

lemma is_space_lower [simp]: "is_space (lower_cp c) \<longleftrightarrow> is_space c"
  by (auto simp: is_space_def lower_cp_def)

lemma lower_cp_small: "c < 65 \<Longrightarrow> lower_cp c = c"
  by (simp add: lower_cp_def)

lemma rstrip_by_append_not: "s = [] \<or> \<not> P (last s) \<Longrightarrow> rstrip_by P s = s"
  by (cases s rule: rev_cases) (auto simp: rstrip_by_def)

lemma rstrip_by_last: "rstrip_by P s = [] \<or> \<not> P (last (rstrip_by P s))"
proof (cases "dropWhile P (rev s)")
  case Nil
  then show ?thesis by (simp add: rstrip_by_def)
next
  case (Cons c cs)
  then have "\<not> P c" by (metis dropWhile_eq_Cons_conv)
  with Cons show ?thesis by (simp add: rstrip_by_def)
qed

lemma rstrip_by_idem [simp]: "rstrip_by P (rstrip_by P s) = rstrip_by P s"
  by (rule rstrip_by_append_not) (rule rstrip_by_last)

lemma rstrip_by_id: "(\<And>c. c \<in> set s \<Longrightarrow> \<not> P c) \<Longrightarrow> rstrip_by P s = s"
  by (rule rstrip_by_append_not) auto

lemma rstrip_by_prefix: "\<exists>t. s = rstrip_by P s @ t \<and> list_all P t"
proof -
  have "rev s = takeWhile P (rev s) @ dropWhile P (rev s)" by simp
  then have "s = rstrip_by P s @ rev (takeWhile P (rev s))"
    by (metis rev_append rev_rev_ident rstrip_by_def)
  moreover have "list_all P (rev (takeWhile P (rev s)))"
    by (auto simp: list_all_iff dest: set_takeWhileD)
  ultimately show ?thesis by blast
qed

lemma set_rstrip_by: "set (rstrip_by P s) \<subseteq> set s"
  using rstrip_by_prefix [of s P] by (metis Un_upper1 set_append)

lemma py_strip_id: "(\<And>c. c \<in> set s \<Longrightarrow> \<not> is_space c) \<Longrightarrow> py_strip s = s"
proof -
  assume no: "\<And>c. c \<in> set s \<Longrightarrow> \<not> is_space c"
  then have "dropWhile is_space s = s" by (cases s) auto
  with no show ?thesis by (simp add: py_strip_def lstrip_by_def rstrip_by_id)
qed

lemma is_prefix_iff: "is_prefix p s \<longleftrightarrow> (\<exists>r. s = p @ r)"
  by (induction p s rule: is_prefix.induct) auto

lemma py_contains_iff: "py_contains n s \<longleftrightarrow> (\<exists>a b. s = a @ n @ b)"
proof (induction n s rule: py_contains.induct)
  case (1 n)
  then show ?case by auto
next
  case (2 n c cs)
  show ?case
  proof
    assume "py_contains n (c # cs)"
    then consider "is_prefix n (c # cs)" | "py_contains n cs" by auto
    then show "\<exists>a b. c # cs = a @ n @ b"
    proof cases
      case 1
      then obtain r where "c # cs = n @ r" by (auto simp: is_prefix_iff)
      then have "c # cs = [] @ n @ r" by simp
      then show ?thesis by blast
    next
      case 2
      then obtain a b where "cs = a @ n @ b" using "2.IH" by auto
      then have "c # cs = (c # a) @ n @ b" by simp
      then show ?thesis by blast
    qed
  next
    assume "\<exists>a b. c # cs = a @ n @ b"
    then obtain a b where ab: "c # cs = a @ n @ b" by blast
    show "py_contains n (c # cs)"
    proof (cases a)
      case Nil
      with ab have "c # cs = n @ b" by simp
      then have "is_prefix n (c # cs)" unfolding is_prefix_iff by blast
      then show ?thesis by simp
    next
      case (Cons d a')
      with ab have "cs = a' @ n @ b" by simp
      then show ?thesis using "2.IH" by auto
    qed
  qed
qed

lemma set_before_char: "c \<notin> set (before_char c s)"
  by (auto simp: before_char_def dest: set_takeWhileD)

lemma before_char_id: "c \<notin> set s \<Longrightarrow> before_char c s = s"
  by (auto simp: before_char_def takeWhile_eq_all_conv)

lemma before_char_append: "c \<notin> set a \<Longrightarrow> before_char c (a @ c # b) = a"
  by (induction a) (auto simp: before_char_def)

lemma before_char_notin: "c \<notin> set a \<Longrightarrow> before_char c (a @ b) = a @ before_char c b"
  by (induction a) (auto simp: before_char_def)

lemma after_char_append: "c \<notin> set a \<Longrightarrow> after_char c (a @ c # b) = b"
  by (induction a) (auto simp: after_char_def)

end
