(* ===== verification/TextMatch.thy ===== *)
theory TextMatch
  imports PyStd
begin

text \<open>
  The text search of \<open>app/llm/matcher.py\<close>: a phrase is cut into tokens and searched as
  \<open>\b t1 [\s\-_/]* t2 .. tn \b\<close>. The definitions below run that search; \<open>occurs\<close> says what
  the pattern means, and the two are proved equal. No token holds a separator, so the greedy
  separator run of the pattern never has to give anything back.
\<close>

section \<open>Tokens\<close>

text \<open>The class \<open>[\s\-_/]\<close> of \<open>_WORD_SEPARATOR_RE\<close>.\<close>

definition is_sep :: "nat \<Rightarrow> bool" where
  "is_sep c \<longleftrightarrow> is_space c \<or> c = 45 \<or> c = 95 \<or> c = 47"

fun split_words :: "pystr \<Rightarrow> pystr \<Rightarrow> pystr list" where
  "split_words cur [] = (if cur = [] then [] else [rev cur])"
| "split_words cur (c # cs) =
     (if is_sep c then (if cur = [] then split_words [] cs else rev cur # split_words [] cs)
      else split_words (c # cur) cs)"

definition tokenize :: "pystr \<Rightarrow> pystr list" where
  "tokenize text = split_words [] (py_lower (py_strip text))"

definition token_ok :: "pystr \<Rightarrow> bool" where
  "token_ok t \<longleftrightarrow> t \<noteq> [] \<and> list_all (\<lambda>c. \<not> is_sep c) t"

lemma split_words_ok:
  "list_all (\<lambda>c. \<not> is_sep c) cur \<Longrightarrow> list_all token_ok (split_words cur s)"
proof (induction cur s rule: split_words.induct)
  case (1 cur)
  then show ?case by (auto simp: token_ok_def list_all_iff)
next
  case (2 cur c cs)
  have "token_ok (rev cur)" if "cur \<noteq> []"
    using 2(4) that by (simp add: token_ok_def list_all_iff)
  with 2 show ?case by (cases "is_sep c"; cases "cur = []") simp_all
qed

lemma tokenize_ok: "list_all token_ok (tokenize text)"
  by (simp add: tokenize_def split_words_ok)

section \<open>The search\<close>

text \<open>\<open>\b\<close> between what was read and what is left.\<close>

definition boundary :: "pystr \<Rightarrow> pystr \<Rightarrow> bool" where
  "boundary a b \<longleftrightarrow> (a \<noteq> [] \<and> is_word (last a)) \<noteq> (b \<noteq> [] \<and> is_word (hd b))"

fun strip_prefix :: "pystr \<Rightarrow> pystr \<Rightarrow> pystr option" where
  "strip_prefix [] s = Some s"
| "strip_prefix (p # ps) [] = None"
| "strip_prefix (p # ps) (c # cs) = (if p = c then strip_prefix ps cs else None)"

fun match_here :: "pystr list \<Rightarrow> pystr \<Rightarrow> pystr option" where
  "match_here [] s = Some s"
| "match_here [t] s = strip_prefix t s"
| "match_here (t # u # ts) s =
     (case strip_prefix t s of None \<Rightarrow> None | Some r \<Rightarrow> match_here (u # ts) (dropWhile is_sep r))"

definition hit_here :: "pystr \<Rightarrow> pystr list \<Rightarrow> pystr \<Rightarrow> bool" where
  "hit_here before toks s =
     (boundary before s
      \<and> (case match_here toks s of None \<Rightarrow> False | Some r \<Rightarrow> boundary (last toks) r))"

fun search_from :: "pystr \<Rightarrow> pystr list \<Rightarrow> pystr \<Rightarrow> bool" where
  "search_from before toks [] = hit_here before toks []"
| "search_from before toks (c # cs) = (hit_here before toks (c # cs) \<or> search_from [c] toks cs)"

text \<open>\<open>re.search(pattern, haystack)\<close> for the pattern of a non-empty list of tokens.\<close>

definition re_search_tokens :: "pystr list \<Rightarrow> pystr \<Rightarrow> bool" where
  "re_search_tokens toks haystack = search_from [] toks haystack"

section \<open>What the pattern means\<close>

inductive denotes :: "pystr list \<Rightarrow> pystr \<Rightarrow> bool" where
  one: "denotes [t] t"
| more: "list_all is_sep gap \<Longrightarrow> denotes (u # ts) w \<Longrightarrow> denotes (t # u # ts) (t @ gap @ w)"

inductive_cases denotes_oneE: "denotes [t] w"
inductive_cases denotes_moreE: "denotes (t # u # ts) w"
inductive_simps denotes_one_iff: "denotes [t] w"
inductive_simps denotes_more_iff: "denotes (t # u # ts) w"
inductive_simps denotes_Nil_iff: "denotes [] w"

definition occurs :: "pystr list \<Rightarrow> pystr \<Rightarrow> bool" where
  "occurs toks haystack \<longleftrightarrow>
     (\<exists>a w b. haystack = a @ w @ b \<and> denotes toks w \<and> boundary a (w @ b) \<and> boundary (a @ w) b)"

lemma strip_prefix_Some: "strip_prefix p s = Some r \<longleftrightarrow> s = p @ r"
  by (induction p s rule: strip_prefix.induct) auto

lemma dropWhile_gap:
  assumes "list_all is_sep gap" and "token_ok u"
  shows "dropWhile is_sep (gap @ u @ x) = u @ x"
proof -
  have "dropWhile is_sep (u @ x) = u @ x"
    using assms(2) by (cases u) (auto simp: token_ok_def)
  then show ?thesis using assms(1) by (induction gap) auto
qed

lemma denotes_starts:
  "denotes toks w \<Longrightarrow> list_all token_ok toks \<Longrightarrow> \<exists>x. w = hd toks @ x"
  by (induction rule: denotes.induct) auto

lemma denotes_last:
  "denotes toks w \<Longrightarrow> list_all token_ok toks \<Longrightarrow> w \<noteq> [] \<and> last w = last (last toks)"
  by (induction rule: denotes.induct) (auto simp: token_ok_def)

lemma match_here_iff:
  assumes "toks \<noteq> []" and "list_all token_ok toks"
  shows "match_here toks s = Some r \<longleftrightarrow> (\<exists>w. denotes toks w \<and> s = w @ r)"
  using assms
proof (induction toks s arbitrary: r rule: match_here.induct)
  case (2 t s)
  then show ?case by (auto simp: strip_prefix_Some denotes_one_iff)
next
  case (3 t u ts s)
  have IH: "match_here (u # ts) (dropWhile is_sep x) = Some r
      \<longleftrightarrow> (\<exists>w. denotes (u # ts) w \<and> dropWhile is_sep x = w @ r)"
    if "strip_prefix t s = Some x" for x
    using 3(1) [OF that] 3(3) by simp
  show ?case
  proof
    assume "match_here (t # u # ts) s = Some r"
    then obtain x where x: "strip_prefix t s = Some x"
      and m: "match_here (u # ts) (dropWhile is_sep x) = Some r"
      by (auto split: option.splits)
    then obtain w where w: "denotes (u # ts) w" "dropWhile is_sep x = w @ r" using IH [OF x] by auto
    have "x = takeWhile is_sep x @ w @ r" using w(2) by (metis takeWhile_dropWhile_id)
    moreover have "list_all is_sep (takeWhile is_sep x)"
      by (auto simp: list_all_iff dest: set_takeWhileD)
    ultimately show "\<exists>w. denotes (t # u # ts) w \<and> s = w @ r"
      using x w(1) by (metis append.assoc denotes.more strip_prefix_Some)
  next
    assume "\<exists>w. denotes (t # u # ts) w \<and> s = w @ r"
    then obtain gap w where gap: "list_all is_sep gap" and w: "denotes (u # ts) w"
      and s: "s = t @ gap @ w @ r"
      by (auto elim: denotes_moreE)
    have x: "strip_prefix t s = Some (gap @ w @ r)" using s by (simp add: strip_prefix_Some)
    obtain y where y: "w = u @ y" using denotes_starts [OF w] 3(3) by auto
    have "dropWhile is_sep (gap @ w @ r) = w @ r"
      using dropWhile_gap [OF gap, of u "y @ r"] 3(3) y by simp
    with IH [OF x] w x show "match_here (t # u # ts) s = Some r" by auto
  qed
qed simp

lemma boundary_last: "a \<noteq> [] \<Longrightarrow> boundary a b \<longleftrightarrow> boundary [last a] b"
  by (simp add: boundary_def)

lemma hit_here_iff:
  assumes "toks \<noteq> []" and "list_all token_ok toks"
  shows "hit_here before toks s \<longleftrightarrow>
    (\<exists>w b. s = w @ b \<and> denotes toks w \<and> boundary before s \<and> boundary w b)"
proof -
  have lst: "boundary w b = boundary (last toks) b" if "denotes toks w" for w b
    using denotes_last [OF that assms(2)] assms
    by (simp add: boundary_def) (metis last_in_set list_all_iff token_ok_def)
  show ?thesis
  proof
    assume "hit_here before toks s"
    then obtain r where r: "match_here toks s = Some r" "boundary (last toks) r" "boundary before s"
      by (auto simp: hit_here_def split: option.splits)
    then show "\<exists>w b. s = w @ b \<and> denotes toks w \<and> boundary before s \<and> boundary w b"
      using match_here_iff [OF assms] lst by blast
  next
    assume "\<exists>w b. s = w @ b \<and> denotes toks w \<and> boundary before s \<and> boundary w b"
    then obtain w b where wb: "s = w @ b" "denotes toks w" "boundary before s" "boundary w b"
      by blast
    then have "match_here toks s = Some b" using match_here_iff [OF assms] by blast
    then show "hit_here before toks s" using wb lst by (auto simp: hit_here_def)
  qed
qed

lemma search_from_iff:
  assumes "toks \<noteq> []" and "list_all token_ok toks"
  shows "search_from before toks s \<longleftrightarrow> (\<exists>a b. s = a @ b \<and> hit_here (before @ a) toks b)"
proof (induction s arbitrary: before)
  case Nil
  then show ?case by simp
next
  case (Cons c cs)
  have same: "hit_here (c # a) toks b \<longleftrightarrow> hit_here (before @ c # a) toks b" for a b
    by (simp add: hit_here_def boundary_def)
  show ?case
  proof
    assume "search_from before toks (c # cs)"
    then consider "hit_here before toks (c # cs)" | "search_from [c] toks cs" by auto
    then show "\<exists>a b. c # cs = a @ b \<and> hit_here (before @ a) toks b"
    proof cases
      case 1
      then have "c # cs = [] @ c # cs \<and> hit_here (before @ []) toks (c # cs)" by simp
      then show ?thesis by blast
    next
      case 2
      then obtain a b where "cs = a @ b" "hit_here (c # a) toks b" using Cons.IH by auto
      then have "c # cs = (c # a) @ b \<and> hit_here (before @ c # a) toks b" by (simp add: same [symmetric])
      then show ?thesis by blast
    qed
  next
    assume "\<exists>a b. c # cs = a @ b \<and> hit_here (before @ a) toks b"
    then obtain a b where ab: "c # cs = a @ b" "hit_here (before @ a) toks b" by blast
    show "search_from before toks (c # cs)"
    proof (cases a)
      case Nil
      with ab have "b = c # cs" "hit_here before toks b" by auto
      then show ?thesis by simp
    next
      case (Cons d a')
      with ab have "cs = a' @ b" "hit_here (c # a') toks b" unfolding same by auto
      then show ?thesis using Cons.IH by auto
    qed
  qed
qed

text \<open>The search the code runs finds exactly the texts its pattern means: somewhere in the
  haystack the tokens stand one after the other, with nothing but separators between them, and
  with a word boundary on both sides.\<close>

theorem re_search_tokens_correct:
  assumes "toks \<noteq> []" and "list_all token_ok toks"
  shows "re_search_tokens toks haystack \<longleftrightarrow> occurs toks haystack"
proof -
  have lst: "boundary (a @ w) b = boundary w b" if "denotes toks w" for a w b
    using denotes_last [OF that assms(2)] by (simp add: boundary_def)
  have "re_search_tokens toks haystack \<longleftrightarrow>
      (\<exists>a x. haystack = a @ x \<and> (\<exists>w b. x = w @ b \<and> denotes toks w \<and> boundary a x \<and> boundary w b))"
    by (simp add: re_search_tokens_def search_from_iff [OF assms] hit_here_iff [OF assms])
  then show ?thesis
    unfolding occurs_def using lst by metis
qed

theorem re_search_tokens_correct_witness:
  "occurs [lit ''on'', lit ''site''] (lit ''no on-site work'')"
proof -
  have "re_search_tokens [lit ''on'', lit ''site''] (lit ''no on-site work'')" by code_simp
  moreover have "list_all token_ok [lit ''on'', lit ''site'']" by code_simp
  ultimately show ?thesis
    using re_search_tokens_correct [of "[lit ''on'', lit ''site'']" "lit ''no on-site work''"] by simp
qed

text \<open>A phrase that ends in a character outside \<open>\w\<close> only occurs where a word character follows.\<close>

lemma occurs_nonword_end:
  assumes "occurs toks haystack" and "list_all token_ok toks" and "\<not> is_word (last (last toks))"
  shows "\<exists>a w c b. haystack = a @ w @ c # b \<and> denotes toks w \<and> is_word c"
proof -
  obtain a w b where o: "haystack = a @ w @ b" "denotes toks w" "boundary (a @ w) b"
    using assms(1) by (auto simp: occurs_def)
  have "w \<noteq> []" "last w = last (last toks)" using denotes_last [OF o(2) assms(2)] by simp_all
  with o(3) assms(3) have "b \<noteq> [] \<and> is_word (hd b)" by (simp add: boundary_def)
  then show ?thesis using o(1,2) by (metis list.collapse)
qed

end
