(* ===== verification/Schemas.thy ===== *)
theory Schemas
  imports PyStd
begin

text \<open>
  The pydantic models of \<open>app/schemas\<close>: the offer, the profile with its parts, the match
  score and the fetch-range request, with their field bounds, validators and defaults.
  Converting a raw value to a field's type is pydantic's (the \<open>as_\<close> fields of \<open>pylib\<close>);
  which fields there are, their defaults, bounds and cross-field checks are the code's.
  The text of a \<open>ValidationError\<close> names the check that failed first.
\<close>

section \<open>Field readers\<close>

text \<open>A required field; an optional field, absent or null; a field with a default.\<close>

definition req_field :: "(json \<Rightarrow> 'a option) \<Rightarrow> jdict \<Rightarrow> pystr \<Rightarrow> exn + 'a" where
  "req_field conv d k =
     (case map_of d k of
        None \<Rightarrow> Inl (ValidationError k)
      | Some j \<Rightarrow> (case conv j of None \<Rightarrow> Inl (ValidationError k) | Some x \<Rightarrow> Inr x))"

definition opt_field :: "(json \<Rightarrow> 'a option) \<Rightarrow> jdict \<Rightarrow> pystr \<Rightarrow> exn + 'a option" where
  "opt_field conv d k =
     (case map_of d k of
        None \<Rightarrow> Inr None
      | Some JNull \<Rightarrow> Inr None
      | Some j \<Rightarrow> (case conv j of None \<Rightarrow> Inl (ValidationError k) | Some x \<Rightarrow> Inr (Some x)))"

definition dflt_field :: "(json \<Rightarrow> 'a option) \<Rightarrow> 'a \<Rightarrow> jdict \<Rightarrow> pystr \<Rightarrow> exn + 'a" where
  "dflt_field conv x0 d k =
     (case map_of d k of
        None \<Rightarrow> Inr x0
      | Some j \<Rightarrow> (case conv j of None \<Rightarrow> Inl (ValidationError k) | Some x \<Rightarrow> Inr x))"

text \<open>\<open>str_strip_whitespace=True\<close> strips every string before its bounds are checked.\<close>

definition field_str :: "pylib \<Rightarrow> json \<Rightarrow> pystr option" where
  "field_str L j = map_option py_strip (as_str L j)"

fun list_conv :: "(json \<Rightarrow> 'a option) \<Rightarrow> json list \<Rightarrow> 'a list option" where
  "list_conv conv [] = Some []"
| "list_conv conv (j # js) =
     (case conv j of
        None \<Rightarrow> None
      | Some x \<Rightarrow> (case list_conv conv js of None \<Rightarrow> None | Some xs \<Rightarrow> Some (x # xs)))"

fun field_list :: "(json \<Rightarrow> 'a option) \<Rightarrow> json \<Rightarrow> 'a list option" where
  "field_list conv (JArr js) = list_conv conv js"
| "field_list conv _ = None"

definition check :: "bool \<Rightarrow> string \<Rightarrow> exn + unit" where
  "check b name = (if b then Inr () else Inl (ValidationError (lit name)))"

definition max_len :: "nat \<Rightarrow> pystr option \<Rightarrow> bool" where
  "max_len n s = (case s of None \<Rightarrow> True | Some x \<Rightarrow> length x \<le> n)"

definition opt_ge0 :: "int option \<Rightarrow> bool" where
  "opt_ge0 n = (case n of None \<Rightarrow> True | Some x \<Rightarrow> 0 \<le> x)"

section \<open>Offer (schemas/offer.py)\<close>

record offer =
  source_id :: int
  external_id :: "pystr option"
  canonical_url :: "pystr option"
  title :: pystr
  company :: pystr
  location :: "pystr option"
  remote :: bool
  seniority :: "pystr option"
  salary_min :: "int option"
  salary_max :: "int option"
  salary_currency :: pystr
  contract_type :: "pystr option"
  posted_at :: "pydt option"
  description :: "pystr option"
  industry_tags :: "pystr list"

text \<open>The bounds of the fields, and the model validator \<open>_check_salary_range\<close>.\<close>

definition check_salary_range :: "'a offer_scheme \<Rightarrow> bool" where
  "check_salary_range o1 =
     (case (salary_min o1, salary_max o1) of (Some a, Some b) \<Rightarrow> a \<le> b | _ \<Rightarrow> True)"

definition offer_ok :: "'a offer_scheme \<Rightarrow> bool" where
  "offer_ok o1 \<longleftrightarrow>
     0 < source_id o1 \<and> max_len 255 (external_id o1) \<and> max_len 2048 (canonical_url o1)
     \<and> 1 \<le> length (title o1) \<and> length (title o1) \<le> 500
     \<and> 1 \<le> length (company o1) \<and> length (company o1) \<le> 255
     \<and> max_len 50 (seniority o1) \<and> opt_ge0 (salary_min o1) \<and> opt_ge0 (salary_max o1)
     \<and> length (salary_currency o1) = 3 \<and> max_len 50 (contract_type o1)
     \<and> check_salary_range o1"

text \<open>\<open>_empty_canonical_url_to_none\<close>\<close>

definition empty_url_to_none :: "pystr option \<Rightarrow> pystr option" where
  "empty_url_to_none v = (case v of None \<Rightarrow> None | Some s \<Rightarrow> if s = [] then None else Some s)"

definition offer_fields :: "pylib \<Rightarrow> jdict \<Rightarrow> exn + offer" where
  "offer_fields L d =
     bindE (req_field (as_int L) d (lit ''source_id'')) (\<lambda>sid.
     bindE (opt_field (field_str L) d (lit ''external_id'')) (\<lambda>ext.
     bindE (opt_field (field_str L) d (lit ''canonical_url'')) (\<lambda>url.
     bindE (req_field (field_str L) d (lit ''title'')) (\<lambda>ti.
     bindE (req_field (field_str L) d (lit ''company'')) (\<lambda>co.
     bindE (opt_field (field_str L) d (lit ''location'')) (\<lambda>lo.
     bindE (dflt_field (as_bool L) False d (lit ''remote'')) (\<lambda>re.
     bindE (opt_field (field_str L) d (lit ''seniority'')) (\<lambda>se.
     bindE (opt_field (as_int L) d (lit ''salary_min'')) (\<lambda>smin.
     bindE (opt_field (as_int L) d (lit ''salary_max'')) (\<lambda>smax.
     bindE (dflt_field (field_str L) (lit ''PLN'') d (lit ''salary_currency'')) (\<lambda>cur.
     bindE (opt_field (field_str L) d (lit ''contract_type'')) (\<lambda>ct.
     bindE (opt_field (as_dt L) d (lit ''posted_at'')) (\<lambda>pa.
     bindE (opt_field (field_str L) d (lit ''description'')) (\<lambda>de.
     bindE (dflt_field (field_list (field_str L)) [] d (lit ''industry_tags'')) (\<lambda>tags.
     Inr \<lparr>source_id = sid, external_id = ext, canonical_url = url, title = ti, company = co,
          location = lo, remote = re, seniority = se, salary_min = smin, salary_max = smax,
          salary_currency = cur, contract_type = ct, posted_at = pa, description = de,
          industry_tags = tags\<rparr>)))))))))))))))"

definition offer_model_validate :: "pylib \<Rightarrow> jdict \<Rightarrow> exn + offer" where
  "offer_model_validate L d =
     bindE (offer_fields L d) (\<lambda>o1.
     bindE (check (offer_ok o1) ''offer'') (\<lambda>_.
     Inr (o1\<lparr>canonical_url := empty_url_to_none (canonical_url o1)\<rparr>)))"

lemma max_len_empty_url [simp]: "max_len n v \<Longrightarrow> max_len n (empty_url_to_none v)"
  by (cases v) (auto simp: max_len_def empty_url_to_none_def)

lemma empty_url_to_none_neq [simp]: "empty_url_to_none v \<noteq> Some []"
  by (cases v) (auto simp: empty_url_to_none_def)

lemma offer_ok_empty_url:
  "offer_ok o1 \<Longrightarrow> offer_ok (o1\<lparr>canonical_url := empty_url_to_none (canonical_url o1)\<rparr>)"
  by (simp add: offer_ok_def check_salary_range_def)

lemma offer_model_validate_ok:
  assumes "offer_model_validate L d = Inr o1"
  shows "offer_ok o1" and "canonical_url o1 \<noteq> Some []"
proof -
  obtain o2 where "offer_ok o2" and o1: "o1 = o2\<lparr>canonical_url := empty_url_to_none (canonical_url o2)\<rparr>"
    using assms by (auto simp: offer_model_validate_def bindE_Inr_iff check_def split: if_splits)
  then show "offer_ok o1" and "canonical_url o1 \<noteq> Some []"
    by (simp_all add: offer_ok_empty_url)
qed

lemma opt_field_exn: "opt_field conv d k = Inl e \<Longrightarrow> e = ValidationError k"
  by (auto simp: opt_field_def split: option.splits json.splits)

lemma req_field_exn: "req_field conv d k = Inl e \<Longrightarrow> e = ValidationError k"
  by (auto simp: req_field_def split: option.splits)

lemma dflt_field_exn: "dflt_field conv x d k = Inl e \<Longrightarrow> e = ValidationError k"
  by (auto simp: dflt_field_def split: option.splits)

fun is_validation_error :: "exn \<Rightarrow> bool" where
  "is_validation_error (ValidationError _) = True"
| "is_validation_error _ = False"

lemma bindE_exn_intro:
  "(\<And>e. m = Inl e \<Longrightarrow> P e) \<Longrightarrow> (\<And>x e. f x = Inl e \<Longrightarrow> P e) \<Longrightarrow> bindE m f = Inl e \<Longrightarrow> P e"
  by (cases m) auto

lemma offer_fields_exn: "offer_fields L d = Inl e \<Longrightarrow> is_validation_error e"
  unfolding offer_fields_def
  by (erule bindE_exn_intro [rotated 2], (drule req_field_exn opt_field_exn dflt_field_exn, simp))+
    simp

lemma offer_model_validate_exn: "offer_model_validate L d = Inl e \<Longrightarrow> is_validation_error e"
  unfolding offer_model_validate_def
  by (erule bindE_exn_intro [rotated 2]) (auto simp: check_def dest: offer_fields_exn split: if_splits)

section \<open>Profile (schemas/profile.py)\<close>

record skill =
  skill_name :: pystr
  skill_category :: "pystr option"
  skill_hard :: bool

record past_role =
  role_title :: pystr
  role_company :: pystr
  role_start_date :: "pystr option"
  role_end_date :: "pystr option"
  role_description :: "pystr option"

record project =
  project_name :: pystr
  project_description :: "pystr option"
  project_tech_stack :: "pystr list"
  project_client :: "pystr option"
  project_team_size :: "int option"

record education =
  edu_institution :: pystr
  edu_degree :: "pystr option"
  edu_field_of_study :: "pystr option"
  edu_start_date :: "pystr option"
  edu_end_date :: "pystr option"

record certification =
  cert_name :: pystr
  cert_issuer :: "pystr option"
  cert_year :: "int option"

record language =
  language_name :: pystr

record cv_extraction =
  skills :: "skill list"
  past_roles :: "past_role list"
  educations :: "education list"
  certifications :: "certification list"
  languages :: "language list"
  projects :: "project list"
  profile_industry_tags :: "pystr list"
  headline :: "pystr option"
  summary :: "pystr option"
  email :: "pystr option"
  phone :: "pystr option"
  profile_location :: "pystr option"
  links :: "pystr list"

text \<open>A profile has the fields of an extraction and the candidate's preferences.\<close>

record profile = cv_extraction +
  contract_type_preference :: "pystr option"
  pref_salary_min :: "int option"
  pref_salary_target :: "int option"
  location_preference :: "pystr option"
  remote_preference :: "bool option"
  deal_breakers :: "pystr list"

definition hard_skill_names :: "'a cv_extraction_scheme \<Rightarrow> pystr list" where
  "hard_skill_names p = map skill_name (filter skill_hard (skills p))"

definition check_salary_target_not_below_min :: "profile \<Rightarrow> bool" where
  "check_salary_target_not_below_min p =
     (case (pref_salary_min p, pref_salary_target p) of
        (Some a, Some b) \<Rightarrow> a \<le> b | _ \<Rightarrow> True)"

text \<open>\<open>min_length=1\<close> of the names, \<open>ge=0\<close> of the figures, and the model validator.\<close>

definition extraction_ok :: "'a cv_extraction_scheme \<Rightarrow> bool" where
  "extraction_ok p \<longleftrightarrow>
     list_all (\<lambda>s. skill_name s \<noteq> []) (skills p)
     \<and> list_all (\<lambda>r. role_title r \<noteq> [] \<and> role_company r \<noteq> []) (past_roles p)
     \<and> list_all (\<lambda>e. edu_institution e \<noteq> []) (educations p)
     \<and> list_all (\<lambda>c. cert_name c \<noteq> []) (certifications p)
     \<and> list_all (\<lambda>l. language_name l \<noteq> []) (languages p)
     \<and> list_all (\<lambda>j. project_name j \<noteq> [] \<and> opt_ge0 (project_team_size j)) (projects p)"

definition profile_ok :: "profile \<Rightarrow> bool" where
  "profile_ok p \<longleftrightarrow>
     extraction_ok p \<and> opt_ge0 (pref_salary_min p) \<and> opt_ge0 (pref_salary_target p)
     \<and> check_salary_target_not_below_min p"

definition empty_profile :: profile where
  "empty_profile = \<lparr>skills = [], past_roles = [], educations = [], certifications = [],
     languages = [], projects = [], profile_industry_tags = [], headline = None, summary = None,
     email = None, phone = None, profile_location = None, links = [],
     contract_type_preference = None, pref_salary_min = None, pref_salary_target = None,
     location_preference = None, remote_preference = None, deal_breakers = []\<rparr>"

section \<open>Match score (schemas/match\_score.py)\<close>

record match_score =
  score_offer_id :: int
  score_profile_id :: int
  score_engine :: pystr
  score_percent :: int
  score_dimensions :: "rat pydict"
  score_rationale :: pystr

definition match_score_ok :: "match_score \<Rightarrow> bool" where
  "match_score_ok m \<longleftrightarrow>
     0 < score_offer_id m \<and> 0 < score_profile_id m \<and> score_engine m = lit ''langchain''
     \<and> 0 \<le> score_percent m \<and> score_percent m \<le> 100"

definition match_score_model :: "match_score \<Rightarrow> exn + match_score" where
  "match_score_model m = bindE (check (match_score_ok m) ''match_score'') (\<lambda>_. Inr m)"

section \<open>Fetch range request (schemas/scheduler.py)\<close>

datatype range_mode = RangeMode | AllMode

record fetch_range_request =
  fr_mode :: range_mode
  fr_since :: "pydt option"
  fr_until :: "pydt option"

text \<open>
  \<open>_validate_range\<close>. Comparing a naive with an aware bound raises \<open>TypeError\<close>, which
  pydantic does not turn into a validation error.
\<close>

definition validate_range :: "fetch_range_request \<Rightarrow> exn + fetch_range_request" where
  "validate_range r =
     (case fr_mode r of
        AllMode \<Rightarrow> Inr (r\<lparr>fr_since := None, fr_until := None\<rparr>)
      | RangeMode \<Rightarrow>
          (case fr_since r of
             None \<Rightarrow> Inl (ValidationError (lit ''since is required when mode is 'range''))
           | Some s \<Rightarrow>
               (case fr_until r of
                  None \<Rightarrow> Inr r
                | Some v \<Rightarrow>
                    bindE (dt_less v s) (\<lambda>b.
                      if b then Inl (ValidationError (lit ''since must not be after until''))
                      else Inr r))))"

end
