(* ===== verification/Db.thy ===== *)
theory Db
  imports Schemas
begin

text \<open>
  The tables of \<open>app/db/models.py\<close> and the session the code works on them with. A table is
  the list of its rows in insertion order; one sequence hands out the ids of every table (the
  code relies on their freshness only). Columns the modelled code neither reads nor writes
  (\<open>updated_at\<close>, and the \<open>created_at\<close> of tables never ordered by it) are left out.
\<close>

section \<open>Rows\<close>

record source_row =
  src_id :: int
  src_name :: pystr
  src_connector :: "pystr option"
  src_config :: jdict
  src_last_fetched_at :: "int option"

text \<open>An offer row is an \<open>Offer\<close> with the columns the application adds.\<close>

record offer_row = offer +
  offer_id :: int
  dedup_hash :: pystr
  applied :: bool
  hide :: bool
  offer_notes :: "pystr option"
  link_opened_at :: "int option"
  raw_payload :: jdict
  created_at :: int

record profile_row =
  profile_id :: int
  profile_name :: pystr
  profile_status :: pystr
  is_active :: bool
  profile_data :: "profile option"

record cv_version_row =
  cv_id :: int
  cv_offer_id :: int
  cv_profile_id :: int

record match_score_row =
  ms_id :: int
  ms_offer_id :: int
  ms_profile_id :: int
  ms_engine :: pystr
  ms_score_percent :: int
  ms_dimensions :: "rat pydict"
  ms_rationale :: "pystr option"
  ms_created_at :: int

record application_row =
  app_id :: int
  app_offer_id :: int
  app_profile_id :: int
  app_cv_version_id :: "int option"
  app_status :: pystr

record run_row =
  run_id :: int
  run_source_id :: int
  run_trigger_type :: pystr
  run_status :: pystr
  fetched_count :: "int option"
  created_count :: "int option"
  run_warning :: bool
  run_error_message :: "pystr option"
  run_started_at :: int
  run_finished_at :: "int option"

text \<open>\<open>DeadLetterMixin\<close> and its two tables.\<close>

record dead_letter =
  dl_id :: int
  dedup_key :: pystr
  failure_type :: pystr
  error_message :: pystr
  dl_raw_payload :: "jdict option"
  dl_status :: pystr
  occurred_at :: int
  resolved_at :: "int option"

record ingestion_failure = dead_letter +
  if_source_id :: int
  scheduler_run_id :: "int option"
  page :: "int option"
  url :: "pystr option"
  blocked_status :: "int option"
  retry_count :: int

record scoring_failure = dead_letter +
  sf_offer_id :: int
  sf_profile_id :: int

record db =
  next_id :: int
  sources :: "source_row list"
  offers :: "offer_row list"
  profiles :: "profile_row list"
  cv_versions :: "cv_version_row list"
  match_scores :: "match_score_row list"
  applications :: "application_row list"
  scheduler_runs :: "run_row list"
  ingestion_failures :: "ingestion_failure list"
  scoring_failures :: "scoring_failure list"

section \<open>Sessions\<close>

text \<open>
  A session is one transaction after another: what is committed, what the open transaction
  sees, and whether a statement of it has failed. PostgreSQL refuses every further statement
  of a failed transaction, and a \<open>COMMIT\<close> of one rolls it back.
\<close>

record session =
  committed :: db
  working :: db
  tx_aborted :: bool

type_synonym 'a op = "(session, 'a) prog"

definition open_session :: "db \<Rightarrow> session" where
  "open_session d = \<lparr>committed = d, working = d, tx_aborted = False\<rparr>"

definition tx_error :: exn where
  "tx_error = OtherExn (lit ''current transaction is aborted'')"

definition query :: "(db \<Rightarrow> 'a) \<Rightarrow> 'a op" where
  "query f s = (if tx_aborted s then (Inl tx_error, s) else (Inr (f (working s)), s))"

definition exec :: "(db \<Rightarrow> db) \<Rightarrow> unit op" where
  "exec f s = (if tx_aborted s then (Inl tx_error, s)
               else (Inr (), s\<lparr>working := f (working s)\<rparr>))"

text \<open>A statement the server rejects.\<close>

definition exec_fail :: "exn \<Rightarrow> 'a op" where
  "exec_fail e s = (if tx_aborted s then (Inl tx_error, s) else (Inl e, s\<lparr>tx_aborted := True\<rparr>))"

text \<open>A statement the server rejects unless its result meets the constraint \<open>P\<close>.\<close>

definition exec_if :: "(db \<Rightarrow> bool) \<Rightarrow> (db \<Rightarrow> db) \<Rightarrow> exn \<Rightarrow> unit op" where
  "exec_if P f e s = (if tx_aborted s \<or> P (f (working s)) then exec f s else exec_fail e s)"

definition commit :: "unit op" where
  "commit s =
     (if tx_aborted s then (Inr (), s\<lparr>working := committed s, tx_aborted := False\<rparr>)
      else (Inr (), s\<lparr>committed := working s\<rparr>))"

definition rollback :: "unit op" where
  "rollback s = (Inr (), s\<lparr>working := committed s, tx_aborted := False\<rparr>)"

declare query_def [run_simps] exec_def [run_simps] exec_fail_def [run_simps]
  exec_if_def [run_simps]
  commit_def [run_simps] rollback_def [run_simps]

lemma open_session_simps [simp]:
  "working (open_session d) = d" "committed (open_session d) = d" "tx_aborted (open_session d) \<longleftrightarrow> False"
  by (simp_all add: open_session_def)

text \<open>\<open>session.get\<close> of an offer and of a source.\<close>

definition find_offer :: "int \<Rightarrow> db \<Rightarrow> offer_row option" where
  "find_offer i d = find (\<lambda>r. offer_id r = i) (offers d)"

definition find_source_by_id :: "int \<Rightarrow> db \<Rightarrow> source_row option" where
  "find_source_by_id i d = find (\<lambda>r. src_id r = i) (sources d)"

section \<open>Well-formedness\<close>

text \<open>
  What the schema's keys and foreign keys say of the tables, and that the sequence is ahead
  of every id.
\<close>

definition keys_ok :: "db \<Rightarrow> bool" where
  "keys_ok d \<longleftrightarrow>
     distinct (map src_id (sources d)) \<and> distinct (map src_name (sources d))
     \<and> distinct (map offer_id (offers d)) \<and> distinct (map dedup_hash (offers d))
     \<and> distinct (map profile_id (profiles d)) \<and> distinct (map profile_name (profiles d))
     \<and> distinct (map cv_id (cv_versions d)) \<and> distinct (map ms_id (match_scores d))
     \<and> distinct (map run_id (scheduler_runs d))
     \<and> distinct (map dl_id (ingestion_failures d)) \<and> distinct (map dedup_key (ingestion_failures d))
     \<and> distinct (map dl_id (scoring_failures d)) \<and> distinct (map dedup_key (scoring_failures d))"

text \<open>The ids of a table are positive and the sequence has not reached them.\<close>

definition ids_in :: "int \<Rightarrow> int list \<Rightarrow> bool" where
  "ids_in n is \<longleftrightarrow> list_all (\<lambda>i. 0 < i \<and> i < n) is"

lemma ids_in_next [table_simps]: "ids_in n is \<Longrightarrow> ids_in (n + 1) is"
  by (auto simp: ids_in_def list_all_iff)

lemma ids_in_append [table_simps]: "ids_in n (is @ js) \<longleftrightarrow> ids_in n is \<and> ids_in n js"
  by (simp add: ids_in_def)

lemma ids_in_single [table_simps]: "ids_in (n + 1) [n] \<longleftrightarrow> 0 < n"
  by (simp add: ids_in_def)

lemma ids_in_Nil [simp]: "ids_in n []"
  by (simp add: ids_in_def)

lemma ids_in_fresh: "ids_in n is \<Longrightarrow> n \<notin> set is"
  by (auto simp: ids_in_def list_all_iff)

lemma ids_in_subset: "ids_in n is \<Longrightarrow> set js \<subseteq> set is \<Longrightarrow> ids_in n js"
  by (auto simp: ids_in_def list_all_iff)

lemma ids_in_delete [table_simps]:
  "ids_in n (map g rows) \<Longrightarrow> ids_in n (map g (delete_where P rows))"
  by (rule ids_in_subset) (auto simp: delete_where_def)

definition ids_below :: "db \<Rightarrow> bool" where
  "ids_below d \<longleftrightarrow>
     0 < next_id d
     \<and> ids_in (next_id d) (map src_id (sources d)) \<and> ids_in (next_id d) (map offer_id (offers d))
     \<and> ids_in (next_id d) (map profile_id (profiles d)) \<and> ids_in (next_id d) (map cv_id (cv_versions d))
     \<and> ids_in (next_id d) (map ms_id (match_scores d)) \<and> ids_in (next_id d) (map run_id (scheduler_runs d))
     \<and> ids_in (next_id d) (map dl_id (ingestion_failures d))
     \<and> ids_in (next_id d) (map dl_id (scoring_failures d))"

text \<open>A nullable foreign key.\<close>

fun opt_in :: "'a option \<Rightarrow> 'a set \<Rightarrow> bool" where
  "opt_in None A = True"
| "opt_in (Some x) A = (x \<in> A)"

definition offer_refs :: "db \<Rightarrow> bool" where
  "offer_refs d \<longleftrightarrow> list_all (\<lambda>r. source_id r \<in> src_id ` set (sources d)) (offers d)"

definition match_score_refs :: "db \<Rightarrow> bool" where
  "match_score_refs d \<longleftrightarrow>
     list_all (\<lambda>r. ms_offer_id r \<in> offer_id ` set (offers d)
                  \<and> ms_profile_id r \<in> profile_id ` set (profiles d)) (match_scores d)"

definition cv_version_refs :: "db \<Rightarrow> bool" where
  "cv_version_refs d \<longleftrightarrow>
     list_all (\<lambda>r. cv_offer_id r \<in> offer_id ` set (offers d)
                  \<and> cv_profile_id r \<in> profile_id ` set (profiles d)) (cv_versions d)"

definition application_refs :: "db \<Rightarrow> bool" where
  "application_refs d \<longleftrightarrow>
     list_all (\<lambda>r. app_offer_id r \<in> offer_id ` set (offers d)
                  \<and> app_profile_id r \<in> profile_id ` set (profiles d)
                  \<and> opt_in (app_cv_version_id r) (cv_id ` set (cv_versions d))) (applications d)"

definition run_refs :: "db \<Rightarrow> bool" where
  "run_refs d \<longleftrightarrow> list_all (\<lambda>r. run_source_id r \<in> src_id ` set (sources d)) (scheduler_runs d)"

definition ingestion_failure_refs :: "db \<Rightarrow> bool" where
  "ingestion_failure_refs d \<longleftrightarrow>
     list_all (\<lambda>r. if_source_id r \<in> src_id ` set (sources d)
                  \<and> opt_in (scheduler_run_id r) (run_id ` set (scheduler_runs d))) (ingestion_failures d)"

definition scoring_failure_refs :: "db \<Rightarrow> bool" where
  "scoring_failure_refs d \<longleftrightarrow>
     list_all (\<lambda>r. sf_offer_id r \<in> offer_id ` set (offers d)
                  \<and> sf_profile_id r \<in> profile_id ` set (profiles d)) (scoring_failures d)"

definition refs_ok :: "db \<Rightarrow> bool" where
  "refs_ok d \<longleftrightarrow> offer_refs d \<and> match_score_refs d \<and> cv_version_refs d \<and> application_refs d
     \<and> run_refs d \<and> ingestion_failure_refs d \<and> scoring_failure_refs d"

lemmas refs_defs = offer_refs_def match_score_refs_def cv_version_refs_def application_refs_def
  run_refs_def ingestion_failure_refs_def scoring_failure_refs_def

lemmas refs_simps = refs_ok_def refs_defs

text \<open>The invariant of the tables every operation of the development keeps.\<close>

definition db_ok :: "db \<Rightarrow> bool" where
  "db_ok d \<longleftrightarrow> keys_ok d \<and> ids_below d \<and> refs_ok d"

definition empty_db :: db where
  "empty_db = \<lparr>next_id = 1, sources = [], offers = [], profiles = [], cv_versions = [],
     match_scores = [], applications = [], scheduler_runs = [], ingestion_failures = [],
     scoring_failures = []\<rparr>"

lemma empty_db_ok: "keys_ok empty_db \<and> ids_below empty_db \<and> refs_ok empty_db"
  by (simp add: empty_db_def keys_ok_def ids_below_def refs_simps)

section \<open>What a program keeps\<close>

text \<open>
  \<open>keeps I m\<close>: whatever \<open>m\<close> does (return or raise), it keeps \<open>I\<close> of both databases of the
  session. The rules below carry an invariant through composed operations.
\<close>

definition session_inv :: "(db \<Rightarrow> bool) \<Rightarrow> session \<Rightarrow> bool" where
  "session_inv I s \<longleftrightarrow> I (committed s) \<and> I (working s)"

definition keeps :: "(db \<Rightarrow> bool) \<Rightarrow> 'a op \<Rightarrow> bool" where
  "keeps I m \<longleftrightarrow> (\<forall>s. session_inv I s \<longrightarrow> session_inv I (snd (m s)))"

named_theorems keeps_intros \<open>rules that carry an invariant through an operation\<close>

lemma keeps_bindS [keeps_intros]:
  assumes "keeps I m" and "\<And>x. keeps I (f x)"
  shows "keeps I (bindS m f)"
  unfolding keeps_def
proof (intro allI impI)
  fix s assume "session_inv I s"
  then have m: "session_inv I (snd (m s))" using assms(1) by (simp add: keeps_def)
  show "session_inv I (snd (bindS m f s))"
  proof (cases "m s")
    case (Pair r t)
    then show ?thesis
      using m assms(2) by (cases r) (auto simp: bindS_def keeps_def)
  qed
qed

lemma keeps_retS [keeps_intros]: "keeps I (retS x)"
  by (simp add: keeps_def retS_def)

lemma keeps_raiseS [keeps_intros]: "keeps I (raiseS e)"
  by (simp add: keeps_def raiseS_def)

lemma keeps_liftE [keeps_intros]: "keeps I (liftE r)"
  by (simp add: keeps_def liftE_def)

lemma keeps_query [keeps_intros]: "keeps I (query f)"
  by (simp add: keeps_def query_def)

lemma keeps_exec [keeps_intros]: "(\<And>d. I d \<Longrightarrow> I (f d)) \<Longrightarrow> keeps I (exec f)"
  by (simp add: keeps_def exec_def session_inv_def)

lemma keeps_exec_fail [keeps_intros]: "keeps I (exec_fail e)"
  by (simp add: keeps_def exec_fail_def session_inv_def)

lemma keeps_exec_if [keeps_intros]:
  "(\<And>d. I d \<Longrightarrow> P (f d) \<Longrightarrow> I (f d)) \<Longrightarrow> keeps I (exec_if P f e)"
  by (simp add: keeps_def exec_if_def exec_fail_def exec_def session_inv_def)

lemma keeps_commit [keeps_intros]: "keeps I commit"
  by (simp add: keeps_def commit_def session_inv_def)

lemma keeps_rollback [keeps_intros]: "keeps I rollback"
  by (simp add: keeps_def rollback_def session_inv_def)

lemma keeps_if [keeps_intros]: "keeps I m \<Longrightarrow> keeps I n \<Longrightarrow> keeps I (if b then m else n)"
  by simp

lemma keeps_option [keeps_intros]:
  "keeps I m \<Longrightarrow> (\<And>x. keeps I (f x)) \<Longrightarrow> keeps I (case v of None \<Rightarrow> m | Some x \<Rightarrow> f x)"
  by (cases v) auto

lemma keeps_sum [keeps_intros]:
  "(\<And>e. keeps I (f e)) \<Longrightarrow> (\<And>x. keeps I (g x)) \<Longrightarrow> keeps I (case v of Inl e \<Rightarrow> f e | Inr x \<Rightarrow> g x)"
  by (cases v) auto

lemma keeps_forS [keeps_intros]: "(\<And>x. x \<in> set xs \<Longrightarrow> keeps I (f x)) \<Longrightarrow> keeps I (forS xs f)"
proof (induction xs)
  case Nil
  then show ?case by (simp add: keeps_retS)
next
  case (Cons x xs)
  then show ?case by (simp add: keeps_bindS)
qed

lemma keepsD: "keeps I m \<Longrightarrow> session_inv I s \<Longrightarrow> m s = (r, t) \<Longrightarrow> session_inv I t"
  by (metis keeps_def snd_conv)

end
