(* ===== verification/Dedup.thy ===== *)
theory Dedup
  imports Db
begin

text \<open>
  \<open>app/ingestion/dedup.py\<close>: the canonical form of a posting's URL and the hash that
  identifies a posting. \<open>urlsplit\<close> raises \<open>ValueError\<close> on a malformed host, and neither
  function catches it.
\<close>

definition rstrip_slash :: "pystr \<Rightarrow> pystr" where
  "rstrip_slash s = rstrip_by (\<lambda>c. c = 47) s"

definition normalize_canonical_url :: "pylib \<Rightarrow> pystr \<Rightarrow> exn + pystr" where
  "normalize_canonical_url L u =
     bindE (urlsplit L (py_strip u)) (\<lambda>parsed.
     Inr (urlunsplit (py_lower (url_scheme parsed)) (py_lower (url_netloc parsed))
            (rstrip_slash (url_path parsed))))"

definition is_comparable :: "pylib \<Rightarrow> pystr \<Rightarrow> exn + bool" where
  "is_comparable L u = bindE (urlsplit L u) (\<lambda>parsed. Inr (url_path parsed \<noteq> []))"

definition fallback_key :: "'a offer_scheme \<Rightarrow> pystr" where
  "fallback_key o1 =
     py_join (lit ''|'')
       [py_lower (py_strip (title o1)), py_lower (py_strip (company o1)),
        py_lower (py_strip (case location o1 of None \<Rightarrow> [] | Some l \<Rightarrow> l))]"

definition compute_dedup_hash :: "pylib \<Rightarrow> 'a offer_scheme \<Rightarrow> exn + pystr" where
  "compute_dedup_hash L o1 =
     (case canonical_url o1 of
        None \<Rightarrow> Inr (sha256_hex L (fallback_key o1))
      | Some u \<Rightarrow>
          if u = [] then Inr (sha256_hex L (fallback_key o1))
          else bindE (normalize_canonical_url L u) (\<lambda>normalized.
               bindE (is_comparable L normalized) (\<lambda>cmp.
               Inr (if cmp then sha256_hex L normalized else sha256_hex L (fallback_key o1)))))"

section \<open>URLs by their parts\<close>

text \<open>
  A hierarchical URL written out from its parts. \<open>url_parts_ok\<close> says that the parts are what
  they claim to be: no separator of an earlier part occurs in a later one, and there is no
  white space.
\<close>

definition url_text :: "pystr \<Rightarrow> pystr \<Rightarrow> pystr \<Rightarrow> pystr \<Rightarrow> pystr" where
  "url_text scheme host path suffix = scheme @ lit ''://'' @ host @ path @ suffix"

definition url_parts_ok :: "pystr \<Rightarrow> pystr \<Rightarrow> pystr \<Rightarrow> pystr \<Rightarrow> bool" where
  "url_parts_ok scheme host path suffix \<longleftrightarrow>
     scheme \<noteq> [] \<and> is_ascii_alpha (hd scheme) \<and> list_all is_scheme_char scheme
     \<and> host \<noteq> [] \<and> list_all (\<lambda>c. \<not> is_netloc_end c) host \<and> brackets_balanced host
     \<and> (path = [] \<or> hd path = 47) \<and> 63 \<notin> set path \<and> 35 \<notin> set path
     \<and> (suffix = [] \<or> hd suffix = 63 \<or> hd suffix = 35)
     \<and> list_all (\<lambda>c. \<not> is_space c \<and> 32 < c) (host @ path @ suffix)"

lemma scheme_char_neq: "is_scheme_char c \<Longrightarrow> c \<noteq> 58 \<and> \<not> is_space c \<and> 32 < c"
  by (auto simp: is_scheme_char_def is_ascii_alpha_def is_digit_def is_space_def)

lemma url_text_clean:
  assumes "url_parts_ok scheme host path suffix" and "c \<in> set (url_text scheme host path suffix)"
  shows "\<not> is_space c \<and> 32 < c"
proof -
  have "set (lit ''://'') = {58, 47}" by (auto simp: lit_def)
  then have "c \<in> set scheme \<or> c \<in> {58, 47} \<or> c \<in> set (host @ path @ suffix)"
    using assms(2) by (auto simp: url_text_def)
  then show ?thesis
    using assms(1) scheme_char_neq by (auto simp: url_parts_ok_def list_all_iff is_space_def)
qed

lemma split_scheme_parts:
  assumes "url_parts_ok scheme host path suffix"
  shows "split_scheme (url_text scheme host path suffix)
           = (py_lower scheme, lit ''//'' @ host @ path @ suffix)"
proof -
  let ?rest = "lit ''//'' @ host @ path @ suffix"
  have eq: "url_text scheme host path suffix = scheme @ 58 # ?rest"
    by (simp add: url_text_def lit_def)
  have no: "58 \<notin> set scheme"
    using assms scheme_char_neq by (auto simp: url_parts_ok_def list_all_iff)
  have hd: "hd (scheme @ 58 # ?rest) = hd scheme"
    using assms by (simp add: url_parts_ok_def)
  have "hd scheme \<noteq> 58" using assms by (auto simp: url_parts_ok_def is_ascii_alpha_def)
  then show ?thesis
    using assms by (simp add: eq split_scheme_def before_char_append [OF no]
        after_char_append [OF no] hd url_parts_ok_def)
qed

lemma split_netloc_parts:
  assumes "url_parts_ok scheme host path suffix"
  shows "split_netloc (lit ''//'' @ host @ path @ suffix) = (host, path @ suffix)"
proof -
  have host: "\<And>c. c \<in> set host \<Longrightarrow> \<not> is_netloc_end c"
    using assms by (auto simp: url_parts_ok_def list_all_iff)
  have rest: "path @ suffix = [] \<or> is_netloc_end (hd (path @ suffix))"
    using assms by (cases path; cases suffix) (auto simp: url_parts_ok_def is_netloc_end_def)
  have "takeWhile (\<lambda>c. \<not> is_netloc_end c) (path @ suffix) = []"
    and "dropWhile (\<lambda>c. \<not> is_netloc_end c) (path @ suffix) = path @ suffix"
    using rest by (cases "path @ suffix"; simp)+
  then show ?thesis
    using host by (simp add: split_netloc_def lit_def takeWhile_append2 dropWhile_append2)
qed

lemma cut_parts:
  assumes "url_parts_ok scheme host path suffix"
  shows "cut_fragment_query (path @ suffix) = path"
proof -
  have p: "63 \<notin> set path" "35 \<notin> set path" using assms by (auto simp: url_parts_ok_def)
  show ?thesis
  proof (cases suffix)
    case Nil
    with p show ?thesis by (simp add: cut_fragment_query_def before_char_id)
  next
    case (Cons c cs)
    then consider "c = 35" | "c = 63" using assms by (auto simp: url_parts_ok_def)
    then show ?thesis
    proof cases
      case 1
      with Cons p show ?thesis
        by (simp add: cut_fragment_query_def before_char_append before_char_id)
    next
      case 2
      have "before_char 35 (path @ 63 # cs) = path @ 63 # before_char 35 cs"
        using p by (simp add: before_char_notin) (simp add: before_char_def)
      with 2 Cons p show ?thesis
        by (simp add: cut_fragment_query_def before_char_append)
    qed
  qed
qed

lemma urlsplit_parts:
  assumes ok: "url_parts_ok scheme host path suffix" and net: "netloc_ok L host"
  shows "urlsplit L (url_text scheme host path suffix)
           = Inr \<lparr>url_scheme = py_lower scheme, url_netloc = host, url_path = path\<rparr>"
proof -
  let ?u = "url_text scheme host path suffix"
  have clean: "\<And>c. c \<in> set ?u \<Longrightarrow> \<not> is_space c \<and> 32 < c"
    by (rule url_text_clean [OF ok])
  have "?u \<noteq> []" by (simp add: url_text_def)
  then have "lstrip_by is_c0_or_space ?u = ?u"
    using clean [of "hd ?u"] by (cases ?u) (auto simp: lstrip_by_def is_c0_or_space_def)
  moreover have "filter (\<lambda>c. \<not> is_unsafe_url_byte c) ?u = ?u"
    using clean by (intro filter_True) (force simp: is_unsafe_url_byte_def)
  ultimately show ?thesis
    using ok net by (simp add: urlsplit_def split_scheme_parts [OF ok]
        split_netloc_parts [OF ok] cut_parts [OF ok] url_parts_ok_def)
qed

lemma py_strip_url_text:
  "url_parts_ok scheme host path suffix \<Longrightarrow>
   py_strip (url_text scheme host path suffix) = url_text scheme host path suffix"
  by (rule py_strip_id) (use url_text_clean in blast)

text \<open>Normalising a well-formed URL gives its scheme and host in lower case and its path
  without trailing slashes, and drops the query and the fragment.\<close>

theorem normalize_canonical_url_parts:
  assumes ok: "url_parts_ok scheme host path suffix" and net: "netloc_ok L host"
  shows "normalize_canonical_url L (url_text scheme host path suffix)
           = Inr (url_text (py_lower scheme) (py_lower host) (rstrip_slash path) [])"
proof -
  have path: "rstrip_slash path = [] \<or> hd (rstrip_slash path) = 47"
  proof -
    obtain t where "path = rstrip_slash path @ t"
      using rstrip_by_prefix unfolding rstrip_slash_def by blast
    then show ?thesis using ok by (cases "rstrip_slash path") (auto simp: url_parts_ok_def)
  qed
  have "normalize_canonical_url L (url_text scheme host path suffix)
          = Inr (urlunsplit (py_lower scheme) (py_lower host) (rstrip_slash path))"
    by (simp add: normalize_canonical_url_def py_strip_url_text [OF ok] urlsplit_parts [OF ok net])
  moreover have "scheme \<noteq> []" "host \<noteq> []" using ok by (auto simp: url_parts_ok_def)
  ultimately show ?thesis
    using path by (auto simp: urlunsplit_def url_text_def lit_def)
qed

definition sample_lib :: pylib where
  "sample_lib = \<lparr>sha256_hex = (\<lambda>s. s), netloc_ok = (\<lambda>_. True),
     as_str = (\<lambda>j. case j of JStr s \<Rightarrow> Some s | _ \<Rightarrow> None),
     as_int = (\<lambda>j. case j of JInt n \<Rightarrow> Some n | _ \<Rightarrow> None),
     as_bool = (\<lambda>j. case j of JBool b \<Rightarrow> Some b | _ \<Rightarrow> None),
     as_dt = (\<lambda>j. case j of JDate t \<Rightarrow> Some t | JInt n \<Rightarrow> Some (Aware n) | _ \<Rightarrow> None),
     db_instant = (\<lambda>t. case t of Aware n \<Rightarrow> n | Naive n \<Rightarrow> n), str_other = (\<lambda>_. [])\<rparr>"

theorem normalize_canonical_url_parts_witness:
  "normalize_canonical_url sample_lib (lit ''HTTPS://JustJoin.it/Job/a-1/?ref=x#top'')
     = Inr (lit ''https://justjoin.it/Job/a-1'')"
proof -
  have ok: "url_parts_ok (lit ''HTTPS'') (lit ''JustJoin.it'') (lit ''/Job/a-1/'') (lit ''?ref=x#top'')"
    by (simp add: url_parts_ok_def lit_def is_ascii_alpha_def is_scheme_char_def is_digit_def
        is_netloc_end_def is_space_def brackets_balanced_def)
  show ?thesis
    using normalize_canonical_url_parts [OF ok, of sample_lib]
    by (simp add: sample_lib_def url_text_def lit_def py_lower_def lower_cp_def rstrip_slash_def
        rstrip_by_def)
qed

end
