(* ===== verification/DeadLetter.thy ===== *)
theory DeadLetter
  imports Db
begin

text \<open>
  \<open>app/dlq/types.py\<close> and \<open>app/dlq/service.py\<close>: the failure vocabulary, the upsert that
  keeps one row per failing resource, and the filtered listing. The keyword arguments
  \<open>**fields\<close> of \<open>record_failure\<close> are a list of column assignments, so that a column that
  is not passed keeps its value when the row exists.
\<close>

section \<open>Failure types\<close>

datatype failure_kind =
    VALIDATION_FAILED
  | PAGE_FETCH_FAILED
  | RUN_FETCH_FAILED
  | SCORING_FAILED
  | DETAIL_FETCH_BLOCKED

fun failure_value :: "failure_kind \<Rightarrow> pystr" where
  "failure_value VALIDATION_FAILED = lit ''validation_failed''"
| "failure_value PAGE_FETCH_FAILED = lit ''page_fetch_failed''"
| "failure_value RUN_FETCH_FAILED = lit ''run_fetch_failed''"
| "failure_value SCORING_FAILED = lit ''scoring_failed''"
| "failure_value DETAIL_FETCH_BLOCKED = lit ''detail_fetch_blocked''"

definition all_failure_kinds :: "failure_kind list" where
  "all_failure_kinds =
     [VALIDATION_FAILED, PAGE_FETCH_FAILED, RUN_FETCH_FAILED, SCORING_FAILED, DETAIL_FETCH_BLOCKED]"

text \<open>\<open>FailureType(value)\<close>; \<open>None\<close> stands for its \<open>ValueError\<close>.\<close>

definition failure_kind_of :: "pystr \<Rightarrow> failure_kind option" where
  "failure_kind_of v = find (\<lambda>k. failure_value k = v) all_failure_kinds"

lemma failure_kind_of_value [simp]: "failure_kind_of (failure_value k) = Some k"
  by (cases k) (simp_all add: failure_kind_of_def all_failure_kinds_def)

section \<open>Recording a failure\<close>

definition status_open :: pystr where "status_open = lit ''open''"
definition status_resolved :: pystr where "status_resolved = lit ''resolved''"
definition status_abandoned :: pystr where "status_abandoned = lit ''abandoned''"

lemma statuses_distinct [simp]:
  "status_open \<noteq> status_resolved" "status_resolved \<noteq> status_open"
  "status_open \<noteq> status_abandoned" "status_abandoned \<noteq> status_open"
  "status_resolved \<noteq> status_abandoned" "status_abandoned \<noteq> status_resolved"
  by (simp_all add: status_open_def status_resolved_def status_abandoned_def)

datatype ingestion_field =
    F_source_id int
  | F_error_message pystr
  | F_raw_payload jdict
  | F_page int
  | F_url pystr
  | F_blocked_status "int option"
  | F_scheduler_run_id int

fun assign_ingestion_field :: "ingestion_field \<Rightarrow> ingestion_failure \<Rightarrow> ingestion_failure" where
  "assign_ingestion_field (F_source_id n) r = r\<lparr>if_source_id := n\<rparr>"
| "assign_ingestion_field (F_error_message m) r = r\<lparr>error_message := m\<rparr>"
| "assign_ingestion_field (F_raw_payload d) r = r\<lparr>dl_raw_payload := Some d\<rparr>"
| "assign_ingestion_field (F_page n) r = r\<lparr>page := Some n\<rparr>"
| "assign_ingestion_field (F_url u) r = r\<lparr>url := Some u\<rparr>"
| "assign_ingestion_field (F_blocked_status b) r = r\<lparr>blocked_status := b\<rparr>"
| "assign_ingestion_field (F_scheduler_run_id n) r = r\<lparr>scheduler_run_id := Some n\<rparr>"

datatype scoring_field = SF_offer_id int | SF_profile_id int | SF_error_message pystr

fun assign_scoring_field :: "scoring_field \<Rightarrow> scoring_failure \<Rightarrow> scoring_failure" where
  "assign_scoring_field (SF_offer_id n) r = r\<lparr>sf_offer_id := n\<rparr>"
| "assign_scoring_field (SF_profile_id n) r = r\<lparr>sf_profile_id := n\<rparr>"
| "assign_scoring_field (SF_error_message m) r = r\<lparr>error_message := m\<rparr>"

text \<open>
  \<open>INSERT .. ON CONFLICT (dedup_key) DO UPDATE\<close>: the fields are assigned to the existing
  row or to the blank new one, then the columns every recording sets.
\<close>

definition touch_open :: "failure_kind \<Rightarrow> int \<Rightarrow> 'a dead_letter_scheme \<Rightarrow> 'a dead_letter_scheme" where
  "touch_open k now r =
     r\<lparr>failure_type := failure_value k, dl_status := status_open, resolved_at := None,
       occurred_at := now\<rparr>"

definition upsert_failure ::
    "('a dead_letter_scheme \<Rightarrow> 'a dead_letter_scheme) \<Rightarrow> 'a dead_letter_scheme
     \<Rightarrow> 'a dead_letter_scheme list \<Rightarrow> 'a dead_letter_scheme list" where
  "upsert_failure f blank rows =
     (if dedup_key blank \<in> dedup_key ` set rows
      then update_where (\<lambda>r. dedup_key r = dedup_key blank) f rows
      else rows @ [f blank])"

definition blank_dead_letter :: "int \<Rightarrow> pystr \<Rightarrow> dead_letter" where
  "blank_dead_letter n key =
     \<lparr>dl_id = n, dedup_key = key, failure_type = [], error_message = [], dl_raw_payload = None,
      dl_status = status_open, occurred_at = 0, resolved_at = None\<rparr>"

definition blank_ingestion_failure :: "int \<Rightarrow> pystr \<Rightarrow> ingestion_failure" where
  "blank_ingestion_failure n key =
     dead_letter.extend (blank_dead_letter n key)
       \<lparr>if_source_id = 0, scheduler_run_id = None, page = None, url = None,
        blocked_status = None, retry_count = 0\<rparr>"

definition blank_scoring_failure :: "int \<Rightarrow> pystr \<Rightarrow> scoring_failure" where
  "blank_scoring_failure n key =
     dead_letter.extend (blank_dead_letter n key) \<lparr>sf_offer_id = 0, sf_profile_id = 0\<rparr>"

definition upsert_ingestion ::
    "pystr \<Rightarrow> failure_kind \<Rightarrow> ingestion_field list \<Rightarrow> int \<Rightarrow> db \<Rightarrow> db" where
  "upsert_ingestion key k fs now d =
     d\<lparr>ingestion_failures :=
         upsert_failure (touch_open k now \<circ> fold assign_ingestion_field fs)
           (blank_ingestion_failure (next_id d) key) (ingestion_failures d),
       next_id := next_id d + 1\<rparr>"

definition upsert_scoring ::
    "pystr \<Rightarrow> failure_kind \<Rightarrow> scoring_field list \<Rightarrow> int \<Rightarrow> db \<Rightarrow> db" where
  "upsert_scoring key k fs now d =
     d\<lparr>scoring_failures :=
         upsert_failure (touch_open k now \<circ> fold assign_scoring_field fs)
           (blank_scoring_failure (next_id d) key) (scoring_failures d),
       next_id := next_id d + 1\<rparr>"

text \<open>
  What the server checks of the statement: \<open>dedup_key\<close> is a \<open>String(255)\<close> column and the
  ids it writes are foreign keys. A payload that \<open>json.dumps\<close> cannot write fails before the
  statement is sent. \<open>record_failure\<close> catches whatever is raised, but not what a rejected
  statement does to the transaction.
\<close>

definition dedup_key_width :: nat where "dedup_key_width = 255"

fun ingestion_field_sendable :: "ingestion_field \<Rightarrow> bool" where
  "ingestion_field_sendable (F_raw_payload d) = json_serializable (JObj d)"
| "ingestion_field_sendable _ = True"

definition swallow :: "unit op \<Rightarrow> unit op" where
  "swallow m s = (Inr (), snd (m s))"

definition upsert_stmt :: "pystr \<Rightarrow> bool \<Rightarrow> (db \<Rightarrow> bool) \<Rightarrow> (db \<Rightarrow> db) \<Rightarrow> unit op" where
  "upsert_stmt key sendable fk f =
     (if \<not> sendable then raiseS (TypeError (lit ''Object of type datetime is not JSON serializable''))
      else exec_if (\<lambda>d. length key \<le> dedup_key_width \<and> fk d) f (OtherExn (lit ''DBAPIError'')))"

definition record_ingestion_failure ::
    "pystr \<Rightarrow> failure_kind \<Rightarrow> ingestion_field list \<Rightarrow> int \<Rightarrow> unit op" where
  "record_ingestion_failure key k fs now =
     swallow (upsert_stmt key (list_all ingestion_field_sendable fs) ingestion_failure_refs
                (upsert_ingestion key k fs now))"

definition record_scoring_failure ::
    "pystr \<Rightarrow> failure_kind \<Rightarrow> scoring_field list \<Rightarrow> int \<Rightarrow> unit op" where
  "record_scoring_failure key k fs now =
     swallow (upsert_stmt key True scoring_failure_refs (upsert_scoring key k fs now))"

section \<open>Keys\<close>

definition source_key :: "int \<Rightarrow> pystr" where
  "source_key sid = lit ''source:'' @ show_int sid"

definition build_detail_url_dedup_key :: "pylib \<Rightarrow> int \<Rightarrow> pystr \<Rightarrow> pystr" where
  "build_detail_url_dedup_key L sid u =
     lit ''source:'' @ show_int sid @ lit '':detail_url:'' @ sha256_hex L u"

definition scoring_key :: "int \<Rightarrow> int \<Rightarrow> pystr" where
  "scoring_key oid pid = lit ''offer:'' @ show_int oid @ lit '':profile:'' @ show_int pid"

section \<open>Listing failures\<close>

text \<open>
  \<open>list_failures\<close>: the rows the filters keep, newest first, one page of them, and how many
  there are. A filter is a test of one column. \<open>scan\<close> is the order the server reads the rows in,
  any permutation of the table: rows with equal \<open>occurred_at\<close> come out as they were read.
\<close>

definition list_failures ::
    "('a dead_letter_scheme list \<Rightarrow> 'a dead_letter_scheme list) \<Rightarrow> nat \<Rightarrow> nat
     \<Rightarrow> ('a dead_letter_scheme \<Rightarrow> bool) list \<Rightarrow> 'a dead_letter_scheme list
     \<Rightarrow> 'a dead_letter_scheme list \<times> nat" where
  "list_failures scan lmt off filters rows =
     (let keep = filter (\<lambda>r. list_all (\<lambda>f. f r) filters)
      in (take lmt (drop off (sort_key (\<lambda>r. - occurred_at r) (keep (scan rows)))), length (keep rows)))"

text \<open>
  The failures of one run share the instant its transaction started, and no further column orders
  them: of two such rows, two pages asked for one after another may show the first one twice and
  the other one never.
\<close>

lemma tied_failures_may_be_skipped:
  assumes "occurred_at r = occurred_at r'"
  shows "fst (list_failures (\<lambda>rows. rows) 1 0 [] [r, r']) = [r] \<and> fst (list_failures rev 1 1 [] [r, r']) = [r]"
  using assms by (simp add: list_failures_def)

section \<open>Facts\<close>

lemma upsert_keys:
  assumes "\<And>r. dedup_key (f r) = dedup_key r"
  shows "map dedup_key (upsert_failure f blank rows)
           = map dedup_key rows @ (if dedup_key blank \<in> dedup_key ` set rows then [] else [dedup_key blank])"
  using assms by (simp add: upsert_failure_def table_simps)

lemma distinct_upsert_keys:
  assumes "\<And>r. dedup_key (f r) = dedup_key r" and "distinct (map dedup_key rows)"
  shows "distinct (map dedup_key (upsert_failure f blank rows))"
  using assms by (simp add: upsert_keys)

lemma dl_id_upsert:
  assumes "\<And>r. dl_id (f r) = dl_id r"
  shows "map dl_id (upsert_failure f blank rows)
           = map dl_id rows @ (if dedup_key blank \<in> dedup_key ` set rows then [] else [dl_id blank])"
  using assms by (simp add: upsert_failure_def table_simps)

lemma touch_open_simps [simp]:
  "dedup_key (touch_open k now r) = dedup_key r" "dl_id (touch_open k now r) = dl_id r"
  "dl_status (touch_open k now r) = status_open" "resolved_at (touch_open k now r) = None"
  "failure_type (touch_open k now r) = failure_value k" "occurred_at (touch_open k now r) = now"
  "error_message (touch_open k now r) = error_message r"
  by (simp_all add: touch_open_def)

lemma assign_ingestion_fixed [simp]:
  "dedup_key (assign_ingestion_field f r) = dedup_key r"
  "dl_id (assign_ingestion_field f r) = dl_id r"
  "retry_count (assign_ingestion_field f r) = retry_count r"
  by (cases f; simp)+

lemma fold_ingestion_fixed [simp]:
  "dedup_key (fold assign_ingestion_field fs r) = dedup_key r"
  "dl_id (fold assign_ingestion_field fs r) = dl_id r"
  "retry_count (fold assign_ingestion_field fs r) = retry_count r"
  by (induction fs arbitrary: r) auto

lemma assign_scoring_fixed [simp]:
  "dedup_key (assign_scoring_field f r) = dedup_key r"
  "dl_id (assign_scoring_field f r) = dl_id r"
  by (cases f; simp)+

lemma fold_scoring_fixed [simp]:
  "dedup_key (fold assign_scoring_field fs r) = dedup_key r"
  "dl_id (fold assign_scoring_field fs r) = dl_id r"
  by (induction fs arbitrary: r) auto

lemma retry_count_touch [simp]: "retry_count (touch_open k now r) = retry_count r"
  by (simp add: touch_open_def)

lemma blank_simps [simp]:
  "dedup_key (blank_ingestion_failure n key) = key" "dl_id (blank_ingestion_failure n key) = n"
  "retry_count (blank_ingestion_failure n key) = 0"
  "dedup_key (blank_scoring_failure n key) = key" "dl_id (blank_scoring_failure n key) = n"
  by (simp_all add: blank_ingestion_failure_def blank_scoring_failure_def blank_dead_letter_def
      dead_letter.defs)

lemma swallow_ok [simp]: "fst (swallow m s) = Inr ()"
  by (simp add: swallow_def)

lemma keeps_swallow [keeps_intros]: "keeps I m \<Longrightarrow> keeps I (swallow m)"
  by (simp add: keeps_def swallow_def)

lemma keeps_upsert_stmt:
  "(\<And>d. I d \<Longrightarrow> fk (f d) \<Longrightarrow> I (f d)) \<Longrightarrow> keeps I (upsert_stmt key sendable fk f)"
  by (auto simp: upsert_stmt_def intro: keeps_raiseS keeps_exec_if)

lemma keys_ok_upsert_ingestion:
  assumes "keys_ok d" and "ids_below d"
  shows "keys_ok (upsert_ingestion key k fs now d)"
proof -
  let ?f = "touch_open k now \<circ> fold assign_ingestion_field fs"
  have fresh: "next_id d \<notin> dl_id ` set (ingestion_failures d)"
    using assms(2) ids_in_fresh by (fastforce simp: ids_below_def)
  then show ?thesis
    using assms(1)
    by (simp add: keys_ok_def upsert_ingestion_def distinct_upsert_keys dl_id_upsert)
qed

lemma keys_ok_upsert_scoring:
  assumes "keys_ok d" and "ids_below d"
  shows "keys_ok (upsert_scoring key k fs now d)"
proof -
  have fresh: "next_id d \<notin> dl_id ` set (scoring_failures d)"
    using assms(2) ids_in_fresh by (fastforce simp: ids_below_def)
  then show ?thesis
    using assms(1)
    by (simp add: keys_ok_def upsert_scoring_def distinct_upsert_keys dl_id_upsert)
qed

lemma ids_below_upsert_ingestion:
  "ids_below d \<Longrightarrow> ids_below (upsert_ingestion key k fs now d)"
  by (simp add: ids_below_def upsert_ingestion_def dl_id_upsert table_simps)

lemma ids_below_upsert_scoring:
  "ids_below d \<Longrightarrow> ids_below (upsert_scoring key k fs now d)"
  by (simp add: ids_below_def upsert_scoring_def dl_id_upsert table_simps)

lemma refs_ok_upsert_ingestion:
  "refs_ok d \<Longrightarrow> ingestion_failure_refs (upsert_ingestion key k fs now d) \<Longrightarrow>
   refs_ok (upsert_ingestion key k fs now d)"
  by (simp add: refs_simps upsert_ingestion_def)

lemma refs_ok_upsert_scoring:
  "refs_ok d \<Longrightarrow> scoring_failure_refs (upsert_scoring key k fs now d) \<Longrightarrow>
   refs_ok (upsert_scoring key k fs now d)"
  by (simp add: refs_simps upsert_scoring_def)

lemma keeps_record_ingestion_failure [keeps_intros]:
  "keeps db_ok (record_ingestion_failure key k fs now)"
  unfolding record_ingestion_failure_def
  by (intro keeps_swallow keeps_upsert_stmt)
    (simp add: db_ok_def keys_ok_upsert_ingestion ids_below_upsert_ingestion refs_ok_upsert_ingestion)

lemma keeps_record_scoring_failure [keeps_intros]:
  "keeps db_ok (record_scoring_failure key k fs now)"
  unfolding record_scoring_failure_def
  by (intro keeps_swallow keeps_upsert_stmt)
    (simp add: db_ok_def keys_ok_upsert_scoring ids_below_upsert_scoring refs_ok_upsert_scoring)

section \<open>One row per resource\<close>

text \<open>
  The contract of \<open>record_failure\<close> towards its callers: what one recording does to the keys
  of the table, to the row of its key and to the other rows. The client lemmas describe any
  sequence of recordings.
\<close>

locale failure_store =
  fixes rows :: "'d \<Rightarrow> 'r dead_letter_scheme list"
    and record_one :: "pystr \<Rightarrow> failure_kind \<Rightarrow> 'f list \<Rightarrow> int \<Rightarrow> 'd \<Rightarrow> 'd"
  assumes keys_after: "map dedup_key (rows (record_one key k fs now d))
      = map dedup_key (rows d) @ (if key \<in> dedup_key ` set (rows d) then [] else [key])"
    and row_after: "r \<in> set (rows (record_one key k fs now d)) \<Longrightarrow> dedup_key r = key \<Longrightarrow>
      dl_status r = status_open \<and> resolved_at r = None \<and> failure_type r = failure_value k
      \<and> occurred_at r = now"
    and others_after: "r \<in> set (rows (record_one key k fs now d)) \<Longrightarrow> dedup_key r \<noteq> key \<Longrightarrow>
      r \<in> set (rows d)"
begin

abbreviation record_ev :: "pystr \<times> failure_kind \<times> 'f list \<times> int \<Rightarrow> 'd \<Rightarrow> 'd" where
  "record_ev ev \<equiv> (case ev of (key, k, fs, now) \<Rightarrow> record_one key k fs now)"

lemma record_all_keys:
  "dedup_key ` set (rows (fold record_ev evs d)) = dedup_key ` set (rows d) \<union> fst ` set evs"
proof (induction evs rule: rev_induct)
  case (snoc ev evs)
  obtain key k fs now where ev: "ev = (key, k, fs, now)" by (metis prod_cases4)
  let ?e = "fold record_ev evs d"
  have "set (map dedup_key (rows (record_one key k fs now ?e))) = insert key (dedup_key ` set (rows ?e))"
    by (auto simp: keys_after)
  with snoc show ?case by (simp add: ev)
qed simp

lemma record_all_distinct:
  assumes "distinct (map dedup_key (rows d))"
  shows "distinct (map dedup_key (rows (fold record_ev evs d)))"
proof (induction evs rule: rev_induct)
  case (snoc ev evs)
  then show ?case by (cases ev) (simp add: keys_after)
qed (simp add: assms)

lemma record_all_last:
  assumes "r \<in> set (rows (fold record_ev evs d))" and "dedup_key r \<in> fst ` set evs"
  shows "dl_status r = status_open \<and> resolved_at r = None
     \<and> (case last (filter (\<lambda>ev. fst ev = dedup_key r) evs) of (_, k, _, now) \<Rightarrow>
          failure_type r = failure_value k \<and> occurred_at r = now)"
  using assms
proof (induction evs arbitrary: r rule: rev_induct)
  case (snoc ev evs)
  obtain key k fs now where ev: "ev = (key, k, fs, now)" by (metis prod_cases4)
  have r: "r \<in> set (rows (record_one key k fs now (fold record_ev evs d)))"
    using snoc.prems(1) by (simp add: ev)
  show ?case
  proof (cases "dedup_key r = key")
    case True
    with row_after [OF r] show ?thesis by (simp add: ev)
  next
    case False
    then have "r \<in> set (rows (fold record_ev evs d))" and "dedup_key r \<in> fst ` set evs"
      using others_after [OF r] snoc.prems(2) by (auto simp: ev)
    from snoc.IH [OF this] False show ?thesis by (simp add: ev)
  qed
qed simp

end

lemma upsert_row_cases:
  assumes "r \<in> set (upsert_failure f blank rows)" and "\<And>r. dedup_key (f r) = dedup_key r"
  shows "if dedup_key r = dedup_key blank then (\<exists>r'. r = f r') else r \<in> set rows"
proof (cases "dedup_key blank \<in> dedup_key ` set rows")
  case True
  then show ?thesis using assms by (auto simp: upsert_failure_def update_where_def split: if_splits)
next
  case False
  then have "r \<in> set rows \<or> r = f blank" using assms(1) by (auto simp: upsert_failure_def)
  moreover have "dedup_key r \<noteq> dedup_key blank" if "r \<in> set rows"
    using False that by (metis image_eqI)
  ultimately show ?thesis using assms(2) by auto
qed

interpretation ing: failure_store ingestion_failures upsert_ingestion
proof
  fix key k fs now d
  let ?f = "touch_open k now \<circ> fold assign_ingestion_field fs"
  show "map dedup_key (ingestion_failures (upsert_ingestion key k fs now d))
      = map dedup_key (ingestion_failures d)
        @ (if key \<in> dedup_key ` set (ingestion_failures d) then [] else [key])"
    by (simp add: upsert_ingestion_def upsert_keys)
  fix r assume "r \<in> set (ingestion_failures (upsert_ingestion key k fs now d))"
  then have r: "if dedup_key r = key then (\<exists>r'. r = ?f r') else r \<in> set (ingestion_failures d)"
    by (simp add: upsert_ingestion_def del: o_apply) (drule upsert_row_cases, auto)
  show "dl_status r = status_open \<and> resolved_at r = None \<and> failure_type r = failure_value k
      \<and> occurred_at r = now" if "dedup_key r = key"
    using r that by auto
  show "r \<in> set (ingestion_failures d)" if "dedup_key r \<noteq> key"
    using r that by auto
qed

interpretation sco: failure_store scoring_failures upsert_scoring
proof
  fix key k fs now d
  let ?f = "touch_open k now \<circ> fold assign_scoring_field fs"
  show "map dedup_key (scoring_failures (upsert_scoring key k fs now d))
      = map dedup_key (scoring_failures d)
        @ (if key \<in> dedup_key ` set (scoring_failures d) then [] else [key])"
    by (simp add: upsert_scoring_def upsert_keys)
  fix r assume "r \<in> set (scoring_failures (upsert_scoring key k fs now d))"
  then have r: "if dedup_key r = key then (\<exists>r'. r = ?f r') else r \<in> set (scoring_failures d)"
    by (simp add: upsert_scoring_def del: o_apply) (drule upsert_row_cases, auto)
  show "dl_status r = status_open \<and> resolved_at r = None \<and> failure_type r = failure_value k
      \<and> occurred_at r = now" if "dedup_key r = key"
    using r that by auto
  show "r \<in> set (scoring_failures d)" if "dedup_key r \<noteq> key"
    using r that by auto
qed

text \<open>C16: Recording any sequence of ingestion failures leaves one row per failing resource: the
  keys are those of the old rows and of the failures, without repetition, and the row of a
  resource that failed is open and carries the type and the time of its last failure.\<close>

theorem ingestion_failure_history:
  fixes evs :: "(pystr \<times> failure_kind \<times> ingestion_field list \<times> int) list"
  defines "after \<equiv> \<lambda>d. ingestion_failures
    (fold (\<lambda>(key, k, fs, now). upsert_ingestion key k fs now) evs d)"
  assumes "keys_ok d"
  shows "distinct (map dedup_key (after d))
    \<and> dedup_key ` set (after d) = dedup_key ` set (ingestion_failures d) \<union> fst ` set evs
    \<and> (\<forall>r \<in> set (after d). dedup_key r \<in> fst ` set evs \<longrightarrow>
         dl_status r = status_open \<and> resolved_at r = None
         \<and> (case last (filter (\<lambda>ev. fst ev = dedup_key r) evs) of (_, k, _, now) \<Rightarrow>
              failure_type r = failure_value k \<and> occurred_at r = now))"
proof -
  have "distinct (map dedup_key (ingestion_failures d))" using assms(2) by (simp add: keys_ok_def)
  then show ?thesis
    unfolding after_def
    using ing.record_all_distinct ing.record_all_keys ing.record_all_last [where d = d and evs = evs]
    by simp
qed

theorem ingestion_failure_history_witness:
  "let ev = (\<lambda>k t. (lit ''source:7'', k, [F_source_id 7, F_error_message (lit ''x'')], t));
       d = fold (\<lambda>(key, k, fs, now). upsert_ingestion key k fs now)
             [ev PAGE_FETCH_FAILED 1, ev RUN_FETCH_FAILED 2] empty_db
   in dedup_key ` set (ingestion_failures d) = {lit ''source:7''}"
  using conjunct1 [OF conjunct2 [OF ingestion_failure_history
    [of empty_db "[(lit ''source:7'', PAGE_FETCH_FAILED, [F_source_id 7, F_error_message (lit ''x'')], 1),
       (lit ''source:7'', RUN_FETCH_FAILED, [F_source_id 7, F_error_message (lit ''x'')], 2)]"]]]
    empty_db_ok
  by (simp add: Let_def empty_db_def)

end
