(* ===== verification/Persist.thy ===== *)
theory Persist
  imports Dedup DeadLetter
begin

text \<open>
  \<open>app/ingestion/persist.py\<close>: validating a mapped posting, and storing it once. A posting that
  fails validation becomes a dead letter; one with the company, title and salary of a stored
  offer, or with its hash, is not stored again.
\<close>

section \<open>Validation\<close>

definition validation_failure_dedup_key :: "pylib \<Rightarrow> jdict \<Rightarrow> exn + pystr" where
  "validation_failure_dedup_key L raw =
     (let url = jget raw (lit ''canonical_url'') in
      if truthy url then
        (case url of
           JStr u \<Rightarrow> bindE (normalize_canonical_url L u) (\<lambda>n. Inr (lit ''validation:'' @ n))
         | _ \<Rightarrow> Inl (AttributeError (lit ''strip'')))
      else Inr (lit ''validation:'' @ py_str L (jget raw (lit ''source_id'')) @ lit '':''
                @ py_str L (jget_default raw (lit ''title'') (JStr [])) @ lit '':''
                @ py_str L (jget_default raw (lit ''company'') (JStr []))))"

text \<open>
  The \<open>source_id\<close> of a mapped posting is the integer the connector was called with; any
  other value makes a statement the server rejects.
\<close>

definition normalize_and_validate :: "pylib \<Rightarrow> jdict \<Rightarrow> int \<Rightarrow> offer option op" where
  "normalize_and_validate L raw now =
     (case offer_model_validate L raw of
        Inr o1 \<Rightarrow> retS (Some o1)
      | Inl e \<Rightarrow>
          bindS (liftE (validation_failure_dedup_key L raw)) (\<lambda>key.
          bindS (case map_of raw (lit ''source_id'') of
                   None \<Rightarrow> raiseS (KeyError (lit ''source_id''))
                 | Some (JInt sid) \<Rightarrow>
                     record_ingestion_failure key VALIDATION_FAILED
                       [F_source_id sid, F_raw_payload raw, F_error_message (exn_text e)] now
                 | Some _ \<Rightarrow> swallow (exec_fail (OtherExn (lit ''DBAPIError'')))) (\<lambda>_.
          retS None)))"

section \<open>Storing\<close>

definition same_content :: "'a offer_scheme \<Rightarrow> 'b offer_scheme \<Rightarrow> bool" where
  "same_content a b \<longleftrightarrow> company a = company b \<and> title a = title b \<and> salary_min a = salary_min b
     \<and> salary_max a = salary_max b \<and> salary_currency a = salary_currency b"

text \<open>
  The statement takes one matching row and orders nothing; the first one is taken here. When the
  contents of the stored offers differ, as the runs keep them, there is at most one
  (\<open>content_duplicate_choice\<close> below), so the choice does not matter.
\<close>

definition find_content_duplicate :: "offer \<Rightarrow> db \<Rightarrow> offer_row option" where
  "find_content_duplicate o1 d = find (\<lambda>r. same_content r o1) (offers d)"

definition find_by_hash :: "pystr \<Rightarrow> db \<Rightarrow> offer_row option" where
  "find_by_hash h d = find (\<lambda>r. dedup_hash r = h) (offers d)"

text \<open>The columns an insert fills: those of the offer, and the server defaults.\<close>

definition new_offer_row :: "pylib \<Rightarrow> int \<Rightarrow> pystr \<Rightarrow> jdict \<Rightarrow> int \<Rightarrow> offer \<Rightarrow> offer_row" where
  "new_offer_row L n h raw now o1 =
     offer.extend (o1\<lparr>posted_at := map_option (\<lambda>t. Aware (db_instant L t)) (posted_at o1)\<rparr>)
       \<lparr>offer_id = n, dedup_hash = h, applied = False, hide = False, offer_notes = None,
        link_opened_at = None, raw_payload = raw, created_at = now\<rparr>"

definition insert_offer :: "pylib \<Rightarrow> pystr \<Rightarrow> jdict \<Rightarrow> int \<Rightarrow> offer \<Rightarrow> db \<Rightarrow> db" where
  "insert_offer L h raw now o1 d =
     d\<lparr>offers := (if h \<in> dedup_hash ` set (offers d) then offers d
                  else offers d @ [new_offer_row L (next_id d) h raw now o1]),
       next_id := next_id d + 1\<rparr>"

text \<open>
  The salary columns are 32-bit integers, which the model of the offer does not bound: the
  driver refuses a larger value before it sends the statement.
\<close>

fun fits_int4 :: "int option \<Rightarrow> bool" where
  "fits_int4 None = True"
| "fits_int4 (Some n) = (- (2 ^ 31) \<le> n \<and> n < 2 ^ 31)"

definition offer_sendable :: "jdict \<Rightarrow> offer \<Rightarrow> bool" where
  "offer_sendable raw o1 \<longleftrightarrow>
     json_serializable (JObj raw) \<and> fits_int4 (salary_min o1) \<and> fits_int4 (salary_max o1)"

definition persist_offer :: "pylib \<Rightarrow> offer \<Rightarrow> jdict \<Rightarrow> int \<Rightarrow> (offer_row \<times> bool) op" where
  "persist_offer L o1 raw now =
     bindS (query (find_content_duplicate o1)) (\<lambda>dup.
     case dup of
       Some r \<Rightarrow> retS (r, False)
     | None \<Rightarrow>
         bindS (liftE (compute_dedup_hash L o1)) (\<lambda>h.
         if \<not> offer_sendable raw o1 then raiseS (OtherExn (lit ''StatementError''))
         else
           bindS (query (\<lambda>d. h \<notin> dedup_hash ` set (offers d))) (\<lambda>created.
           bindS (exec_if offer_refs (insert_offer L h raw now o1) (OtherExn (lit ''IntegrityError''))) (\<lambda>_.
           bindS (query (find_by_hash h)) (\<lambda>row.
           case row of
             None \<Rightarrow> raiseS (AssertionError (lit ''row is not None''))
           | Some r \<Rightarrow> retS (r, created))))))"

definition ingest_offer :: "pylib \<Rightarrow> jdict \<Rightarrow> jdict \<Rightarrow> int \<Rightarrow> (offer_row \<times> bool) option op" where
  "ingest_offer L mapped raw now =
     bindS (normalize_and_validate L mapped now) (\<lambda>o1.
     case o1 of
       None \<Rightarrow> retS None
     | Some o2 \<Rightarrow> bindS (persist_offer L o2 raw now) (\<lambda>r. retS (Some r)))"

section \<open>What storing keeps\<close>

lemma same_content_new [simp]: "same_content (new_offer_row L n h raw now o1) o1"
  by (simp add: same_content_def new_offer_row_def offer.defs)

lemma new_offer_row_simps [simp]:
  "offer_id (new_offer_row L n h raw now o1) = n"
  "dedup_hash (new_offer_row L n h raw now o1) = h"
  "source_id (new_offer_row L n h raw now o1) = source_id o1"
  "applied (new_offer_row L n h raw now o1) = False"
  "raw_payload (new_offer_row L n h raw now o1) = raw"
  "posted_at (new_offer_row L n h raw now o1) = map_option (\<lambda>t. Aware (db_instant L t)) (posted_at o1)"
  "canonical_url (new_offer_row L n h raw now o1) = canonical_url o1"
  by (simp_all add: new_offer_row_def offer.defs)

lemma find_content_after_insert:
  assumes "find_content_duplicate o1 d = None" and "h \<notin> dedup_hash ` set (offers d)"
  shows "find_content_duplicate o1 (insert_offer L h raw now o1 d)
           = Some (new_offer_row L (next_id d) h raw now o1)"
  using assms by (simp add: find_content_duplicate_def insert_offer_def find_append)

lemma find_hash_after_insert:
  assumes "h \<notin> dedup_hash ` set (offers d)"
  shows "find_by_hash h (insert_offer L h raw now o1 d) = Some (new_offer_row L (next_id d) h raw now o1)"
proof -
  have "find (\<lambda>r. dedup_hash r = h) (offers d) = None"
    using assms by (auto simp: find_None_iff)
  with assms show ?thesis by (simp add: find_by_hash_def insert_offer_def find_append)
qed

lemma insert_offer_conflict:
  "h \<in> dedup_hash ` set (offers d) \<Longrightarrow> offers (insert_offer L h raw now o1 d) = offers d"
  by (simp add: insert_offer_def)

lemma offer_refs_conflict:
  "h \<in> dedup_hash ` set (offers d) \<Longrightarrow> offer_refs (insert_offer L h raw now o1 d) = offer_refs d"
  by (simp add: offer_refs_def insert_offer_def)

lemma db_ok_insert_offer:
  assumes "db_ok d" and "offer_refs (insert_offer L h raw now o1 d)"
  shows "db_ok (insert_offer L h raw now o1 d)"
proof -
  have "next_id d \<notin> offer_id ` set (offers d)"
    using assms(1) ids_in_fresh by (fastforce simp: db_ok_def ids_below_def)
  moreover have "refs_ok (insert_offer L h raw now o1 d)"
    using assms by (auto simp: db_ok_def refs_simps insert_offer_def list_all_iff)
  ultimately show ?thesis
    using assms(1) by (auto simp: db_ok_def keys_ok_def ids_below_def insert_offer_def table_simps)
qed

lemma keeps_persist_offer [keeps_intros]: "keeps db_ok (persist_offer L o1 raw now)"
  unfolding persist_offer_def
  by (intro keeps_intros) (rule db_ok_insert_offer)

lemma keeps_json_int:
  "(\<And>n. keeps I (f n)) \<Longrightarrow> keeps I m \<Longrightarrow>
   keeps I (case j of JInt n \<Rightarrow> f n | _ \<Rightarrow> m)"
  by (cases j) auto

lemma keeps_normalize_and_validate [keeps_intros]: "keeps db_ok (normalize_and_validate L raw now)"
  unfolding normalize_and_validate_def
  by (intro keeps_intros keeps_json_int)

lemma keeps_ingest_offer [keeps_intros]: "keeps db_ok (ingest_offer L mapped raw now)"
  unfolding ingest_offer_def by (intro keeps_intros)

text \<open>No two stored offers have the same company, title and salary.\<close>

definition content_unique :: "db \<Rightarrow> bool" where
  "content_unique d \<longleftrightarrow> sorted_wrt (\<lambda>a b. \<not> same_content a b) (offers d)"

lemma content_duplicate_choice:
  assumes "content_unique d" and "r \<in> set (offers d)" and "same_content r o1"
  shows "find_content_duplicate o1 d = Some r"
proof -
  have "sorted_wrt (\<lambda>a b. \<not> same_content a b) rows \<Longrightarrow> r \<in> set rows \<Longrightarrow>
      find (\<lambda>r. same_content r o1) rows = Some r" for rows
    using assms(3) by (induction rows) (auto simp: same_content_def)
  then show ?thesis using assms(1,2) by (simp add: content_unique_def find_content_duplicate_def)
qed

lemma content_unique_insert:
  assumes "content_unique d" and "find_content_duplicate o1 d = None"
  shows "content_unique (insert_offer L h raw now o1 d)"
proof -
  have "\<not> same_content r (new_offer_row L n h raw now o1)" if "r \<in> set (offers d)" for r n
    using assms(2) that
    by (auto simp: find_content_duplicate_def find_None_iff same_content_def new_offer_row_def offer.defs)
  then show ?thesis
    using assms(1) by (auto simp: content_unique_def insert_offer_def sorted_wrt_append)
qed

section \<open>The outcomes of persist\_offer\<close>

lemma persist_duplicate:
  "\<not> tx_aborted s \<Longrightarrow> find_content_duplicate o1 (working s) = Some r \<Longrightarrow>
   persist_offer L o1 raw now s = (Inr (r, False), s)"
  by (simp add: persist_offer_def run_simps)

lemma persist_new:
  assumes "\<not> tx_aborted s" and "find_content_duplicate o1 (working s) = None"
    and "compute_dedup_hash L o1 = Inr h" and "offer_sendable raw o1"
    and "offer_refs (insert_offer L h raw now o1 (working s))"
    and "h \<notin> dedup_hash ` set (offers (working s))"
  shows "persist_offer L o1 raw now s
    = (Inr (new_offer_row L (next_id (working s)) h raw now o1, True),
       s\<lparr>working := insert_offer L h raw now o1 (working s)\<rparr>)"
  using assms by (simp add: persist_offer_def run_simps find_hash_after_insert)

text \<open>The ways a call of \<open>persist_offer\<close> can return.\<close>

lemma persist_cases:
  assumes "persist_offer L o1 raw now s = (Inr (r, created), t)"
  obtains
    (duplicate) "find_content_duplicate o1 (working s) = Some r" "\<not> created" "t = s"
      "\<not> tx_aborted s"
  | (conflict) h where "find_content_duplicate o1 (working s) = None"
      "compute_dedup_hash L o1 = Inr h" "h \<in> dedup_hash ` set (offers (working s))" "\<not> created"
      "find_by_hash h (working s) = Some r" "\<not> tx_aborted s" "offer_sendable raw o1"
      "t = s\<lparr>working := insert_offer L h raw now o1 (working s)\<rparr>"
      "offer_refs (insert_offer L h raw now o1 (working s))"
  | (inserted) h where "find_content_duplicate o1 (working s) = None"
      "compute_dedup_hash L o1 = Inr h" "h \<notin> dedup_hash ` set (offers (working s))" "created"
      "r = new_offer_row L (next_id (working s)) h raw now o1" "\<not> tx_aborted s"
      "t = s\<lparr>working := insert_offer L h raw now o1 (working s)\<rparr>" "offer_sendable raw o1"
proof -
  have tx: "\<not> tx_aborted s"
    using assms by (auto simp: persist_offer_def run_simps)
  show thesis
  proof (cases "find_content_duplicate o1 (working s)")
    case (Some r')
    with tx assms have "r' = r" "\<not> created" "t = s" by (auto simp: persist_duplicate)
    with Some tx show thesis by (intro duplicate) auto
  next
    case None
    then obtain h where h: "compute_dedup_hash L o1 = Inr h"
      using assms tx by (cases "compute_dedup_hash L o1") (auto simp: persist_offer_def run_simps)
    have send: "offer_sendable raw o1"
      using assms tx None h by (auto simp: persist_offer_def run_simps split: if_splits)
    have refs: "offer_refs (insert_offer L h raw now o1 (working s))"
      using assms tx None h send by (auto simp: persist_offer_def run_simps split: if_splits)
    have "t = s\<lparr>working := insert_offer L h raw now o1 (working s)\<rparr>"
      and cr: "created = (h \<notin> dedup_hash ` set (offers (working s)))"
      and row: "find_by_hash h (insert_offer L h raw now o1 (working s)) = Some r"
      using assms tx None h send refs
      by (auto simp: persist_offer_def run_simps split: option.splits)
    then show thesis
    proof (cases created)
      case True
      then show thesis
        using None h cr row send tx \<open>t = _\<close> by (intro inserted) (auto simp: find_hash_after_insert)
    next
      case False
      then show thesis
        using None h cr row send tx refs \<open>t = _\<close>
        by (intro conflict) (auto simp: find_by_hash_def insert_offer_conflict)
    qed
  qed
qed

text \<open>C5: Storing an offer is idempotent: once \<open>persist_offer\<close> has returned a row for an offer,
  storing the same offer again returns the same row, creates nothing and leaves the stored
  offers as they are.\<close>

theorem persist_offer_idempotent:
  assumes "persist_offer L o1 raw now s = (Inr (r, created), t)"
  shows "\<exists>u. persist_offer L o1 raw now' t = (Inr (r, False), u)
           \<and> offers (working u) = offers (working t)"
  using assms
proof (cases rule: persist_cases)
  case duplicate
  then show ?thesis by (auto simp: persist_duplicate)
next
  case (conflict h)
  let ?d = "insert_offer L h raw now o1 (working s)"
  have off: "offers ?d = offers (working s)" using conflict(3) by (rule insert_offer_conflict)
  have off': "offers (insert_offer L h raw now' o1 ?d) = offers (working s)"
    using conflict(3) off by (simp add: insert_offer_conflict)
  have "offer_refs (insert_offer L h raw now' o1 ?d)"
    using conflict(3,9) off by (simp add: offer_refs_conflict)
  then have "persist_offer L o1 raw now' t
      = (Inr (r, False), t\<lparr>working := insert_offer L h raw now' o1 ?d\<rparr>)"
    using conflict off off'
    by (simp add: persist_offer_def run_simps find_content_duplicate_def find_by_hash_def)
  then show ?thesis using conflict off off' by simp
next
  case (inserted h)
  then have "persist_offer L o1 raw now' t = (Inr (r, False), t)"
    by (intro persist_duplicate) (simp_all add: find_content_after_insert)
  then show ?thesis by blast
qed

text \<open>What a call of \<open>persist_offer\<close> does to the session, whether it returns or raises.\<close>

lemma persist_effect:
  assumes "persist_offer L o1 raw now s = (res, t)"
  shows "t = s \<or> t = s\<lparr>tx_aborted := True\<rparr>
    \<or> (\<exists>h. find_content_duplicate o1 (working s) = None
           \<and> t = s\<lparr>working := insert_offer L h raw now o1 (working s)\<rparr>)"
proof (cases "find_content_duplicate o1 (working s)")
  case None
  then show ?thesis
    using assms
    by (cases "compute_dedup_hash L o1")
      (auto simp: persist_offer_def run_simps split: if_splits option.splits)
next
  case (Some r)
  then show ?thesis using assms by (auto simp: persist_offer_def run_simps split: if_splits)
qed

lemma keeps_content_persist [keeps_intros]: "keeps content_unique (persist_offer L o1 raw now)"
  unfolding keeps_def
proof (intro allI impI)
  fix s assume inv: "session_inv content_unique s"
  obtain res t where run: "persist_offer L o1 raw now s = (res, t)" by fastforce
  show "session_inv content_unique (snd (persist_offer L o1 raw now s))"
    using persist_effect [OF run] inv run
    by (auto simp: session_inv_def content_unique_insert)
qed

lemma keeps_content_record [keeps_intros]:
  "keeps content_unique (record_ingestion_failure key k fs now)"
  unfolding record_ingestion_failure_def
  by (intro keeps_swallow keeps_upsert_stmt) (simp add: content_unique_def upsert_ingestion_def)

lemma keeps_content_ingest [keeps_intros]: "keeps content_unique (ingest_offer L mapped raw now)"
  unfolding ingest_offer_def normalize_and_validate_def
  by (intro keeps_intros keeps_json_int)

lemma keeps_conj: "keeps I m \<Longrightarrow> keeps J m \<Longrightarrow> keeps (\<lambda>d. I d \<and> J d) m"
  by (simp add: keeps_def session_inv_def)

text \<open>The invariant of the offer table.\<close>

definition store_ok :: "db \<Rightarrow> bool" where
  "store_ok d \<longleftrightarrow> db_ok d \<and> content_unique d"

lemma keeps_store_ingest [keeps_intros]: "keeps store_ok (ingest_offer L mapped raw now)"
  using keeps_conj [OF keeps_ingest_offer keeps_content_ingest] by (simp add: store_ok_def [abs_def])

lemma keeps_store_record [keeps_intros]:
  "keeps store_ok (record_ingestion_failure key k fs now)"
  using keeps_conj [OF keeps_record_ingestion_failure keeps_content_record]
  by (simp add: store_ok_def [abs_def])

section \<open>Postings that fail validation\<close>

lemma record_ingestion_failure_ok:
  assumes "\<not> tx_aborted s" and "length key \<le> dedup_key_width" and "list_all ingestion_field_sendable fs"
    and "ingestion_failure_refs (upsert_ingestion key k fs now (working s))"
  shows "record_ingestion_failure key k fs now s
           = (Inr (), s\<lparr>working := upsert_ingestion key k fs now (working s)\<rparr>)"
  using assms by (simp add: record_ingestion_failure_def swallow_def upsert_stmt_def run_simps)

lemma record_ingestion_failure_too_long:
  assumes "\<not> tx_aborted s" and "dedup_key_width < length key" and "list_all ingestion_field_sendable fs"
  shows "record_ingestion_failure key k fs now s = (Inr (), s\<lparr>tx_aborted := True\<rparr>)"
  using assms by (simp add: record_ingestion_failure_def swallow_def upsert_stmt_def run_simps)

lemma record_ingestion_failure_unsendable:
  assumes "\<not> list_all ingestion_field_sendable fs"
  shows "record_ingestion_failure key k fs now s = (Inr (), s)"
  using assms by (simp add: record_ingestion_failure_def swallow_def upsert_stmt_def run_simps)

lemma ingestion_refs_upsert:
  assumes "ingestion_failure_refs d" and "sid \<in> src_id ` set (sources d)"
  shows "ingestion_failure_refs
    (upsert_ingestion key k [F_source_id sid, F_raw_payload p, F_error_message m] now d)"
  using assms
  by (auto simp: ingestion_failure_refs_def upsert_ingestion_def upsert_failure_def
      update_where_def list_all_iff touch_open_def blank_ingestion_failure_def
      blank_dead_letter_def dead_letter.defs)

text \<open>A posting that fails validation is not stored: \<open>ingest_offer\<close> returns \<open>None\<close>, leaves
  every table but the dead letters alone, and records the posting under its validation key as
  an open row that keeps the mapped posting for a retry.\<close>

theorem ingest_offer_invalid:
  assumes "offer_model_validate L mapped = Inl e"
    and "validation_failure_dedup_key L mapped = Inr key" and "length key \<le> 255"
    and "map_of mapped (lit ''source_id'') = Some (JInt sid)"
    and "sid \<in> src_id ` set (sources (working s))"
    and "json_serializable (JObj mapped)" and "\<not> tx_aborted s" and "db_ok (working s)"
  shows "\<exists>t. ingest_offer L mapped raw now s = (Inr None, t)
    \<and> committed t = committed s \<and> offers (working t) = offers (working s)
    \<and> scoring_failures (working t) = scoring_failures (working s)
    \<and> (\<exists>r \<in> set (ingestion_failures (working t)).
         dedup_key r = key \<and> dl_status r = status_open \<and> if_source_id r = sid
         \<and> failure_type r = failure_value VALIDATION_FAILED \<and> dl_raw_payload r = Some mapped)
    \<and> (\<forall>r \<in> set (ingestion_failures (working s)).
         dedup_key r \<noteq> key \<longrightarrow> r \<in> set (ingestion_failures (working t)))"
proof -
  let ?fs = "[F_source_id sid, F_raw_payload mapped, F_error_message (exn_text e)]"
  let ?d = "upsert_ingestion key VALIDATION_FAILED ?fs now (working s)"
  have "ingestion_failure_refs ?d"
    using assms(5,8) by (intro ingestion_refs_upsert) (auto simp: db_ok_def refs_ok_def)
  then have "record_ingestion_failure key VALIDATION_FAILED ?fs now s
      = (Inr (), s\<lparr>working := ?d\<rparr>)"
    using assms by (intro record_ingestion_failure_ok) (simp_all add: dedup_key_width_def)
  then have run: "ingest_offer L mapped raw now s = (Inr None, s\<lparr>working := ?d\<rparr>)"
    using assms by (simp add: ingest_offer_def normalize_and_validate_def run_simps)
  have "key \<in> dedup_key ` set (ingestion_failures ?d)"
    using ing.record_all_keys [of "[(key, VALIDATION_FAILED, ?fs, now)]"] by simp
  then obtain r where r: "r \<in> set (ingestion_failures ?d)" "dedup_key r = key" by auto
  then have "\<exists>r'. r = (touch_open VALIDATION_FAILED now \<circ> fold assign_ingestion_field ?fs) r'"
    using upsert_row_cases [of r _ "blank_ingestion_failure (next_id (working s)) key"]
    by (fastforce simp: upsert_ingestion_def)
  then have "dl_status r = status_open" "if_source_id r = sid"
    "failure_type r = failure_value VALIDATION_FAILED" "dl_raw_payload r = Some mapped"
    by (auto simp: touch_open_def)
  moreover have "r' \<in> set (ingestion_failures ?d)"
    if "r' \<in> set (ingestion_failures (working s))" "dedup_key r' \<noteq> key" for r'
    using that by (auto simp: upsert_ingestion_def upsert_failure_def update_where_def)
  ultimately show ?thesis
    using run r by (auto simp: upsert_ingestion_def)
qed

text \<open>A validation key longer than its column costs more than its row: the rejected
  statement is swallowed, the call returns as if it had recorded the failure, and the next
  valid posting of the run raises because the transaction is aborted.\<close>

theorem long_validation_key_aborts_run:
  assumes "offer_model_validate L mapped = Inl e"
    and "validation_failure_dedup_key L mapped = Inr key" and "255 < length key"
    and "map_of mapped (lit ''source_id'') = Some (JInt sid)"
    and "json_serializable (JObj mapped)" and "\<not> tx_aborted s"
    and "offer_model_validate L mapped' = Inr o'"
  shows "ingest_offer L mapped raw now s = (Inr None, s\<lparr>tx_aborted := True\<rparr>)
    \<and> ingest_offer L mapped' raw' now' (s\<lparr>tx_aborted := True\<rparr>)
        = (Inl tx_error, s\<lparr>tx_aborted := True\<rparr>)"
  using assms
  by (simp add: ingest_offer_def normalize_and_validate_def persist_offer_def run_simps
      record_ingestion_failure_too_long dedup_key_width_def)

text \<open>A posting whose mapped form holds a \<open>datetime\<close> object leaves no dead letter when it
  fails validation: writing the payload fails, the failure is swallowed and the tables are
  unchanged.\<close>

theorem unserializable_failure_is_lost:
  assumes "offer_model_validate L mapped = Inl e"
    and "validation_failure_dedup_key L mapped = Inr key"
    and "map_of mapped (lit ''source_id'') = Some (JInt sid)"
    and "map_of mapped (lit ''posted_at'') = Some (JDate d)"
  shows "ingest_offer L mapped raw now s = (Inr None, s)"
proof -
  have "\<not> json_serializable (JObj mapped)"
    using map_of_SomeD [OF assms(4)] by (force simp: list_all_iff)
  then show ?thesis
    using assms
    by (simp add: ingest_offer_def normalize_and_validate_def run_simps
        record_ingestion_failure_unsendable)
qed

section \<open>Concrete postings\<close>

definition sample_posting :: jdict where
  "sample_posting = [(lit ''source_id'', JInt 1), (lit ''title'', JStr (lit ''Dev'')),
     (lit ''company'', JStr (lit ''ACME'')), (lit ''canonical_url'', JStr (lit ''https://a.pl/j/1''))]"

definition untitled_posting :: jdict where
  "untitled_posting = [(lit ''source_id'', JInt 1), (lit ''company'', JStr (lit ''ACME''))]"

definition sample_db :: db where
  "sample_db = empty_db\<lparr>next_id := 2,
     sources := [\<lparr>src_id = 1, src_name = lit ''A'', src_connector = None, src_config = [],
                  src_last_fetched_at = None\<rparr>]\<rparr>"

lemma sample_db_ok [simp]: "db_ok sample_db"
  by (simp add: sample_db_def empty_db_def db_ok_def keys_ok_def ids_below_def ids_in_def refs_simps)

definition sample_offer :: offer where
  "sample_offer = \<lparr>source_id = 1, external_id = None, canonical_url = Some (lit ''https://a.pl/j/1''),
     title = lit ''Dev'', company = lit ''ACME'', location = None, remote = False, seniority = None,
     salary_min = None, salary_max = None, salary_currency = lit ''PLN'', contract_type = None,
     posted_at = None, description = None, industry_tags = []\<rparr>"

lemma sample_posting_offer: "offer_model_validate sample_lib sample_posting = Inr sample_offer"
  by code_simp

lemma untitled_invalid:
  "offer_model_validate sample_lib untitled_posting = Inl (ValidationError (lit ''title''))"
  by code_simp

definition sample_key :: pystr where
  "sample_key = lit ''https://a.pl/j/1''"

theorem persist_offer_idempotent_witness:
  "\<exists>u. persist_offer sample_lib sample_offer [] 9
          ((open_session sample_db)\<lparr>working := insert_offer sample_lib sample_key [] 5 sample_offer sample_db\<rparr>)
        = (Inr (new_offer_row sample_lib 2 sample_key [] 5 sample_offer, False), u)"
proof -
  have "persist_offer sample_lib sample_offer [] 5 (open_session sample_db)
      = (Inr (new_offer_row sample_lib 2 sample_key [] 5 sample_offer, True),
         (open_session sample_db)\<lparr>working := insert_offer sample_lib sample_key [] 5 sample_offer sample_db\<rparr>)"
    by code_simp
  from persist_offer_idempotent [OF this, of 9] show ?thesis by blast
qed

theorem ingest_offer_invalid_witness:
  "\<exists>t. ingest_offer sample_lib untitled_posting [] 5 (open_session sample_db) = (Inr None, t)
     \<and> offers (working t) = offers sample_db"
proof -
  have "validation_failure_dedup_key sample_lib untitled_posting = Inr (lit ''validation:1::ACME'')"
    by code_simp
  moreover have "length (lit ''validation:1::ACME'') \<le> 255" by simp
  moreover have "map_of untitled_posting (lit ''source_id'') = Some (JInt 1)" by code_simp
  moreover have "1 \<in> src_id ` set (sources (working (open_session sample_db)))" by code_simp
  moreover have "json_serializable (JObj untitled_posting)" by code_simp
  moreover have "\<not> tx_aborted (open_session sample_db)" by (simp add: open_session_def)
  moreover have "db_ok (working (open_session sample_db))" by (simp add: open_session_def)
  ultimately show ?thesis
    using ingest_offer_invalid [OF untitled_invalid, where s = "open_session sample_db"]
    by (fastforce simp: open_session_def)
qed

definition long_posting :: jdict where
  "long_posting = [(lit ''source_id'', JInt 1), (lit ''title'', JStr (replicate 260 65))]"

theorem long_validation_key_aborts_run_witness:
  "\<exists>e. fst (ingest_offer sample_lib sample_posting [] 6
              ((open_session sample_db)\<lparr>tx_aborted := True\<rparr>)) = Inl e \<and> e = tx_error"
proof -
  have "is_validation_error (case offer_model_validate sample_lib long_posting of Inl e \<Rightarrow> e | Inr _ \<Rightarrow> tx_error)"
    by code_simp
  then obtain e where bad: "offer_model_validate sample_lib long_posting = Inl e"
    by (auto simp: tx_error_def split: sum.splits)
  have key: "validation_failure_dedup_key sample_lib long_posting
      = Inr (lit ''validation:1:'' @ replicate 260 65 @ lit '':'')"
    by code_simp
  show ?thesis
    using conjunct2 [OF long_validation_key_aborts_run [OF bad key _ _ _ _ sample_posting_offer,
      where sid = 1 and s = "open_session sample_db" and raw = "[]" and now = 5 and raw' = "[]"
        and now' = 6]]
    by (simp add: open_session_def long_posting_def)
qed

definition dated_posting :: jdict where
  "dated_posting = [(lit ''source_id'', JInt 1), (lit ''posted_at'', JDate (Aware 7))]"

theorem unserializable_failure_is_lost_witness:
  "ingest_offer sample_lib dated_posting [] 5 (open_session sample_db) = (Inr None, open_session sample_db)"
proof -
  have bad: "offer_model_validate sample_lib dated_posting = Inl (ValidationError (lit ''title''))"
    by code_simp
  have key: "validation_failure_dedup_key sample_lib dated_posting = Inr (lit ''validation:1::'')"
    by code_simp
  show ?thesis
    by (rule unserializable_failure_is_lost [OF bad key, of 1 "Aware 7"])
      (simp_all add: dated_posting_def)
qed

end
