(* ===== verification/Runner.thy ===== *)
theory Runner
  imports Persist
begin

text \<open>
  \<open>app/ingestion/runner.py\<close>: the fetch range of a source and the pagination loop every
  connector runs. The connector's two callbacks are arguments of the loop. \<open>fetch_page\<close> gets
  the number of the call besides the cursor, since what the network answers is not a function
  of the cursor; the clock is a function of the page and the item.
\<close>

section \<open>The fetch range\<close>

text \<open>\<open>_parse_datetime\<close> never raises: what pydantic rejects is \<open>None\<close>.\<close>

definition parse_datetime :: "pylib \<Rightarrow> json \<Rightarrow> pydt option" where
  "parse_datetime L v = (case v of JNull \<Rightarrow> None | _ \<Rightarrow> as_dt L v)"

definition resolve_fetch_range :: "pylib \<Rightarrow> json \<Rightarrow> pydt option \<times> pydt option" where
  "resolve_fetch_range L fetch_range =
     (case fetch_range of
        JObj d \<Rightarrow>
          if jget d (lit ''mode'') \<noteq> JStr (lit ''range'') then (None, None)
          else (parse_datetime L (jget d (lit ''since'')), parse_datetime L (jget d (lit ''until'')))
      | _ \<Rightarrow> (None, None))"

text \<open>
  The tests of one offer against the range: whether its date is not before \<open>since\<close>, and
  whether the offer is to be skipped. A comparison of a naive with an aware date raises.
\<close>

definition not_before_since :: "pydt option \<Rightarrow> pydt \<Rightarrow> exn + bool" where
  "not_before_since since eff =
     (case since of None \<Rightarrow> Inr False | Some a \<Rightarrow> bindE (dt_less eff a) (\<lambda>b. Inr (\<not> b)))"

definition outside_range :: "pydt option \<Rightarrow> pydt option \<Rightarrow> pydt \<Rightarrow> exn + bool" where
  "outside_range since until eff =
     bindE (case since of None \<Rightarrow> Inr False | Some a \<Rightarrow> dt_less eff a) (\<lambda>early.
     if early then Inr True
     else (case until of None \<Rightarrow> Inr False | Some b \<Rightarrow> dt_less b eff))"

text \<open>A posting without a readable date is dated now.\<close>

definition effective_date :: "pylib \<Rightarrow> jdict \<Rightarrow> int \<Rightarrow> pydt" where
  "effective_date L mapped now =
     (case parse_datetime L (jget mapped (lit ''posted_at'')) of Some d \<Rightarrow> d | None \<Rightarrow> Aware now)"

section \<open>The pagination loop\<close>

record ingestion_result =
  res_ok :: bool
  res_fetched :: nat
  res_created :: nat
  res_error_message :: "pystr option"
  res_blocked_status :: "int option"

text \<open>The keyword arguments of the loop that do not change while it runs.\<close>

record runner_args =
  arg_source_name :: pystr
  arg_page_size :: nat
  arg_max_pages :: nat
  arg_threshold :: nat
  arg_force_refresh :: bool
  arg_since :: "pydt option"
  arg_until :: "pydt option"
  arg_sorted_by_recency :: bool

type_synonym 'c fetch_page = "nat \<Rightarrow> 'c option \<Rightarrow> nat \<Rightarrow> exn + (jdict list \<times> 'c option) option"

type_synonym map_offer = "int \<Rightarrow> jdict \<Rightarrow> exn + jdict"

text \<open>The variables of the loop: offers created, the streak of known ones, the page flag.\<close>

record counters =
  total_created :: nat
  consecutive_already_seen :: nat
  page_all_older :: bool

definition range_check :: "pylib \<Rightarrow> runner_args \<Rightarrow> int \<Rightarrow> jdict \<Rightarrow> exn + bool \<times> bool" where
  "range_check L A now mapped =
     (if arg_since A \<noteq> None \<or> arg_until A \<noteq> None then
        (let eff = effective_date L mapped now in
         bindE (not_before_since (arg_since A) eff) (\<lambda>newer.
         bindE (outside_range (arg_since A) (arg_until A) eff) (\<lambda>out.
         Inr (newer, out))))
      else Inr (False, False))"

fun count_result :: "(offer_row \<times> bool) option \<Rightarrow> counters \<Rightarrow> counters" where
  "count_result None c = c"
| "count_result (Some (r, True)) c =
     c\<lparr>total_created := total_created c + 1, consecutive_already_seen := 0\<rparr>"
| "count_result (Some (r, False)) c =
     c\<lparr>consecutive_already_seen := consecutive_already_seen c + 1\<rparr>"

definition run_item ::
    "pylib \<Rightarrow> map_offer \<Rightarrow> int \<Rightarrow> runner_args \<Rightarrow> int \<Rightarrow> jdict \<Rightarrow> counters \<Rightarrow> counters op" where
  "run_item L map_offer sid A now raw c =
     bindS (liftE (map_offer sid raw)) (\<lambda>mapped.
     bindS (liftE (range_check L A now mapped)) (\<lambda>(newer, out).
     let c1 = (if newer then c\<lparr>page_all_older := False\<rparr> else c) in
     if out then retS c1
     else bindS (ingest_offer L mapped raw now) (\<lambda>res. retS (count_result res c1))))"

fun run_items ::
    "pylib \<Rightarrow> map_offer \<Rightarrow> int \<Rightarrow> runner_args \<Rightarrow> (nat \<Rightarrow> int) \<Rightarrow> nat \<Rightarrow> jdict list
     \<Rightarrow> counters \<Rightarrow> counters op" where
  "run_items L map_offer sid A now i [] c = retS c"
| "run_items L map_offer sid A now i (raw # raws) c =
     bindS (run_item L map_offer sid A (now i) raw c) (\<lambda>c1.
     run_items L map_offer sid A now (i + 1) raws c1)"

text \<open>
  \<open>run_pages\<close> is the \<open>for page_index in range(max_pages)\<close> loop, by recursion on the number of
  pages left; \<open>p\<close> is \<open>page_index\<close>. Its first step turns a blocked fetch into a missing page;
  any other exception of \<open>fetch_page\<close> leaves the loop.
\<close>

definition fetch_or_blocked ::
    "exn + (jdict list \<times> 'c option) option \<Rightarrow> exn + (jdict list \<times> 'c option) option \<times> int option" where
  "fetch_or_blocked r =
     (case r of
        Inr pg \<Rightarrow> Inr (pg, None)
      | Inl (BlockedFetchError code) \<Rightarrow> Inr (None, Some code)
      | Inl e \<Rightarrow> Inl e)"

definition finished :: "nat \<Rightarrow> nat \<Rightarrow> ingestion_result" where
  "finished fetched created = \<lparr>res_ok = True, res_fetched = fetched, res_created = created,
     res_error_message = None, res_blocked_status = None\<rparr>"

fun run_pages ::
    "pylib \<Rightarrow> int \<Rightarrow> 'c fetch_page \<Rightarrow> map_offer \<Rightarrow> runner_args \<Rightarrow> (nat \<Rightarrow> nat \<Rightarrow> int)
     \<Rightarrow> nat \<Rightarrow> nat \<Rightarrow> 'c option \<Rightarrow> nat \<Rightarrow> nat \<Rightarrow> nat \<Rightarrow> ingestion_result op" where
  "run_pages L sid fetch_page map_offer A now 0 p cursor fetched created seen =
     retS (finished fetched created)"
| "run_pages L sid fetch_page map_offer A now (Suc n) p cursor fetched created seen =
     bindS (liftE (fetch_or_blocked (fetch_page p cursor (arg_page_size A)))) (\<lambda>(pg, blocked).
     case pg of
       None \<Rightarrow>
         if p = 0 then
           retS \<lparr>res_ok = False, res_fetched = 0, res_created = 0,
                 res_error_message = Some (lit ''failed to fetch '' @ arg_source_name A @ lit '' offers''),
                 res_blocked_status = blocked\<rparr>
         else
           bindS (record_ingestion_failure (source_key sid) PAGE_FETCH_FAILED
             [F_source_id sid, F_page (int p),
              F_error_message (lit ''failed to fetch '' @ arg_source_name A @ lit '' page '' @ show_int (int p)),
              F_blocked_status blocked] (now p 0)) (\<lambda>_.
           retS (finished fetched created))
     | Some (raws, next_cursor) \<Rightarrow>
         bindS (run_items L map_offer sid A (now p) 0 raws
           \<lparr>total_created = created, consecutive_already_seen = seen,
            page_all_older = (arg_sorted_by_recency A \<and> arg_since A \<noteq> None \<and> raws \<noteq> [])\<rparr>) (\<lambda>c.
         let fetched1 = fetched + length raws in
         if arg_since A \<noteq> None \<and> raws \<noteq> [] \<and> page_all_older c
         then retS (finished fetched1 (total_created c))
         else if next_cursor = None then retS (finished fetched1 (total_created c))
         else if \<not> arg_force_refresh A \<and> arg_threshold A \<le> consecutive_already_seen c
         then retS (finished fetched1 (total_created c))
         else run_pages L sid fetch_page map_offer A now n (p + 1) next_cursor fetched1
                (total_created c) (consecutive_already_seen c)))"

definition run_paginated_ingestion ::
    "pylib \<Rightarrow> int \<Rightarrow> 'c fetch_page \<Rightarrow> map_offer \<Rightarrow> 'c option \<Rightarrow> runner_args \<Rightarrow> (nat \<Rightarrow> nat \<Rightarrow> int)
     \<Rightarrow> ingestion_result op" where
  "run_paginated_ingestion L sid fetch_page map_offer initial_cursor A now =
     run_pages L sid fetch_page map_offer A now (arg_max_pages A) 0 initial_cursor 0 0 0"

section \<open>What a run stores\<close>

lemma bindS_InrE:
  assumes "bindS m f s = (Inr y, t)"
  obtains x s' where "m s = (Inr x, s')" and "f x s' = (Inr y, t)"
  using assms by (auto simp: bindS_Inr_iff)

lemma liftE_Inr [simp]: "liftE r s = (Inr x, t) \<longleftrightarrow> r = Inr x \<and> t = s"
  by (auto simp: liftE_def)

lemma retS_Inr [simp]: "retS x s = (Inr y, t) \<longleftrightarrow> x = y \<and> s = t"
  by (auto simp: retS_def)

lemma record_keeps_offers:
  assumes "record_ingestion_failure key k fs now s = (res, t)"
  shows "offers (working t) = offers (working s)"
  using assms
  by (auto simp: record_ingestion_failure_def swallow_def upsert_stmt_def run_simps
      upsert_ingestion_def split: if_splits)

lemma validate_keeps_offers:
  assumes "normalize_and_validate L mapped now s = (Inr res, t)"
  shows "offers (working t) = offers (working s)"
    and "res = Some o1 \<Longrightarrow> offer_model_validate L mapped = Inr o1 \<and> t = s"
  using assms record_keeps_offers
  by (auto simp: normalize_and_validate_def swallow_def exec_fail_def raiseS_def
      split: sum.splits option.splits json.splits if_splits elim!: bindS_InrE)

lemma ingest_effect:
  assumes "ingest_offer L mapped raw now s = (Inr res, t)"
  shows "(case res of
      Some (r, True) \<Rightarrow> offers (working t) = offers (working s) @ [r]
        \<and> (\<exists>o1 n h. offer_model_validate L mapped = Inr o1 \<and> r = new_offer_row L n h raw now o1)
    | _ \<Rightarrow> offers (working t) = offers (working s))"
proof -
  from assms obtain vo s' where v: "normalize_and_validate L mapped now s = (Inr vo, s')"
    and k: "(case vo of None \<Rightarrow> retS None
       | Some o2 \<Rightarrow> bindS (persist_offer L o2 raw now) (\<lambda>r. retS (Some r))) s' = (Inr res, t)"
    by (auto simp: ingest_offer_def elim!: bindS_InrE)
  show ?thesis
  proof (cases vo)
    case None
    with v k show ?thesis by (auto dest: validate_keeps_offers)
  next
    case (Some o1)
    from v Some have o1: "offer_model_validate L mapped = Inr o1" "s' = s"
      using validate_keeps_offers(2) by metis+
    from k Some obtain r created where res: "res = Some (r, created)"
      and run: "persist_offer L o1 raw now s = (Inr (r, created), t)"
      using o1 by (fastforce elim!: bindS_InrE)
    from run show ?thesis
      by (cases rule: persist_cases)
        (auto simp: res o1 insert_offer_conflict insert_offer_def)
  qed
qed

text \<open>
  \<open>from_feed\<close>: the row was made from a posting that the connector's mapping turned into a
  valid offer and whose date the fetch range lets through.
\<close>

definition from_feed :: "pylib \<Rightarrow> map_offer \<Rightarrow> int \<Rightarrow> runner_args \<Rightarrow> offer_row \<Rightarrow> bool" where
  "from_feed L map_offer sid A r \<longleftrightarrow>
     (\<exists>mapped now o1 n h. map_offer sid (raw_payload r) = Inr mapped
        \<and> outside_range (arg_since A) (arg_until A) (effective_date L mapped now) = Inr False
        \<and> offer_model_validate L mapped = Inr o1 \<and> r = new_offer_row L n h (raw_payload r) now o1)"

lemma outside_range_None [simp]: "outside_range None None eff = Inr False"
  by (simp add: outside_range_def)

definition appended ::
    "pylib \<Rightarrow> map_offer \<Rightarrow> int \<Rightarrow> runner_args \<Rightarrow> session \<Rightarrow> session \<Rightarrow> nat \<Rightarrow> bool" where
  "appended L map_offer sid A s t n \<longleftrightarrow>
     (\<exists>new. offers (working t) = offers (working s) @ new \<and> length new = n
        \<and> list_all (from_feed L map_offer sid A) new)"

lemma appended_refl [simp]: "appended L map_offer sid A s s 0"
  by (simp add: appended_def)

lemma appended_trans:
  "appended L map_offer sid A s t m \<Longrightarrow> appended L map_offer sid A t u n \<Longrightarrow>
   appended L map_offer sid A s u (m + n)"
  unfolding appended_def by (metis append.assoc length_append list_all_append)

lemma appended_same:
  "offers (working t) = offers (working s) \<Longrightarrow> appended L map_offer sid A s t 0"
  by (simp add: appended_def)

lemma range_check_inside:
  assumes "range_check L A now mapped = Inr (newer, False)"
  shows "outside_range (arg_since A) (arg_until A) (effective_date L mapped now) = Inr False"
  using assms by (auto simp: range_check_def Let_def bindE_Inr_iff split: if_splits)

lemma run_item_cases:
  assumes "run_item L map_offer sid A now raw c s = (Inr c', t)"
  obtains
    (skipped) mapped newer where "map_offer sid raw = Inr mapped"
      "range_check L A now mapped = Inr (newer, True)" "t = s"
      "c' = (if newer then c\<lparr>page_all_older := False\<rparr> else c)"
  | (ingested) mapped newer res where "map_offer sid raw = Inr mapped"
      "range_check L A now mapped = Inr (newer, False)"
      "ingest_offer L mapped raw now s = (Inr res, t)"
      "c' = count_result res (if newer then c\<lparr>page_all_older := False\<rparr> else c)"
proof -
  from assms obtain mapped newer out where m: "map_offer sid raw = Inr mapped"
    and r: "range_check L A now mapped = Inr (newer, out)"
    and k: "(if out then retS (if newer then c\<lparr>page_all_older := False\<rparr> else c)
       else bindS (ingest_offer L mapped raw now) (\<lambda>res.
         retS (count_result res (if newer then c\<lparr>page_all_older := False\<rparr> else c)))) s = (Inr c', t)"
    unfolding run_item_def Let_def by (auto elim!: bindS_InrE)
  show thesis
  proof (cases out)
    case True
    with m r k show thesis by (intro skipped) auto
  next
    case False
    from k [simplified False if_False] obtain res where "ingest_offer L mapped raw now s = (Inr res, t)"
      "c' = count_result res (if newer then c\<lparr>page_all_older := False\<rparr> else c)"
      by (auto elim!: bindS_InrE)
    with m r False show thesis by (intro ingested) auto
  qed
qed

lemma count_result_created:
  "total_created (count_result res c) = total_created c + (case res of Some (_, True) \<Rightarrow> 1 | _ \<Rightarrow> 0)"
  by (cases "(res, c)" rule: count_result.cases) auto

lemma ingest_appended:
  assumes "ingest_offer L mapped raw now s = (Inr res, t)" and "map_offer sid raw = Inr mapped"
    and "outside_range (arg_since A) (arg_until A) (effective_date L mapped now) = Inr False"
  shows "appended L map_offer sid A s t (case res of Some (_, True) \<Rightarrow> 1 | _ \<Rightarrow> 0)"
proof (cases "\<exists>r. res = Some (r, True)")
  case True
  then obtain r where r: "res = Some (r, True)" by blast
  with ingest_effect [OF assms(1)] obtain o1 n h where
    new: "offers (working t) = offers (working s) @ [r]"
    and o1: "offer_model_validate L mapped = Inr o1" and row: "r = new_offer_row L n h raw now o1"
    by auto
  have raw: "raw_payload r = raw" by (simp add: row)
  have "from_feed L map_offer sid A r"
    unfolding from_feed_def raw using assms(2,3) o1 row by blast
  then show ?thesis using new by (simp add: appended_def r)
next
  case False
  then have "offers (working t) = offers (working s)"
    using ingest_effect [OF assms(1)] by (auto split: option.splits bool.splits)
  then show ?thesis using False by (auto split: option.splits bool.splits intro: appended_same)
qed

lemma run_item_appended:
  assumes "run_item L map_offer sid A now raw c s = (Inr c', t)"
  shows "\<exists>n \<le> 1. total_created c' = total_created c + n \<and> appended L map_offer sid A s t n"
  using assms
proof (cases rule: run_item_cases)
  case skipped
  then show ?thesis by (auto intro!: exI [of _ 0])
next
  case (ingested mapped newer res)
  have "appended L map_offer sid A s t (case res of Some (_, True) \<Rightarrow> 1 | _ \<Rightarrow> 0)"
    using ingested by (intro ingest_appended range_check_inside)
  then show ?thesis
    by (intro exI [of _ "case res of Some (_, True) \<Rightarrow> 1 | _ \<Rightarrow> 0"])
      (auto simp: ingested(4) count_result_created split: option.splits bool.splits)
qed

lemma run_items_appended:
  assumes "run_items L map_offer sid A now i raws c s = (Inr c', t)"
  shows "\<exists>n \<le> length raws. total_created c' = total_created c + n \<and> appended L map_offer sid A s t n"
  using assms
proof (induction raws arbitrary: i c s)
  case (Cons raw raws)
  then obtain c1 s1 where one: "run_item L map_offer sid A (now i) raw c s = (Inr c1, s1)"
    and rest: "run_items L map_offer sid A now (i + 1) raws c1 s1 = (Inr c', t)"
    by (auto elim!: bindS_InrE)
  obtain m where m: "m \<le> 1" "total_created c1 = total_created c + m" "appended L map_offer sid A s s1 m"
    using run_item_appended [OF one] by blast
  obtain n where n: "n \<le> length raws" "total_created c' = total_created c1 + n"
    "appended L map_offer sid A s1 t n"
    using Cons.IH [OF rest] by blast
  have "appended L map_offer sid A s t (m + n)"
    using m(3) n(3) by (rule appended_trans)
  with m n show ?case by (intro exI [of _ "m + n"]) simp
qed (auto intro: exI [of _ 0])

lemma run_pages_Suc_cases:
  assumes "run_pages L sid fp map_offer A now (Suc n) p cursor fetched created seen s = (Inr res, t)"
  obtains
    (first_failed) blocked where "p = 0" "t = s"
      "fetch_or_blocked (fp p cursor (arg_page_size A)) = Inr (None, blocked)"
      "\<not> res_ok res" "res_fetched res = 0" "res_created res = 0" "res_blocked_status res = blocked"
  | (later_failed) blocked m where "0 < p" "res = finished fetched created"
      "fetch_or_blocked (fp p cursor (arg_page_size A)) = Inr (None, blocked)"
      "record_ingestion_failure (source_key sid) PAGE_FETCH_FAILED
         [F_source_id sid, F_page (int p), F_error_message m, F_blocked_status blocked] (now p 0) s
       = (Inr (), t)"
  | (stopped) raws next_cursor c where
      "fp p cursor (arg_page_size A) = Inr (Some (raws, next_cursor))"
      "\<exists>c0. run_items L map_offer sid A (now p) 0 raws c0 s = (Inr c, t) \<and> total_created c0 = created"
      "res = finished (fetched + length raws) (total_created c)"
      "next_cursor = None \<or> arg_since A \<noteq> None \<or> \<not> arg_force_refresh A"
  | (continued) raws next_cursor c u where
      "fp p cursor (arg_page_size A) = Inr (Some (raws, next_cursor))"
      "\<exists>c0. run_items L map_offer sid A (now p) 0 raws c0 s = (Inr c, u) \<and> total_created c0 = created"
      "run_pages L sid fp map_offer A now n (p + 1) next_cursor (fetched + length raws)
         (total_created c) (consecutive_already_seen c) u = (Inr res, t)"
      "next_cursor \<noteq> None"
proof -
  from assms obtain pg blocked where f: "fetch_or_blocked (fp p cursor (arg_page_size A)) = Inr (pg, blocked)"
    by (auto elim!: bindS_InrE)
  show thesis
  proof (cases pg)
    case None
    with f assms show thesis
      by (cases "p = 0") (auto simp: bindS_def liftE_def retS_def split: prod.splits sum.splits
          intro: first_failed later_failed)
  next
    case (Some q)
    obtain raws nc where q: "q = (raws, nc)" by (cases q)
    have fp: "fp p cursor (arg_page_size A) = Inr (Some (raws, nc))"
      using f Some q by (auto simp: fetch_or_blocked_def split: sum.splits exn.splits)
    let ?c0 = "\<lparr>total_created = created, consecutive_already_seen = seen,
      page_all_older = (arg_sorted_by_recency A \<and> arg_since A \<noteq> None \<and> raws \<noteq> [])\<rparr>"
    from assms f Some q obtain c u where it: "run_items L map_offer sid A (now p) 0 raws ?c0 s = (Inr c, u)"
      and k: "(if arg_since A \<noteq> None \<and> raws \<noteq> [] \<and> page_all_older c
         then retS (finished (fetched + length raws) (total_created c))
         else if nc = None then retS (finished (fetched + length raws) (total_created c))
         else if \<not> arg_force_refresh A \<and> arg_threshold A \<le> consecutive_already_seen c
         then retS (finished (fetched + length raws) (total_created c))
         else run_pages L sid fp map_offer A now n (p + 1) nc (fetched + length raws)
                (total_created c) (consecutive_already_seen c)) u = (Inr res, t)"
      by (auto simp: Let_def elim!: bindS_InrE)
    have ex: "\<exists>c0. run_items L map_offer sid A (now p) 0 raws c0 s = (Inr c, u) \<and> total_created c0 = created"
      using it by (intro exI [of _ ?c0]) simp
    show thesis
      using k fp ex by (auto split: if_splits intro: stopped continued)
  qed
qed

lemma finished_simps [simp]:
  "res_ok (finished f c)" "res_fetched (finished f c) = f" "res_created (finished f c) = c"
  by (simp_all add: finished_def)

lemma run_pages_accounting:
  assumes "run_pages L sid fp map_offer A now n p cursor fetched created seen s = (Inr res, t)"
    and "created \<le> fetched"
  shows "(\<not> res_ok res \<and> p = 0 \<and> t = s \<and> res_fetched res = 0 \<and> res_created res = 0)
    \<or> (res_ok res \<and> res_created res \<le> res_fetched res
        \<and> (\<exists>k. res_created res = created + k \<and> appended L map_offer sid A s t k))"
  using assms
proof (induction n arbitrary: p cursor fetched created seen s)
  case 0
  then show ?case by (auto intro!: exI [of _ 0])
next
  case (Suc n)
  from Suc.prems(1) show ?case
  proof (cases rule: run_pages_Suc_cases)
    case first_failed
    then show ?thesis by simp
  next
    case later_failed
    then show ?thesis
      using Suc.prems(2) record_keeps_offers [OF later_failed(4)]
      by (auto intro!: exI [of _ 0] appended_same)
  next
    case (stopped raws nc c)
    then show ?thesis using Suc.prems(2) by (fastforce dest: run_items_appended)
  next
    case (continued raws nc c u)
    then obtain k where k: "k \<le> length raws" "total_created c = created + k"
      "appended L map_offer sid A s u k"
      by (auto dest: run_items_appended)
    then have le: "total_created c \<le> fetched + length raws" using Suc.prems(2) by simp
    from Suc.IH [OF continued(3) le] obtain j where
      ok: "res_ok res" "res_created res \<le> res_fetched res" "res_created res = total_created c + j"
      and app: "appended L map_offer sid A u t j"
      by auto
    have "appended L map_offer sid A s t (k + j)" using k(3) app by (rule appended_trans)
    with ok k show ?thesis by (intro disjI2) (auto intro!: exI [of _ "k + j"])
  qed
qed

text \<open>C1: The counts of a run are those of the table: a run that returns has appended exactly
  \<open>created\<close> rows, each made from a posting of the feed that is valid and inside the fetch
  range, \<open>created\<close> is at most \<open>fetched\<close>, and a run reported as failed has stored nothing.\<close>

theorem run_accounting:
  assumes "run_paginated_ingestion L sid fetch_page map_offer cursor A now s = (Inr res, t)"
  shows "\<exists>new. offers (working t) = offers (working s) @ new \<and> length new = res_created res
    \<and> list_all (from_feed L map_offer sid A) new \<and> res_created res \<le> res_fetched res
    \<and> (res_ok res \<or> t = s)"
  using run_pages_accounting [OF assms [unfolded run_paginated_ingestion_def]]
  by (auto simp: appended_def)

text \<open>A run fetches at most \<open>max_pages\<close> pages: when no page holds more than \<open>m\<close> postings,
  it reports at most \<open>max_pages * m\<close> fetched postings.\<close>

theorem run_page_bound:
  assumes "run_paginated_ingestion L sid fetch_page map_offer cursor A now s = (Inr res, t)"
    and "\<And>p c raws nc. fetch_page p c (arg_page_size A) = Inr (Some (raws, nc)) \<Longrightarrow> length raws \<le> m"
  shows "res_fetched res \<le> arg_max_pages A * m"
proof -
  have "run_pages L sid fetch_page map_offer A now n p cur fetched created seen s = (Inr res, t) \<Longrightarrow>
      res_fetched res \<le> fetched + n * m" for n p cur fetched created seen s
  proof (induction n arbitrary: p cur fetched created seen s)
    case (Suc n)
    from Suc.prems show ?case
    proof (cases rule: run_pages_Suc_cases)
      case (stopped raws nc c)
      then show ?thesis using assms(2) [OF stopped(1)] by simp
    next
      case (continued raws nc c u)
      then show ?thesis using assms(2) [OF continued(1)] Suc.IH [OF continued(3)] by simp
    qed simp_all
  qed auto
  from this [OF assms(1) [unfolded run_paginated_ingestion_def]] show ?thesis by simp
qed

lemma keeps_run_items [keeps_intros]:
  "(\<And>m r t. keeps I (ingest_offer L m r t)) \<Longrightarrow> keeps I (run_items L map_offer sid A now i raws c)"
  by (induction L map_offer sid A now i raws c rule: run_items.induct)
    (auto simp: run_item_def Let_def split: prod.splits intro!: keeps_intros)

lemma keeps_run_pages:
  assumes "\<And>m r t. keeps I (ingest_offer L m r t)"
    and "\<And>key k fs t. keeps I (record_ingestion_failure key k fs t)"
  shows "keeps I (run_pages L sid fp map_offer A now n p cursor fetched created seen)"
proof (induction n arbitrary: p cursor fetched created seen)
  case (Suc n)
  then show ?case
    by (auto simp: Let_def split: prod.splits intro!: keeps_intros assms)
qed (simp add: keeps_retS)

text \<open>C2: A run keeps the invariant of the store, whatever the network sends and however the run
  ends: keys and hashes stay unique, references stay valid, and no two stored offers have the
  same company, title and salary.\<close>

theorem run_keeps_store:
  assumes "session_inv store_ok s"
  shows "session_inv store_ok
    (snd (run_paginated_ingestion L sid fetch_page map_offer cursor A now s))"
  using keeps_run_pages [OF keeps_store_ingest keeps_store_record] assms
  unfolding run_paginated_ingestion_def keeps_def by blast

section \<open>Running again\<close>

text \<open>
  A posting is \<open>known\<close> to the store when storing it would find a row of the same content or of
  the same hash. Rows are only ever appended, so a known posting stays known.
\<close>

definition known :: "pylib \<Rightarrow> jdict \<Rightarrow> db \<Rightarrow> bool" where
  "known L mapped d \<longleftrightarrow> (\<forall>o1. offer_model_validate L mapped = Inr o1 \<longrightarrow>
     find_content_duplicate o1 d \<noteq> None
     \<or> (\<exists>h. compute_dedup_hash L o1 = Inr h \<and> h \<in> dedup_hash ` set (offers d)))"

lemma known_mono:
  assumes "known L mapped d" and "set (offers d) \<subseteq> set (offers e)"
  shows "known L mapped e"
proof -
  have "find_content_duplicate o1 d \<noteq> None \<Longrightarrow> find_content_duplicate o1 e \<noteq> None" for o1
    using assms(2) by (auto simp: find_content_duplicate_def find_None_iff)
  moreover have "h \<in> dedup_hash ` set (offers d) \<Longrightarrow> h \<in> dedup_hash ` set (offers e)" for h
    using assms(2) by auto
  ultimately show ?thesis using assms(1) unfolding known_def by metis
qed

lemma ingest_cases:
  assumes "ingest_offer L mapped raw now s = (Inr res, t)"
  obtains (invalid) e where "offer_model_validate L mapped = Inl e" "res = None"
  | (valid) o1 r created where "offer_model_validate L mapped = Inr o1" "res = Some (r, created)"
      "persist_offer L o1 raw now s = (Inr (r, created), t)"
proof (cases "offer_model_validate L mapped")
  case (Inl e)
  with assms have "res = None"
    by (auto simp: ingest_offer_def normalize_and_validate_def elim!: bindS_InrE)
  with Inl show thesis by (rule invalid)
next
  case (Inr o1)
  with assms obtain r created where "res = Some (r, created)"
    "persist_offer L o1 raw now s = (Inr (r, created), t)"
    by (auto simp: ingest_offer_def normalize_and_validate_def elim!: bindS_InrE)
  with Inr show thesis by (rule valid)
qed

lemma ingest_known:
  assumes "ingest_offer L mapped raw now s = (Inr res, t)"
  shows "known L mapped (working t)"
  using assms
proof (cases rule: ingest_cases)
  case (valid o1 r created)
  from valid(3) show ?thesis
  proof (cases rule: persist_cases)
    case duplicate
    then show ?thesis by (simp add: known_def valid(1))
  next
    case (conflict h)
    then show ?thesis by (simp add: known_def valid(1) insert_offer_conflict)
  next
    case (inserted h)
    then show ?thesis by (simp add: known_def valid(1) find_content_after_insert)
  qed
qed (simp add: known_def)

lemma ingest_of_known:
  assumes "ingest_offer L mapped raw now s = (Inr res, t)" and "known L mapped (working s)"
  shows "(case res of Some (_, True) \<Rightarrow> False | _ \<Rightarrow> True)"
  using assms(1)
proof (cases rule: ingest_cases)
  case (valid o1 r created)
  from valid(3) assms(2) have "\<not> created"
    by (cases rule: persist_cases) (auto simp: known_def valid(1))
  then show ?thesis by (simp add: valid(2))
qed simp

definition known_raw :: "pylib \<Rightarrow> map_offer \<Rightarrow> int \<Rightarrow> db \<Rightarrow> jdict \<Rightarrow> bool" where
  "known_raw L map_offer sid d raw \<longleftrightarrow> (\<forall>mapped. map_offer sid raw = Inr mapped \<longrightarrow> known L mapped d)"

text \<open>The pages a run without range and with \<open>force_refresh\<close> reads, until the feed ends.\<close>

fun feed_pages :: "'c fetch_page \<Rightarrow> nat \<Rightarrow> nat \<Rightarrow> nat \<Rightarrow> 'c option \<Rightarrow> jdict list list" where
  "feed_pages fp k 0 p cursor = []"
| "feed_pages fp k (Suc n) p cursor =
     (case fp p cursor k of
        Inr (Some (raws, nc)) \<Rightarrow> raws # (if nc = None then [] else feed_pages fp k n (p + 1) nc)
      | _ \<Rightarrow> [])"

lemma appended_subset: "appended L map_offer sid A s t n \<Longrightarrow> set (offers (working s)) \<subseteq> set (offers (working t))"
  by (auto simp: appended_def)

lemma known_raw_mono:
  "known_raw L map_offer sid d raw \<Longrightarrow> set (offers d) \<subseteq> set (offers e) \<Longrightarrow> known_raw L map_offer sid e raw"
  unfolding known_raw_def by (blast intro: known_mono)

lemma known_raw_same:
  "offers d = offers e \<Longrightarrow> known_raw L map_offer sid d = known_raw L map_offer sid e"
  by (simp add: fun_eq_iff known_raw_def known_def find_content_duplicate_def)

lemma run_items_all_known:
  assumes "run_items L map_offer sid A now i raws c s = (Inr c', t)"
    and "arg_since A = None" and "arg_until A = None"
  shows "list_all (known_raw L map_offer sid (working t)) raws"
  using assms(1)
proof (induction raws arbitrary: i c s)
  case (Cons raw raws)
  then obtain c1 s1 where one: "run_item L map_offer sid A (now i) raw c s = (Inr c1, s1)"
    and rest: "run_items L map_offer sid A now (i + 1) raws c1 s1 = (Inr c', t)"
    by (auto elim!: bindS_InrE)
  from one have "known_raw L map_offer sid (working s1) raw"
  proof (cases rule: run_item_cases)
    case skipped
    then show ?thesis using assms(2,3) by (simp add: range_check_def)
  next
    case ingested
    then show ?thesis by (simp add: known_raw_def ingest_known)
  qed
  moreover have "set (offers (working s1)) \<subseteq> set (offers (working t))"
    using run_items_appended [OF rest] appended_subset by blast
  ultimately show ?case using Cons.IH [OF rest] by (auto intro: known_raw_mono)
qed simp

lemma run_items_of_known:
  assumes "run_items L map_offer sid A now i raws c s = (Inr c', t)"
    and "list_all (known_raw L map_offer sid (working s)) raws"
  shows "total_created c' = total_created c \<and> offers (working t) = offers (working s)"
  using assms
proof (induction raws arbitrary: i c s)
  case (Cons raw raws)
  then obtain c1 s1 where one: "run_item L map_offer sid A (now i) raw c s = (Inr c1, s1)"
    and rest: "run_items L map_offer sid A now (i + 1) raws c1 s1 = (Inr c', t)"
    by (auto elim!: bindS_InrE)
  from one have c1: "total_created c1 = total_created c \<and> offers (working s1) = offers (working s)"
  proof (cases rule: run_item_cases)
    case skipped
    then show ?thesis by auto
  next
    case (ingested mapped newer res)
    have "(case res of Some (_, True) \<Rightarrow> False | _ \<Rightarrow> True)"
      using ingest_of_known [OF ingested(3)] ingested(1) Cons.prems(2) by (simp add: known_raw_def)
    then show ?thesis
      using ingest_effect [OF ingested(3)] ingested(4)
      by (auto simp: count_result_created split: option.splits bool.splits)
  qed
  then have "list_all (known_raw L map_offer sid (working s1)) raws"
    using Cons.prems(2) known_raw_same [OF conjunct2 [OF c1]] by simp
  from Cons.IH [OF rest this] c1 show ?case by simp
qed simp

lemma run_pages_all_known:
  assumes "run_pages L sid fp map_offer A now n p cursor fetched created seen s = (Inr res, t)"
    and "arg_since A = None" "arg_until A = None" "arg_force_refresh A"
    and "created \<le> fetched"
  shows "list_all (list_all (known_raw L map_offer sid (working t)))
           (feed_pages fp (arg_page_size A) n p cursor)"
  using assms(1,5)
proof (induction n arbitrary: p cursor fetched created seen s)
  case (Suc n)
  from Suc.prems(1) show ?case
  proof (cases rule: run_pages_Suc_cases)
    case first_failed
    then show ?thesis by (auto simp: fetch_or_blocked_def split: sum.splits exn.splits option.splits)
  next
    case later_failed
    then show ?thesis by (auto simp: fetch_or_blocked_def split: sum.splits exn.splits option.splits)
  next
    case (stopped raws nc c)
    then show ?thesis using assms(2-4) by (auto dest: run_items_all_known)
  next
    case (continued raws nc c u)
    then obtain k where k: "k \<le> length raws" "total_created c = created + k"
      by (auto dest: run_items_appended)
    then have le: "total_created c \<le> fetched + length raws" using Suc.prems(2) by simp
    have sub: "set (offers (working u)) \<subseteq> set (offers (working t))"
      using run_pages_accounting [OF continued(3) le] by (auto dest!: appended_subset)
    have "list_all (known_raw L map_offer sid (working u)) raws"
      using continued(2) assms(2,3) run_items_all_known by blast
    then have "list_all (known_raw L map_offer sid (working t)) raws"
      using sub by (auto simp: list_all_iff elim: known_raw_mono)
    with Suc.IH [OF continued(3) le] continued(1,4) show ?thesis by simp
  qed
qed simp

lemma run_pages_of_known:
  assumes "run_pages L sid fp map_offer A now n p cursor fetched created seen s = (Inr res, t)"
    and "list_all (list_all (known_raw L map_offer sid (working s)))
           (feed_pages fp (arg_page_size A) n p cursor)"
  shows "res_created res \<le> created \<and> offers (working t) = offers (working s)"
  using assms
proof (induction n arbitrary: p cursor fetched created seen s)
  case (Suc n)
  from Suc.prems(1) show ?case
  proof (cases rule: run_pages_Suc_cases)
    case later_failed
    then show ?thesis using record_keeps_offers [OF later_failed(4)] by simp
  next
    case (stopped raws nc c)
    then show ?thesis using Suc.prems(2) by (auto dest: run_items_of_known)
  next
    case (continued raws nc c u)
    have it: "total_created c = created" "offers (working u) = offers (working s)"
      using continued(1,2) Suc.prems(2) by (auto dest: run_items_of_known)
    have "list_all (list_all (known_raw L map_offer sid (working u)))
        (feed_pages fp (arg_page_size A) n (p + 1) nc)"
      using Suc.prems(2) continued(1,4) known_raw_same [OF it(2)] by simp
    from Suc.IH [OF continued(3) this] it show ?thesis by simp
  qed simp
qed auto

text \<open>C3: Running a source again creates nothing: after a full walk of a feed that returned, any
  later run over the same feed, whatever its range and stopping rule, creates no offer and
  leaves the stored offers as they are, when it returns.\<close>

theorem rerun_creates_nothing:
  assumes "run_paginated_ingestion L sid fetch_page map_offer cursor A now s = (Inr res, t)"
    and "arg_since A = None" "arg_until A = None" "arg_force_refresh A"
    and "arg_page_size A' = arg_page_size A" "arg_max_pages A' = arg_max_pages A"
    and "run_paginated_ingestion L sid fetch_page map_offer cursor A' now' t = (Inr res', u)"
  shows "res_created res' = 0 \<and> offers (working u) = offers (working t)"
proof -
  have "list_all (list_all (known_raw L map_offer sid (working t)))
      (feed_pages fetch_page (arg_page_size A) (arg_max_pages A) 0 cursor)"
    using assms(1-4) run_pages_all_known unfolding run_paginated_ingestion_def by blast
  with run_pages_of_known [OF assms(7) [unfolded run_paginated_ingestion_def]] assms(5,6)
  show ?thesis by simp
qed

section \<open>Failing pages\<close>

text \<open>A run whose first page cannot be fetched (the adapter gives up, or the site blocks it
  with a status) fails: it reports no offers and the blocking status, and changes nothing.\<close>

theorem first_page_failure:
  assumes "fetch_or_blocked (fetch_page 0 cursor (arg_page_size A)) = Inr (None, blocked)"
    and "0 < arg_max_pages A"
  shows "\<exists>res. run_paginated_ingestion L sid fetch_page map_offer cursor A now s = (Inr res, s)
    \<and> \<not> res_ok res \<and> res_fetched res = 0 \<and> res_created res = 0 \<and> res_blocked_status res = blocked"
  using assms
  by (cases "arg_max_pages A") (auto simp: run_paginated_ingestion_def run_simps)

lemma page_refs_upsert:
  assumes "ingestion_failure_refs d" and "sid \<in> src_id ` set (sources d)"
  shows "ingestion_failure_refs
    (upsert_ingestion key k [F_source_id sid, F_page n, F_error_message m, F_blocked_status b] now d)"
  using assms
  by (auto simp: ingestion_failure_refs_def upsert_ingestion_def upsert_failure_def
      update_where_def list_all_iff touch_open_def blank_ingestion_failure_def
      blank_dead_letter_def dead_letter.defs)

text \<open>The key of a source always fits its column: an id has at most ten digits.\<close>

lemma show_nat_aux_length: "n < 10 ^ k \<Longrightarrow> 0 < k \<Longrightarrow> length (show_nat_aux n acc) \<le> k + length acc"
proof (induction n acc arbitrary: k rule: show_nat_aux.induct)
  case (1 n acc)
  show ?case
  proof (cases "n < 10")
    case True
    then show ?thesis using 1(3) by (simp add: show_nat_aux.simps)
  next
    case False
    then obtain j where k: "k = Suc j" "0 < j"
      using 1(2,3) by (cases k; cases "k - 1") auto
    then have "n div 10 < 10 ^ j" using 1(2) by (simp add: less_mult_imp_div_less)
    from 1(1) [OF False this k(2)] False k show ?thesis
      by (subst show_nat_aux.simps) simp
  qed
qed

lemma show_int_length: "0 \<le> n \<Longrightarrow> n < 2 ^ 31 \<Longrightarrow> length (show_int n) \<le> 10"
  using show_nat_aux_length [of "nat n" 10 "[]"] by (simp add: show_int_def)

lemma source_key_length: "0 \<le> sid \<Longrightarrow> sid < 2 ^ 31 \<Longrightarrow> length (source_key sid) \<le> dedup_key_width"
  using show_int_length [of sid] by (simp add: source_key_def dedup_key_width_def)

text \<open>A later page that cannot be fetched ends the run without failing it: the counts so far
  are reported, and the source gets an open dead letter that names the page and the blocking
  status.\<close>

theorem later_page_failure:
  assumes "fetch_or_blocked (fetch_page p cursor (arg_page_size A)) = Inr (None, blocked)"
    and "0 < p" and "\<not> tx_aborted s" and "db_ok (working s)"
    and "sid \<in> src_id ` set (sources (working s))" and "sid < 2 ^ 31"
  shows "\<exists>t. run_pages L sid fetch_page map_offer A now (Suc n) p cursor fetched created seen s
      = (Inr (finished fetched created), t)
    \<and> offers (working t) = offers (working s)
    \<and> (\<exists>r \<in> set (ingestion_failures (working t)). dedup_key r = source_key sid
         \<and> dl_status r = status_open \<and> failure_type r = failure_value PAGE_FETCH_FAILED
         \<and> page r = Some (int p) \<and> blocked_status r = blocked)"
proof -
  let ?fs = "[F_source_id sid, F_page (int p), F_error_message
    (lit ''failed to fetch '' @ arg_source_name A @ lit '' page '' @ show_int (int p)),
    F_blocked_status blocked]"
  let ?d = "upsert_ingestion (source_key sid) PAGE_FETCH_FAILED ?fs (now p 0) (working s)"
  have pos: "0 \<le> sid"
    using assms(4,5) by (auto simp: db_ok_def ids_below_def ids_in_def list_all_iff)
  have "ingestion_failure_refs ?d"
    using assms(4,5) by (intro page_refs_upsert) (auto simp: db_ok_def refs_ok_def)
  then have rec: "record_ingestion_failure (source_key sid) PAGE_FETCH_FAILED ?fs (now p 0) s
      = (Inr (), s\<lparr>working := ?d\<rparr>)"
    using assms(3,6) pos by (intro record_ingestion_failure_ok source_key_length) simp_all
  then have run: "run_pages L sid fetch_page map_offer A now (Suc n) p cursor fetched created seen s
      = (Inr (finished fetched created), s\<lparr>working := ?d\<rparr>)"
    using assms(1,2) by (simp add: run_simps)
  have "source_key sid \<in> dedup_key ` set (ingestion_failures ?d)"
    using ing.record_all_keys [of "[(source_key sid, PAGE_FETCH_FAILED, ?fs, now p 0)]"] by simp
  then obtain r where r: "r \<in> set (ingestion_failures ?d)" "dedup_key r = source_key sid" by auto
  then have "\<exists>r'. r = (touch_open PAGE_FETCH_FAILED (now p 0) \<circ> fold assign_ingestion_field ?fs) r'"
    using upsert_row_cases [of r _ "blank_ingestion_failure (next_id (working s)) (source_key sid)"]
    by (fastforce simp: upsert_ingestion_def)
  then have "dl_status r = status_open" "failure_type r = failure_value PAGE_FETCH_FAILED"
    "page r = Some (int p)" "blocked_status r = blocked"
    by (auto simp: touch_open_def)
  with run r show ?thesis by (auto simp: upsert_ingestion_def)
qed

section \<open>A small feed\<close>

definition one_page_feed :: "unit fetch_page" where
  "one_page_feed p cursor k = (if p = 0 then Inr (Some ([sample_posting], None)) else Inr None)"

definition plain_args :: runner_args where
  "plain_args = \<lparr>arg_source_name = lit ''A'', arg_page_size = 50, arg_max_pages = 3, arg_threshold = 5,
     arg_force_refresh = True, arg_since = None, arg_until = None, arg_sorted_by_recency = True\<rparr>"

definition stored_session :: session where
  "stored_session = (open_session sample_db)\<lparr>working :=
     insert_offer sample_lib sample_key sample_posting 0 sample_offer sample_db\<rparr>"

lemma first_run:
  "run_paginated_ingestion sample_lib 1 one_page_feed (\<lambda>_ raw. Inr raw) None plain_args (\<lambda>_ _. 0)
     (open_session sample_db) = (Inr (finished 1 1), stored_session)"
  by code_simp

theorem run_accounting_witness:
  "\<exists>new. offers (working stored_session) = offers sample_db @ new \<and> length new = 1"
  using run_accounting [OF first_run] by (auto simp: open_session_def)

theorem run_page_bound_witness: "res_fetched (finished 1 1) \<le> arg_max_pages plain_args * 1"
  by (rule run_page_bound [OF first_run]) (auto simp: one_page_feed_def split: if_splits)

theorem run_keeps_store_witness: "session_inv store_ok stored_session"
proof -
  have "session_inv store_ok (open_session sample_db)"
    by (simp add: session_inv_def open_session_def store_ok_def content_unique_def)
      (simp add: sample_db_def empty_db_def)
  from run_keeps_store [OF this, of sample_lib 1 one_page_feed "\<lambda>_ raw. Inr raw" None plain_args "\<lambda>_ _. 0"]
  show ?thesis by (simp add: first_run)
qed

theorem rerun_creates_nothing_witness:
  "\<exists>res u. run_paginated_ingestion sample_lib 1 one_page_feed (\<lambda>_ raw. Inr raw) None plain_args
       (\<lambda>_ _. 9) stored_session = (Inr res, u) \<and> res_created res = 0"
proof -
  have "run_paginated_ingestion sample_lib 1 one_page_feed (\<lambda>_ raw. Inr raw) None plain_args
      (\<lambda>_ _. 9) stored_session = (Inr (finished 1 0), stored_session)"
    by code_simp
  with rerun_creates_nothing [OF first_run _ _ _ refl refl this] show ?thesis
    by (simp add: plain_args_def)
qed

theorem first_page_failure_witness:
  "\<exists>res. run_paginated_ingestion sample_lib 1 (\<lambda>_ (_ :: unit option) _. Inl (BlockedFetchError 403))
       (\<lambda>_ raw. Inr raw) None plain_args (\<lambda>_ _. 0) (open_session sample_db)
      = (Inr res, open_session sample_db) \<and> res_blocked_status res = Some 403"
  using first_page_failure [of "\<lambda>_ (_ :: unit option) _. Inl (BlockedFetchError 403)" None plain_args
      "Some 403"]
  by (fastforce simp: fetch_or_blocked_def plain_args_def)

theorem later_page_failure_witness:
  "\<exists>t. run_pages sample_lib 1 one_page_feed (\<lambda>_ raw. Inr raw) plain_args (\<lambda>_ _. 0) (Suc 0) 1 None 1 1 0
       (open_session sample_db) = (Inr (finished 1 1), t)"
proof -
  have "fetch_or_blocked (one_page_feed 1 None (arg_page_size plain_args)) = Inr (None, None)"
    by (simp add: fetch_or_blocked_def one_page_feed_def)
  moreover have "1 \<in> src_id ` set (sources (working (open_session sample_db)))" by code_simp
  moreover have "\<not> tx_aborted (open_session sample_db)" "db_ok (working (open_session sample_db))"
    by (simp_all add: open_session_def)
  ultimately show ?thesis
    using later_page_failure [of one_page_feed 1 None plain_args None "open_session sample_db" 1]
    by (metis less_numeral_extra(1) one_less_numeral_iff one_less_power semiring_norm(76) zero_less_numeral)
qed

end
