(* ===== verification/Normalize.thy ===== *)
theory Normalize
  imports PyStd
begin

text \<open>
  \<open>app/ingestion/normalize.py\<close>: the connector names, and the shared conversions of remote
  flags, seniority labels, salaries and envelopes. Polish letters are written as code points.
\<close>

section \<open>Vocabularies\<close>

definition SOLID_JOBS :: pystr where "SOLID_JOBS = lit ''solid_jobs''"
definition JUSTJOINIT :: pystr where "JUSTJOINIT = lit ''justjoinit''"
definition NOFLUFFJOBS :: pystr where "NOFLUFFJOBS = lit ''nofluffjobs''"
definition BULLDOGJOB :: pystr where "BULLDOGJOB = lit ''bulldogjob''"
definition ROCKET_JOBS :: pystr where "ROCKET_JOBS = lit ''rocket_jobs''"
definition PRACUJ :: pystr where "PRACUJ = lit ''pracuj''"
definition REMOTEOK :: pystr where "REMOTEOK = lit ''remoteok''"
definition REMOTIVE :: pystr where "REMOTIVE = lit ''remotive''"
definition WE_WORK_REMOTELY :: pystr where "WE_WORK_REMOTELY = lit ''we_work_remotely''"

lemmas connector_names = SOLID_JOBS_def JUSTJOINIT_def NOFLUFFJOBS_def BULLDOGJOB_def
  ROCKET_JOBS_def PRACUJ_def REMOTEOK_def REMOTIVE_def WE_WORK_REMOTELY_def

definition canonical_seniority_levels :: "pystr list" where
  "canonical_seniority_levels = map lit [''junior'', ''mid'', ''senior'', ''lead'', ''expert'']"

definition lits :: "(string \<times> string) list \<Rightarrow> pystr pydict" where
  "lits kvs = map (\<lambda>(k, v). (lit k, lit v)) kvs"

definition seniority_vocab :: "(pystr pydict) pydict" where
  "seniority_vocab =
    [(SOLID_JOBS, lits
       [(''junior'', ''junior''), (''regular'', ''mid''), (''mid'', ''mid''),
        (''senior'', ''senior''), (''expert'', ''expert'')]),
     (JUSTJOINIT, lits
       [(''junior'', ''junior''), (''mid'', ''mid''), (''senior'', ''senior''),
        (''c_level'', ''lead''), (''manager'', ''lead'')]),
     (NOFLUFFJOBS, lits
       [(''trainee'', ''junior''), (''junior'', ''junior''), (''mid'', ''mid''),
        (''senior'', ''senior''), (''expert'', ''expert''), (''c-level'', ''lead'')]),
     (BULLDOGJOB, lits
       [(''junior'', ''junior''), (''medium'', ''mid''), (''senior'', ''senior''),
        (''lead'', ''lead'')]),
     (PRACUJ,
       [(lit ''praktykant / praktykantka - sta'' @ [380] @ lit ''ysta / sta'' @ [380] @ lit ''ystka'',
         lit ''junior''),
        (lit ''asystent / asystentka'', lit ''junior''),
        (lit ''m'' @ [322] @ lit ''odszy specjalista / m'' @ [322] @ lit ''odsza specjalistka (junior)'',
         lit ''junior''),
        (lit ''specjalista / specjalistka (mid / regular)'', lit ''mid''),
        (lit ''starszy specjalista / starsza specjalistka (senior)'', lit ''senior''),
        (lit ''ekspert / ekspertka'', lit ''expert''),
        (lit ''kierownik / kierowniczka - koordynator / koordynatorka'', lit ''lead''),
        (lit ''mened'' @ [380] @ lit ''er / mened'' @ [380] @ lit ''erka'', lit ''lead''),
        (lit ''dyrektor / dyrektorka'', lit ''lead''),
        (lit ''prezes / prezeska'', lit ''lead''),
        (lit ''junior specialist (junior)'', lit ''junior''),
        (lit ''specialist (mid / regular)'', lit ''mid''),
        (lit ''senior specialist (senior)'', lit ''senior''),
        (lit ''manager / supervisor'', lit ''lead'')])]"

definition remote_string_vocab :: "(bool pydict) pydict" where
  "remote_string_vocab =
    [(JUSTJOINIT, [(lit ''remote'', True), (lit ''hybrid'', False), (lit ''office'', False)]),
     (ROCKET_JOBS, [(lit ''telecommute'', True)])]"

definition vocab_of :: "('v pydict) pydict \<Rightarrow> pystr \<Rightarrow> 'v pydict" where
  "vocab_of t source_name = (case map_of t source_name of None \<Rightarrow> [] | Some v \<Rightarrow> v)"

section \<open>Conversions\<close>

text \<open>\<open>isinstance(value, int | float)\<close> holds of a \<open>bool\<close>, which is an \<open>int\<close>.\<close>

fun to_int :: "json \<Rightarrow> int option" where
  "to_int (JInt n) = Some n"
| "to_int (JBool b) = Some (if b then 1 else 0)"
| "to_int (JFloat q) = Some (py_trunc q)"
| "to_int _ = None"

fun dict_items :: "json list \<Rightarrow> jdict list" where
  "dict_items [] = []"
| "dict_items (JObj d # js) = d # dict_items js"
| "dict_items (_ # js) = dict_items js"

definition extract_envelope_list :: "json \<Rightarrow> pystr \<Rightarrow> bool \<Rightarrow> jdict list option" where
  "extract_envelope_list payload key allow_bare_list =
     (case payload of
        JArr items \<Rightarrow> if allow_bare_list then Some (dict_items items) else None
      | JObj d \<Rightarrow>
          (case map_of d key of
             None \<Rightarrow> None
           | Some JNull \<Rightarrow> Some []
           | Some (JArr items) \<Rightarrow> Some (dict_items items)
           | Some _ \<Rightarrow> None)
      | _ \<Rightarrow> None)"

definition normalize_remote :: "pystr \<Rightarrow> json \<Rightarrow> bool" where
  "normalize_remote source_name raw =
     (case raw of
        JBool b \<Rightarrow> b
      | JStr s \<Rightarrow>
          (case map_of (vocab_of remote_string_vocab source_name) (py_lower (py_strip s)) of
             Some b \<Rightarrow> b | None \<Rightarrow> False)
      | _ \<Rightarrow> False)"

fun seniority_items :: "pystr pydict \<Rightarrow> json list \<Rightarrow> pystr list \<Rightarrow> pystr list" where
  "seniority_items vocab [] acc = acc"
| "seniority_items vocab (JStr s # js) acc =
     (if py_strip s = [] then seniority_items vocab js acc
      else (case map_of vocab (py_lower (py_strip s)) of
              None \<Rightarrow> seniority_items vocab js acc
            | Some c \<Rightarrow> seniority_items vocab js (if c \<in> set acc then acc else acc @ [c])))"
| "seniority_items vocab (_ # js) acc = seniority_items vocab js acc"

definition normalize_seniority :: "pystr \<Rightarrow> json \<Rightarrow> pystr option" where
  "normalize_seniority source_name raw =
     (if raw = JNull then None
      else
        let items = (case raw of JArr js \<Rightarrow> js | _ \<Rightarrow> [raw]);
            levels = seniority_items (vocab_of seniority_vocab source_name) items []
        in if levels = [] then None else Some (py_join (lit '', '') levels))"

definition normalize_salary ::
    "pylib \<Rightarrow> int option \<Rightarrow> int option \<Rightarrow> json \<Rightarrow> int option \<times> int option \<times> pystr" where
  "normalize_salary L smin smax raw_currency =
     (smin, smax, if truthy raw_currency then py_upper (py_strip (py_str L raw_currency)) else lit ''PLN'')"

section \<open>Seniority levels\<close>

lemma vocab_canonical:
  assumes "map_of (vocab_of seniority_vocab source_name) label = Some c"
  shows "c \<in> set canonical_seniority_levels"
proof -
  have all: "list_all (\<lambda>(_, v). list_all (\<lambda>(_, c). c \<in> set canonical_seniority_levels) v) seniority_vocab"
    by code_simp
  have "(label, c) \<in> set (vocab_of seniority_vocab source_name)" using assms by (rule map_of_SomeD)
  then obtain v where "(source_name, v) \<in> set seniority_vocab" and "(label, c) \<in> set v"
    by (cases "map_of seniority_vocab source_name") (auto simp: vocab_of_def dest: map_of_SomeD)
  with all show ?thesis by (auto simp: list_all_iff)
qed

lemma seniority_items_levels:
  assumes "distinct acc" and "set acc \<subseteq> C" and "\<And>l c. map_of vocab l = Some c \<Longrightarrow> c \<in> C"
  shows "distinct (seniority_items vocab js acc) \<and> set (seniority_items vocab js acc) \<subseteq> C"
  using assms
proof (induction vocab js acc rule: seniority_items.induct)
  case (2 vocab s js acc)
  show ?case
  proof (cases "py_strip s = []")
    case True
    then show ?thesis using 2 by simp
  next
    case False
    show ?thesis
    proof (cases "map_of vocab (py_lower (py_strip s))")
      case None
      then show ?thesis using 2 False by simp
    next
      case (Some c)
      then have "c \<in> C" using 2 by blast
      then show ?thesis using 2(3) [OF False Some] 2(4-6) False Some by simp
    qed
  qed
qed auto

lemma py_join_length: "length (py_join sep xs) \<le> (\<Sum>x\<leftarrow>xs. length x + length sep)"
  by (induction sep xs rule: py_join.induct) auto

text \<open>A normalised seniority is a comma-separated list of distinct canonical levels, at
  least one, and it always fits the 50 characters the offer schema allows.\<close>

theorem normalize_seniority_canonical:
  assumes "normalize_seniority src raw = Some s"
  shows "\<exists>levels. s = py_join (lit '', '') levels \<and> levels \<noteq> [] \<and> distinct levels
    \<and> set levels \<subseteq> set canonical_seniority_levels \<and> length s \<le> 50"
proof -
  obtain levels where s: "s = py_join (lit '', '') levels" "levels \<noteq> []"
    and lv: "distinct levels" "set levels \<subseteq> set canonical_seniority_levels"
    using assms seniority_items_levels [of "[]", OF _ _ vocab_canonical]
    by (auto simp: normalize_seniority_def Let_def split: if_splits)
  let ?w = "\<lambda>x :: pystr. length x + 2"
  have "(\<Sum>x\<leftarrow>levels. ?w x) = (\<Sum>x\<in>set levels. ?w x)"
    using lv(1) by (simp add: sum_list_distinct_conv_sum_set)
  also have "\<dots> \<le> (\<Sum>x\<in>set canonical_seniority_levels. ?w x)"
    using lv(2) by (intro sum_mono2) auto
  also have "\<dots> = (\<Sum>x\<leftarrow>canonical_seniority_levels. ?w x)"
  proof -
    have "distinct canonical_seniority_levels" by code_simp
    then show ?thesis by (simp only: sum_list_distinct_conv_sum_set)
  qed
  also have "\<dots> = 35" by (simp add: canonical_seniority_levels_def)
  finally have "length s \<le> 35"
    using py_join_length [of "lit '', ''" levels] s(1) by simp
  with s lv show ?thesis by (intro exI [of _ levels]) simp
qed

theorem normalize_seniority_canonical_witness:
  "\<exists>levels. lit ''mid, senior'' = py_join (lit '', '') levels \<and> levels \<noteq> []"
proof -
  have "normalize_seniority SOLID_JOBS (JArr [JStr (lit '' Regular''), JStr (lit ''SENIOR''), JInt 3])
      = Some (lit ''mid, senior'')"
    by code_simp
  from normalize_seniority_canonical [OF this] show ?thesis by blast
qed

end
