(* ===== verification/ProfileRepo.thy ===== *)
theory ProfileRepo
  imports Db
begin

text \<open>
  \<open>app/db/profile_repo.py\<close>: the profile table, which of its rows is the active one, and when
  the stored scores of a profile are thrown away. The \<open>data\<close> column is \<open>None\<close> for the empty
  object a new row starts with, and \<open>Some p\<close> for the dump of a profile \<open>p\<close>, all the code
  writes to it.
\<close>

section \<open>Operations\<close>

definition default_profile_name :: pystr where
  "default_profile_name = lit ''active-profile''"

definition get_active_profile :: "db \<Rightarrow> profile_row option" where
  "get_active_profile d = find is_active (profiles d)"

definition get_profile_by_id :: "int \<Rightarrow> db \<Rightarrow> profile_row option" where
  "get_profile_by_id pid d = find (\<lambda>r. profile_id r = pid) (profiles d)"

text \<open>\<open>Profile(**row.data)\<close>\<close>

definition profile_of_row :: "profile_row \<Rightarrow> exn + profile" where
  "profile_of_row r =
     (case profile_data r of
        None \<Rightarrow> Inr empty_profile
      | Some p \<Rightarrow> bindE (check (profile_ok p) ''profile'') (\<lambda>_. Inr p))"

definition set_active :: "int \<Rightarrow> profile_row \<Rightarrow> profile_row" where
  "set_active pid r = r\<lparr>is_active := (profile_id r = pid)\<rparr>"

definition activate_profile :: "int \<Rightarrow> unit op" where
  "activate_profile pid =
     bindS (exec (\<lambda>d. d\<lparr>profiles :=
       update_where (\<lambda>r. profile_id r \<noteq> pid) (\<lambda>r. r\<lparr>is_active := False\<rparr>) (profiles d)\<rparr>)) (\<lambda>_.
     exec (\<lambda>d. d\<lparr>profiles :=
       update_where (\<lambda>r. profile_id r = pid) (\<lambda>r. r\<lparr>is_active := True\<rparr>) (profiles d)\<rparr>))"

definition delete_scores_of :: "int \<Rightarrow> db \<Rightarrow> db" where
  "delete_scores_of pid d =
     d\<lparr>match_scores := delete_where (\<lambda>m. ms_profile_id m = pid) (match_scores d)\<rparr>"

definition invalidate_scores_for_profile :: "int \<Rightarrow> unit op" where
  "invalidate_scores_for_profile pid = exec (delete_scores_of pid)"

definition add_profile_row :: "pystr \<Rightarrow> pystr \<Rightarrow> profile option \<Rightarrow> db \<Rightarrow> db" where
  "add_profile_row name status p d =
     d\<lparr>profiles := profiles d @ [\<lparr>profile_id = next_id d, profile_name = name,
         profile_status = status, is_active = False, profile_data = p\<rparr>],
       next_id := next_id d + 1\<rparr>"

text \<open>\<open>session.add(row)\<close> and \<open>session.flush()\<close>; the name is unique in its table.\<close>

definition unique_profile_names :: "db \<Rightarrow> bool" where
  "unique_profile_names d \<longleftrightarrow> distinct (map profile_name (profiles d))"

definition insert_profile :: "pystr \<Rightarrow> pystr \<Rightarrow> profile option \<Rightarrow> profile_row op" where
  "insert_profile name status p =
     bindS (exec_if unique_profile_names (add_profile_row name status p)
              (OtherExn (lit ''IntegrityError''))) (\<lambda>_.
     query (\<lambda>d. last (profiles d)))"

definition find_target_row :: "int option \<Rightarrow> bool \<Rightarrow> profile_row op" where
  "find_target_row pid activate =
     (case pid of
        Some i \<Rightarrow>
          bindS (query (get_profile_by_id i)) (\<lambda>row.
          case row of None \<Rightarrow> raiseS (ProfileNotFoundError i) | Some r \<Rightarrow> retS r)
      | None \<Rightarrow>
          bindS (query get_active_profile) (\<lambda>row.
          case row of
            Some r \<Rightarrow> retS r
          | None \<Rightarrow>
              bindS (query (\<lambda>d. find (\<lambda>r. profile_name r = default_profile_name) (profiles d))) (\<lambda>row.
              case row of
                Some r \<Rightarrow> retS r
              | None \<Rightarrow> insert_profile default_profile_name
                          (if activate then lit ''active'' else lit ''draft'') None)))"

definition write_profile :: "int \<Rightarrow> profile \<Rightarrow> bool \<Rightarrow> db \<Rightarrow> db" where
  "write_profile pid p activate d =
     d\<lparr>profiles := update_where (\<lambda>r. profile_id r = pid)
         (\<lambda>r. r\<lparr>profile_data := Some p,
                profile_status := (if activate then lit ''active'' else profile_status r)\<rparr>)
         (profiles d)\<rparr>"

definition upsert_profile :: "profile \<Rightarrow> int option \<Rightarrow> bool \<Rightarrow> profile_row op" where
  "upsert_profile p pid activate =
     bindS (find_target_row pid activate) (\<lambda>row.
     let data_changed = (profile_data row \<noteq> Some p) in
     bindS (exec (write_profile (profile_id row) p activate)) (\<lambda>_.
     bindS (if activate then activate_profile (profile_id row) else retS ()) (\<lambda>_.
     bindS (query (get_profile_by_id (profile_id row))) (\<lambda>fresh.
     case fresh of
       None \<Rightarrow> raiseS (OtherExn (lit ''InvalidRequestError''))
     | Some r \<Rightarrow>
         bindS (if is_active r \<and> data_changed then invalidate_scores_for_profile (profile_id r)
                else retS ()) (\<lambda>_.
         retS r)))))"

definition upsert_active_profile :: "profile \<Rightarrow> profile_row op" where
  "upsert_active_profile p = upsert_profile p None True"

text \<open>The name of a draft is \<open>draft-\<close> and a fresh UUID.\<close>

definition create_draft_profile :: "pystr \<Rightarrow> profile \<Rightarrow> profile_row op" where
  "create_draft_profile uuid p = insert_profile (lit ''draft-'' @ uuid) (lit ''draft'') (Some p)"

section \<open>At most one active profile\<close>

definition active_ids :: "db \<Rightarrow> int list" where
  "active_ids d = map profile_id (filter is_active (profiles d))"

definition one_active :: "db \<Rightarrow> bool" where
  "one_active d \<longleftrightarrow> length (active_ids d) \<le> 1"

definition profiles_ok :: "db \<Rightarrow> bool" where
  "profiles_ok d \<longleftrightarrow> db_ok d \<and> one_active d"

lemma activate_rows:
  "update_where (\<lambda>r. profile_id r = pid) (\<lambda>r. r\<lparr>is_active := True\<rparr>)
     (update_where (\<lambda>r. profile_id r \<noteq> pid) (\<lambda>r. r\<lparr>is_active := False\<rparr>) rows)
   = map (set_active pid) rows"
  by (simp add: update_where_def set_active_def)

lemma activate_run:
  "\<not> tx_aborted s \<Longrightarrow> activate_profile pid s
     = (Inr (), s\<lparr>working := (working s)\<lparr>profiles := map (set_active pid) (profiles (working s))\<rparr>\<rparr>)"
  by (simp add: activate_profile_def run_simps activate_rows)

lemma set_active_simps [simp]:
  "profile_id (set_active pid r) = profile_id r" "profile_name (set_active pid r) = profile_name r"
  "profile_data (set_active pid r) = profile_data r" "is_active (set_active pid r) \<longleftrightarrow> profile_id r = pid"
  "profile_status (set_active pid r) = profile_status r"
  by (simp_all add: set_active_def)

lemma filter_unique:
  "distinct (map g xs) \<Longrightarrow> length (filter (\<lambda>x. g x = v) xs) \<le> 1"
proof (induction xs)
  case (Cons x xs)
  show ?case
  proof (cases "g x = v")
    case True
    have "g y \<noteq> v" if "y \<in> set xs" for y
      using Cons.prems True that by (metis distinct.simps(2) image_eqI list.map(2) set_map)
    then have "filter (\<lambda>y. g y = v) xs = []" by (simp add: filter_empty_conv)
    then show ?thesis by simp
  next
    case False
    then show ?thesis using Cons by simp
  qed
qed simp

lemma one_active_set:
  "distinct (map profile_id (profiles d)) \<Longrightarrow>
   one_active (d\<lparr>profiles := map (set_active pid) (profiles d)\<rparr>)"
  using filter_unique [of profile_id "profiles d" pid]
  by (simp add: one_active_def active_ids_def filter_map o_def)

lemma db_ok_same_profile_keys:
  assumes "db_ok d" and "map profile_id rows = map profile_id (profiles d)"
    and "map profile_name rows = map profile_name (profiles d)"
  shows "db_ok (d\<lparr>profiles := rows\<rparr>)"
proof -
  have "profile_id ` set rows = profile_id ` set (profiles d)"
    using assms(2) by (metis set_map)
  then show ?thesis
    using assms by (simp add: db_ok_def keys_ok_def ids_below_def refs_simps)
qed

lemma write_profile_keys [simp]:
  "map profile_id (profiles (write_profile pid p a d)) = map profile_id (profiles d)"
  "map profile_name (profiles (write_profile pid p a d)) = map profile_name (profiles d)"
  by (simp_all add: write_profile_def table_simps)

lemma write_profile_ok: "profiles_ok d \<Longrightarrow> profiles_ok (write_profile pid p a d)"
proof -
  assume ok: "profiles_ok d"
  have "active_ids (write_profile pid p a d) = active_ids d"
    unfolding active_ids_def write_profile_def update_where_def
    by (simp add: filter_map o_def if_distrib [of is_active] cong: if_cong)
  moreover have "db_ok (write_profile pid p a d)"
    using ok db_ok_same_profile_keys [of d "profiles (write_profile pid p a d)"]
    by (simp add: profiles_ok_def) (simp add: write_profile_def)
  ultimately show ?thesis using ok by (simp add: profiles_ok_def one_active_def)
qed

lemma set_active_ok:
  "profiles_ok d \<Longrightarrow> profiles_ok (d\<lparr>profiles := map (set_active pid) (profiles d)\<rparr>)"
  using db_ok_same_profile_keys [of d "map (set_active pid) (profiles d)"]
  by (simp add: profiles_ok_def one_active_set db_ok_def keys_ok_def o_def)

lemma delete_scores_ok: "profiles_ok d \<Longrightarrow> profiles_ok (delete_scores_of pid d)"
  by (auto simp: profiles_ok_def one_active_def active_ids_def delete_scores_of_def db_ok_def keys_ok_def
      ids_below_def refs_simps table_simps list_all_iff)

lemma add_profile_ok:
  assumes "profiles_ok d" and "unique_profile_names (add_profile_row name st p d)"
  shows "profiles_ok (add_profile_row name st p d)"
proof -
  have "next_id d \<notin> profile_id ` set (profiles d)"
    using assms(1) ids_in_fresh by (fastforce simp: profiles_ok_def db_ok_def ids_below_def)
  then show ?thesis
    using assms
    by (auto simp: profiles_ok_def one_active_def active_ids_def add_profile_row_def db_ok_def keys_ok_def
        ids_below_def refs_simps table_simps unique_profile_names_def list_all_iff)
qed

lemma keeps_activate [keeps_intros]: "keeps profiles_ok (activate_profile pid)"
  unfolding keeps_def
proof (intro allI impI)
  fix s assume inv: "session_inv profiles_ok s"
  show "session_inv profiles_ok (snd (activate_profile pid s))"
  proof (cases "tx_aborted s")
    case True
    then show ?thesis using inv by (simp add: activate_profile_def run_simps)
  next
    case False
    then show ?thesis using inv by (simp add: activate_run session_inv_def set_active_ok)
  qed
qed

lemma keeps_insert_profile [keeps_intros]: "keeps profiles_ok (insert_profile name st p)"
  unfolding insert_profile_def by (intro keeps_intros add_profile_ok)

lemma keeps_upsert_profile [keeps_intros]: "keeps profiles_ok (upsert_profile p pid activate)"
  unfolding upsert_profile_def find_target_row_def invalidate_scores_for_profile_def Let_def
  by (intro keeps_intros write_profile_ok delete_scores_ok)

text \<open>C17: Saving a profile, activating one and creating a draft keep at most one profile active,
  and keep the keys and references of the tables.\<close>

theorem profile_ops_one_active:
  assumes "session_inv profiles_ok s"
  shows "session_inv profiles_ok (snd (upsert_profile p pid activate s))
    \<and> session_inv profiles_ok (snd (activate_profile i s))
    \<and> session_inv profiles_ok (snd (create_draft_profile uuid p s))"
  using assms keeps_upsert_profile keeps_activate keeps_insert_profile
  unfolding create_draft_profile_def keeps_def by blast+

section \<open>What a save does\<close>

lemma find_by_id_map:
  assumes "\<And>r. profile_id (f r) = profile_id r"
  shows "find (\<lambda>r. profile_id r = i) (map f rows) = map_option f (find (\<lambda>r. profile_id r = i) rows)"
  using assms by (induction rows) auto

lemma find_target_by_id:
  "\<not> tx_aborted s \<Longrightarrow> get_profile_by_id i (working s) = Some r \<Longrightarrow>
   find_target_row (Some i) activate s = (Inr r, s)"
  by (simp add: find_target_row_def run_simps)

lemma get_profile_id: "get_profile_by_id i d = Some r \<Longrightarrow> profile_id r = i"
  by (auto simp: get_profile_by_id_def dest: find_Some_in_set)

lemma upsert_by_id_run:
  assumes "\<not> tx_aborted s" and "get_profile_by_id i (working s) = Some r"
  shows "upsert_profile p (Some i) activate s =
    (let r' = r\<lparr>profile_data := Some p,
               profile_status := (if activate then lit ''active'' else profile_status r),
               is_active := (activate \<or> is_active r)\<rparr>;
         d1 = write_profile i p activate (working s);
         d2 = (if activate then d1\<lparr>profiles := map (set_active i) (profiles d1)\<rparr> else d1);
         d3 = (if is_active r' \<and> profile_data r \<noteq> Some p then delete_scores_of i d2 else d2)
     in (Inr r', s\<lparr>working := d3\<rparr>))"
proof -
  have id: "profile_id r = i" using assms(2) by (rule get_profile_id)
  have w: "find (\<lambda>r. profile_id r = i) (profiles (write_profile i p activate (working s)))
      = Some (r\<lparr>profile_data := Some p,
               profile_status := (if activate then lit ''active'' else profile_status r)\<rparr>)"
    using assms(2) id
    by (simp add: get_profile_by_id_def write_profile_def update_where_def find_by_id_map)
  have run_act: "activate_profile i (s\<lparr>working := d\<rparr>)
      = (Inr (), s\<lparr>working := d\<lparr>profiles := map (set_active i) (profiles d)\<rparr>\<rparr>)" for d
    using assms(1) by (simp add: activate_run)
  show ?thesis
  proof (cases activate)
    case True
    then show ?thesis
      using assms w id
      by (simp add: upsert_profile_def find_target_by_id run_simps Let_def run_act find_by_id_map
          invalidate_scores_for_profile_def get_profile_by_id_def set_active_def)
  next
    case False
    then show ?thesis
      using assms w id
      by (simp add: upsert_profile_def find_target_by_id run_simps Let_def
          invalidate_scores_for_profile_def get_profile_by_id_def)
  qed
qed

lemma filter_eq_single: "i \<in> set xs \<Longrightarrow> distinct xs \<Longrightarrow> filter (\<lambda>x. x = i) xs = [i]"
  by (induction xs) (auto simp: filter_empty_conv)

lemma active_after: "i \<in> set (map profile_id rows) \<Longrightarrow> distinct (map profile_id rows) \<Longrightarrow>
  map profile_id (filter is_active (map (set_active i) rows)) = [i]"
proof -
  assume *: "i \<in> set (map profile_id rows)" "distinct (map profile_id rows)"
  have "map profile_id (filter is_active (map (set_active i) rows))
      = filter (\<lambda>x. x = i) (map profile_id rows)"
    by (simp add: filter_map o_def)
  then show ?thesis using filter_eq_single [OF *] by simp
qed

lemma save_and_activate:
  assumes "\<not> tx_aborted s" and "get_profile_by_id i (working s) = Some r" and "profiles_ok (working s)"
  shows "\<exists>r' t. upsert_profile p (Some i) True s = (Inr r', t)
    \<and> active_ids (working t) = [i] \<and> get_profile_by_id i (working t) = Some r'
    \<and> profile_data r' = Some p \<and> profile_status r' = lit ''active''
    \<and> match_scores (working t) =
        (if profile_data r \<noteq> Some p
         then filter (\<lambda>m. ms_profile_id m \<noteq> i) (match_scores (working s))
         else match_scores (working s))
    \<and> profile_id r' = i \<and> is_active r' \<and> \<not> tx_aborted t
    \<and> map profile_id (profiles (working t)) = map profile_id (profiles (working s))"
proof -
  let ?d1 = "write_profile i p True (working s)"
  let ?rows = "map (set_active i) (profiles ?d1)"
  have id: "profile_id r = i" using assms(2) by (rule get_profile_id)
  have "r \<in> set (profiles (working s))"
    using assms(2) by (auto simp: get_profile_by_id_def dest: find_Some_in_set)
  then have mem: "i \<in> set (map profile_id (profiles ?d1))" using id by auto
  have dist: "distinct (map profile_id (profiles ?d1))"
    using assms(3) by (simp add: profiles_ok_def db_ok_def keys_ok_def)
  note act = active_after [OF mem dist]
  let ?r = "r\<lparr>profile_data := Some p, profile_status := lit ''active''\<rparr>"
  have "get_profile_by_id i ?d1 = Some ?r"
    using assms(2) id
    by (simp add: get_profile_by_id_def write_profile_def update_where_def find_by_id_map)
  then have row: "find (\<lambda>x. profile_id x = i) ?rows = Some (?r\<lparr>is_active := True\<rparr>)"
    using id by (simp add: get_profile_by_id_def find_by_id_map set_active_def)
  have ms: "match_scores ?d1 = match_scores (working s)" by (simp add: write_profile_def)
  show ?thesis
    unfolding upsert_by_id_run [OF assms(1,2)] Let_def
    using act row ms id assms(1)
    by (auto simp: active_ids_def get_profile_by_id_def delete_scores_of_def delete_where_def o_def)
qed

text \<open>Saving and activating a profile by its id makes exactly that profile active with
  exactly that data; when the data changed, every stored score of the profile is gone, and the
  scores of the other profiles stay.\<close>

theorem upsert_activate_spec:
  assumes "\<not> tx_aborted s" and "get_profile_by_id i (working s) = Some r" and "profiles_ok (working s)"
  shows "\<exists>r' t. upsert_profile p (Some i) True s = (Inr r', t)
    \<and> active_ids (working t) = [i] \<and> get_profile_by_id i (working t) = Some r'
    \<and> profile_data r' = Some p \<and> profile_status r' = lit ''active''
    \<and> match_scores (working t) =
        (if profile_data r \<noteq> Some p
         then filter (\<lambda>m. ms_profile_id m \<noteq> i) (match_scores (working s))
         else match_scores (working s))"
  using save_and_activate [OF assms] by metis

text \<open>Editing a profile while it is inactive keeps its old scores for good: saving changed
  data without activating, and then saving the same data again to activate the profile, makes
  it the active profile with the new data and leaves every score of the old data in place.\<close>

theorem inactive_edit_keeps_stale_scores:
  assumes "\<not> tx_aborted s" and "get_profile_by_id i (working s) = Some r" and "\<not> is_active r"
    and "profile_data r \<noteq> Some p" and "profiles_ok (working s)"
  shows "\<exists>r1 t r2 u. upsert_profile p (Some i) False s = (Inr r1, t)
    \<and> upsert_profile p (Some i) True t = (Inr r2, u)
    \<and> profile_data r2 = Some p \<and> is_active r2
    \<and> match_scores (working u) = match_scores (working s)"
proof -
  let ?d = "write_profile i p False (working s)"
  let ?t = "s\<lparr>working := ?d\<rparr>"
  have id: "profile_id r = i" using assms(2) by (rule get_profile_id)
  have one: "upsert_profile p (Some i) False s = (Inr (r\<lparr>profile_data := Some p\<rparr>), ?t)"
    using assms by (simp add: upsert_by_id_run Let_def)
  have row: "get_profile_by_id i (working ?t) = Some (r\<lparr>profile_data := Some p\<rparr>)"
    using assms(2) id
    by (simp add: get_profile_by_id_def write_profile_def update_where_def find_by_id_map)
  have tx: "\<not> tx_aborted ?t" using assms(1) by simp
  have two: "\<exists>r2 u. upsert_profile p (Some i) True ?t = (Inr r2, u) \<and> profile_data r2 = Some p
      \<and> is_active r2 \<and> match_scores (working u) = match_scores (working ?t)"
    unfolding upsert_by_id_run [OF tx row] Let_def by (simp add: write_profile_def)
  have "match_scores (working ?t) = match_scores (working s)" by (simp add: write_profile_def)
  with one two show ?thesis by metis
qed

section \<open>Two profiles\<close>

definition two_profiles :: db where
  "two_profiles = empty_db\<lparr>next_id := 5,
     profiles := [\<lparr>profile_id = 1, profile_name = lit ''a'', profile_status = lit ''active'',
                   is_active = True, profile_data = Some empty_profile\<rparr>,
                  \<lparr>profile_id = 2, profile_name = lit ''b'', profile_status = lit ''draft'',
                   is_active = False, profile_data = Some empty_profile\<rparr>]\<rparr>"

definition remote_profile :: profile where
  "remote_profile = empty_profile\<lparr>remote_preference := Some True\<rparr>"

lemma two_profiles_ok [simp]: "profiles_ok two_profiles"
  by (simp add: two_profiles_def empty_db_def profiles_ok_def db_ok_def keys_ok_def ids_below_def
      ids_in_def refs_simps one_active_def active_ids_def)

lemma two_profiles_session [simp]:
  "session_inv profiles_ok (open_session two_profiles)" "\<not> tx_aborted (open_session two_profiles)"
  "working (open_session two_profiles) = two_profiles"
  by (simp_all add: session_inv_def open_session_def)

theorem profile_ops_one_active_witness:
  "session_inv profiles_ok (snd (upsert_profile remote_profile (Some 2) True (open_session two_profiles)))"
  using profile_ops_one_active [OF two_profiles_session(1)] by blast

theorem upsert_activate_spec_witness:
  "\<exists>r t. upsert_profile remote_profile (Some 2) True (open_session two_profiles) = (Inr r, t)
     \<and> active_ids (working t) = [2]"
proof -
  have "get_profile_by_id 2 (working (open_session two_profiles)) = Some (profiles two_profiles ! 1)"
    by code_simp
  from upsert_activate_spec [OF two_profiles_session(2) this, of remote_profile] show ?thesis
    unfolding two_profiles_session(3) using two_profiles_ok by blast
qed

theorem inactive_edit_keeps_stale_scores_witness:
  "\<exists>r1 t. upsert_profile remote_profile (Some 2) False (open_session two_profiles) = (Inr r1, t)"
proof -
  have "get_profile_by_id 2 (working (open_session two_profiles)) = Some (profiles two_profiles ! 1)"
    and "\<not> is_active (profiles two_profiles ! 1)"
    and "profile_data (profiles two_profiles ! 1) \<noteq> Some remote_profile"
    by code_simp+
  from inactive_edit_keeps_stale_scores [OF two_profiles_session(2) this] show ?thesis by auto
qed

end
