(* ===== verification/Registry.thy ===== *)
theory Registry
  imports Runner Normalize ProfileRepo
begin

text \<open>
  \<open>app/ingestion/registry.py\<close>, \<open>app/ingestion/fetch_scope.py\<close> and \<open>app/ingestion/lifecycle.py\<close>
  with \<open>app/ingestion/service.py\<close>: the table of connectors, the scope of a run, and the one
  life cycle every way of running a connector goes through. What a connector does when it is
  dispatched is an argument of the definitions; its shared part is the pagination loop.
\<close>

section \<open>The registry\<close>

record connector_spec =
  spec_name :: pystr
  spec_label :: pystr
  seed_config_overrides :: jdict
  supports_fetch_scope :: bool
  has_detail_retry :: bool

definition interval_schedule :: "int \<Rightarrow> json" where
  "interval_schedule n = JObj [(lit ''type'', JStr (lit ''interval'')), (lit ''seconds'', JInt n)]"

definition remotive_default_categories :: json where
  "remotive_default_categories =
     JArr (map (JStr \<circ> lit) [''software-development'', ''devops'', ''qa'', ''data''])"

definition connector_registry :: "connector_spec list" where
  "connector_registry =
    [\<lparr>spec_name = SOLID_JOBS, spec_label = lit ''SOLID.Jobs'', seed_config_overrides = [],
      supports_fetch_scope = True, has_detail_retry = False\<rparr>,
     \<lparr>spec_name = JUSTJOINIT, spec_label = lit ''JustJoin.it'', seed_config_overrides = [],
      supports_fetch_scope = False, has_detail_retry = False\<rparr>,
     \<lparr>spec_name = NOFLUFFJOBS, spec_label = lit ''NoFluffJobs'', seed_config_overrides = [],
      supports_fetch_scope = False, has_detail_retry = False\<rparr>,
     \<lparr>spec_name = BULLDOGJOB, spec_label = lit ''Bulldogjob'', seed_config_overrides = [],
      supports_fetch_scope = True, has_detail_retry = True\<rparr>,
     \<lparr>spec_name = ROCKET_JOBS, spec_label = lit ''Rocket Jobs'', seed_config_overrides = [],
      supports_fetch_scope = False, has_detail_retry = True\<rparr>,
     \<lparr>spec_name = PRACUJ, spec_label = lit ''Pracuj.pl'',
      seed_config_overrides = [(lit ''schedule'', interval_schedule 3600),
                               (lit ''category_filter'', JStr (lit ''it''))],
      supports_fetch_scope = True, has_detail_retry = True\<rparr>,
     \<lparr>spec_name = REMOTEOK, spec_label = lit ''RemoteOK'',
      seed_config_overrides = [(lit ''schedule'', interval_schedule 120)],
      supports_fetch_scope = False, has_detail_retry = False\<rparr>,
     \<lparr>spec_name = REMOTIVE, spec_label = lit ''Remotive'',
      seed_config_overrides = [(lit ''schedule'', interval_schedule 21600),
                               (lit ''categories'', remotive_default_categories)],
      supports_fetch_scope = False, has_detail_retry = False\<rparr>,
     \<lparr>spec_name = WE_WORK_REMOTELY, spec_label = lit ''We Work Remotely'', seed_config_overrides = [],
      supports_fetch_scope = False, has_detail_retry = False\<rparr>]"

definition registry_names :: "pystr list" where
  "registry_names = map spec_name connector_registry"

definition find_spec :: "pystr \<Rightarrow> connector_spec option" where
  "find_spec c = find (\<lambda>k. spec_name k = c) connector_registry"

lemma registry_names_distinct: "distinct registry_names"
  by code_simp

lemma find_spec_name: "find_spec c = Some k \<Longrightarrow> spec_name k = c"
  by (auto simp: find_spec_def dest: find_Some_in_set)

lemma find_spec_iff: "(\<exists>k. find_spec c = Some k) \<longleftrightarrow> c \<in> set registry_names"
  by (cases "find_spec c") (auto simp: find_spec_def registry_names_def find_None_iff dest: find_Some_in_set)

text \<open>\<open>dispatch_ingestion\<close>; \<open>run_connector\<close> stands for the \<open>dispatch\<close> fields of the registry.\<close>

type_synonym connector_runner = "pystr \<Rightarrow> source_row \<Rightarrow> bool \<Rightarrow> ingestion_result op"

definition dispatch_ingestion :: "connector_runner \<Rightarrow> source_row \<Rightarrow> bool \<Rightarrow> ingestion_result op" where
  "dispatch_ingestion run_connector source force_refresh =
     (case src_connector source of
        None \<Rightarrow> raiseS (AssertionError (lit ''source.connector must be resolved before dispatch''))
      | Some c \<Rightarrow>
          if c \<in> set registry_names then run_connector c source force_refresh
          else raiseS (KeyError c))"

definition find_source :: "pystr \<Rightarrow> db \<Rightarrow> source_row option" where
  "find_source c d = find (\<lambda>r. src_connector r = Some c) (sources d)"

definition resolve_source_by_connector :: "pystr \<Rightarrow> source_row op" where
  "resolve_source_by_connector c =
     (if c \<notin> set registry_names then raiseS (UnknownConnectorError c)
      else bindS (query (find_source c)) (\<lambda>row.
           case row of None \<Rightarrow> raiseS (SourceNotConfiguredError c) | Some r \<Rightarrow> retS r))"

section \<open>Fetch scope\<close>

datatype scope_mode = ScopeAll | ScopeFiltered

record fetch_scope_resolution =
  scope_mode :: scope_mode
  scope_terms :: "pystr list"
  scope_blocked_reason :: "pystr option"

definition resolve_fetch_scope_mode :: "json \<Rightarrow> scope_mode" where
  "resolve_fetch_scope_mode fetch_scope =
     (case fetch_scope of
        JObj d \<Rightarrow> if jget d (lit ''mode'') = JStr (lit ''filtered'') then ScopeFiltered else ScopeAll
      | _ \<Rightarrow> ScopeAll)"

definition resolve_fetch_scope :: "scope_mode \<Rightarrow> profile option \<Rightarrow> fetch_scope_resolution" where
  "resolve_fetch_scope mode p =
     (if mode \<noteq> ScopeFiltered
      then \<lparr>scope_mode = ScopeAll, scope_terms = [], scope_blocked_reason = None\<rparr>
      else (case p of
              None \<Rightarrow> \<lparr>scope_mode = ScopeFiltered, scope_terms = [], scope_blocked_reason =
                Some (lit ''fetch scope is 'filtered' but no active profile is set'')\<rparr>
            | Some q \<Rightarrow>
                (let terms = hard_skill_names q in
                 if terms = []
                 then \<lparr>scope_mode = ScopeFiltered, scope_terms = [], scope_blocked_reason =
                   Some (lit ''fetch scope is 'filtered' but the active profile has no starred (hard) skills'')\<rparr>
                 else \<lparr>scope_mode = ScopeFiltered, scope_terms = terms, scope_blocked_reason = None\<rparr>)))"

definition resolve_fetch_scope_terms :: "jdict \<Rightarrow> fetch_scope_resolution op" where
  "resolve_fetch_scope_terms config =
     (if resolve_fetch_scope_mode (jget config (lit ''fetch_scope'')) \<noteq> ScopeFiltered
      then retS \<lparr>scope_mode = ScopeAll, scope_terms = [], scope_blocked_reason = None\<rparr>
      else
        bindS (query get_active_profile) (\<lambda>row.
        case row of
          None \<Rightarrow> retS (resolve_fetch_scope ScopeFiltered None)
        | Some r \<Rightarrow>
            bindS (liftE (profile_of_row r)) (\<lambda>p.
            retS (resolve_fetch_scope ScopeFiltered (Some p)))))"

text \<open>A scope resolution either fetches everything, or is blocked with a reason and no
  terms, or filters by the names of the profile's hard skills, at least one.\<close>

theorem resolve_fetch_scope_outcomes:
  shows "(scope_mode (resolve_fetch_scope m p) = ScopeAll
       \<and> scope_terms (resolve_fetch_scope m p) = [] \<and> scope_blocked_reason (resolve_fetch_scope m p) = None
       \<and> m = ScopeAll)
    \<or> (scope_mode (resolve_fetch_scope m p) = ScopeFiltered \<and> m = ScopeFiltered
       \<and> (case scope_blocked_reason (resolve_fetch_scope m p) of
            Some _ \<Rightarrow> scope_terms (resolve_fetch_scope m p) = []
              \<and> (p = None \<or> hard_skill_names (the p) = [])
          | None \<Rightarrow> p \<noteq> None \<and> scope_terms (resolve_fetch_scope m p) = hard_skill_names (the p)
              \<and> hard_skill_names (the p) \<noteq> []))"
  by (cases m; cases p) (auto simp: resolve_fetch_scope_def Let_def)

end
