(* ===== verification/Matcher.thy ===== *)
theory Matcher
  imports TextMatch Registry
begin

text \<open>
  \<open>app/llm/matcher.py\<close>: scoring one offer against a profile, and the batch loop that stores the
  scores. The language model is an argument that answers with raw dimensions or raises;
  everything done with its answer (clamping, the salary rule, the weighted total, the two
  caps, the stored row) is here. Dimensions and weights are rationals.
\<close>

section \<open>Dimensions\<close>

datatype dimension =
    Skill_match | Salary_fit | Seniority_fit | Work_mode_location | Contract_type | Red_flags

fun dimension_name :: "dimension \<Rightarrow> pystr" where
  "dimension_name Skill_match = lit ''skill_match''"
| "dimension_name Salary_fit = lit ''salary_fit''"
| "dimension_name Seniority_fit = lit ''seniority_fit''"
| "dimension_name Work_mode_location = lit ''work_mode_location''"
| "dimension_name Contract_type = lit ''contract_type''"
| "dimension_name Red_flags = lit ''red_flags''"

definition dimension_weights :: "(dimension \<times> rat) list" where
  "dimension_weights =
    [(Skill_match, 30 / 100), (Salary_fit, 25 / 100), (Seniority_fit, 15 / 100),
     (Work_mode_location, 15 / 100), (Contract_type, 10 / 100), (Red_flags, 5 / 100)]"

definition deal_breaker_score_cap :: int where "deal_breaker_score_cap = 40"
definition hard_skill_miss_cap :: int where "hard_skill_miss_cap = 25"
definition conservative_salary_score_cap :: rat where "conservative_salary_score_cap = 1 / 2"

record matcher_output =
  skill_match :: rat
  salary_fit :: rat
  seniority_fit :: rat
  work_mode_location :: rat
  out_contract_type :: rat
  red_flags :: rat
  rationale :: pystr

fun dim_value :: "matcher_output \<Rightarrow> dimension \<Rightarrow> rat" where
  "dim_value m Skill_match = skill_match m"
| "dim_value m Salary_fit = salary_fit m"
| "dim_value m Seniority_fit = seniority_fit m"
| "dim_value m Work_mode_location = work_mode_location m"
| "dim_value m Contract_type = out_contract_type m"
| "dim_value m Red_flags = red_flags m"

text \<open>\<open>_clamp_to_unit_interval\<close>, which runs before the bounds of the six fields are checked.\<close>

definition clamp_to_unit_interval :: "rat \<Rightarrow> rat" where
  "clamp_to_unit_interval v = max 0 (min 1 v)"

definition matcher_output_model :: "matcher_output \<Rightarrow> matcher_output" where
  "matcher_output_model m =
     \<lparr>skill_match = clamp_to_unit_interval (skill_match m),
      salary_fit = clamp_to_unit_interval (salary_fit m),
      seniority_fit = clamp_to_unit_interval (seniority_fit m),
      work_mode_location = clamp_to_unit_interval (work_mode_location m),
      out_contract_type = clamp_to_unit_interval (out_contract_type m),
      red_flags = clamp_to_unit_interval (red_flags m),
      rationale = py_strip (rationale m)\<rparr>"

definition weighted_total :: "matcher_output \<Rightarrow> rat" where
  "weighted_total m = (\<Sum>(d, w) \<leftarrow> dimension_weights. dim_value m d * w)"

section \<open>Text checks\<close>

definition opt_text :: "pystr option \<Rightarrow> pystr list" where
  "opt_text v = (case v of None \<Rightarrow> [] | Some s \<Rightarrow> if s = [] then [] else [s])"

definition offer_haystack :: "offer \<Rightarrow> pystr" where
  "offer_haystack o1 =
     py_lower (py_join (lit '' '')
       (opt_text (Some (title o1)) @ opt_text (description o1) @ opt_text (Some (company o1))
        @ opt_text (contract_type o1) @ opt_text (location o1)))"

definition phrase_hits :: "pystr \<Rightarrow> pystr \<Rightarrow> bool" where
  "phrase_hits phrase haystack \<longleftrightarrow>
     tokenize phrase \<noteq> [] \<and> re_search_tokens (tokenize phrase) haystack"

definition deal_breaker_hit :: "profile \<Rightarrow> offer \<Rightarrow> pystr option" where
  "deal_breaker_hit p o1 = find (\<lambda>d. phrase_hits d (offer_haystack o1)) (deal_breakers p)"

definition missing_hard_skills :: "profile \<Rightarrow> offer \<Rightarrow> bool" where
  "missing_hard_skills p o1 \<longleftrightarrow>
     hard_skill_names p \<noteq> []
     \<and> list_all (\<lambda>h. \<not> phrase_hits h (offer_haystack o1)) (hard_skill_names p)"

section \<open>Scoring one offer\<close>

definition cap_score_for_deal_breaker :: "int \<Rightarrow> int" where
  "cap_score_for_deal_breaker n = min n deal_breaker_score_cap"

definition cap_score_for_missing_hard_skill :: "int \<Rightarrow> int" where
  "cap_score_for_missing_hard_skill n = min n hard_skill_miss_cap"

definition apply_missing_salary_conservatism :: "matcher_output \<Rightarrow> profile \<Rightarrow> matcher_output" where
  "apply_missing_salary_conservatism m p =
     (if pref_salary_min p = None \<and> pref_salary_target p = None then
        (let m1 = m\<lparr>salary_fit := min (salary_fit m) conservative_salary_score_cap\<rparr> in
         if py_contains (lit ''salary'') (py_lower (rationale m1)) then m1
         else m1\<lparr>rationale := rationale m1 @ lit '' No salary preference was provided in the profile, so salary fit was scored conservatively.''\<rparr>)
      else m)"

text \<open>\<open>chain.ainvoke\<close>: the model's raw answer, validated by the output schema; any exception of
  the call becomes a \<open>MatcherError\<close>. \<open>_describe\<close> uses the class name of an exception without text.\<close>

type_synonym chain = "profile \<Rightarrow> offer \<Rightarrow> exn + matcher_output"

definition describe_exn :: "exn \<Rightarrow> pystr" where
  "describe_exn e = (if exn_text e = [] then lit ''Exception'' else exn_text e)"

definition invoke_chain :: "chain \<Rightarrow> profile \<Rightarrow> offer \<Rightarrow> exn + matcher_output" where
  "invoke_chain chain p o1 =
     (case chain p o1 of
        Inl e \<Rightarrow> Inl (MatcherError (lit ''LangChain matcher failed: '' @ describe_exn e))
      | Inr m \<Rightarrow> Inr (matcher_output_model m))"

definition score_offer :: "chain \<Rightarrow> int \<Rightarrow> int \<Rightarrow> profile \<Rightarrow> offer \<Rightarrow> exn + match_score" where
  "score_offer chain oid pid p o1 =
     bindE (invoke_chain chain p o1) (\<lambda>raw.
     let out = apply_missing_salary_conservatism raw p;
         percent0 = py_round (weighted_total out * 100);
         hit = deal_breaker_hit p o1;
         percent1 = (case hit of None \<Rightarrow> percent0 | Some _ \<Rightarrow> cap_score_for_deal_breaker percent0);
         text1 = (case hit of None \<Rightarrow> rationale out
                  | Some d \<Rightarrow> rationale out @ lit '' Deal-breaker matched: '' @ [39] @ d @ [39]
                      @ lit ''; score capped at 40.'');
         missing = missing_hard_skills p o1;
         percent2 = (if missing then cap_score_for_missing_hard_skill percent1 else percent1);
         text2 = (if missing
                  then text1 @ lit '' None of the required hard skills (''
                       @ py_join (lit '', '') (hard_skill_names p)
                       @ lit '') were found in this offer; score capped at 25.''
                  else text1)
     in match_score_model
          \<lparr>score_offer_id = oid, score_profile_id = pid, score_engine = lit ''langchain'',
           score_percent = percent2,
           score_dimensions = map (\<lambda>(d, _). (dimension_name d, dim_value out d)) dimension_weights,
           score_rationale = text2\<rparr>)"

section \<open>Bounds and caps\<close>

definition unit_output :: "matcher_output \<Rightarrow> bool" where
  "unit_output m \<longleftrightarrow> (\<forall>d. 0 \<le> dim_value m d \<and> dim_value m d \<le> 1)"

lemma clamp_bounds [simp]: "0 \<le> clamp_to_unit_interval v" "clamp_to_unit_interval v \<le> 1"
  by (simp_all add: clamp_to_unit_interval_def)

lemma unit_output_iff:
  "unit_output m \<longleftrightarrow> 0 \<le> skill_match m \<and> skill_match m \<le> 1 \<and> 0 \<le> salary_fit m \<and> salary_fit m \<le> 1
     \<and> 0 \<le> seniority_fit m \<and> seniority_fit m \<le> 1 \<and> 0 \<le> work_mode_location m
     \<and> work_mode_location m \<le> 1 \<and> 0 \<le> out_contract_type m \<and> out_contract_type m \<le> 1
     \<and> 0 \<le> red_flags m \<and> red_flags m \<le> 1"
proof -
  have "(\<forall>d. P d) \<longleftrightarrow> P Skill_match \<and> P Salary_fit \<and> P Seniority_fit \<and> P Work_mode_location
      \<and> P Contract_type \<and> P Red_flags" for P
    by (metis dimension.exhaust)
  then show ?thesis by (simp add: unit_output_def)
qed

lemma unit_output_model: "unit_output (matcher_output_model m)"
  by (simp add: unit_output_iff matcher_output_model_def)

lemma unit_output_salary: "unit_output m \<Longrightarrow> unit_output (apply_missing_salary_conservatism m p)"
  by (auto simp: unit_output_iff apply_missing_salary_conservatism_def conservative_salary_score_cap_def
      Let_def)

lemma weighted_total_bounds:
  assumes "unit_output m"
  shows "0 \<le> weighted_total m" and "weighted_total m \<le> 1"
  using assms by (simp_all add: unit_output_iff weighted_total_def dimension_weights_def)

lemma percent_bounds:
  assumes "unit_output m"
  shows "0 \<le> py_round (weighted_total m * 100)" and "py_round (weighted_total m * 100) \<le> 100"
proof -
  have "of_int 0 \<le> weighted_total m * 100" and "weighted_total m * 100 \<le> of_int 100"
    using weighted_total_bounds [OF assms] by simp_all
  then show "0 \<le> py_round (weighted_total m * 100)" and "py_round (weighted_total m * 100) \<le> 100"
    by (rule py_round_bounds)+
qed

text \<open>C11: Whatever the language model answers, scoring an offer with positive ids either gives a
  valid score or the \<open>MatcherError\<close> of a failed call: the percentage lies between 0 and 100,
  at most 40 when a deal-breaker occurs in the offer, at most 25 when the profile has hard
  skills and none of them does, and the stored dimensions lie between 0 and 1.\<close>

theorem score_offer_bounds:
  assumes "0 < oid" and "0 < pid"
  shows "(\<exists>e t. chain p o1 = Inl e \<and> score_offer chain oid pid p o1 = Inl (MatcherError t))
    \<or> (\<exists>m. score_offer chain oid pid p o1 = Inr m
         \<and> score_offer_id m = oid \<and> score_profile_id m = pid
         \<and> 0 \<le> score_percent m \<and> score_percent m \<le> 100
         \<and> (deal_breaker_hit p o1 \<noteq> None \<longrightarrow> score_percent m \<le> 40)
         \<and> (missing_hard_skills p o1 \<longrightarrow> score_percent m \<le> 25)
         \<and> map fst (score_dimensions m) = map (dimension_name \<circ> fst) dimension_weights
         \<and> (\<forall>(k, v) \<in> set (score_dimensions m). 0 \<le> v \<and> v \<le> 1))"
proof (cases "chain p o1")
  case (Inl e)
  then show ?thesis by (auto simp: score_offer_def invoke_chain_def)
next
  case (Inr raw)
  define out where "out = apply_missing_salary_conservatism (matcher_output_model raw) p"
  have unit: "unit_output out" unfolding out_def by (intro unit_output_salary unit_output_model)
  note pb = percent_bounds [OF unit]
  have dims: "\<forall>(k, v) \<in> set (map (\<lambda>(d, _). (dimension_name d, dim_value out d)) dimension_weights).
      0 \<le> v \<and> v \<le> 1"
    using unit by (auto simp: unit_output_def)
  show ?thesis
    using Inr assms pb dims
    by (cases "deal_breaker_hit p o1")
      (auto simp: score_offer_def invoke_chain_def Let_def out_def [symmetric] match_score_model_def
        check_def match_score_ok_def cap_score_for_deal_breaker_def cap_score_for_missing_hard_skill_def
        deal_breaker_score_cap_def hard_skill_miss_cap_def o_def case_prod_beta)
qed

section \<open>Phrases\<close>

lemma phrase_hits_iff: "phrase_hits phrase h \<longleftrightarrow> tokenize phrase \<noteq> [] \<and> occurs (tokenize phrase) h"
  using re_search_tokens_correct [OF _ tokenize_ok] by (auto simp: phrase_hits_def)

text \<open>C12: The deal-breaker check reports the first deal-breaker of the profile whose tokens occur
  in the offer's text, and the hard-skill veto applies exactly when the profile has hard skills
  and the tokens of none of them occur.\<close>

theorem text_checks_correct:
  "(deal_breaker_hit p o1 = Some d \<longleftrightarrow>
      (\<exists>pre post. deal_breakers p = pre @ d # post
         \<and> tokenize d \<noteq> [] \<and> occurs (tokenize d) (offer_haystack o1)
         \<and> list_all (\<lambda>x. \<not> (tokenize x \<noteq> [] \<and> occurs (tokenize x) (offer_haystack o1))) pre))
   \<and> (missing_hard_skills p o1 \<longleftrightarrow>
      hard_skill_names p \<noteq> []
      \<and> list_all (\<lambda>x. \<not> (tokenize x \<noteq> [] \<and> occurs (tokenize x) (offer_haystack o1))) (hard_skill_names p))"
  by (simp add: deal_breaker_hit_def missing_hard_skills_def find_Some_first phrase_hits_iff conj_assoc)

lemma hit_nonword_end:
  assumes "phrase_hits phrase h" and "\<not> is_word (last (last (tokenize phrase)))"
  shows "\<exists>a w c b. h = a @ w @ c # b \<and> denotes (tokenize phrase) w \<and> is_word c"
  using assms occurs_nonword_end [OF _ tokenize_ok] by (auto simp: phrase_hits_iff)

definition cpp_profile :: profile where
  "cpp_profile = empty_profile\<lparr>
     skills := [\<lparr>skill_name = lit ''C++'', skill_category = None, skill_hard = True\<rparr>],
     pref_salary_min := Some 1\<rparr>"

definition cpp_offer :: offer where
  "cpp_offer = \<lparr>source_id = 1, external_id = None, canonical_url = None,
     title = lit ''Senior C++ Developer'', company = lit ''ACME'', location = None, remote = False,
     seniority = None, salary_min = None, salary_max = None, salary_currency = lit ''PLN'',
     contract_type = None, posted_at = None, description = None, industry_tags = []\<rparr>"

definition perfect_output :: matcher_output where
  "perfect_output = \<lparr>skill_match = 1, salary_fit = 1, seniority_fit = 1, work_mode_location = 1,
     out_contract_type = 1, red_flags = 1, rationale = lit ''ok''\<rparr>"

text \<open>A hard skill written with a trailing symbol is never found in ordinary text: the word
  boundary after \<open>C++\<close> wants a word character next. An offer titled \<open>Senior C++ Developer\<close> does
  not satisfy the hard skill \<open>C++\<close>, so a perfect answer of the model is capped at 25.\<close>

theorem hard_skill_with_symbol_is_missed:
  "(\<forall>h. phrase_hits (lit ''C++'') h \<longrightarrow> (\<exists>a c b. h = a @ lit ''c++'' @ c # b \<and> is_word c))
   \<and> missing_hard_skills cpp_profile cpp_offer
   \<and> (\<exists>m. score_offer (\<lambda>_ _. Inr perfect_output) 1 1 cpp_profile cpp_offer = Inr m \<and> score_percent m = 25)"
proof (intro conjI allI impI)
  fix h assume "phrase_hits (lit ''C++'') h"
  moreover have tok: "tokenize (lit ''C++'') = [lit ''c++'']" and "\<not> is_word (last (lit ''c++''))"
    by code_simp+
  ultimately obtain a w c b where "h = a @ w @ c # b" "denotes [lit ''c++''] w" "is_word c"
    using hit_nonword_end [of "lit ''C++''" h] by (auto simp: tok)
  then show "\<exists>a c b. h = a @ lit ''c++'' @ c # b \<and> is_word c" by (auto simp: denotes_one_iff)
next
  show "missing_hard_skills cpp_profile cpp_offer" by code_simp
next
  have "(case score_offer (\<lambda>_ _. Inr perfect_output) 1 1 cpp_profile cpp_offer of
      Inr m \<Rightarrow> score_percent m = 25 | Inl _ \<Rightarrow> False)"
    by code_simp
  then show "\<exists>m. score_offer (\<lambda>_ _. Inr perfect_output) 1 1 cpp_profile cpp_offer = Inr m \<and> score_percent m = 25"
    by (auto split: sum.splits)
qed

theorem hard_skill_with_symbol_is_missed_witness:
  "\<exists>a c b. lit ''c++x'' = a @ lit ''c++'' @ c # b \<and> is_word c"
proof -
  have "phrase_hits (lit ''C++'') (lit ''c++x'')" by code_simp
  then show ?thesis using hard_skill_with_symbol_is_missed by blast
qed

theorem score_offer_bounds_witness:
  "\<exists>m. score_offer (\<lambda>_ _. Inr perfect_output) 7 3 cpp_profile cpp_offer = Inr m \<and> score_percent m \<le> 25"
proof -
  have "missing_hard_skills cpp_profile cpp_offer" by code_simp
  then show ?thesis
    using score_offer_bounds [of 7 3 "\<lambda>_ _. Inr perfect_output" cpp_profile cpp_offer] by auto
qed

section \<open>Scoring a batch\<close>

text \<open>\<open>Offer.model_validate(offer_row, from_attributes=True)\<close>\<close>

definition strip_offer :: "offer \<Rightarrow> offer" where
  "strip_offer o1 = o1\<lparr>external_id := map_option py_strip (external_id o1),
     canonical_url := map_option py_strip (canonical_url o1), title := py_strip (title o1),
     company := py_strip (company o1), location := map_option py_strip (location o1),
     seniority := map_option py_strip (seniority o1), salary_currency := py_strip (salary_currency o1),
     contract_type := map_option py_strip (contract_type o1),
     description := map_option py_strip (description o1),
     industry_tags := map py_strip (industry_tags o1)\<rparr>"

definition offer_from_row :: "offer_row \<Rightarrow> exn + offer" where
  "offer_from_row r =
     (let o1 = strip_offer (offer.truncate r) in
      bindE (check (offer_ok o1) ''offer'') (\<lambda>_.
      Inr (o1\<lparr>canonical_url := empty_url_to_none (canonical_url o1)\<rparr>)))"

datatype score_outcome = Scored match_score | Failed exn | Not_in_scope

text \<open>\<open>_process\<close>: only a \<open>MatcherError\<close> is kept as an outcome.\<close>

definition process_offer ::
    "chain \<Rightarrow> pystr list \<Rightarrow> int \<Rightarrow> profile \<Rightarrow> offer_row \<times> pystr \<Rightarrow> exn + offer_row \<times> score_outcome" where
  "process_offer chain scope pid p oc =
     (case oc of (row, connector) \<Rightarrow>
        if connector \<in> set scope then
          bindE (offer_from_row row) (\<lambda>o1.
          case score_offer chain (offer_id row) pid p o1 of
            Inr m \<Rightarrow> Inr (row, Scored m)
          | Inl (MatcherError t) \<Rightarrow> Inr (row, Failed (MatcherError t))
          | Inl e \<Rightarrow> Inl e)
        else Inr (row, Not_in_scope))"

definition score_row :: "int \<Rightarrow> int \<Rightarrow> match_score \<Rightarrow> match_score_row" where
  "score_row n now m = \<lparr>ms_id = n, ms_offer_id = score_offer_id m, ms_profile_id = score_profile_id m,
     ms_engine = score_engine m, ms_score_percent = score_percent m,
     ms_dimensions = score_dimensions m, ms_rationale = Some (score_rationale m), ms_created_at = now\<rparr>"

definition add_score :: "int \<Rightarrow> match_score \<Rightarrow> db \<Rightarrow> db" where
  "add_score now m d = d\<lparr>match_scores := match_scores d @ [score_row (next_id d) now m],
     next_id := next_id d + 1\<rparr>"

definition insert_score :: "int \<Rightarrow> match_score \<Rightarrow> match_score_row op" where
  "insert_score now m =
     bindS (exec_if match_score_refs (add_score now m) (OtherExn (lit ''IntegrityError''))) (\<lambda>_.
     query (\<lambda>d. last (match_scores d)))"

fun store_outcomes ::
    "int \<Rightarrow> int \<Rightarrow> (offer_row \<times> score_outcome) list \<Rightarrow> match_score_row list op" where
  "store_outcomes pid now [] = retS []"
| "store_outcomes pid now ((row, Failed e) # rest) =
     bindS (record_scoring_failure (scoring_key (offer_id row) pid) SCORING_FAILED
       [SF_offer_id (offer_id row), SF_profile_id pid, SF_error_message (exn_text e)] now) (\<lambda>_.
     store_outcomes pid now rest)"
| "store_outcomes pid now ((row, Scored m) # rest) =
     bindS (insert_score now m) (\<lambda>r.
     bindS (store_outcomes pid now rest) (\<lambda>rs. retS (r # rs)))"
| "store_outcomes pid now ((row, Not_in_scope) # rest) = store_outcomes pid now rest"

definition langchain_sources :: "pystr list" where
  "langchain_sources = registry_names"

definition is_langchain_source :: "pystr option \<Rightarrow> bool" where
  "is_langchain_source c = (case c of None \<Rightarrow> False | Some n \<Rightarrow> n \<in> set langchain_sources)"

definition score_offers_with_langchain ::
    "chain \<Rightarrow> int \<Rightarrow> profile_row \<Rightarrow> (offer_row \<times> pystr) list \<Rightarrow> pystr list option
     \<Rightarrow> match_score_row list op" where
  "score_offers_with_langchain chain now profile_row ofs connectors =
     (if ofs = [] then retS []
      else
        let scope = (case connectors of None \<Rightarrow> langchain_sources | Some c \<Rightarrow> c) in
        bindS (liftE (profile_of_row profile_row)) (\<lambda>p.
        bindS (liftE (gather (process_offer chain scope (profile_id profile_row) p) ofs)) (\<lambda>outcomes.
        store_outcomes (profile_id profile_row) now outcomes)))"

section \<open>What storing the outcomes keeps\<close>

lemma add_score_ok:
  assumes "db_ok d" and "match_score_refs (add_score now m d)"
  shows "db_ok (add_score now m d)"
proof -
  have "next_id d \<notin> ms_id ` set (match_scores d)"
    using assms(1) ids_in_fresh by (fastforce simp: db_ok_def ids_below_def)
  then show ?thesis
    using assms
    by (auto simp: db_ok_def keys_ok_def ids_below_def refs_simps add_score_def score_row_def table_simps)
qed

lemma keeps_insert_score [keeps_intros]: "keeps db_ok (insert_score now m)"
  unfolding insert_score_def by (intro keeps_intros add_score_ok)

lemma keeps_store_outcomes [keeps_intros]: "keeps db_ok (store_outcomes pid now outcomes)"
  by (induction pid now outcomes rule: store_outcomes.induct) (auto intro!: keeps_intros)

lemma keeps_score_offers [keeps_intros]:
  "keeps db_ok (score_offers_with_langchain chain now profile_row ofs connectors)"
  unfolding score_offers_with_langchain_def Let_def by (intro keeps_intros)

end
