(* ===== verification/Batch.thy ===== *)
theory Batch
  imports Matcher "HOL-Library.Product_Lexorder"
begin

text \<open>
  \<open>app/scoring/batch.py\<close>: which offers a batch scores and in which order, the batch itself, and
  the progress record of the process. \<open>asyncio.Lock\<close> serialises the calls, so a batch is one
  step here.
\<close>

section \<open>Order\<close>

text \<open>A sort column with \<open>NULLS LAST\<close>.\<close>

datatype 'a nulls_last = Val 'a | Null

instantiation nulls_last :: (linorder) linorder
begin

fun less_eq_nulls_last :: "'a nulls_last \<Rightarrow> 'a nulls_last \<Rightarrow> bool" where
  "less_eq_nulls_last (Val a) (Val b) = (a \<le> b)"
| "less_eq_nulls_last (Val a) Null = True"
| "less_eq_nulls_last Null (Val b) = False"
| "less_eq_nulls_last Null Null = True"

definition less_nulls_last :: "'a nulls_last \<Rightarrow> 'a nulls_last \<Rightarrow> bool" where
  "less_nulls_last a b = (a \<le> b \<and> \<not> b \<le> a)"

instance
proof
  fix x y z :: "'a nulls_last"
  show "(x < y) = (x \<le> y \<and> \<not> y \<le> x)" by (simp add: less_nulls_last_def)
  show "x \<le> x" by (cases x) auto
  show "x \<le> y \<Longrightarrow> y \<le> z \<Longrightarrow> x \<le> z" by (cases x; cases y; cases z) auto
  show "x \<le> y \<Longrightarrow> y \<le> x \<Longrightarrow> x = y" by (cases x; cases y) auto
  show "x \<le> y \<or> y \<le> x" by (cases x; cases y) auto
qed

end

fun dt_instant :: "pydt \<Rightarrow> int" where
  "dt_instant (Aware n) = n"
| "dt_instant (Naive n) = n"

text \<open>\<open>posted_at DESC NULLS LAST, created_at DESC, id DESC\<close>\<close>

definition recency_key :: "offer_row \<Rightarrow> int nulls_last \<times> int \<times> int" where
  "recency_key r =
     (case posted_at r of None \<Rightarrow> Null | Some t \<Rightarrow> Val (- dt_instant t), - created_at r, - offer_id r)"

section \<open>Selection\<close>

definition source_of :: "offer_row \<Rightarrow> db \<Rightarrow> source_row option" where
  "source_of r d = find (\<lambda>s. src_id s = source_id r) (sources d)"

definition source_connector :: "offer_row \<Rightarrow> db \<Rightarrow> pystr option" where
  "source_connector r d = (case source_of r d of None \<Rightarrow> None | Some s \<Rightarrow> src_connector s)"

definition connector_in :: "pystr option \<Rightarrow> pystr list \<Rightarrow> bool" where
  "connector_in c connectors = (case c of None \<Rightarrow> False | Some n \<Rightarrow> n \<in> set connectors)"

definition already_scored :: "int \<Rightarrow> db \<Rightarrow> int set" where
  "already_scored pid d = ms_offer_id ` set (filter (\<lambda>m. ms_profile_id m = pid) (match_scores d))"

definition open_scoring_failures :: "int \<Rightarrow> db \<Rightarrow> int set" where
  "open_scoring_failures pid d =
     sf_offer_id ` set (filter (\<lambda>r. sf_profile_id r = pid \<and> dl_status r = status_open) (scoring_failures d))"

definition eligible :: "int \<Rightarrow> pystr list \<Rightarrow> db \<Rightarrow> offer_row \<Rightarrow> bool" where
  "eligible pid connectors d r \<longleftrightarrow>
     connector_in (source_connector r d) connectors
     \<and> offer_id r \<notin> already_scored pid d \<and> offer_id r \<notin> open_scoring_failures pid d"

definition candidate_scan :: "int \<Rightarrow> pystr list \<Rightarrow> db \<Rightarrow> offer_row list" where
  "candidate_scan pid connectors d = sort_key recency_key (filter (eligible pid connectors d) (offers d))"

definition in_fetch_range :: "pylib \<Rightarrow> int \<Rightarrow> pydt option \<Rightarrow> jdict \<Rightarrow> exn + bool" where
  "in_fetch_range L now posted config =
     (case resolve_fetch_range L (jget config (lit ''fetch_range'')) of (since, until) \<Rightarrow>
        if since = None \<and> until = None then Inr True
        else
          let eff = (case posted of None \<Rightarrow> Aware now | Some t \<Rightarrow> t) in
          bindE (case since of None \<Rightarrow> Inr False | Some a \<Rightarrow> dt_less eff a) (\<lambda>early.
          if early then Inr False
          else
            bindE (case until of None \<Rightarrow> Inr False | Some b \<Rightarrow> dt_less b eff) (\<lambda>late.
            Inr (\<not> late))))"

fun filterE :: "('a \<Rightarrow> exn + bool) \<Rightarrow> 'a list \<Rightarrow> exn + 'a list" where
  "filterE f [] = Inr []"
| "filterE f (x # xs) =
     bindE (f x) (\<lambda>b. bindE (filterE f xs) (\<lambda>ys. Inr (if b then x # ys else ys)))"

definition row_in_range :: "pylib \<Rightarrow> int \<Rightarrow> db \<Rightarrow> offer_row \<Rightarrow> exn + bool" where
  "row_in_range L now d r =
     in_fetch_range L now (posted_at r) (case source_of r d of None \<Rightarrow> [] | Some s \<Rightarrow> src_config s)"

record candidate_selection =
  sel_selected :: "(offer_row \<times> pystr) list"
  sel_total :: nat

text \<open>
  The page is hydrated by a second query of the same transaction: the rows of the page's ids,
  in the page's order, with their connector.
\<close>

definition hydrate :: "db \<Rightarrow> offer_row \<Rightarrow> offer_row \<times> pystr" where
  "hydrate d r = (r, case source_connector r d of None \<Rightarrow> [] | Some c \<Rightarrow> c)"

definition select_candidates :: "pylib \<Rightarrow> int \<Rightarrow> int \<Rightarrow> pystr list \<Rightarrow> nat \<Rightarrow> db \<Rightarrow> exn + candidate_selection" where
  "select_candidates L now pid connectors lmt d =
     bindE (filterE (row_in_range L now d) (candidate_scan pid connectors d)) (\<lambda>rows.
     Inr \<lparr>sel_selected = map (hydrate d) (take lmt rows), sel_total = length rows\<rparr>)"

definition select_scoring_candidates ::
    "pylib \<Rightarrow> int \<Rightarrow> int \<Rightarrow> pystr list \<Rightarrow> nat \<Rightarrow> candidate_selection op" where
  "select_scoring_candidates L now pid connectors lmt =
     bindS (query (select_candidates L now pid connectors lmt)) liftE"

definition count_already_scored :: "int \<Rightarrow> pystr list \<Rightarrow> db \<Rightarrow> nat" where
  "count_already_scored pid connectors d =
     length (filter (\<lambda>r. connector_in (source_connector r d) connectors
                       \<and> offer_id r \<in> already_scored pid d) (offers d))"

definition count_total_offers :: "db \<Rightarrow> nat" where
  "count_total_offers d = length (offers d)"

definition count_unscored_backlog :: "pylib \<Rightarrow> int \<Rightarrow> pystr list option \<Rightarrow> nat op" where
  "count_unscored_backlog L now connectors =
     bindS (query get_active_profile) (\<lambda>row.
     case row of
       None \<Rightarrow> retS 0
     | Some r \<Rightarrow>
         bindS (select_scoring_candidates L now (profile_id r)
                  (case connectors of None \<Rightarrow> langchain_sources | Some c \<Rightarrow> c) 0) (\<lambda>sel.
         retS (sel_total sel)))"

section \<open>Facts about the selection\<close>

lemma filterE_Inr:
  "filterE f xs = Inr ys \<Longrightarrow> ys = filter (\<lambda>x. f x = Inr True) xs \<and> (\<forall>x \<in> set xs. \<exists>b. f x = Inr b)"
proof (induction xs arbitrary: ys)
  case (Cons x xs)
  then obtain b zs where "f x = Inr b" "filterE f xs = Inr zs" "ys = (if b then x # zs else zs)"
    by (auto simp: bindE_Inr_iff)
  with Cons.IH [of zs] show ?case by (cases b) auto
qed simp

lemma filterE_total:
  "(\<forall>x \<in> set xs. \<exists>b. f x = Inr b) \<Longrightarrow> filterE f xs = Inr (filter (\<lambda>x. f x = Inr True) xs)"
proof (induction xs)
  case (Cons x xs)
  then obtain b where "f x = Inr b" by auto
  with Cons show ?case by (cases b) auto
qed simp

lemma recency_key_inj:
  assumes "distinct (map offer_id rows)"
  shows "inj_on recency_key (set rows)"
  using distinct_map_inj [OF assms] by (auto simp: inj_on_def recency_key_def)

lemma selection_facts_distinct:
  assumes "select_candidates L now pid connectors lmt d = Inr sel" and "distinct (map offer_id (offers d))"
  shows "sorted (map (recency_key \<circ> fst) (sel_selected sel))
    \<and> distinct (map (offer_id \<circ> fst) (sel_selected sel))
    \<and> length (sel_selected sel) = min lmt (sel_total sel)
    \<and> (\<forall>(r, c) \<in> set (sel_selected sel). r \<in> set (offers d) \<and> c \<in> set connectors
         \<and> source_connector r d = Some c
         \<and> offer_id r \<notin> already_scored pid d \<and> offer_id r \<notin> open_scoring_failures pid d
         \<and> row_in_range L now d r = Inr True)
    \<and> sel_total sel = card {r \<in> set (offers d). eligible pid connectors d r
         \<and> row_in_range L now d r = Inr True}"
proof -
  obtain rows where rows: "filterE (row_in_range L now d) (candidate_scan pid connectors d) = Inr rows"
    and sel: "sel = \<lparr>sel_selected = map (hydrate d) (take lmt rows), sel_total = length rows\<rparr>"
    using assms(1) by (auto simp: select_candidates_def bindE_Inr_iff)
  have f: "rows = filter (\<lambda>r. row_in_range L now d r = Inr True) (candidate_scan pid connectors d)"
    using filterE_Inr [OF rows] by simp
  have set: "set rows = {r \<in> set (offers d). eligible pid connectors d r \<and> row_in_range L now d r = Inr True}"
    by (auto simp: f candidate_scan_def)
  have "sorted (map recency_key (candidate_scan pid connectors d))"
    by (simp add: candidate_scan_def)
  then have srt: "sorted (map recency_key rows)" by (simp add: f sorted_filter)
  have di: "distinct (map offer_id rows)"
    using assms(2) unfolding f candidate_scan_def distinct_map
    by (auto intro: inj_on_subset)
  have dist: "distinct rows" using di by (simp add: distinct_map)
  have fst_h: "fst \<circ> hydrate d = (\<lambda>r. r)" by (auto simp: hydrate_def)
  have 1: "sorted (map (recency_key \<circ> fst) (sel_selected sel))"
    using srt by (simp add: sel hydrate_def o_def) (metis sorted_wrt_take take_map)
  have 2: "distinct (map (offer_id \<circ> fst) (sel_selected sel))"
    using di by (simp add: sel hydrate_def o_def) (metis distinct_take take_map)
  have 3: "\<forall>(r, c) \<in> set (sel_selected sel). r \<in> set (offers d) \<and> c \<in> set connectors
         \<and> source_connector r d = Some c
         \<and> offer_id r \<notin> already_scored pid d \<and> offer_id r \<notin> open_scoring_failures pid d
         \<and> row_in_range L now d r = Inr True"
    using set
    by (auto simp: sel hydrate_def eligible_def connector_in_def dest!: in_set_takeD split: option.splits)
  have 4: "sel_total sel = card (set rows)" using dist by (simp add: sel distinct_card)
  show ?thesis using 1 2 3 4 set by (simp add: sel)
qed

lemma selection_facts:
  assumes "select_candidates L now pid connectors lmt d = Inr sel" and "keys_ok d"
  shows "sorted (map (recency_key \<circ> fst) (sel_selected sel))
    \<and> distinct (map (offer_id \<circ> fst) (sel_selected sel))
    \<and> length (sel_selected sel) = min lmt (sel_total sel)
    \<and> (\<forall>(r, c) \<in> set (sel_selected sel). r \<in> set (offers d) \<and> c \<in> set connectors
         \<and> source_connector r d = Some c
         \<and> offer_id r \<notin> already_scored pid d \<and> offer_id r \<notin> open_scoring_failures pid d
         \<and> row_in_range L now d r = Inr True)
    \<and> sel_total sel = card {r \<in> set (offers d). eligible pid connectors d r
         \<and> row_in_range L now d r = Inr True}"
  by (rule selection_facts_distinct [OF assms(1)]) (use assms(2) in \<open>simp add: keys_ok_def\<close>)

text \<open>A selection is a prefix of the eligible backlog: it holds at most \<open>limit\<close> different
  offers, newest posting first with undated offers last; every selected offer belongs to a
  source of the requested connectors inside that source's fetch range and has neither a score
  nor an open scoring failure for the profile; and \<open>total\<close> counts all such offers.\<close>

theorem selection_spec:
  assumes "select_candidates L now pid connectors lmt d = Inr sel" and "keys_ok d"
  shows "sorted (map (recency_key \<circ> fst) (sel_selected sel))
    \<and> distinct (map (offer_id \<circ> fst) (sel_selected sel))
    \<and> length (sel_selected sel) = min lmt (sel_total sel)
    \<and> (\<forall>(r, c) \<in> set (sel_selected sel). r \<in> set (offers d) \<and> c \<in> set connectors
         \<and> source_connector r d = Some c
         \<and> offer_id r \<notin> already_scored pid d \<and> offer_id r \<notin> open_scoring_failures pid d
         \<and> row_in_range L now d r = Inr True)
    \<and> sel_total sel = card {r \<in> set (offers d). eligible pid connectors d r
         \<and> row_in_range L now d r = Inr True}"
  by (rule selection_facts [OF assms])

section \<open>The progress record\<close>

record scoring_progress =
  pg_running :: bool
  pg_processed :: nat
  pg_total :: nat
  pg_remaining_backlog :: nat
  pg_started_at :: "int option"
  pg_finished_at :: "int option"
  pg_last_scored :: nat
  pg_last_skipped :: nat
  pg_last_failed :: nat

definition initial_progress :: scoring_progress where
  "initial_progress = \<lparr>pg_running = False, pg_processed = 0, pg_total = 0, pg_remaining_backlog = 0,
     pg_started_at = None, pg_finished_at = None, pg_last_scored = 0, pg_last_skipped = 0,
     pg_last_failed = 0\<rparr>"

type_synonym 'a batch_op = "(scoring_progress \<times> session, 'a) prog"

definition in_session :: "'a op \<Rightarrow> 'a batch_op" where
  "in_session m = (\<lambda>(p, s). case m s of (r, t) \<Rightarrow> (r, (p, t)))"

definition set_progress :: "(scoring_progress \<Rightarrow> scoring_progress) \<Rightarrow> unit batch_op" where
  "set_progress f = (\<lambda>(p, s). (Inr (), (f p, s)))"

text \<open>\<open>try: m finally: f\<close>, for an \<open>f\<close> that does not raise.\<close>

definition finallyS :: "('s, 'a) prog \<Rightarrow> ('s \<Rightarrow> 's) \<Rightarrow> ('s, 'a) prog" where
  "finallyS m f s = (case m s of (r, t) \<Rightarrow> (r, f t))"

declare in_session_def [run_simps] set_progress_def [run_simps] finallyS_def [run_simps]

section \<open>The batch\<close>

record score_event =
  ev_score_id :: int
  ev_offer_id :: int
  ev_title :: pystr
  ev_company :: pystr
  ev_score_percent :: int

record batch_summary =
  sum_scored :: nat
  sum_skipped :: nat
  sum_failed :: nat
  sum_remaining :: nat
  sum_events :: "score_event list"

text \<open>\<open>offer_by_id[row.offer_id]\<close> of the events.\<close>

definition event_of :: "(offer_row \<times> pystr) list \<Rightarrow> match_score_row \<Rightarrow> exn + score_event" where
  "event_of ofs m =
     (case find (\<lambda>oc. offer_id (fst oc) = ms_offer_id m) ofs of
        None \<Rightarrow> Inl (KeyError (show_int (ms_offer_id m)))
      | Some (r, _) \<Rightarrow> Inr \<lparr>ev_score_id = ms_id m, ev_offer_id = ms_offer_id m, ev_title = title r,
          ev_company = company r, ev_score_percent = ms_score_percent m\<rparr>)"

text \<open>
  Every \<open>_process\<close> that ends reports its count to \<open>on_progress\<close>: when all have, \<open>processed\<close> is
  the number of offers. When one raises, the count is how many had ended; it is an argument.
\<close>

definition scoring_step ::
    "chain \<Rightarrow> int \<Rightarrow> profile_row \<Rightarrow> (offer_row \<times> pystr) list \<Rightarrow> pystr list \<Rightarrow> nat
     \<Rightarrow> match_score_row list batch_op" where
  "scoring_step chain now row ofs scope ended ps =
     (case in_session (score_offers_with_langchain chain now row ofs (Some scope)) ps of
        (Inr rs, (p, s)) \<Rightarrow> (Inr rs, (p\<lparr>pg_processed := length ofs\<rparr>, s))
      | (Inl e, (p, s)) \<Rightarrow> (Inl e, (p\<lparr>pg_processed := ended\<rparr>, s)))"

definition run_batch_scoring ::
    "pylib \<Rightarrow> chain \<Rightarrow> int \<Rightarrow> nat \<Rightarrow> nat option \<Rightarrow> pystr list option \<Rightarrow> nat \<Rightarrow> batch_summary batch_op" where
  "run_batch_scoring L chain now default_limit lmt connectors ended =
     bindS (in_session (query get_active_profile)) (\<lambda>profile_row.
     case profile_row of
       None \<Rightarrow> retS \<lparr>sum_scored = 0, sum_skipped = 0, sum_failed = 0, sum_remaining = 0, sum_events = []\<rparr>
     | Some row \<Rightarrow>
         let scope = (case connectors of None \<Rightarrow> langchain_sources | Some c \<Rightarrow> c);
             batch_limit = (case lmt of None \<Rightarrow> default_limit | Some n \<Rightarrow> n) in
         bindS (in_session (select_scoring_candidates L now (profile_id row) scope batch_limit)) (\<lambda>sel.
         let unscored = sel_selected sel in
         bindS (in_session (query (count_already_scored (profile_id row) scope))) (\<lambda>skipped.
         bindS (set_progress (\<lambda>p. p\<lparr>pg_running := True, pg_processed := 0, pg_total := length unscored,
                  pg_started_at := Some now, pg_finished_at := None\<rparr>)) (\<lambda>_.
         bindS (finallyS (scoring_step chain now row unscored scope ended)
                  (\<lambda>(p, s). (p\<lparr>pg_running := False, pg_finished_at := Some now\<rparr>, s))) (\<lambda>results.
         bindS (liftE (gather (event_of unscored) results)) (\<lambda>events.
         let failed = length unscored - length results;
             remaining = sel_total sel - length unscored in
         bindS (set_progress (\<lambda>p. p\<lparr>pg_last_scored := length results, pg_last_skipped := skipped,
                  pg_last_failed := failed, pg_remaining_backlog := remaining\<rparr>)) (\<lambda>_.
         retS \<lparr>sum_scored = length results, sum_skipped = skipped, sum_failed = failed,
               sum_remaining = remaining, sum_events = events\<rparr>)))))))"

text \<open>The progress record never stays at \<open>running\<close>: however a batch ends, with a summary or
  with an exception, the record of an idle process is idle again.\<close>

theorem batch_ends_not_running:
  assumes "\<not> pg_running p"
  shows "\<not> pg_running (fst (snd (run_batch_scoring L chain now dl lmt connectors ended (p, s))))"
  using assms
  by (auto simp: run_batch_scoring_def run_simps Let_def split: prod.splits sum.splits option.splits)

section \<open>Keys of scoring failures\<close>

definition digits_value :: "pystr \<Rightarrow> nat" where
  "digits_value s = foldl (\<lambda>a c. 10 * a + (c - 48)) 0 s"

lemma show_nat_aux_spec:
  "\<exists>ds. show_nat_aux n acc = ds @ acc \<and> digits_value ds = n \<and> list_all is_digit ds \<and> ds \<noteq> []"
proof (induction n acc rule: show_nat_aux.induct)
  case (1 n acc)
  show ?case
  proof (cases "n < 10")
    case True
    then show ?thesis
      by (intro exI [of _ "[48 + n]"])
        (simp add: show_nat_aux.simps digits_value_def is_digit_def)
  next
    case False
    with 1 obtain ds where ds: "show_nat_aux (n div 10) ((48 + n mod 10) # acc) = ds @ (48 + n mod 10) # acc"
      "digits_value ds = n div 10" "list_all is_digit ds" by blast
    have "digits_value (ds @ [48 + n mod 10]) = n"
      using ds(2) by (simp add: digits_value_def)
    moreover have "is_digit (48 + n mod 10)"
      using mod_less_divisor [of 10 n] by (simp add: is_digit_def del: mod_less_divisor)
    ultimately show ?thesis
      using ds False by (intro exI [of _ "ds @ [48 + n mod 10]"]) (simp add: show_nat_aux.simps [of n])
  qed
qed

lemma show_nat_spec:
  "digits_value (show_nat_aux n []) = n \<and> list_all is_digit (show_nat_aux n []) \<and> show_nat_aux n [] \<noteq> []"
  using show_nat_aux_spec [of n "[]"] by auto

lemma show_int_inj: "0 \<le> a \<Longrightarrow> 0 \<le> b \<Longrightarrow> show_int a = show_int b \<Longrightarrow> a = b"
proof -
  assume *: "0 \<le> a" "0 \<le> b" "show_int a = show_int b"
  then have "show_nat_aux (nat a) [] = show_nat_aux (nat b) []" by (simp add: show_int_def)
  then have "nat a = nat b" using show_nat_spec by metis
  with * show "a = b" by simp
qed

lemma show_int_no_colon: "0 \<le> a \<Longrightarrow> 58 \<notin> set (show_int a)"
  using show_nat_spec [of "nat a"] by (auto simp: show_int_def list_all_iff is_digit_def)

lemma scoring_key_inj:
  assumes "scoring_key a b = scoring_key c e" and "0 \<le> a" "0 \<le> b" "0 \<le> c" "0 \<le> e"
  shows "a = c \<and> b = e"
proof -
  let ?p = "lit ''profile:''"
  have eq: "show_int a @ 58 # ?p @ show_int b = show_int c @ 58 # ?p @ show_int e"
    using assms(1) by (simp add: scoring_key_def lit_def)
  have "before_char 58 (show_int a @ 58 # ?p @ show_int b) = show_int a"
    and "before_char 58 (show_int c @ 58 # ?p @ show_int e) = show_int c"
    using assms(2,4) by (simp_all add: before_char_append show_int_no_colon)
  with eq have ac: "show_int a = show_int c" by (metis (no_types))
  with eq have be: "show_int b = show_int e" by simp
  show ?thesis using show_int_inj [OF _ _ ac] show_int_inj [OF _ _ be] assms by simp
qed

lemma scoring_key_length:
  "0 \<le> a \<Longrightarrow> a < 2 ^ 31 \<Longrightarrow> 0 \<le> b \<Longrightarrow> b < 2 ^ 31 \<Longrightarrow> length (scoring_key a b) \<le> dedup_key_width"
  using show_int_length [of a] show_int_length [of b] by (simp add: scoring_key_def dedup_key_width_def)

text \<open>The key of every scoring failure is that of its offer and profile.\<close>

definition scoring_keys_ok :: "db \<Rightarrow> bool" where
  "scoring_keys_ok d \<longleftrightarrow>
     list_all (\<lambda>r. dedup_key r = scoring_key (sf_offer_id r) (sf_profile_id r)
                  \<and> 0 \<le> sf_offer_id r \<and> 0 \<le> sf_profile_id r) (scoring_failures d)"

definition failure_fields :: "int \<Rightarrow> int \<Rightarrow> pystr \<Rightarrow> scoring_field list" where
  "failure_fields oid pid m = [SF_offer_id oid, SF_profile_id pid, SF_error_message m]"

lemma upsert_scoring_row:
  "sf_offer_id ((touch_open k now \<circ> fold assign_scoring_field (failure_fields oid pid m)) r) = oid"
  "sf_profile_id ((touch_open k now \<circ> fold assign_scoring_field (failure_fields oid pid m)) r) = pid"
  "dl_status ((touch_open k now \<circ> fold assign_scoring_field (failure_fields oid pid m)) r) = status_open"
  "dedup_key ((touch_open k now \<circ> fold assign_scoring_field (failure_fields oid pid m)) r) = dedup_key r"
  by (simp_all add: failure_fields_def touch_open_def)

lemma upsert_scoring_rows:
  "scoring_failures (upsert_scoring key k fs now d)
     = upsert_failure (touch_open k now \<circ> fold assign_scoring_field fs)
         (blank_scoring_failure (next_id d) key) (scoring_failures d)"
  by (simp add: upsert_scoring_def)

lemma scoring_keys_upsert:
  assumes "scoring_keys_ok d" and "0 \<le> oid" "0 \<le> pid"
  shows "scoring_keys_ok (upsert_scoring (scoring_key oid pid) k (failure_fields oid pid m) now d)"
proof -
  let ?f = "touch_open k now \<circ> fold assign_scoring_field (failure_fields oid pid m)"
  let ?rows = "scoring_failures (upsert_scoring (scoring_key oid pid) k (failure_fields oid pid m) now d)"
  have "dedup_key r = scoring_key (sf_offer_id r) (sf_profile_id r) \<and> 0 \<le> sf_offer_id r \<and> 0 \<le> sf_profile_id r"
    if r: "r \<in> set ?rows" for r
  proof -
    have c: "if dedup_key r = scoring_key oid pid then (\<exists>r'. r = ?f r') else r \<in> set (scoring_failures d)"
      using upsert_row_cases [OF r [unfolded upsert_scoring_rows]] by (simp add: upsert_scoring_row)
    show ?thesis
    proof (cases "dedup_key r = scoring_key oid pid")
      case True
      with c obtain r' where r': "r = ?f r'" by (simp del: o_apply) blast
      have "sf_offer_id r = oid" "sf_profile_id r = pid"
        unfolding r' by (rule upsert_scoring_row)+
      with True assms(2,3) show ?thesis by simp
    next
      case False
      with c have "r \<in> set (scoring_failures d)" by (simp del: o_apply)
      then show ?thesis using assms(1) by (simp add: scoring_keys_ok_def list_all_iff)
    qed
  qed
  then show ?thesis by (simp add: scoring_keys_ok_def list_all_iff)
qed

lemma open_failures_upsert:
  assumes "scoring_keys_ok d" and "0 \<le> oid" "0 \<le> pid"
  shows "open_scoring_failures pid (upsert_scoring (scoring_key oid pid) k (failure_fields oid pid m) now d)
           = insert oid (open_scoring_failures pid d)"
proof -
  let ?key = "scoring_key oid pid"
  let ?f = "touch_open k now \<circ> fold assign_scoring_field (failure_fields oid pid m)"
  let ?rows = "scoring_failures (upsert_scoring ?key k (failure_fields oid pid m) now d)"
  have cases: "if dedup_key r = ?key then (\<exists>r'. r = ?f r') else r \<in> set (scoring_failures d)"
    if "r \<in> set ?rows" for r
    using upsert_row_cases [OF that [unfolded upsert_scoring_rows]] by (simp add: upsert_scoring_row)
  have keep: "r \<in> set ?rows" if "r \<in> set (scoring_failures d)" "dedup_key r \<noteq> ?key" for r
    using that by (auto simp: upsert_scoring_rows upsert_failure_def update_where_def)
  have old: "sf_offer_id r = oid \<and> sf_profile_id r = pid"
    if "r \<in> set (scoring_failures d)" "dedup_key r = ?key" for r
    using assms that scoring_key_inj [of "sf_offer_id r" "sf_profile_id r" oid pid]
    by (simp add: scoring_keys_ok_def list_all_iff)
  have "?key \<in> dedup_key ` set ?rows"
    using sco.record_all_keys [of "[(?key, k, failure_fields oid pid m, now)]" d] by simp
  then obtain r0 where r0: "r0 \<in> set ?rows" "dedup_key r0 = ?key" by auto
  with cases [OF r0(1)] obtain r1 where "r0 = ?f r1" by (simp del: o_apply) blast
  then have fields: "sf_offer_id r0 = oid" "sf_profile_id r0 = pid" "dl_status r0 = status_open"
    by (metis upsert_scoring_row)+
  show ?thesis
  proof (intro set_eqI iffI)
    fix x assume "x \<in> open_scoring_failures pid (upsert_scoring ?key k (failure_fields oid pid m) now d)"
    then obtain r where r: "r \<in> set ?rows" "sf_profile_id r = pid" "dl_status r = status_open"
      "x = sf_offer_id r"
      by (auto simp: open_scoring_failures_def)
    show "x \<in> insert oid (open_scoring_failures pid d)"
    proof (cases "dedup_key r = ?key")
      case True
      with cases [OF r(1)] obtain r' where "r = ?f r'" by (simp del: o_apply) blast
      then have "sf_offer_id r = oid" by (metis upsert_scoring_row(1))
      with r(4) show ?thesis by simp
    next
      case False
      with cases [OF r(1)] have "r \<in> set (scoring_failures d)" by (simp del: o_apply)
      with r show ?thesis by (auto simp: open_scoring_failures_def)
    qed
  next
    fix x assume x: "x \<in> insert oid (open_scoring_failures pid d)"
    show "x \<in> open_scoring_failures pid (upsert_scoring ?key k (failure_fields oid pid m) now d)"
    proof (cases "x = oid")
      case True
      with r0 fields show ?thesis by (auto simp: open_scoring_failures_def intro!: image_eqI [of _ _ r0])
    next
      case False
      with x obtain r where r: "r \<in> set (scoring_failures d)" "sf_profile_id r = pid"
        "dl_status r = status_open" "x = sf_offer_id r"
        by (auto simp: open_scoring_failures_def)
      with old [OF r(1)] False have "r \<in> set ?rows" by (intro keep) auto
      with r show ?thesis by (auto simp: open_scoring_failures_def)
    qed
  qed
qed

end
