(* ===== verification/Lifecycle.thy ===== *)
theory Lifecycle
  imports Registry
begin

text \<open>
  \<open>app/ingestion/lifecycle.py\<close>, \<open>app/ingestion/service.py\<close> and \<open>app/scheduler/runs.py\<close>: the one
  session a run of a connector happens in, the run records, and the two doors that open it
  (the manual \<open>/ingest\<close> and the audited scheduler run). The callbacks of the code are
  arguments; what \<open>before_dispatch\<close> remembers for the later ones (the run record) is passed
  to them.
\<close>

section \<open>Run records\<close>

definition st_running :: pystr where "st_running = lit ''running''"
definition st_ok :: pystr where "st_ok = lit ''ok''"
definition st_error :: pystr where "st_error = lit ''error''"

lemma run_statuses_distinct [simp]:
  "st_running \<noteq> st_ok" "st_ok \<noteq> st_running" "st_running \<noteq> st_error" "st_error \<noteq> st_running"
  "st_ok \<noteq> st_error" "st_error \<noteq> st_ok"
  by (simp_all add: st_running_def st_ok_def st_error_def)

definition add_run :: "int \<Rightarrow> pystr \<Rightarrow> int \<Rightarrow> db \<Rightarrow> db" where
  "add_run sid trigger now d =
     d\<lparr>scheduler_runs := scheduler_runs d @
         [\<lparr>run_id = next_id d, run_source_id = sid, run_trigger_type = trigger,
           run_status = st_running, fetched_count = None, created_count = None, run_warning = False,
           run_error_message = None, run_started_at = now, run_finished_at = None\<rparr>],
       next_id := next_id d + 1\<rparr>"

definition start_run :: "int \<Rightarrow> pystr \<Rightarrow> int \<Rightarrow> int op" where
  "start_run sid trigger now =
     bindS (exec_if run_refs (add_run sid trigger now) (OtherExn (lit ''IntegrityError''))) (\<lambda>_.
     query (\<lambda>d. run_id (last (scheduler_runs d))))"

definition update_run :: "int \<Rightarrow> (run_row \<Rightarrow> run_row) \<Rightarrow> db \<Rightarrow> db" where
  "update_run rid f d = d\<lparr>scheduler_runs := update_where (\<lambda>r. run_id r = rid) f (scheduler_runs d)\<rparr>"

definition mark_ok :: "nat \<Rightarrow> nat \<Rightarrow> bool \<Rightarrow> int \<Rightarrow> run_row \<Rightarrow> run_row" where
  "mark_ok fetched created warning now r =
     r\<lparr>run_status := st_ok, fetched_count := Some (int fetched), created_count := Some (int created),
       run_warning := warning, run_finished_at := Some now\<rparr>"

definition mark_error :: "pystr \<Rightarrow> int \<Rightarrow> run_row \<Rightarrow> run_row" where
  "mark_error msg now r =
     r\<lparr>run_status := st_error, run_error_message := Some msg, run_finished_at := Some now\<rparr>"

definition finish_run_ok :: "int \<Rightarrow> nat \<Rightarrow> nat \<Rightarrow> bool \<Rightarrow> int \<Rightarrow> unit op" where
  "finish_run_ok rid fetched created warning now =
     exec (update_run rid (mark_ok fetched created warning now))"

definition finish_run_error :: "int \<Rightarrow> pystr \<Rightarrow> int \<Rightarrow> unit op" where
  "finish_run_error rid msg now = exec (update_run rid (mark_error msg now))"

definition interrupted :: pystr where
  "interrupted = lit ''interrupted: process restarted while run was in flight''"

definition reconcile_stale_running_runs :: "int \<Rightarrow> nat op" where
  "reconcile_stale_running_runs now =
     bindS (query (\<lambda>d. length (filter (\<lambda>r. run_status r = st_running) (scheduler_runs d)))) (\<lambda>n.
     bindS (exec (\<lambda>d. d\<lparr>scheduler_runs :=
       update_where (\<lambda>r. run_status r = st_running) (mark_error interrupted now) (scheduler_runs d)\<rparr>)) (\<lambda>_.
     retS n))"

text \<open>\<open>ORDER BY started_at DESC LIMIT 1\<close>\<close>

definition latest_run :: "int \<Rightarrow> db \<Rightarrow> run_row option" where
  "latest_run sid d =
     (case sort_key (\<lambda>r. - run_started_at r) (filter (\<lambda>r. run_source_id r = sid) (scheduler_runs d)) of
        [] \<Rightarrow> None | r # _ \<Rightarrow> Some r)"

section \<open>The life cycle\<close>

definition record_run_fetch_failure :: "source_row \<Rightarrow> ingestion_result \<Rightarrow> int option \<Rightarrow> int \<Rightarrow> unit op" where
  "record_run_fetch_failure source res run now =
     (if res_ok res then retS ()
      else
        record_ingestion_failure (source_key (src_id source)) RUN_FETCH_FAILED
          ([F_source_id (src_id source),
            F_error_message (case res_error_message res of
               None \<Rightarrow> lit ''ingestion failed'' | Some m \<Rightarrow> if m = [] then lit ''ingestion failed'' else m)]
           @ (case run of None \<Rightarrow> [] | Some n \<Rightarrow> [F_scheduler_run_id n])
           @ (case res_blocked_status res of None \<Rightarrow> [] | Some b \<Rightarrow> [F_blocked_status (Some b)])) now)"

definition connector_enabled :: "jdict \<Rightarrow> bool" where
  "connector_enabled config = truthy (jget_default config (lit ''connector_enabled'') (JBool True))"

text \<open>\<open>try: m except Exception as exc: ..\<close>\<close>

definition tryS :: "('s, 'a) prog \<Rightarrow> ('s, exn + 'a) prog" where
  "tryS m s = (case m s of (r, t) \<Rightarrow> (Inr r, t))"

declare tryS_def [run_simps]

definition stamp_fetched :: "int \<Rightarrow> int \<Rightarrow> db \<Rightarrow> db" where
  "stamp_fetched sid now d =
     d\<lparr>sources := update_where (\<lambda>r. src_id r = sid) (\<lambda>r. r\<lparr>src_last_fetched_at := Some now\<rparr>) (sources d)\<rparr>"

definition run_with_lifecycle ::
    "connector_runner \<Rightarrow> pystr \<Rightarrow> bool \<Rightarrow> int \<Rightarrow> (source_row \<Rightarrow> 'r op) option
     \<Rightarrow> (source_row \<Rightarrow> 'r option \<Rightarrow> ingestion_result \<Rightarrow> unit op)
     \<Rightarrow> (source_row \<Rightarrow> 'r option \<Rightarrow> exn \<Rightarrow> unit op)
     \<Rightarrow> (source_row \<times> 'r option \<times> ingestion_result option \<times> exn option) op" where
  "run_with_lifecycle run_connector connector force_refresh now before_dispatch on_success on_error =
     bindS (resolve_source_by_connector connector) (\<lambda>source.
     if \<not> connector_enabled (src_config source) then raiseS (ConnectorDisabledError connector)
     else
       bindS (case before_dispatch of
                None \<Rightarrow> retS None
              | Some f \<Rightarrow> bindS (f source) (\<lambda>r. bindS commit (\<lambda>_. retS (Some r)))) (\<lambda>run.
       bindS (tryS (dispatch_ingestion run_connector source force_refresh)) (\<lambda>outcome.
       case outcome of
         Inl e \<Rightarrow> bindS (on_error source run e) (\<lambda>_. retS (source, run, None, Some e))
       | Inr res \<Rightarrow>
           bindS (if res_ok res then exec (stamp_fetched (src_id source) now) else retS ()) (\<lambda>_.
           bindS (on_success source run res) (\<lambda>_.
           bindS commit (\<lambda>_.
           retS (source, run, Some res, None)))))))"

text \<open>
  A session of its own: what is not committed when it closes is gone. The result is what the
  caller sees of the session, and the database.
\<close>

definition in_own_session :: "'a op \<Rightarrow> db \<Rightarrow> (exn + 'a) \<times> db" where
  "in_own_session m d = (case m (open_session d) of (r, s) \<Rightarrow> (r, committed s))"

section \<open>The two doors\<close>

record ingest_response =
  ir_source :: pystr
  ir_ok :: bool
  ir_fetched :: nat
  ir_created :: nat
  ir_error_message :: "pystr option"
  ir_blocked_status :: "int option"

definition trigger_ingest :: "connector_runner \<Rightarrow> pystr \<Rightarrow> bool \<Rightarrow> int \<Rightarrow> ingest_response op" where
  "trigger_ingest run_connector source force_refresh now =
     bindS (run_with_lifecycle run_connector source force_refresh now (None :: (source_row \<Rightarrow> unit op) option)
              (\<lambda>src _ res. record_run_fetch_failure src res None now)
              (\<lambda>_ _ _. rollback)) (\<lambda>(_, _, res, e).
     case e of
       Some x \<Rightarrow> retS \<lparr>ir_source = source, ir_ok = False, ir_fetched = 0, ir_created = 0,
                      ir_error_message = Some (exn_text x), ir_blocked_status = None\<rparr>
     | None \<Rightarrow>
         (case res of
            None \<Rightarrow> raiseS (AssertionError (lit ''result is not None''))
          | Some r \<Rightarrow> retS \<lparr>ir_source = source, ir_ok = res_ok r, ir_fetched = res_fetched r,
                          ir_created = res_created r, ir_error_message = res_error_message r,
                          ir_blocked_status = res_blocked_status r\<rparr>))"

definition run_source :: "connector_runner \<Rightarrow> pystr \<Rightarrow> pystr \<Rightarrow> int \<Rightarrow> int op" where
  "run_source run_connector connector trigger now =
     bindS (run_with_lifecycle run_connector connector False now
              (Some (\<lambda>src. start_run (src_id src) trigger now))
              (\<lambda>src run res.
                 case run of
                   None \<Rightarrow> raiseS (AssertionError (lit ''run is not None''))
                 | Some rid \<Rightarrow>
                     bindS (record_run_fetch_failure src res (Some rid) now) (\<lambda>_.
                     finish_run_ok rid (res_fetched res) (res_created res) (res_fetched res = 0) now))
              (\<lambda>src run e.
                 case run of
                   None \<Rightarrow> raiseS (AssertionError (lit ''run is not None''))
                 | Some rid \<Rightarrow>
                     bindS (finish_run_error rid (exn_text e) now) (\<lambda>_. commit))) (\<lambda>(_, run, _, _).
     case run of
       None \<Rightarrow> raiseS (AssertionError (lit ''run is not None''))
     | Some rid \<Rightarrow> retS rid)"

section \<open>Run records are consistent\<close>

text \<open>A run is running exactly while it has no end; a finished one says how it went.\<close>

definition run_row_ok :: "run_row \<Rightarrow> bool" where
  "run_row_ok r \<longleftrightarrow>
     (run_status r = st_running \<and> run_finished_at r = None
        \<and> fetched_count r = None \<and> run_error_message r = None)
   \<or> (run_status r = st_ok \<and> run_finished_at r \<noteq> None \<and> fetched_count r \<noteq> None \<and> created_count r \<noteq> None)
   \<or> (run_status r = st_error \<and> run_finished_at r \<noteq> None \<and> run_error_message r \<noteq> None)"

definition runs_ok :: "db \<Rightarrow> bool" where
  "runs_ok d \<longleftrightarrow> db_ok d \<and> list_all run_row_ok (scheduler_runs d)"

lemma mark_row_ok [simp]: "run_row_ok (mark_ok f c w now r)" "run_row_ok (mark_error m now r)"
  by (simp_all add: run_row_ok_def mark_ok_def mark_error_def)

lemma mark_ids [simp]:
  "run_id (mark_ok f c w now r) = run_id r" "run_id (mark_error m now r) = run_id r"
  "run_source_id (mark_ok f c w now r) = run_source_id r"
  "run_source_id (mark_error m now r) = run_source_id r"
  "run_status (mark_ok f c w now r) = st_ok" "run_status (mark_error m now r) = st_error"
  by (simp_all add: mark_ok_def mark_error_def)

lemma runs_ok_update:
  assumes "runs_ok d" and "\<And>r. run_row_ok (f r)"
    and "\<And>r. run_id (f r) = run_id r" and "\<And>r. run_source_id (f r) = run_source_id r"
  shows "runs_ok (d\<lparr>scheduler_runs := update_where P f (scheduler_runs d)\<rparr>)"
proof -
  let ?rows = "update_where P f (scheduler_runs d)"
  have ids: "map run_id ?rows = map run_id (scheduler_runs d)"
    and srcs: "map run_source_id ?rows = map run_source_id (scheduler_runs d)"
    using assms(3,4) by (simp_all add: table_simps)
  have "run_id ` set ?rows = run_id ` set (scheduler_runs d)" using ids by (metis set_map)
  moreover have "list_all (\<lambda>r. run_source_id r \<in> A) ?rows = list_all (\<lambda>r. run_source_id r \<in> A) (scheduler_runs d)" for A
    using arg_cong [OF srcs, of "list_all (\<lambda>i. i \<in> A)"] by (simp add: list.pred_map o_def)
  moreover have "list_all run_row_ok ?rows"
    using assms(1,2) by (auto simp: runs_ok_def update_where_def list_all_iff)
  ultimately show ?thesis
    using assms(1) ids
    by (simp add: runs_ok_def db_ok_def keys_ok_def ids_below_def refs_simps)
qed

lemma runs_ok_add_run:
  assumes "runs_ok d" and "run_refs (add_run sid trigger now d)"
  shows "runs_ok (add_run sid trigger now d)"
proof -
  have "next_id d \<notin> run_id ` set (scheduler_runs d)"
    using assms(1) ids_in_fresh by (fastforce simp: runs_ok_def db_ok_def ids_below_def)
  moreover have "opt_in v (insert x A)" if "opt_in v A" for v and x :: int and A
    using that by (cases v) auto
  ultimately show ?thesis
    using assms
    by (auto simp: runs_ok_def db_ok_def keys_ok_def ids_below_def refs_simps add_run_def table_simps
        run_row_ok_def list_all_iff)
qed

lemma runs_ok_stamp: "runs_ok d \<Longrightarrow> runs_ok (stamp_fetched sid now d)"
proof -
  assume ok: "runs_ok d"
  let ?rows = "update_where (\<lambda>r. src_id r = sid) (\<lambda>r. r\<lparr>src_last_fetched_at := Some now\<rparr>) (sources d)"
  have ids: "map src_id ?rows = map src_id (sources d)" "map src_name ?rows = map src_name (sources d)"
    by (simp_all add: table_simps)
  then have "src_id ` set ?rows = src_id ` set (sources d)" by (metis set_map)
  with ok ids show ?thesis
    by (simp add: stamp_fetched_def runs_ok_def db_ok_def keys_ok_def ids_below_def refs_simps)
qed

lemma keeps_runs_record [keeps_intros]: "keeps runs_ok (record_ingestion_failure key k fs now)"
proof -
  have "keeps (\<lambda>d. list_all run_row_ok (scheduler_runs d)) (record_ingestion_failure key k fs now)"
    unfolding record_ingestion_failure_def
    by (intro keeps_swallow keeps_upsert_stmt) (simp add: upsert_ingestion_def)
  from keeps_conj [OF keeps_record_ingestion_failure this] show ?thesis
    by (simp add: runs_ok_def [abs_def])
qed

lemma keeps_tryS [keeps_intros]: "keeps I m \<Longrightarrow> keeps I (tryS m)"
  by (auto simp: keeps_def tryS_def split: prod.splits)

lemma keeps_start_run [keeps_intros]: "keeps runs_ok (start_run sid trigger now)"
  unfolding start_run_def by (intro keeps_intros runs_ok_add_run)

lemma keeps_finish_ok [keeps_intros]: "keeps runs_ok (finish_run_ok rid f c w now)"
  unfolding finish_run_ok_def update_run_def by (intro keeps_intros runs_ok_update) auto

lemma keeps_finish_error [keeps_intros]: "keeps runs_ok (finish_run_error rid m now)"
  unfolding finish_run_error_def update_run_def by (intro keeps_intros runs_ok_update) auto

lemma keeps_reconcile [keeps_intros]: "keeps runs_ok (reconcile_stale_running_runs now)"
  unfolding reconcile_stale_running_runs_def by (intro keeps_intros runs_ok_update) auto

lemma keeps_run_failure [keeps_intros]: "keeps runs_ok (record_run_fetch_failure src res run now)"
  unfolding record_run_fetch_failure_def by (intro keeps_intros)

lemma keeps_dispatch:
  "(\<And>c src b. keeps I (run_connector c src b)) \<Longrightarrow> keeps I (dispatch_ingestion run_connector source b)"
  unfolding dispatch_ingestion_def by (intro keeps_intros) auto

lemma keeps_resolve [keeps_intros]: "keeps I (resolve_source_by_connector c)"
  unfolding resolve_source_by_connector_def by (intro keeps_intros)

lemma keeps_prod [keeps_intros]: "(\<And>a b. keeps I (f a b)) \<Longrightarrow> keeps I (case p of (a, b) \<Rightarrow> f a b)"
  by (cases p) auto

lemma keeps_lifecycle:
  assumes "\<And>c src b. keeps runs_ok (run_connector c src b)"
    and "\<And>src. keeps runs_ok (before src)" and "\<And>src r res. keeps runs_ok (on_success src r res)"
    and "\<And>src r e. keeps runs_ok (on_error src r e)"
  shows "keeps runs_ok (run_with_lifecycle run_connector c b now (Some before) on_success on_error)"
  unfolding run_with_lifecycle_def option.case
  by (intro keeps_intros keeps_dispatch assms runs_ok_stamp)

text \<open>A scheduler run keeps the run records consistent, whatever the connector does within the
  invariant and however the run ends: a record is running exactly while it has no end time, an
  \<open>ok\<close> record has its counts, an \<open>error\<close> record has its message; and so does the sweep at boot.\<close>

theorem run_source_keeps_runs:
  assumes "\<And>c src b. keeps runs_ok (run_connector c src b)" and "session_inv runs_ok s"
  shows "session_inv runs_ok (snd (run_source run_connector connector trigger now s))
    \<and> session_inv runs_ok (snd (reconcile_stale_running_runs now s))"
proof -
  have "keeps runs_ok (run_source run_connector connector trigger now)"
    unfolding run_source_def
    by (intro keeps_bindS keeps_lifecycle assms(1)) (intro keeps_intros)+
  with assms(2) keeps_reconcile show ?thesis by (simp add: keeps_def)
qed

section \<open>How a run ends\<close>

lemma find_source_in: "find_source c d = Some src \<Longrightarrow> src \<in> set (sources d) \<and> src_connector src = Some c"
  by (auto simp: find_source_def dest: find_Some_in_set)

lemma add_run_refs: "refs_ok d \<Longrightarrow> sid \<in> src_id ` set (sources d) \<Longrightarrow> run_refs (add_run sid trigger now d)"
  by (simp add: refs_simps add_run_def)

lemma start_run_run:
  assumes "\<not> tx_aborted s" and "run_refs (add_run sid trigger now (working s))"
  shows "start_run sid trigger now s
           = (Inr (next_id (working s)), s\<lparr>working := add_run sid trigger now (working s)\<rparr>)"
  using assms by (simp add: start_run_def run_simps add_run_def)

text \<open>The run up to the connector's outcome, in a session of its own.\<close>

lemma run_source_start:
  assumes "c \<in> set registry_names" and "find_source c d = Some src" and "connector_enabled (src_config src)"
    and "refs_ok d"
    and "run_connector c src False (open_session (add_run (src_id src) trigger now d)) = (r, s2)"
  shows "in_own_session (run_source run_connector c trigger now) d =
    (let rid = next_id d;
         finish = (case r of
           Inl e \<Rightarrow> bindS (finish_run_error rid (exn_text e) now) (\<lambda>_. commit)
         | Inr res \<Rightarrow>
             bindS (if res_ok res then exec (stamp_fetched (src_id src) now) else retS ()) (\<lambda>_.
             bindS (record_run_fetch_failure src res (Some rid) now) (\<lambda>_.
             bindS (finish_run_ok rid (res_fetched res) (res_created res) (res_fetched res = 0) now) (\<lambda>_.
             commit))))
     in case finish s2 of
          (Inl e, t) \<Rightarrow> (Inl e, committed t)
        | (Inr _, t) \<Rightarrow> (Inr rid, committed t))"
proof -
  have src: "src \<in> set (sources d)" "src_connector src = Some c"
    using find_source_in [OF assms(2)] by auto
  let ?d1 = "add_run (src_id src) trigger now d"
  have start: "start_run (src_id src) trigger now (open_session d)
      = (Inr (next_id d), (open_session d)\<lparr>working := ?d1\<rparr>)"
    using start_run_run [of "open_session d"] add_run_refs [OF assms(4)] src
    by (simp add: open_session_def)
  have open1: "(open_session d)\<lparr>working := ?d1\<rparr>\<lparr>committed := ?d1\<rparr> = open_session ?d1"
    by (simp add: open_session_def)
  have res: "resolve_source_by_connector c (open_session d) = (Inr src, open_session d)"
    using assms(1,2) by (simp add: resolve_source_by_connector_def run_simps open_session_def)
  have disp: "dispatch_ingestion run_connector src False (open_session ?d1) = (r, s2)"
    using src(2) assms(1,5) by (simp add: dispatch_ingestion_def)
  have tx: "tx_aborted ((open_session d)\<lparr>working := ?d1\<rparr>) = False" by (simp add: open_session_def)
  show ?thesis
    unfolding in_own_session_def run_source_def run_with_lifecycle_def
    using assms(3)
    by (cases r)
      (auto simp: bindS_def res start commit_def tx open1 tryS_def disp retS_def Let_def
        split: prod.splits sum.splits if_splits)
qed

definition run_with_id :: "int \<Rightarrow> db \<Rightarrow> run_row option" where
  "run_with_id rid d = find (\<lambda>r. run_id r = rid) (scheduler_runs d)"

lemma run_with_id_update:
  assumes "run_with_id rid d = Some r" and "\<And>r. run_id (f r) = run_id r"
  shows "run_with_id rid (update_run rid f d) = Some (f r)"
proof -
  have "find (\<lambda>r. run_id r = rid) (update_where (\<lambda>r. run_id r = rid) f rows)
      = map_option f (find (\<lambda>r. run_id r = rid) rows)" for rows
    using assms(2) by (induction rows) (auto simp: update_where_def)
  then show ?thesis using assms(1) by (simp add: run_with_id_def update_run_def)
qed

lemma run_with_id_add:
  assumes "ids_below d"
  shows "\<exists>r. run_with_id (next_id d) (add_run sid trigger now d) = Some r \<and> run_status r = st_running
           \<and> run_source_id r = sid \<and> run_finished_at r = None"
proof -
  have "next_id d \<notin> run_id ` set (scheduler_runs d)"
    using assms ids_in_fresh by (fastforce simp: ids_below_def)
  then have "find (\<lambda>r. run_id r = next_id d) (scheduler_runs d) = None"
    by (auto simp: find_None_iff) (metis image_eqI)
  then show ?thesis by (simp add: run_with_id_def add_run_def find_append)
qed

text \<open>A scheduler run whose connector raises is closed as an error: the record carries the
  exception's text, and everything the connector had written before it raised is committed
  with it.\<close>

theorem failed_run_is_closed:
  assumes "c \<in> set registry_names" and "find_source c d = Some src" and "connector_enabled (src_config src)"
    and "db_ok d"
    and "run_connector c src False (open_session (add_run (src_id src) trigger now d)) = (Inl e, s2)"
    and "\<not> tx_aborted s2"
    and "scheduler_runs (working s2) = scheduler_runs (add_run (src_id src) trigger now d)"
  shows "\<exists>d' row. in_own_session (run_source run_connector c trigger now) d = (Inr (next_id d), d')
    \<and> run_with_id (next_id d) d' = Some row \<and> run_status row = st_error
    \<and> run_error_message row = Some (exn_text e) \<and> offers d' = offers (working s2)"
proof -
  let ?f = "mark_error (exn_text e) now"
  let ?d' = "update_run (next_id d) ?f (working s2)"
  obtain r0 where r0: "run_with_id (next_id d) (add_run (src_id src) trigger now d) = Some r0"
    using run_with_id_add assms(4) by (metis db_ok_def)
  then have "run_with_id (next_id d) (working s2) = Some r0" using assms(7) by (simp add: run_with_id_def)
  then have row: "run_with_id (next_id d) ?d' = Some (?f r0)" by (rule run_with_id_update) simp
  have refs: "refs_ok d" using assms(4) by (simp add: db_ok_def)
  note start = run_source_start [OF assms(1-3) refs, where run_connector = run_connector
    and trigger = trigger and now = now, OF assms(5)]
  have "in_own_session (run_source run_connector c trigger now) d = (Inr (next_id d), ?d')"
    using assms(6) unfolding start
    by (simp add: Let_def finish_run_error_def run_simps)
  with row show ?thesis by (auto simp: mark_error_def update_run_def)
qed

text \<open>A run whose connector leaves the transaction aborted is never closed: the scheduler's
  error handler writes without rolling back first, its statement is refused, the exception
  leaves \<open>run_source\<close>, and the committed run record still says \<open>running\<close>.\<close>

theorem aborted_run_stays_running:
  assumes "c \<in> set registry_names" and "find_source c d = Some src" and "connector_enabled (src_config src)"
    and "db_ok d"
    and "run_connector c src False (open_session (add_run (src_id src) trigger now d)) = (r, s2)"
    and "tx_aborted s2" and "committed s2 = add_run (src_id src) trigger now d"
  shows "\<exists>row. in_own_session (run_source run_connector c trigger now) d
      = (Inl tx_error, add_run (src_id src) trigger now d)
    \<and> run_with_id (next_id d) (add_run (src_id src) trigger now d) = Some row
    \<and> run_status row = st_running"
proof -
  have refs: "refs_ok d" using assms(4) by (simp add: db_ok_def)
  note start = run_source_start [OF assms(1-3) refs, where run_connector = run_connector
    and trigger = trigger and now = now, OF assms(5)]
  have "in_own_session (run_source run_connector c trigger now) d
      = (Inl tx_error, add_run (src_id src) trigger now d)"
  proof (cases r)
    case (Inl e)
    with assms(6,7) show ?thesis
      unfolding start
      by (simp add: Let_def finish_run_error_def run_simps)
  next
    case (Inr res)
    have rec: "\<exists>u. record_run_fetch_failure src res (Some (next_id d)) now s2 = (Inr (), u)
        \<and> tx_aborted u \<and> committed u = committed s2"
    proof (cases "res_ok res")
      case False
      then show ?thesis
        using assms(6)
        by (simp add: record_run_fetch_failure_def record_ingestion_failure_def swallow_def
            upsert_stmt_def run_simps)
    qed (simp add: record_run_fetch_failure_def retS_def assms(6))
    then obtain u where "record_run_fetch_failure src res (Some (next_id d)) now s2 = (Inr (), u)"
      "tx_aborted u" "committed u = committed s2" by blast
    with Inr assms(6,7) show ?thesis
      unfolding start
      by (cases "res_ok res") (simp_all add: Let_def finish_run_ok_def run_simps)
  qed
  then show ?thesis
    using run_with_id_add [of d "src_id src" trigger now] assms(4) by (auto simp: db_ok_def)
qed

text \<open>C26: A stopped connector never runs: both doors refuse it before a run record is opened or a
  page is fetched, and leave the database as it is.\<close>

theorem disabled_connector_never_runs:
  assumes "c \<in> set registry_names" and "find_source c d = Some src" and "\<not> connector_enabled (src_config src)"
  shows "in_own_session (run_source run_connector c trigger now) d = (Inl (ConnectorDisabledError c), d)
    \<and> in_own_session (trigger_ingest run_connector c force now) d = (Inl (ConnectorDisabledError c), d)"
  using assms
  by (simp add: in_own_session_def run_source_def trigger_ingest_def run_with_lifecycle_def
      resolve_source_by_connector_def run_simps open_session_def)

text \<open>The sweep at boot closes every open run as an error and touches nothing else: after it no
  run is running, the finished runs are as they were, and it reports how many it closed.\<close>

theorem reconcile_closes_running:
  assumes "\<not> tx_aborted s"
  shows "\<exists>t. reconcile_stale_running_runs now s
      = (Inr (length (filter (\<lambda>r. run_status r = st_running) (scheduler_runs (working s)))), t)
    \<and> list_all (\<lambda>r. run_status r \<noteq> st_running) (scheduler_runs (working t))
    \<and> map run_id (scheduler_runs (working t)) = map run_id (scheduler_runs (working s))
    \<and> filter (\<lambda>r. run_error_message r \<noteq> Some interrupted \<or> run_finished_at r \<noteq> Some now) (scheduler_runs (working t))
      = filter (\<lambda>r. run_status r \<noteq> st_running
          \<and> (run_error_message r \<noteq> Some interrupted \<or> run_finished_at r \<noteq> Some now)) (scheduler_runs (working s))"
proof -
  let ?rows = "\<lambda>rows. update_where (\<lambda>r. run_status r = st_running) (mark_error interrupted now) rows"
  have "filter (\<lambda>r. run_error_message r \<noteq> Some interrupted \<or> run_finished_at r \<noteq> Some now) (?rows rows)
      = filter (\<lambda>r. run_status r \<noteq> st_running
          \<and> (run_error_message r \<noteq> Some interrupted \<or> run_finished_at r \<noteq> Some now)) rows" for rows
    by (induction rows) (auto simp: update_where_def mark_error_def)
  moreover have "list_all (\<lambda>r. run_status r \<noteq> st_running) (?rows rows)" for rows
    by (auto simp: update_where_def list_all_iff)
  moreover have "map run_id (?rows rows) = map run_id rows" for rows
    by (simp add: table_simps)
  ultimately show ?thesis
    using assms by (simp add: reconcile_stale_running_runs_def run_simps)
qed

section \<open>Concrete runs\<close>

definition lifecycle_source :: "bool \<Rightarrow> source_row" where
  "lifecycle_source on = \<lparr>src_id = 1, src_name = SOLID_JOBS, src_connector = Some SOLID_JOBS,
     src_config = [(lit ''connector_enabled'', JBool on)], src_last_fetched_at = None\<rparr>"

definition lifecycle_db :: "bool \<Rightarrow> db" where
  "lifecycle_db on = empty_db\<lparr>next_id := 2, sources := [lifecycle_source on]\<rparr>"

lemma lifecycle_db_ok [simp]: "db_ok (lifecycle_db on)" "runs_ok (lifecycle_db on)"
  by (simp_all add: lifecycle_db_def lifecycle_source_def empty_db_def db_ok_def keys_ok_def
      ids_below_def ids_in_def refs_simps runs_ok_def)

lemma lifecycle_lookup:
  "SOLID_JOBS \<in> set registry_names" "find_source SOLID_JOBS (lifecycle_db on) = Some (lifecycle_source on)"
  "connector_enabled (src_config (lifecycle_source True))"
  "\<not> connector_enabled (src_config (lifecycle_source False))"
proof -
  show "SOLID_JOBS \<in> set registry_names" by code_simp
  show "find_source SOLID_JOBS (lifecycle_db on) = Some (lifecycle_source on)"
    by (simp add: find_source_def lifecycle_db_def lifecycle_source_def)
  show "connector_enabled (src_config (lifecycle_source True))" by code_simp
  show "\<not> connector_enabled (src_config (lifecycle_source False))" by code_simp
qed

definition poison_feed :: "unit fetch_page" where
  "poison_feed p cursor k = Inr (Some ([long_posting, sample_posting], None))"

definition poison_connector :: connector_runner where
  "poison_connector c src force = run_paginated_ingestion sample_lib (src_id src) poison_feed
     (\<lambda>_ raw. Inr raw) None plain_args (\<lambda>_ _. 0)"

theorem run_source_keeps_runs_witness:
  "session_inv runs_ok (snd (run_source (\<lambda>_ _ _. retS (finished 0 0)) SOLID_JOBS (lit ''manual'') 5
     (open_session (lifecycle_db True))))"
  using run_source_keeps_runs [of "\<lambda>_ _ _. retS (finished 0 0)" "open_session (lifecycle_db True)"]
  by (simp add: keeps_retS session_inv_def open_session_def)

theorem failed_run_is_closed_witness:
  "\<exists>d' row. in_own_session (run_source (\<lambda>_ _ _. raiseS (ValueError (lit ''boom''))) SOLID_JOBS
       (lit ''manual'') 5) (lifecycle_db True) = (Inr 2, d') \<and> run_with_id 2 d' = Some row
     \<and> run_error_message row = Some (lit ''boom'')"
proof -
  have "next_id (lifecycle_db True) = 2" by (simp add: lifecycle_db_def)
  then show ?thesis
    using failed_run_is_closed [OF lifecycle_lookup(1,2,3) lifecycle_db_ok(1),
      of "\<lambda>_ _ _. raiseS (ValueError (lit ''boom''))" "lit ''manual''" 5 "ValueError (lit ''boom'')"]
    by (auto simp: raiseS_def open_session_def)
qed

theorem aborted_run_stays_running_witness:
  "\<exists>row. run_with_id 2 (snd (in_own_session (run_source poison_connector SOLID_JOBS (lit ''automatic'') 5)
       (lifecycle_db True))) = Some row \<and> run_status row = st_running"
proof -
  let ?d1 = "add_run (src_id (lifecycle_source True)) (lit ''automatic'') 5 (lifecycle_db True)"
  obtain r s2 where run: "poison_connector SOLID_JOBS (lifecycle_source True) False (open_session ?d1) = (r, s2)"
    by fastforce
  have "(case poison_connector SOLID_JOBS (lifecycle_source True) False (open_session ?d1) of (_, s) \<Rightarrow>
      tx_aborted s \<and> committed s = ?d1)"
    by code_simp
  then have "tx_aborted s2" "committed s2 = ?d1" unfolding run by simp_all
  from aborted_run_stays_running [OF lifecycle_lookup(1,2,3) lifecycle_db_ok(1),
      where run_connector = poison_connector and trigger = "lit ''automatic''" and now = 5, OF run this]
  show ?thesis by (auto simp: lifecycle_db_def)
qed

theorem disabled_connector_never_runs_witness:
  "in_own_session (run_source poison_connector SOLID_JOBS (lit ''manual'') 5) (lifecycle_db False)
     = (Inl (ConnectorDisabledError SOLID_JOBS), lifecycle_db False)"
  using disabled_connector_never_runs [OF lifecycle_lookup(1,2,4)] by blast

theorem reconcile_closes_running_witness:
  "\<exists>t. reconcile_stale_running_runs 9 (open_session (add_run 1 (lit ''manual'') 5 (lifecycle_db True)))
     = (Inr 1, t)"
  using reconcile_closes_running [of "open_session (add_run 1 (lit ''manual'') 5 (lifecycle_db True))" 9]
  by (auto simp: open_session_def add_run_def lifecycle_db_def empty_db_def)

end
