(* ===== verification/OffersApi.thy ===== *)
theory OffersApi
  imports Batch Lifecycle
begin

text \<open>
  \<open>app/api/routes/offers.py\<close> with the response and edit models of \<open>app/schemas/offer.py\<close>: the
  filtered and ordered list, the clean-up of old offers with its preview, the edit of one offer
  and its score. A \<open>DELETE\<close> the foreign keys forbid is rejected by the server.
\<close>

section \<open>Summaries\<close>

record offer_summary =
  sum_id :: int
  sum_source :: pystr
  sum_external_id :: "pystr option"
  sum_canonical_url :: "pystr option"
  sum_title :: pystr
  sum_company :: pystr
  sum_location :: "pystr option"
  sum_remote :: bool
  sum_seniority :: "pystr option"
  sum_salary_min :: "int option"
  sum_salary_max :: "int option"
  sum_salary_currency :: pystr
  sum_contract_type :: "pystr option"
  sum_posted_at :: "pydt option"
  sum_industry_tags :: "pystr list"
  sum_created_at :: int
  sum_applied :: bool
  sum_hide :: bool
  sum_notes :: "pystr option"
  sum_link_opened_at :: "int option"
  sum_score_percent :: "int option"

text \<open>\<open>score_percent\<close> is bounded by the response model, so building a summary may raise.\<close>

definition percent_ok :: "int option \<Rightarrow> bool" where
  "percent_ok p = (case p of None \<Rightarrow> True | Some n \<Rightarrow> 0 \<le> n \<and> n \<le> 100)"

definition offer_summary_of :: "offer_row \<Rightarrow> pystr \<Rightarrow> int option \<Rightarrow> exn + offer_summary" where
  "offer_summary_of r src percent =
     bindE (check (percent_ok percent) ''score_percent'') (\<lambda>_. Inr
       \<lparr>sum_id = offer_id r, sum_source = src, sum_external_id = external_id r,
        sum_canonical_url = canonical_url r, sum_title = title r, sum_company = company r,
        sum_location = location r, sum_remote = remote r, sum_seniority = seniority r,
        sum_salary_min = salary_min r, sum_salary_max = salary_max r,
        sum_salary_currency = salary_currency r, sum_contract_type = contract_type r,
        sum_posted_at = posted_at r, sum_industry_tags = industry_tags r,
        sum_created_at = created_at r, sum_applied = applied r, sum_hide = hide r,
        sum_notes = offer_notes r, sum_link_opened_at = link_opened_at r,
        sum_score_percent = percent\<rparr>)"

text \<open>\<open>connector or name\<close>\<close>

definition source_label :: "source_row \<Rightarrow> pystr" where
  "source_label src = (case src_connector src of None \<Rightarrow> src_name src
     | Some c \<Rightarrow> if c = [] then src_name src else c)"

section \<open>Latest scores\<close>

text \<open>
  The newest score row of an offer for a profile. Which of several rows of one instant the server
  takes is not specified; the first one is taken here.
\<close>

definition latest_score :: "int \<Rightarrow> int \<Rightarrow> db \<Rightarrow> match_score_row option" where
  "latest_score oid pid d =
     (case sort_key (\<lambda>m. - ms_created_at m)
        (filter (\<lambda>m. ms_offer_id m = oid \<and> ms_profile_id m = pid) (match_scores d)) of
        [] \<Rightarrow> None | m # _ \<Rightarrow> Some m)"

definition no_active_profile_id :: int where "no_active_profile_id = -1"

definition active_profile_id :: "db \<Rightarrow> int" where
  "active_profile_id d = (case get_active_profile d of None \<Rightarrow> no_active_profile_id | Some p \<Rightarrow> profile_id p)"

definition offer_percent :: "db \<Rightarrow> offer_row \<Rightarrow> int option" where
  "offer_percent d r = map_option ms_score_percent (latest_score (offer_id r) (active_profile_id d) d)"

section \<open>The list\<close>

text \<open>\<open>LIKE\<close>: a percent sign is any text, an underscore any character, a backslash quotes.\<close>

fun like_match :: "pystr \<Rightarrow> pystr \<Rightarrow> bool" where
  "like_match [] s = (s = [])"
| "like_match (c # ps) s =
     (if c = 37 then like_match ps s \<or> (case s of [] \<Rightarrow> False | _ # s' \<Rightarrow> like_match (c # ps) s')
      else if c = 92 then
        (case ps of [] \<Rightarrow> False
         | e # ps' \<Rightarrow> (case s of [] \<Rightarrow> False | x # s' \<Rightarrow> x = e \<and> like_match ps' s'))
      else (case s of [] \<Rightarrow> False | x # s' \<Rightarrow> (c = 95 \<or> x = c) \<and> like_match ps s'))"

definition ilike :: "pystr \<Rightarrow> pystr \<Rightarrow> bool" where
  "ilike s pat = like_match (py_lower pat) (py_lower s)"

datatype order_field = By_posted_at | By_score_percent
datatype direction = Asc | Desc

record list_query =
  q_source :: "pystr option"
  q_remote :: "bool option"
  q_seniority :: "pystr option"
  q_min_salary :: "int option"
  q_min_score :: "int option"
  q_applied :: "bool option"
  q_show_hidden :: bool
  q_order_by :: order_field
  q_order :: direction
  q_limit :: nat
  q_offset :: nat

text \<open>A comparison with \<open>NULL\<close> is not true.\<close>

definition ge_sql :: "int option \<Rightarrow> int \<Rightarrow> bool" where
  "ge_sql v n = (case v of None \<Rightarrow> False | Some m \<Rightarrow> n \<le> m)"

definition seniority_matches :: "pystr \<Rightarrow> offer_row \<Rightarrow> bool" where
  "seniority_matches v r = (case seniority r of None \<Rightarrow> False | Some s \<Rightarrow> ilike s ([37] @ v @ [37]))"

definition salary_matches :: "int \<Rightarrow> offer_row \<Rightarrow> bool" where
  "salary_matches n r \<longleftrightarrow>
     ge_sql (salary_max r) n \<or> salary_max r = None \<and> ge_sql (salary_min r) n"

fun given :: "'a option \<Rightarrow> ('a \<Rightarrow> bool) \<Rightarrow> bool" where
  "given None f = True"
| "given (Some x) f = f x"

definition row_matches :: "list_query \<Rightarrow> db \<Rightarrow> offer_row \<Rightarrow> bool" where
  "row_matches q d r \<longleftrightarrow>
     source_of r d \<noteq> None
     \<and> given (q_source q) (\<lambda>c. source_connector r d = Some c)
     \<and> given (q_remote q) (\<lambda>b. remote r = b)
     \<and> given (q_seniority q) (\<lambda>v. seniority_matches v r)
     \<and> given (q_min_salary q) (\<lambda>n. salary_matches n r)
     \<and> given (q_min_score q) (\<lambda>n. ge_sql (offer_percent d r) n)
     \<and> given (q_applied q) (\<lambda>b. applied r = b)
     \<and> (q_show_hidden q \<or> \<not> hide r)"

fun directed :: "direction \<Rightarrow> int option \<Rightarrow> int nulls_last" where
  "directed dir None = Null"
| "directed Asc (Some n) = Val n"
| "directed Desc (Some n) = Val (- n)"

text \<open>
  \<open>ORDER BY\<close>: the score column first when it was asked for (then always the newest posting
  first), or the posting date; then \<open>created_at\<close> and \<open>id\<close>, newest first.
\<close>

definition order_key :: "list_query \<Rightarrow> db \<Rightarrow> offer_row \<Rightarrow> int nulls_last \<times> int nulls_last \<times> int \<times> int" where
  "order_key q d r =
     (let posted = map_option dt_instant (posted_at r) in
      case q_order_by q of
        By_score_percent \<Rightarrow> (directed (q_order q) (offer_percent d r), directed Desc posted,
          - created_at r, - offer_id r)
      | By_posted_at \<Rightarrow> (directed (q_order q) posted, Null, - created_at r, - offer_id r))"

text \<open>
  The server reads the rows of a table in no promised order, and rows whose sort columns all agree
  come out as they were read: \<open>scan\<close> is the order one query reads the offers in, any permutation
  of the table.
\<close>

definition matching_rows :: "(offer_row list \<Rightarrow> offer_row list) \<Rightarrow> list_query \<Rightarrow> db \<Rightarrow> offer_row list" where
  "matching_rows scan q d = sort_key (order_key q d) (filter (row_matches q d) (scan (offers d)))"

definition row_summary :: "db \<Rightarrow> offer_row \<Rightarrow> exn + offer_summary" where
  "row_summary d r =
     offer_summary_of r (case source_of r d of None \<Rightarrow> [] | Some s \<Rightarrow> source_label s) (offer_percent d r)"

definition list_offers ::
    "(offer_row list \<Rightarrow> offer_row list) \<Rightarrow> list_query \<Rightarrow> (offer_summary list \<times> nat) op" where
  "list_offers scan q =
     bindS (query (\<lambda>d. length (filter (row_matches q d) (offers d)))) (\<lambda>total.
     bindS (query (\<lambda>d. gather (row_summary d)
       (take (q_limit q) (drop (q_offset q) (matching_rows scan q d))))) (\<lambda>items.
     bindS (liftE items) (\<lambda>summaries.
     retS (summaries, total))))"

section \<open>Clean-up\<close>

definition posted_before :: "int \<Rightarrow> offer_row \<Rightarrow> bool" where
  "posted_before cutoff r = (case posted_at r of None \<Rightarrow> False | Some t \<Rightarrow> dt_instant t < cutoff)"

definition partition_offers_for_cleanup :: "int \<Rightarrow> db \<Rightarrow> int list \<times> nat" where
  "partition_offers_for_cleanup cutoff d =
     (let candidate_ids = map offer_id (filter (posted_before cutoff) (offers d)) in
      if candidate_ids = [] then ([], 0)
      else
        let pipeline_ids = remdups (filter (\<lambda>i. i \<in> set candidate_ids) (map app_offer_id (applications d)))
        in (filter (\<lambda>i. i \<notin> set pipeline_ids) candidate_ids, length pipeline_ids))"

definition delete_match_scores :: "int list \<Rightarrow> db \<Rightarrow> db" where
  "delete_match_scores ids d = d\<lparr>match_scores := delete_where (\<lambda>r. ms_offer_id r \<in> set ids) (match_scores d)\<rparr>"

definition delete_scoring_failures :: "int list \<Rightarrow> db \<Rightarrow> db" where
  "delete_scoring_failures ids d =
     d\<lparr>scoring_failures := delete_where (\<lambda>r. sf_offer_id r \<in> set ids) (scoring_failures d)\<rparr>"

definition delete_cv_versions :: "int list \<Rightarrow> db \<Rightarrow> db" where
  "delete_cv_versions ids d = d\<lparr>cv_versions := delete_where (\<lambda>r. cv_offer_id r \<in> set ids) (cv_versions d)\<rparr>"

definition delete_offer_rows :: "int list \<Rightarrow> db \<Rightarrow> db" where
  "delete_offer_rows ids d = d\<lparr>offers := delete_where (\<lambda>r. offer_id r \<in> set ids) (offers d)\<rparr>"

definition fk_violation :: exn where
  "fk_violation = OtherExn (lit ''IntegrityError'')"

definition delete_offers :: "pylib \<Rightarrow> pydt \<Rightarrow> (nat \<times> nat) op" where
  "delete_offers L older_than =
     bindS (query (partition_offers_for_cleanup (db_instant L older_than))) (\<lambda>(ids, skipped).
     bindS (if ids = [] then retS ()
            else
              bindS (exec (delete_match_scores ids)) (\<lambda>_.
              bindS (exec (delete_scoring_failures ids)) (\<lambda>_.
              bindS (exec_if refs_ok (delete_cv_versions ids) fk_violation) (\<lambda>_.
              exec_if refs_ok (delete_offer_rows ids) fk_violation)))) (\<lambda>_.
     bindS commit (\<lambda>_.
     retS (length ids, skipped))))"

definition preview_offer_cleanup :: "pylib \<Rightarrow> pydt \<Rightarrow> (nat \<times> nat) op" where
  "preview_offer_cleanup L older_than =
     bindS (query (partition_offers_for_cleanup (db_instant L older_than))) (\<lambda>(ids, skipped).
     retS (length ids, skipped))"

section \<open>One offer\<close>

text \<open>\<open>model_dump(exclude_unset=True)\<close>: an outer \<open>None\<close> is a field the request does not name.\<close>

record offer_edit =
  ed_applied :: "bool option option"
  ed_hide :: "bool option option"
  ed_notes :: "pystr option option"
  ed_link_opened :: "bool option option"

fun assign_if :: "'a option option \<Rightarrow> 'a \<Rightarrow> 'a" where
  "assign_if (Some (Some x)) y = x"
| "assign_if _ y = y"

definition apply_edit :: "offer_edit \<Rightarrow> int \<Rightarrow> offer_row \<Rightarrow> offer_row" where
  "apply_edit e now r =
     r\<lparr>applied := assign_if (ed_applied e) (applied r), hide := assign_if (ed_hide e) (hide r),
       offer_notes := (case ed_notes e of None \<Rightarrow> offer_notes r | Some v \<Rightarrow> v),
       link_opened_at := (if ed_link_opened e = Some (Some True) \<and> link_opened_at r = None
                          then Some now else link_opened_at r)\<rparr>"

text \<open>\<open>applied\<close> and \<open>hide\<close> are not nullable: the \<open>UPDATE\<close> that writes a null to them is rejected.\<close>

definition null_flag :: "offer_edit \<Rightarrow> bool" where
  "null_flag e \<longleftrightarrow> ed_applied e = Some None \<or> ed_hide e = Some None"

definition update_offer :: "offer_edit \<Rightarrow> int \<Rightarrow> int \<Rightarrow> db \<Rightarrow> db" where
  "update_offer e now oid d = d\<lparr>offers := update_where (\<lambda>r. offer_id r = oid) (apply_edit e now) (offers d)\<rparr>"

definition patch_offer :: "int \<Rightarrow> offer_edit \<Rightarrow> int \<Rightarrow> offer_summary op" where
  "patch_offer oid e now =
     bindS (query (find_offer oid)) (\<lambda>row.
     case row of
       None \<Rightarrow> raiseS (HTTPException 404)
     | Some _ \<Rightarrow>
         bindS (exec_if (\<lambda>_. \<not> null_flag e) (update_offer e now oid) (OtherExn (lit ''IntegrityError''))) (\<lambda>_.
         bindS commit (\<lambda>_.
         bindS (query (find_offer oid)) (\<lambda>fresh.
         case fresh of
           None \<Rightarrow> raiseS (OtherExn (lit ''InvalidRequestError''))
         | Some r \<Rightarrow>
             bindS (query (source_of r)) (\<lambda>src.
             case src of
               None \<Rightarrow> raiseS (AssertionError (lit ''source is not None''))
             | Some s \<Rightarrow>
                 bindS (query get_active_profile) (\<lambda>active.
                 bindS (case active of None \<Rightarrow> retS None
                        | Some p \<Rightarrow> query (\<lambda>d. map_option ms_score_percent (latest_score oid (profile_id p) d))) (\<lambda>percent.
                 liftE (offer_summary_of r (source_label s) percent))))))))"

definition get_offer_score :: "int \<Rightarrow> match_score_row option op" where
  "get_offer_score oid =
     bindS (query (find_offer oid)) (\<lambda>row.
     case row of
       None \<Rightarrow> raiseS (HTTPException 404)
     | Some _ \<Rightarrow>
         bindS (query get_active_profile) (\<lambda>active.
         case active of
           None \<Rightarrow> retS None
         | Some p \<Rightarrow> query (latest_score oid (profile_id p))))"

record offer_detail = offer_summary +
  det_description :: "pystr option"
  det_raw_payload :: jdict

definition offer_detail_of :: "offer_row \<Rightarrow> pystr \<Rightarrow> int option \<Rightarrow> exn + offer_detail" where
  "offer_detail_of r src percent =
     bindE (offer_summary_of r src percent) (\<lambda>sm.
     Inr (offer_summary.extend sm \<lparr>det_description = description r, det_raw_payload = raw_payload r\<rparr>))"

definition get_offer :: "int \<Rightarrow> offer_detail op" where
  "get_offer oid =
     bindS (query (\<lambda>d. case find_offer oid d of None \<Rightarrow> None
        | Some r \<Rightarrow> map_option (\<lambda>src. (r, src)) (source_of r d))) (\<lambda>row.
     case row of
       None \<Rightarrow> raiseS (HTTPException 404)
     | Some (r, src) \<Rightarrow> liftE (offer_detail_of r (source_label src) None))"

section \<open>Facts about the list\<close>

lemma offset_row_matches [simp]: "row_matches (q\<lparr>q_offset := n\<rparr>) = row_matches q"
  by (simp add: row_matches_def fun_eq_iff)

lemma offset_order_key [simp]: "order_key (q\<lparr>q_offset := n\<rparr>) = order_key q"
  by (cases "q_order_by q") (simp_all add: order_key_def fun_eq_iff)

lemma offset_matching_rows [simp]: "matching_rows scan (q\<lparr>q_offset := n\<rparr>) = matching_rows scan q"
  by (simp add: matching_rows_def fun_eq_iff)

lemma order_key_inj: "inj_on offer_id A \<Longrightarrow> inj_on (order_key q d) A"
  by (cases "q_order_by q") (auto simp: order_key_def inj_on_def)

text \<open>The sort columns end with the identifier, so a listing does not depend on the scan.\<close>

lemma matching_rows_scan:
  assumes "mset (scan (offers d)) = mset (offers d)" and "keys_ok d"
  shows "matching_rows scan q d = matching_rows (\<lambda>rows. rows) q d"
  unfolding matching_rows_def
proof (rule sort_key_inj_key_eq)
  have "inj_on offer_id (set (scan (offers d)))"
    using assms(2) mset_eq_setD [OF assms(1)] by (simp add: keys_ok_def distinct_map)
  then show "inj_on (order_key q d) (set (filter (row_matches q d) (scan (offers d))))"
    by (auto intro: order_key_inj inj_on_subset)
qed (simp_all add: assms(1))

lemma matching_rows_set:
  "mset (scan (offers d)) = mset (offers d) \<Longrightarrow>
     set (matching_rows scan q d) = {r \<in> set (offers d). row_matches q d r}"
  by (drule mset_eq_setD) (simp add: matching_rows_def)

lemma matching_rows_length:
  "mset (scan (offers d)) = mset (offers d) \<Longrightarrow>
     length (matching_rows scan q d) = length (filter (row_matches q d) (offers d))"
  by (simp add: matching_rows_def) (metis mset_filter size_mset)

lemma latest_score_in: "latest_score oid pid d = Some m \<Longrightarrow> m \<in> set (match_scores d)"
  unfolding latest_score_def
  by (auto split: list.splits dest!: arg_cong [where f = set])

definition percents_ok :: "db \<Rightarrow> bool" where
  "percents_ok d \<longleftrightarrow> list_all (\<lambda>m. 0 \<le> ms_score_percent m \<and> ms_score_percent m \<le> 100) (match_scores d)"

lemma offer_percent_ok: "percents_ok d \<Longrightarrow> percent_ok (offer_percent d r)"
  by (auto simp: percents_ok_def percent_ok_def offer_percent_def list_all_iff split: option.splits
      dest!: latest_score_in)

lemma row_summary_total: "percents_ok d \<Longrightarrow> \<exists>y. row_summary d r = Inr y"
  by (simp add: row_summary_def offer_summary_of_def check_def offer_percent_ok)

lemma row_summary_cols:
  "row_summary d r = Inr y \<Longrightarrow>
     sum_id y = offer_id r \<and> sum_posted_at y = posted_at r \<and> sum_score_percent y = offer_percent d r
     \<and> sum_hide y = hide r \<and> sum_applied y = applied r \<and> sum_remote y = remote r
     \<and> sum_seniority y = seniority r \<and> sum_salary_min y = salary_min r \<and> sum_salary_max y = salary_max r
     \<and> sum_created_at y = created_at r
     \<and> sum_source y = (case source_of r d of None \<Rightarrow> [] | Some s \<Rightarrow> source_label s)"
  unfolding row_summary_def offer_summary_of_def bindE_Inr_iff sum.inject
  by (elim exE conjE, hypsubst, simp)

lemma gather_total: "(\<And>x. x \<in> set xs \<Longrightarrow> \<exists>y. f x = Inr y) \<Longrightarrow> \<exists>ys. gather f xs = Inr ys"
proof (induction xs)
  case (Cons x xs)
  then obtain y ys where "f x = Inr y" "gather f xs = Inr ys" by (metis list.set_intros)
  then show ?case by simp
qed simp

lemma page_total: "percents_ok d \<Longrightarrow> \<exists>ys. gather (row_summary d) rows = Inr ys"
  by (rule gather_total) (rule row_summary_total)

lemma gather_map:
  "gather f xs = Inr ys \<Longrightarrow> (\<And>x y. f x = Inr y \<Longrightarrow> g y = h x) \<Longrightarrow> map g ys = map h xs"
  by (induction xs arbitrary: ys) (auto simp: bindE_Inr_iff)

lemma gather_all:
  "gather f xs = Inr ys \<Longrightarrow> (\<And>x y. x \<in> set xs \<Longrightarrow> f x = Inr y \<Longrightarrow> P y) \<Longrightarrow> list_all P ys"
proof (induction xs arbitrary: ys)
  case (Cons x xs)
  then obtain a as where y: "ys = a # as" "f x = Inr a" "gather f xs = Inr as"
    by (auto simp: bindE_Inr_iff)
  have "P a" using y(2) by (rule Cons.prems(2) [OF list.set_intros(1)])
  moreover have "list_all P as"
    using y(3) by (rule Cons.IH) (rule Cons.prems(2) [OF list.set_intros(2)])
  ultimately show ?case using y(1) by simp
qed simp

lemma gather_sorted:
  assumes "gather f xs = Inr ys" and "sorted_wrt R xs"
    and "\<And>x y a b. f x = Inr a \<Longrightarrow> f y = Inr b \<Longrightarrow> R x y \<Longrightarrow> S a b"
  shows "sorted_wrt S ys"
  using assms(1,2)
proof (induction xs arbitrary: ys)
  case (Cons x xs)
  then obtain a as where y: "ys = a # as" "f x = Inr a" "gather f xs = Inr as"
    by (auto simp: bindE_Inr_iff)
  have "list_all (S a) as" using y(3)
    by (rule gather_all) (use Cons.prems(2) y(2) assms(3) in auto)
  with Cons y show ?case by (simp add: list_all_iff)
qed simp

lemma concat_pages: "concat (map (\<lambda>i. take l (drop (i * l) xs)) [0..<n]) = take (n * l) xs"
proof (induction n)
  case (Suc n)
  have "take (Suc n * l) xs = take (n * l) xs @ take l (drop (n * l) xs)"
    by (metis add.commute mult_Suc take_add)
  with Suc show ?case by simp
qed simp

lemma list_offers_run:
  assumes "\<not> tx_aborted s" and "percents_ok (working s)"
  obtains ys where
    "list_offers scan q s = (Inr (ys, length (filter (row_matches q (working s)) (offers (working s)))), s)"
    "gather (row_summary (working s)) (take (q_limit q) (drop (q_offset q) (matching_rows scan q (working s)))) = Inr ys"
proof -
  obtain ys where ys: "gather (row_summary (working s))
      (take (q_limit q) (drop (q_offset q) (matching_rows scan q (working s)))) = Inr ys"
    using page_total [OF assms(2)] by auto
  have "list_offers scan q s = (Inr (ys, length (filter (row_matches q (working s)) (offers (working s)))), s)"
    using assms(1) unfolding list_offers_def bindS_def query_def liftE_def retS_def by (simp add: ys)
  with ys show ?thesis by (rule that [rotated])
qed

section \<open>A small database\<close>

definition listing_row :: "int \<Rightarrow> pydt option \<Rightarrow> offer_row" where
  "listing_row n posted = offer.extend (sample_offer\<lparr>posted_at := posted, seniority := Some (lit ''mid'')\<rparr>)
     \<lparr>offer_id = n, dedup_hash = lit ''h'' @ show_int n, applied = False, hide = False, offer_notes = None,
      link_opened_at = None, raw_payload = [], created_at = n\<rparr>"

definition listing_db :: "application_row list \<Rightarrow> db" where
  "listing_db apps = (lifecycle_db True)\<lparr>next_id := 20,
     profiles := [\<lparr>profile_id = 9, profile_name = lit ''a'', profile_status = lit ''active'',
                   is_active = True, profile_data = None\<rparr>],
     offers := [listing_row 11 (Some (Aware 10)), listing_row 12 (Some (Aware 20)), listing_row 13 None],
     match_scores := [\<lparr>ms_id = 14, ms_offer_id = 11, ms_profile_id = 9, ms_engine = lit ''langchain'',
       ms_score_percent = 70, ms_dimensions = [], ms_rationale = None, ms_created_at = 1\<rparr>],
     applications := apps\<rparr>"

definition sample_query :: list_query where
  "sample_query = \<lparr>q_source = None, q_remote = None, q_seniority = Some (lit ''MI''), q_min_salary = None,
     q_min_score = None, q_applied = None, q_show_hidden = False, q_order_by = By_score_percent,
     q_order = Desc, q_limit = 2, q_offset = 0\<rparr>"

lemma not_aborted: "\<not> tx_aborted (open_session d)"
  by simp

lemma listing_db_ok: "keys_ok (listing_db [])" "percents_ok (listing_db [])"
    "ids_below (listing_db [])" "refs_ok (listing_db [])" "length (offers (listing_db [])) = 3"
  by code_simp+

text \<open>C21: Paging through the list shows every matching offer exactly once: the pages of one query,
  asked for one after another, hold together the offers the filters keep, without repetition, and
  each page reports their number, although the server may read the rows in another order for
  every page.\<close>

theorem pages_show_each_offer_once:
  assumes "\<not> tx_aborted s" and "percents_ok (working s)" and "keys_ok (working s)"
    and "length (offers (working s)) \<le> n * q_limit q"
    and "\<And>i rows. mset (scan i rows) = mset rows"
  shows "\<exists>pages. (\<forall>i < n. list_offers (scan i) (q\<lparr>q_offset := i * q_limit q\<rparr>) s
         = (Inr (pages i, card {r \<in> set (offers (working s)). row_matches q (working s) r}), s))
     \<and> distinct (map sum_id (concat (map pages [0..<n])))
     \<and> set (map sum_id (concat (map pages [0..<n])))
         = offer_id ` {r \<in> set (offers (working s)). row_matches q (working s) r}"
proof -
  let ?d = "working s" let ?rows = "matching_rows (\<lambda>rows. rows) q (working s)"
  let ?page = "\<lambda>i. take (q_limit q) (drop (i * q_limit q) ?rows)"
  let ?total = "length (filter (row_matches q ?d) (offers ?d))"
  have "\<exists>ys. list_offers (scan i) (q\<lparr>q_offset := i * q_limit q\<rparr>) s = (Inr (ys, ?total), s)
      \<and> map sum_id ys = map offer_id (?page i)" for i
  proof -
    obtain ys where "list_offers (scan i) (q\<lparr>q_offset := i * q_limit q\<rparr>) s = (Inr (ys, ?total), s)"
      and g: "gather (row_summary ?d) (?page i) = Inr ys"
      using list_offers_run [OF assms(1,2), of "scan i" "q\<lparr>q_offset := i * q_limit q\<rparr>"]
        matching_rows_scan [where scan = "scan i" and d = ?d, OF assms(5,3)] by auto
    moreover have "map sum_id ys = map offer_id (?page i)"
      using g by (rule gather_map) (simp add: row_summary_cols)
    ultimately show ?thesis by blast
  qed
  then obtain pages where pages: "\<And>i. list_offers (scan i) (q\<lparr>q_offset := i * q_limit q\<rparr>) s = (Inr (pages i, ?total), s)"
    "\<And>i. map sum_id (pages i) = map offer_id (?page i)" by metis
  have "map sum_id (concat (map pages [0..<n])) = map offer_id (concat (map ?page [0..<n]))"
    by (induction n) (simp_all add: pages(2))
  also have "\<dots> = map offer_id ?rows"
    using order.trans [OF length_filter_le assms(4)] by (simp add: concat_pages matching_rows_length)
  finally have ids: "map sum_id (concat (map pages [0..<n])) = map offer_id ?rows" .
  have set: "set ?rows = {r \<in> set (offers ?d). row_matches q ?d r}" by (simp add: matching_rows_set)
  have di: "distinct (map offer_id ?rows)"
    using assms(3) unfolding matching_rows_def keys_ok_def distinct_map by (auto intro: inj_on_subset)
  have "distinct (offers ?d)" using assms(3) by (simp add: keys_ok_def distinct_map)
  then have "?total = card {r \<in> set (offers ?d). row_matches q ?d r}"
    using distinct_card [OF distinct_filter] by (metis set_filter)
  with pages(1) ids di set show ?thesis by (intro exI [of _ pages]) (simp only: set_map, simp)
qed

lemma all_listed: "{r \<in> set (offers (listing_db [])). row_matches sample_query (listing_db []) r}
    = set (offers (listing_db []))"
proof -
  have "filter (row_matches sample_query (listing_db [])) (offers (listing_db [])) = offers (listing_db [])"
    by code_simp
  then show ?thesis by (metis set_filter)
qed


lemma pages_show_each_offer_once_witness:
  "\<exists>pages. (\<forall>i < 2. list_offers (\<lambda>rows. if i = 0 then rows else rev rows) (sample_query\<lparr>q_offset := i * 2\<rparr>)
           (open_session (listing_db [])) = (Inr (pages i, 3), open_session (listing_db [])))
     \<and> set (map sum_id (concat (map pages [0..<2]))) = {11, 12, 13}"
proof -
  have lim: "q_limit sample_query = 2" by (simp add: sample_query_def)
  have ids: "offer_id ` set (offers (listing_db [])) = {11, 12, 13}" by code_simp
  have card: "card (set (offers (listing_db []))) = 3"
    by (simp add: listing_db_def listing_row_def offer.defs)
  have scan: "mset (if i = (0 :: nat) then rows else rev rows) = mset rows" for i and rows :: "offer_row list"
    by simp
  have "length (offers (working (open_session (listing_db [])))) \<le> 2 * q_limit sample_query"
    by (simp add: listing_db_ok lim)
  from pages_show_each_offer_once [where scan = "\<lambda>i rows. if i = (0 :: nat) then rows else rev rows",
      OF not_aborted _ _ this scan] listing_db_ok(1,2)
  show ?thesis unfolding all_listed lim open_session_simps card ids by blast
qed

fun in_order :: "direction \<Rightarrow> int option \<Rightarrow> int option \<Rightarrow> bool" where
  "in_order dir a None = True"
| "in_order dir None (Some b) = False"
| "in_order Asc (Some a) (Some b) = (a \<le> b)"
| "in_order Desc (Some a) (Some b) = (b \<le> a)"

definition order_column :: "list_query \<Rightarrow> offer_summary \<Rightarrow> int option" where
  "order_column q sm =
     (case q_order_by q of By_score_percent \<Rightarrow> sum_score_percent sm
      | By_posted_at \<Rightarrow> map_option dt_instant (sum_posted_at sm))"

lemma directed_le: "directed dir a \<le> directed dir b \<longleftrightarrow> in_order dir a b"
  by (cases dir; cases a; cases b) auto

lemma lower_wild: "lower_cp c = w \<Longrightarrow> w = 37 \<or> w = 92 \<or> w = 95 \<Longrightarrow> c = w"
  by (auto simp: lower_cp_def split: if_splits)

lemma like_percent: "like_match (37 # ps) s \<longleftrightarrow> (\<exists>a b. s = a @ b \<and> like_match ps b)"
proof (induction s)
  case (Cons x s)
  have "like_match (37 # ps) (x # s) \<longleftrightarrow> like_match ps (x # s) \<or> like_match (37 # ps) s" by simp
  with Cons.IH show ?case by (metis append_Cons append_Nil append_eq_Cons_conv)
qed simp

lemma like_plain:
  "list_all (\<lambda>c. c \<noteq> 37 \<and> c \<noteq> 92 \<and> c \<noteq> 95) p \<Longrightarrow> like_match (p @ [37]) s \<longleftrightarrow> is_prefix p s"
proof (induction p arbitrary: s)
  case Nil
  have "like_match [37] s" using like_percent [of "[]" s] by (metis append_Nil2 like_match.simps(1))
  then show ?case by simp
next
  case (Cons c p)
  then show ?case by (cases s) auto
qed

definition plain_text :: "pystr \<Rightarrow> bool" where
  "plain_text v = list_all (\<lambda>c. c \<noteq> 37 \<and> c \<noteq> 92 \<and> c \<noteq> 95) v"

lemma seniority_plain:
  assumes "plain_text v"
  shows "seniority_matches v r \<longleftrightarrow>
     (\<exists>s. seniority r = Some s \<and> py_contains (py_lower v) (py_lower s))"
proof -
  have plain: "list_all (\<lambda>c. c \<noteq> 37 \<and> c \<noteq> 92 \<and> c \<noteq> 95) (py_lower v)"
    using assms by (auto simp: plain_text_def py_lower_def list_all_iff dest: lower_wild)
  have "py_lower ([37] @ v @ [37]) = 37 # (py_lower v @ [37])" by (simp add: py_lower_def lower_cp_def)
  then have "ilike s ([37] @ v @ [37]) \<longleftrightarrow> py_contains (py_lower v) (py_lower s)" for s
    unfolding ilike_def by (simp only: like_percent like_plain [OF plain])
      (simp add: py_contains_iff is_prefix_iff, blast)
  then show ?thesis by (auto simp: seniority_matches_def split: option.splits)
qed

text \<open>For a text without wildcards the seniority filter is containment, whatever the case of
  either side.\<close>

theorem plain_seniority_is_containment:
  assumes "list_all (\<lambda>c. c \<noteq> 37 \<and> c \<noteq> 92 \<and> c \<noteq> 95) v"
  shows "seniority_matches v r \<longleftrightarrow>
     (\<exists>s. seniority r = Some s \<and> py_contains (py_lower v) (py_lower s))"
  using assms seniority_plain by (simp add: plain_text_def)

lemma plain_seniority_is_containment_witness:
  "seniority_matches (lit ''MI'') (listing_row 11 None)"
  using plain_seniority_is_containment [of "lit ''MI''" "listing_row 11 None"]
  by (simp add: listing_row_def offer.defs lit_def py_lower_def lower_cp_def)

text \<open>
  What a summary shows of the filters of a query: every filter is read off the summary itself. A
  source that has a connector is shown by it; a filter on the seniority is a \<open>LIKE\<close> pattern and
  means containment when it has no wildcard.
\<close>

definition summary_meets :: "list_query \<Rightarrow> offer_summary \<Rightarrow> bool" where
  "summary_meets q sm \<longleftrightarrow>
     given (q_source q) (\<lambda>c. c \<noteq> [] \<longrightarrow> sum_source sm = c)
     \<and> given (q_remote q) (\<lambda>b. sum_remote sm = b)
     \<and> given (q_seniority q) (\<lambda>v. plain_text v \<longrightarrow>
          (\<exists>s. sum_seniority sm = Some s \<and> py_contains (py_lower v) (py_lower s)))
     \<and> given (q_min_salary q) (\<lambda>n. case sum_salary_max sm of Some m \<Rightarrow> n \<le> m
          | None \<Rightarrow> (\<exists>m. sum_salary_min sm = Some m \<and> n \<le> m))
     \<and> given (q_min_score q) (\<lambda>n. \<exists>m. sum_score_percent sm = Some m \<and> n \<le> m)
     \<and> given (q_applied q) (\<lambda>b. sum_applied sm = b)
     \<and> (sum_hide sm \<longrightarrow> q_show_hidden q)"

lemma ge_sql_iff: "ge_sql v n \<longleftrightarrow> (\<exists>m. v = Some m \<and> n \<le> m)"
  by (simp add: ge_sql_def split: option.split)

lemma given_mono: "given x f \<Longrightarrow> (\<And>a. f a \<Longrightarrow> g a) \<Longrightarrow> given x g"
  by (cases x) simp_all

lemma row_source_shown:
  "row_summary d r = Inr y \<Longrightarrow> source_connector r d = Some c \<Longrightarrow> c \<noteq> [] \<Longrightarrow> sum_source y = c"
  by (auto simp: row_summary_cols source_connector_def source_label_def split: option.splits)

lemma row_meets:
  assumes "row_matches q d r" and "row_summary d r = Inr y"
  shows "summary_meets q y"
  unfolding summary_meets_def
proof (intro conjI)
  note c = row_summary_cols [OF assms(2)] and m = assms(1) [unfolded row_matches_def]
  show "given (q_source q) (\<lambda>c. c \<noteq> [] \<longrightarrow> sum_source y = c)"
    using m by (auto elim!: given_mono dest: row_source_shown [OF assms(2)])
  show "given (q_min_salary q) (\<lambda>n. case sum_salary_max y of Some m \<Rightarrow> n \<le> m
          | None \<Rightarrow> (\<exists>m. sum_salary_min y = Some m \<and> n \<le> m))"
    using m c by (auto elim!: given_mono simp: salary_matches_def ge_sql_iff split: option.split)
  show "given (q_seniority q) (\<lambda>v. plain_text v \<longrightarrow>
          (\<exists>s. sum_seniority y = Some s \<and> py_contains (py_lower v) (py_lower s)))"
    using m c by (auto elim!: given_mono simp: seniority_plain)
qed (use assms(1) row_summary_cols [OF assms(2)] in \<open>auto simp: row_matches_def ge_sql_iff\<close>)

text \<open>
  The order of two summaries, the first above the second: by the chosen column in the chosen
  direction; among equal ones by the newer posting, when the score was the column, then by the
  newer row, then by the larger identifier.
\<close>

definition listed_above :: "list_query \<Rightarrow> offer_summary \<Rightarrow> offer_summary \<Rightarrow> bool" where
  "listed_above q a b \<longleftrightarrow>
     (let posted = (\<lambda>sm. map_option dt_instant (sum_posted_at sm)) in
      in_order (q_order q) (order_column q a) (order_column q b)
      \<and> (order_column q a = order_column q b \<longrightarrow> in_order Desc (posted a) (posted b)
         \<and> (posted a = posted b \<longrightarrow> sum_created_at b \<le> sum_created_at a
            \<and> (sum_created_at a = sum_created_at b \<longrightarrow> sum_id b \<le> sum_id a))))"

lemma directed_eq: "directed dir a = directed dir b \<longleftrightarrow> a = b"
  by (cases dir; cases a; cases b) auto

lemma in_order_same: "in_order dir a a"
  by (cases dir; cases a) auto

lemma key_parts:
  "order_key q d r \<le> order_key q d r' \<Longrightarrow>
     (let col = \<lambda>r. (case q_order_by q of By_score_percent \<Rightarrow> offer_percent d r
          | By_posted_at \<Rightarrow> map_option dt_instant (posted_at r));
        posted = \<lambda>r. map_option dt_instant (posted_at r) in
      in_order (q_order q) (col r) (col r')
      \<and> (col r = col r' \<longrightarrow> in_order Desc (posted r) (posted r')
         \<and> (posted r = posted r' \<longrightarrow> created_at r' \<le> created_at r
            \<and> (created_at r = created_at r' \<longrightarrow> offer_id r' \<le> offer_id r))))"
  by (cases "q_order_by q")
    (auto simp: order_key_def less_eq_prod_def less_le directed_le directed_eq in_order_same Let_def)

lemma key_above:
  assumes "order_key q d r \<le> order_key q d r'"
    and "row_summary d r = Inr a" and "row_summary d r' = Inr b"
  shows "listed_above q a b"
  using key_parts [OF assms(1)] row_summary_cols [OF assms(2)] row_summary_cols [OF assms(3)]
  unfolding listed_above_def order_column_def Let_def by (cases "q_order_by q") simp_all

lemma rows_sorted:
  "sorted_wrt (\<lambda>a b. order_key q d a \<le> order_key q d b) (matching_rows scan q d)"
  using sorted_sort_key [of "order_key q d"] unfolding matching_rows_def sorted_map by fast

text \<open>C20: The list keeps what the query promises, in whatever order the server reads the rows. Every
  item is the summary of a stored offer and meets every filter that was given: the source, remote
  work, the seniority, the salary (a known upper end counts, otherwise the lower end), the score
  floor (which an unscored offer never meets), applied, and hidden only when asked for. The items
  stand in the order of the chosen column and direction, those without a value in it last in both
  directions, equal ones by the newer posting, the newer row and the larger identifier; and the
  page has as many as the limit and the total leave.\<close>

theorem list_keeps_its_promises:
  assumes "list_offers scan q s = (Inr (items, cnt), t)"
    and "mset (scan (offers (working s))) = mset (offers (working s))"
  shows "list_all (summary_meets q) items
     \<and> list_all (\<lambda>sm. \<exists>r \<in> set (offers (working s)). row_summary (working s) r = Inr sm) items
     \<and> sorted_wrt (listed_above q) items
     \<and> sorted_wrt (in_order (q_order q)) (map (order_column q) items)
     \<and> length items = min (q_limit q) (cnt - q_offset q)"
proof -
  let ?d = "working s"
  let ?page = "take (q_limit q) (drop (q_offset q) (matching_rows scan q ?d))"
  have g: "gather (row_summary ?d) ?page = Inr items"
    and tot: "cnt = length (filter (row_matches q ?d) (offers ?d))"
    using assms(1) by (auto simp: list_offers_def bindS_def query_def liftE_def retS_def split: if_splits sum.splits)
  have page: "r \<in> set (offers ?d) \<and> row_matches q ?d r" if "r \<in> set ?page" for r
    using that matching_rows_set [where scan = scan and d = ?d, OF assms(2), of q] by (auto dest!: in_set_takeD in_set_dropD)
  have 1: "list_all (summary_meets q) items"
    using g by (rule gather_all) (use page row_meets in blast)
  have 2: "list_all (\<lambda>sm. \<exists>r \<in> set (offers ?d). row_summary ?d r = Inr sm) items"
    using g by (rule gather_all) (use page in blast)
  have "sorted_wrt (\<lambda>a b. order_key q ?d a \<le> order_key q ?d b) ?page"
    by (intro sorted_wrt_take sorted_wrt_drop rows_sorted)
  with g have 3: "sorted_wrt (listed_above q) items" by (rule gather_sorted) (rule key_above)
  have "sorted_wrt (in_order (q_order q)) (map (order_column q) items)"
    unfolding sorted_wrt_map
    by (rule sorted_wrt_mono_rel [OF _ 3]) (simp add: listed_above_def Let_def)
  moreover have "length items = length ?page" using gather_Inr [OF g] by simp
  ultimately show ?thesis using 1 2 3 tot matching_rows_length [where scan = scan and d = ?d, OF assms(2)] by simp
qed

section \<open>What a clean-up deletes\<close>

definition in_pipeline :: "db \<Rightarrow> offer_row \<Rightarrow> bool" where
  "in_pipeline d r \<longleftrightarrow> offer_id r \<in> app_offer_id ` set (applications d)"

text \<open>The CV version an application was sent with was written for the application's own offer.\<close>

definition own_cv :: "db \<Rightarrow> application_row \<Rightarrow> bool" where
  "own_cv d a \<longleftrightarrow>
     list_all (\<lambda>v. app_cv_version_id a = Some (cv_id v) \<longrightarrow> cv_offer_id v = app_offer_id a) (cv_versions d)"

definition cleanup_ids :: "int \<Rightarrow> db \<Rightarrow> int list" where
  "cleanup_ids cutoff d =
     map offer_id (filter (\<lambda>r. posted_before cutoff r \<and> \<not> in_pipeline d r) (offers d))"

lemma partition_eq:
  assumes "keys_ok d"
  shows "partition_offers_for_cleanup cutoff d =
     (cleanup_ids cutoff d, card {r \<in> set (offers d). posted_before cutoff r \<and> in_pipeline d r})"
proof -
  let ?cand = "map offer_id (filter (posted_before cutoff) (offers d))"
  let ?pipe = "remdups (filter (\<lambda>i. i \<in> set ?cand) (map app_offer_id (applications d)))"
  let ?kept = "{r \<in> set (offers d). posted_before cutoff r \<and> in_pipeline d r}"
  have inj: "inj_on offer_id (set (offers d))" using assms by (simp add: keys_ok_def distinct_map)
  have "set ?pipe = offer_id ` ?kept"
    by (auto simp: in_pipeline_def) (metis (mono_tags, lifting) imageI mem_Collect_eq)
  then have "length ?pipe = card (offer_id ` ?kept)" by (metis distinct_card distinct_remdups)
  also have "\<dots> = card ?kept" using inj by (intro card_image) (auto intro: inj_on_subset)
  finally have n: "length ?pipe = card ?kept" .
  have ids: "filter (\<lambda>i. i \<notin> set ?pipe) ?cand = cleanup_ids cutoff d"
  proof -
    have "filter (\<lambda>i. i \<notin> set ?pipe) ?cand
        = map offer_id (filter (\<lambda>r. posted_before cutoff r \<and> offer_id r \<notin> set ?pipe) (offers d))"
      by (simp add: filter_map o_def conj_commute)
    also have "\<dots> = cleanup_ids cutoff d"
      unfolding cleanup_ids_def
      by (intro arg_cong [where f = "map offer_id"] filter_cong) (auto simp: in_pipeline_def)
    finally show ?thesis .
  qed
  show ?thesis
  proof (cases "?cand = []")
    case True
    then have "?kept = {}" and "cleanup_ids cutoff d = []"
      by (auto simp: cleanup_ids_def filter_empty_conv)
    with True show ?thesis unfolding partition_offers_for_cleanup_def by (simp only: Let_def) simp
  next
    case False
    with n ids show ?thesis
      unfolding partition_offers_for_cleanup_def by (simp only: Let_def if_False)
  qed
qed

lemma cleanup_spares_pipeline: "i \<in> set (cleanup_ids cutoff d) \<Longrightarrow> i \<notin> app_offer_id ` set (applications d)"
  by (auto simp: cleanup_ids_def in_pipeline_def)

definition after_dependents :: "int list \<Rightarrow> db \<Rightarrow> db" where
  "after_dependents ids d = delete_scoring_failures ids (delete_match_scores ids d)"

definition after_cleanup :: "int list \<Rightarrow> db \<Rightarrow> db" where
  "after_cleanup ids d = delete_offer_rows ids (delete_cv_versions ids (after_dependents ids d))"

lemmas delete_defs = after_cleanup_def after_dependents_def delete_offer_rows_def delete_cv_versions_def
  delete_scoring_failures_def delete_match_scores_def

lemma cv_delete_refs:
  assumes "refs_ok d" and "list_all (own_cv d) (applications d)"
    and "\<And>i. i \<in> set ids \<Longrightarrow> i \<notin> app_offer_id ` set (applications d)"
  shows "refs_ok (delete_cv_versions ids (after_dependents ids d))"
proof -
  have "opt_in (app_cv_version_id a) (cv_id ` {v \<in> set (cv_versions d). cv_offer_id v \<notin> set ids})"
    if a: "a \<in> set (applications d)" for a
  proof (cases "app_cv_version_id a")
    case (Some c)
    have "opt_in (app_cv_version_id a) (cv_id ` set (cv_versions d))"
      using assms(1) a by (simp add: refs_simps list_all_iff)
    with Some obtain v where "v \<in> set (cv_versions d)" "c = cv_id v" by auto
    with Some a assms(2,3) show ?thesis by (fastforce simp: own_cv_def list_all_iff)
  qed simp
  with assms(1) show ?thesis
    by (simp add: refs_simps delete_defs list_all_iff set_delete_where) 
qed

lemma kept_ids: "i \<in> g ` {r \<in> set rows. g r \<notin> A} \<longleftrightarrow> i \<in> g ` set rows \<and> i \<notin> A"
  by auto

lemma cleanup_refs:
  assumes "refs_ok (delete_cv_versions ids (after_dependents ids d))"
    and "\<And>i. i \<in> set ids \<Longrightarrow> i \<notin> app_offer_id ` set (applications d)"
  shows "refs_ok (after_cleanup ids d)"
proof -
  have "\<forall>a \<in> set (applications d). app_offer_id a \<notin> set ids" using assms(2) by blast
  then show ?thesis
    using assms(1) by (simp add: refs_simps delete_defs list_all_iff set_delete_where kept_ids)
qed

lemma cleanup_db_ok:
  "db_ok d \<Longrightarrow> refs_ok (after_cleanup ids d) \<Longrightarrow> db_ok (after_cleanup ids d)"
  by (simp add: db_ok_def keys_ok_def ids_below_def delete_defs table_simps)

lemma cleanup_tables:
  "after_cleanup ids d = d\<lparr>offers := offers (after_cleanup ids d),
     match_scores := match_scores (after_cleanup ids d),
     scoring_failures := scoring_failures (after_cleanup ids d),
     cv_versions := cv_versions (after_cleanup ids d)\<rparr>"
  by (simp add: delete_defs)

text \<open>C19: A clean-up deletes exactly the dated offers posted before the cut-off that no application
  names, with everything that hangs on them, and nothing else: every other offer keeps its row, its
  scores, its scoring failures and its CV versions, applications and all other tables are
  untouched, undated offers stay, keys and references stay valid, and the counts it returns are
  those of the preview.\<close>

theorem cleanup_deletes_old_unapplied:
  assumes "\<not> tx_aborted s" and "db_ok (working s)"
    and "list_all (own_cv (working s)) (applications (working s))"
  shows "\<exists>t n k. delete_offers L older_than s = (Inr (n, k), t) \<and> committed t = working t
     \<and> preview_offer_cleanup L older_than s = (Inr (n, k), s)
     \<and> db_ok (working t) \<and> applications (working t) = applications (working s)
     \<and> offers (working t) = filter (\<lambda>r. \<not> posted_before (db_instant L older_than) r
          \<or> in_pipeline (working s) r) (offers (working s))
     \<and> match_scores (working t) = filter (\<lambda>m. ms_offer_id m \<in> offer_id ` set (offers (working t)))
          (match_scores (working s))
     \<and> scoring_failures (working t) = filter (\<lambda>f. sf_offer_id f \<in> offer_id ` set (offers (working t)))
          (scoring_failures (working s))
     \<and> cv_versions (working t) = filter (\<lambda>v. cv_offer_id v \<in> offer_id ` set (offers (working t)))
          (cv_versions (working s))
     \<and> (\<exists>os ms fs vs. working t = (working s)\<lparr>offers := os, match_scores := ms,
          scoring_failures := fs, cv_versions := vs\<rparr>)
     \<and> n + length (offers (working t)) = length (offers (working s))
     \<and> k = card {r \<in> set (offers (working s)). posted_before (db_instant L older_than) r
          \<and> in_pipeline (working s) r}"
proof -
  let ?d = "working s" and ?c = "db_instant L older_than"
  let ?ids = "cleanup_ids ?c ?d" and ?d' = "after_cleanup (cleanup_ids ?c ?d) ?d"
  let ?k = "card {r \<in> set (offers ?d). posted_before ?c r \<and> in_pipeline ?d r}"
  have keys: "keys_ok ?d" and refs: "refs_ok ?d" using assms(2) by (simp_all add: db_ok_def)
  note part = partition_eq [OF keys, of ?c]
  have cv: "refs_ok (delete_cv_versions ?ids (after_dependents ?ids ?d))"
    using refs assms(3) cleanup_spares_pipeline by (rule cv_delete_refs)
  have all: "refs_ok ?d'" using cv cleanup_spares_pipeline by (rule cleanup_refs)
  have inj: "inj_on offer_id (set (offers ?d))" using keys by (simp add: keys_ok_def distinct_map)
  have gone: "offer_id r \<in> set ?ids \<longleftrightarrow> posted_before ?c r \<and> \<not> in_pipeline ?d r" if "r \<in> set (offers ?d)" for r
    using inj_onD [OF inj] that by (auto simp: cleanup_ids_def)
  have rows: "offers ?d' = filter (\<lambda>r. \<not> posted_before ?c r \<or> in_pipeline ?d r) (offers ?d)"
    by (simp add: delete_defs delete_where_def) (intro filter_cong; simp add: gone)
  have len: "length ?ids + length (offers ?d') = length (offers ?d)"
    unfolding rows unfolding cleanup_ids_def
    using sum_length_filter_compl [of "\<lambda>r. posted_before ?c r \<and> \<not> in_pipeline ?d r" "offers ?d"] by simp
  have scores: "match_scores ?d' = filter (\<lambda>m. ms_offer_id m \<in> offer_id ` set (offers ?d')) (match_scores ?d)"
    using refs unfolding delete_defs delete_where_def
    by (simp, intro filter_cong) (auto simp: refs_simps list_all_iff)
  have failures: "scoring_failures ?d' = filter (\<lambda>f. sf_offer_id f \<in> offer_id ` set (offers ?d')) (scoring_failures ?d)"
    using refs unfolding delete_defs delete_where_def
    by (simp, intro filter_cong) (auto simp: refs_simps list_all_iff)
  have versions: "cv_versions ?d' = filter (\<lambda>v. cv_offer_id v \<in> offer_id ` set (offers ?d')) (cv_versions ?d)"
    using refs unfolding delete_defs delete_where_def
    by (simp, intro filter_cong) (auto simp: refs_simps list_all_iff)
  have same: "applications ?d' = applications ?d" by (simp add: delete_defs)
  have empty: "?d' = ?d" if "?ids = []" unfolding that by (simp add: delete_defs delete_where_def)
  have prev: "preview_offer_cleanup L older_than s = (Inr (length ?ids, ?k), s)"
    using assms(1) by (simp add: preview_offer_cleanup_def run_simps part)
  have run: "delete_offers L older_than s = (Inr (length ?ids, ?k), s\<lparr>working := ?d', committed := ?d'\<rparr>)"
  proof (cases "?ids = []")
    case True
    then show ?thesis
      using assms(1) empty by (simp add: delete_offers_def run_simps part)
  next
    case False
    then show ?thesis
      using assms(1) cv all
      by (simp add: delete_offers_def run_simps part after_cleanup_def after_dependents_def)
  qed
  show ?thesis
    by (intro exI conjI) (rule run, simp, rule prev,
      simp_all add: cleanup_db_ok [OF assms(2) all] same len,
      (rule rows scores failures versions cleanup_tables | simp add: rows scores failures versions)+)
qed

definition sample_application :: application_row where
  "sample_application = \<lparr>app_id = 15, app_offer_id = 11, app_profile_id = 9, app_cv_version_id = None,
     app_status = lit ''sent''\<rparr>"

lemma cleanup_deletes_old_unapplied_witness:
  "\<exists>t n. delete_offers sample_lib (Aware 25) (open_session (listing_db [sample_application])) = (Inr (n, 1), t)
     \<and> map offer_id (offers (working t)) = [11, 13]"
proof -
  let ?d = "listing_db [sample_application]"
  have ok: "keys_ok ?d" "ids_below ?d" "refs_ok ?d" "list_all (own_cv ?d) (applications ?d)" by code_simp+
  have kept: "map offer_id (filter (\<lambda>r. \<not> posted_before (db_instant sample_lib (Aware 25)) r \<or> in_pipeline ?d r)
      (offers ?d)) = [11, 13]" by code_simp
  have old: "filter (\<lambda>r. posted_before (db_instant sample_lib (Aware 25)) r \<and> in_pipeline ?d r) (offers ?d)
      = [hd (offers ?d)]" by code_simp
  have one: "card {r \<in> set (offers ?d). posted_before (db_instant sample_lib (Aware 25)) r \<and> in_pipeline ?d r} = 1"
    unfolding set_filter [symmetric] old by simp
  let ?s = "open_session ?d"
  have pre: "db_ok (working ?s)" "list_all (own_cv (working ?s)) (applications (working ?s))"
    using ok by (simp_all add: db_ok_def)
  obtain t n k where "delete_offers sample_lib (Aware 25) ?s = (Inr (n, k), t)"
    "offers (working t) = filter (\<lambda>r. \<not> posted_before (db_instant sample_lib (Aware 25)) r \<or> in_pipeline (working ?s) r)
       (offers (working ?s))"
    "k = card {r \<in> set (offers (working ?s)). posted_before (db_instant sample_lib (Aware 25)) r \<and> in_pipeline (working ?s) r}"
    using cleanup_deletes_old_unapplied [OF not_aborted pre, of sample_lib "Aware 25"] by blast
  then show ?thesis unfolding open_session_simps one using kept by metis
qed

section \<open>What an edit changes\<close>

lemma find_update_where:
  assumes "\<And>r. offer_id (f r) = offer_id r"
  shows "find (\<lambda>r. offer_id r = i) (update_where (\<lambda>r. offer_id r = oid) f rows)
    = map_option (\<lambda>r. if i = oid then f r else r) (find (\<lambda>r. offer_id r = i) rows)"
  using assms by (induction rows) (auto simp: update_where_def)

lemma apply_edit_ids [simp]:
  "offer_id (apply_edit e now r) = offer_id r" "source_id (apply_edit e now r) = source_id r"
  by (simp_all add: apply_edit_def)

lemma apply_edit_again [simp]: "apply_edit e now' (apply_edit e now r) = apply_edit e now r"
proof -
  have "assign_if v (assign_if v x) = assign_if v x" for v :: "bool option option" and x
    by (cases "(v, x)" rule: assign_if.cases) auto
  then show ?thesis by (auto simp: apply_edit_def split: option.split)
qed

lemma update_offer_again:
  "update_offer e now' oid (update_offer e now oid d) = update_offer e now oid d"
  by (simp add: update_offer_def update_where_def)

lemma find_after_edit:
  "find_offer i (update_offer e now oid d) = map_option (\<lambda>r. if i = oid then apply_edit e now r else r) (find_offer i d)"
  by (simp add: find_offer_def update_offer_def find_update_where)

definition edit_percent :: "int \<Rightarrow> db \<Rightarrow> int option" where
  "edit_percent oid d = (case get_active_profile d of None \<Rightarrow> None
     | Some p \<Rightarrow> map_option ms_score_percent (latest_score oid (profile_id p) d))"

lemma edit_percent_ok: "percents_ok d \<Longrightarrow> percent_ok (edit_percent oid d)"
  by (auto simp: percents_ok_def percent_ok_def edit_percent_def list_all_iff split: option.splits
      dest!: latest_score_in)

lemma update_offer_others [simp]:
  "latest_score oid pid (update_offer e now i d) = latest_score oid pid d"
  "get_active_profile (update_offer e now i d) = get_active_profile d"
  by (simp_all add: update_offer_def get_active_profile_def latest_score_def)

lemma edit_percent_update [simp]: "edit_percent oid (update_offer e now i d) = edit_percent oid d"
  unfolding edit_percent_def update_offer_others by (rule refl)

lemma patch_run:
  assumes "\<not> tx_aborted s" and "find_offer oid (working s) = Some r" and "\<not> null_flag e"
    and "percents_ok (working s)" and "source_of r (working s) = Some src"
  shows "patch_offer oid e now s =
    (offer_summary_of (apply_edit e now r) (source_label src) (edit_percent oid (working s)),
     s\<lparr>working := update_offer e now oid (working s), committed := update_offer e now oid (working s)\<rparr>)"
proof -
  have f: "find_offer oid (update_offer e now oid (working s)) = Some (apply_edit e now r)"
    using assms(2) by (simp add: find_after_edit)
  have src: "source_of (apply_edit e now r) (update_offer e now oid (working s)) = Some src"
    using assms(5) by (simp add: source_of_def update_offer_def)
  show ?thesis
    using assms(1-3) f src
    by (cases "get_active_profile (working s)") (simp_all add: patch_offer_def run_simps edit_percent_def)
qed

text \<open>C22: An edit writes the fields the request names to that one offer and no other, keeps the time
  a link was first opened, and is idempotent: the same request at any later time answers the same
  and changes nothing.\<close>

theorem patch_offer_edits_once:
  assumes "\<not> tx_aborted s" and "find_offer oid (working s) = Some r" and "\<not> null_flag e"
    and "percents_ok (working s)" and "refs_ok (working s)"
  shows "\<exists>sm t. patch_offer oid e now s = (Inr sm, t) \<and> committed t = working t
     \<and> find_offer oid (working t) = Some (apply_edit e now r)
     \<and> (\<forall>i. i \<noteq> oid \<longrightarrow> find_offer i (working t) = find_offer i (working s))
     \<and> (link_opened_at r \<noteq> None \<longrightarrow> sum_link_opened_at sm = link_opened_at r)
     \<and> (\<exists>u. patch_offer oid e now' t = (Inr sm, u) \<and> working u = working t)"
proof -
  have "r \<in> set (offers (working s))" using assms(2) by (auto simp: find_offer_def dest: find_Some_in_set)
  then have "source_id r \<in> src_id ` set (sources (working s))"
    using assms(5) by (simp add: refs_simps list_all_iff)
  then obtain src where src: "source_of r (working s) = Some src"
    by (cases "source_of r (working s)") (auto simp: source_of_def find_None_all)
  let ?d = "update_offer e now oid (working s)" and ?r = "apply_edit e now r"
  let ?t = "s\<lparr>working := ?d, committed := ?d\<rparr>"
  obtain sm where sm: "offer_summary_of ?r (source_label src) (edit_percent oid (working s)) = Inr sm"
    "sum_link_opened_at sm = link_opened_at ?r"
    using edit_percent_ok [OF assms(4), of oid] by (simp add: offer_summary_of_def check_def)
  have 1: "patch_offer oid e now s = (Inr sm, ?t)" using patch_run [OF assms(1-4) src] sm by simp
  have f: "find_offer oid ?d = Some ?r" using assms(2) by (simp add: find_after_edit)
  have "source_of ?r ?d = Some src" using src by (simp add: source_of_def update_offer_def)
  moreover have "percents_ok ?d" using assms(4) by (simp add: percents_ok_def update_offer_def)
  ultimately have 2: "patch_offer oid e now' ?t = (Inr sm, ?t)"
    using patch_run [of ?t oid ?r e src now'] f assms(1,3) sm(1) by (simp add: update_offer_again)
  have 3: "link_opened_at r \<noteq> None \<longrightarrow> sum_link_opened_at sm = link_opened_at r"
    using sm(2) by (simp add: apply_edit_def)
  show ?thesis
    using 1 2 3 f by (intro exI [where x = sm] exI [where x = ?t]) (simp add: find_after_edit, metis option.map_ident)
qed

text \<open>A null for \<open>applied\<close> or \<open>hide\<close> passes the request model but not the table: the update is
  rejected when it is flushed, the request ends with the driver's error instead of a client error,
  and nothing is stored.\<close>

theorem null_flag_is_a_server_error:
  assumes "\<not> tx_aborted s" and "find_offer oid (working s) = Some r" and "null_flag e"
  shows "\<exists>t m. patch_offer oid e now s = (Inl (OtherExn m), t)
     \<and> committed t = committed s \<and> working t = working s \<and> tx_aborted t"
  using assms by (simp add: patch_offer_def run_simps)

definition open_edit :: offer_edit where
  "open_edit = \<lparr>ed_applied = Some (Some True), ed_hide = None, ed_notes = None, ed_link_opened = Some (Some True)\<rparr>"

lemma listing_first:
  "find_offer 11 (working (open_session (listing_db []))) = Some (listing_row 11 (Some (Aware 10)))"
  by (simp add: find_offer_def listing_db_def listing_row_def offer.defs)

lemma patch_offer_edits_once_witness:
  "\<exists>sm t. patch_offer 11 open_edit 30 (open_session (listing_db [])) = (Inr sm, t)
     \<and> find_offer 11 (working t) = Some ((listing_row 11 (Some (Aware 10)))\<lparr>applied := True, link_opened_at := Some 30\<rparr>)"
proof -
  have "apply_edit open_edit 30 (listing_row 11 (Some (Aware 10)))
      = (listing_row 11 (Some (Aware 10)))\<lparr>applied := True, link_opened_at := Some 30\<rparr>"
    by (simp add: apply_edit_def open_edit_def listing_row_def offer.defs)
  moreover have "\<not> null_flag open_edit" by (simp add: null_flag_def open_edit_def)
  ultimately show ?thesis
    using patch_offer_edits_once [OF not_aborted listing_first, of open_edit 30]
      listing_db_ok(2,4) unfolding open_session_simps by metis
qed

lemma null_flag_is_a_server_error_witness:
  "\<exists>t m. patch_offer 11 (open_edit\<lparr>ed_hide := Some None\<rparr>) 30 (open_session (listing_db [])) = (Inl (OtherExn m), t)
     \<and> working t = listing_db []"
  using null_flag_is_a_server_error [OF _ listing_first, of "open_edit\<lparr>ed_hide := Some None\<rparr>" 30]
  by (auto simp: null_flag_def)

lemma list_keeps_its_promises_witness:
  "\<exists>items t. list_offers rev sample_query (open_session (listing_db [])) = (Inr (items, 3), t)
     \<and> list_all (summary_meets sample_query) items \<and> sorted_wrt (listed_above sample_query) items
     \<and> length items = 2"
proof -
  have n: "length (filter (row_matches sample_query (listing_db [])) (offers (listing_db []))) = 3"
    by code_simp
  obtain items where run: "list_offers rev sample_query (open_session (listing_db []))
      = (Inr (items, 3), open_session (listing_db []))"
    using list_offers_run [of "open_session (listing_db [])" rev sample_query] listing_db_ok n by auto
  have rows: "mset (rev (offers (working (open_session (listing_db [])))))
      = mset (offers (working (open_session (listing_db []))))" by simp
  from list_keeps_its_promises [OF run rows] run show ?thesis by (auto simp: sample_query_def)
qed

end
