(* ===== verification/Settings.thy ===== *)
theory Settings
  imports Lifecycle
begin

text \<open>
  The settings of the sources: \<open>app/scheduler/service.py\<close> (defaults, seeding and the setters),
  \<open>app/scheduler/triggers.py\<close> (reading a schedule), \<open>app/scheduler/lifecycle.py\<close> (jobs and the
  auto-run rule), the status of \<open>app/scheduler/runs.py\<close>, and the routes of
  \<open>app/api/routes/scheduler.py\<close> that join the two. APScheduler is a record of its operations;
  \<open>scheduler_laws\<close> states what its documentation says of them.
\<close>

section \<open>Schedules\<close>

datatype trigger = Interval_trigger rat | Cron_trigger pystr

definition default_interval_seconds :: int where "default_interval_seconds = 3600"

definition default_trigger :: trigger where
  "default_trigger = Interval_trigger (of_int default_interval_seconds)"

text \<open>\<open>isinstance(seconds, bool)\<close> is tested first, a \<open>bool\<close> being an \<open>int\<close>.\<close>

definition parse_interval :: "jdict \<Rightarrow> trigger option" where
  "parse_interval schedule =
     (case jget schedule (lit ''seconds'') of
        JInt n \<Rightarrow> if n \<le> 0 then None else Some (Interval_trigger (of_int n))
      | JFloat q \<Rightarrow> if q \<le> 0 then None else Some (Interval_trigger q)
      | _ \<Rightarrow> None)"

text \<open>\<open>crontab_ok\<close>: \<open>CronTrigger.from_crontab\<close> does not raise \<open>ValueError\<close> on the expression.\<close>

definition parse_cron :: "(pystr \<Rightarrow> bool) \<Rightarrow> jdict \<Rightarrow> trigger option" where
  "parse_cron crontab_ok schedule =
     (case jget schedule (lit ''expression'') of
        JStr e \<Rightarrow> if py_strip e = [] then None else if crontab_ok e then Some (Cron_trigger e) else None
      | _ \<Rightarrow> None)"

definition parse_schedule :: "(pystr \<Rightarrow> bool) \<Rightarrow> json \<Rightarrow> trigger" where
  "parse_schedule crontab_ok config_json =
     (case config_json of
        JObj config \<Rightarrow>
          (case jget config (lit ''schedule'') of
             JObj schedule \<Rightarrow>
               (let t = jget schedule (lit ''type'');
                    parsed = (if t = JStr (lit ''interval'') then parse_interval schedule
                              else if t = JStr (lit ''cron'') then parse_cron crontab_ok schedule
                              else None)
                in case parsed of Some tr \<Rightarrow> tr | None \<Rightarrow> default_trigger)
           | _ \<Rightarrow> default_trigger)
      | _ \<Rightarrow> default_trigger)"

text \<open>Reading a schedule always gives a trigger that can run: a positive interval, or a cron
  expression the library accepts; and an interval written by the settings is read back.\<close>

theorem parse_schedule_runs:
  "(case parse_schedule crontab_ok config of Interval_trigger q \<Rightarrow> 0 < q | Cron_trigger e \<Rightarrow> crontab_ok e)
   \<and> (0 < n \<longrightarrow> parse_schedule crontab_ok (JObj (AList.update (lit ''schedule'') (interval_schedule n) cfg))
        = Interval_trigger (of_int n))"
proof
  have i: "parse_interval d = Some t \<Longrightarrow> \<exists>q. t = Interval_trigger q \<and> 0 < q" for d t
    by (auto simp: parse_interval_def split: json.splits if_splits)
  have c: "parse_cron crontab_ok d = Some t \<Longrightarrow> \<exists>e. t = Cron_trigger e \<and> crontab_ok e" for d t
    by (auto simp: parse_cron_def split: json.splits if_splits)
  have d: "case default_trigger of Interval_trigger q \<Rightarrow> 0 < q | Cron_trigger e \<Rightarrow> crontab_ok e"
    by (simp add: default_trigger_def default_interval_seconds_def)
  show "case parse_schedule crontab_ok config of Interval_trigger q \<Rightarrow> 0 < q | Cron_trigger e \<Rightarrow> crontab_ok e"
    using d by (auto simp: parse_schedule_def Let_def split: json.split option.split dest!: i c)
  show "0 < n \<longrightarrow> parse_schedule crontab_ok (JObj (AList.update (lit ''schedule'') (interval_schedule n) cfg))
        = Interval_trigger (of_int n)"
    by (simp add: parse_schedule_def jget_def update_Some_unfold interval_schedule_def parse_interval_def
        Let_def update_conv')
qed

section \<open>Defaults and seeding\<close>

definition default_config_template :: jdict where
  "default_config_template =
    [(lit ''schedule'', interval_schedule 300), (lit ''auto_fetch_enabled'', JBool True),
     (lit ''connector_enabled'', JBool True), (lit ''fetch_scope'', JObj [(lit ''mode'', JStr (lit ''all''))])]"

text \<open>\<open>isoformat\<close> writes an instant; seven days are counted in microseconds.\<close>

definition default_fetch_range :: "(int \<Rightarrow> pystr) \<Rightarrow> int \<Rightarrow> json" where
  "default_fetch_range isoformat now =
     JObj [(lit ''mode'', JStr (lit ''range'')),
           (lit ''since'', JStr (isoformat (now - 7 * 24 * 3600 * 1000000))), (lit ''until'', JNull)]"

definition seed_config :: "(int \<Rightarrow> pystr) \<Rightarrow> int \<Rightarrow> connector_spec \<Rightarrow> jdict" where
  "seed_config isoformat now k =
     dict_merge (dict_merge default_config_template [(lit ''fetch_range'', default_fetch_range isoformat now)])
       (seed_config_overrides k)"

definition insert_source :: "(int \<Rightarrow> pystr) \<Rightarrow> int \<Rightarrow> connector_spec \<Rightarrow> db \<Rightarrow> db" where
  "insert_source isoformat now k d =
     d\<lparr>sources := (if spec_name k \<in> src_name ` set (sources d) then sources d
                   else sources d @ [\<lparr>src_id = next_id d, src_name = spec_name k,
                     src_connector = Some (spec_name k), src_config = seed_config isoformat now k,
                     src_last_fetched_at = None\<rparr>]),
       next_id := next_id d + 1\<rparr>"

definition ensure_sources_exist :: "(int \<Rightarrow> pystr) \<Rightarrow> int \<Rightarrow> unit op" where
  "ensure_sources_exist isoformat now =
     forS connector_registry (\<lambda>k. exec (insert_source isoformat now k))"

section \<open>The setters\<close>

definition put_config :: "pystr \<Rightarrow> json \<Rightarrow> source_row \<Rightarrow> source_row" where
  "put_config k v src = src\<lparr>src_config := AList.update k v (src_config src)\<rparr>"

text \<open>The statement writes the configuration column alone.\<close>

definition write_config :: "source_row \<Rightarrow> source_row \<Rightarrow> source_row" where
  "write_config src r = r\<lparr>src_config := src_config src\<rparr>"

definition update_source :: "int \<Rightarrow> (source_row \<Rightarrow> source_row) \<Rightarrow> db \<Rightarrow> db" where
  "update_source sid f d = d\<lparr>sources := update_where (\<lambda>r. src_id r = sid) f (sources d)\<rparr>"

definition set_source_key :: "pystr \<Rightarrow> json \<Rightarrow> pystr \<Rightarrow> source_row op" where
  "set_source_key k v connector =
     bindS (resolve_source_by_connector connector) (\<lambda>src.
     bindS (exec (update_source (src_id src) (write_config (put_config k v src)))) (\<lambda>_.
     retS (put_config k v src)))"

definition sources_with_connector :: "db \<Rightarrow> source_row list" where
  "sources_with_connector d = filter (\<lambda>r. src_connector r \<noteq> None) (sources d)"

definition set_all_sources_key :: "pystr \<Rightarrow> json \<Rightarrow> source_row list op" where
  "set_all_sources_key k v =
     bindS (query sources_with_connector) (\<lambda>srcs.
     bindS (forS srcs (\<lambda>src. exec (update_source (src_id src) (write_config (put_config k v src))))) (\<lambda>_.
     retS (map (put_config k v) srcs)))"

definition set_source_interval :: "pystr \<Rightarrow> int \<Rightarrow> source_row op" where
  "set_source_interval connector seconds =
     set_source_key (lit ''schedule'') (interval_schedule seconds) connector"

definition set_all_source_intervals :: "int \<Rightarrow> source_row list op" where
  "set_all_source_intervals seconds = set_all_sources_key (lit ''schedule'') (interval_schedule seconds)"

definition set_source_fetch_range :: "pystr \<Rightarrow> json \<Rightarrow> source_row op" where
  "set_source_fetch_range connector fetch_range = set_source_key (lit ''fetch_range'') fetch_range connector"

definition set_all_source_fetch_ranges :: "json \<Rightarrow> source_row list op" where
  "set_all_source_fetch_ranges fetch_range = set_all_sources_key (lit ''fetch_range'') fetch_range"

definition set_source_fetch_scope :: "pystr \<Rightarrow> jdict \<Rightarrow> source_row op" where
  "set_source_fetch_scope connector fetch_scope =
     bindS (resolve_source_by_connector connector) (\<lambda>src.
     if jget fetch_scope (lit ''mode'') = JStr (lit ''filtered'')
        \<and> \<not> (case find_spec connector of None \<Rightarrow> False | Some k \<Rightarrow> supports_fetch_scope k)
     then raiseS (FetchScopeNotSupportedError connector)
     else
       bindS (exec (update_source (src_id src) (write_config (put_config (lit ''fetch_scope'') (JObj fetch_scope) src)))) (\<lambda>_.
       retS (put_config (lit ''fetch_scope'') (JObj fetch_scope) src)))"

definition set_source_auto_fetch :: "pystr \<Rightarrow> bool \<Rightarrow> source_row op" where
  "set_source_auto_fetch connector enabled =
     set_source_key (lit ''auto_fetch_enabled'') (JBool enabled) connector"

definition set_all_source_auto_fetch :: "bool \<Rightarrow> source_row list op" where
  "set_all_source_auto_fetch enabled = set_all_sources_key (lit ''auto_fetch_enabled'') (JBool enabled)"

definition set_source_enabled :: "pystr \<Rightarrow> bool \<Rightarrow> source_row op" where
  "set_source_enabled connector enabled =
     set_source_key (lit ''connector_enabled'') (JBool enabled) connector"

definition set_all_source_enabled :: "bool \<Rightarrow> source_row list op" where
  "set_all_source_enabled enabled = set_all_sources_key (lit ''connector_enabled'') (JBool enabled)"

section \<open>Jobs\<close>

definition build_job_id :: "pystr \<Rightarrow> pystr" where
  "build_job_id connector = lit ''scheduler:'' @ connector"

definition connector_should_auto_run :: "jdict \<Rightarrow> bool" where
  "connector_should_auto_run config \<longleftrightarrow>
     truthy (jget_default config (lit ''connector_enabled'') (JBool True))
     \<and> truthy (jget_default config (lit ''auto_fetch_enabled'') (JBool True))"

text \<open>
  What the code uses of the scheduler. \<open>api_interval_ok\<close> is whether an interval trigger of that many
  seconds can be built: it computes with durations and dates, which overflow.
\<close>

record 'j job_api =
  api_interval_ok :: "rat \<Rightarrow> bool"
  api_add :: "pystr \<Rightarrow> trigger \<Rightarrow> 'j \<Rightarrow> 'j"
  api_pause :: "pystr \<Rightarrow> 'j \<Rightarrow> exn + 'j"
  api_resume :: "pystr \<Rightarrow> 'j \<Rightarrow> exn + 'j"
  api_reschedule :: "pystr \<Rightarrow> trigger \<Rightarrow> 'j \<Rightarrow> exn + 'j"
  api_has :: "'j \<Rightarrow> pystr \<Rightarrow> bool"
  api_running :: "'j \<Rightarrow> pystr \<Rightarrow> bool"

definition make_trigger :: "'j job_api \<Rightarrow> trigger \<Rightarrow> exn + trigger" where
  "make_trigger A t =
     (case t of
        Interval_trigger q \<Rightarrow> if api_interval_ok A q then Inr t else Inl (OtherExn (lit ''OverflowError''))
      | Cron_trigger e \<Rightarrow> Inr t)"

definition add_job :: "'j job_api \<Rightarrow> pystr \<Rightarrow> trigger \<Rightarrow> 'j \<Rightarrow> exn + 'j" where
  "add_job A i t j = bindE (make_trigger A t) (\<lambda>tr. Inr (api_add A i tr j))"

definition reschedule_job :: "'j job_api \<Rightarrow> pystr \<Rightarrow> trigger \<Rightarrow> 'j \<Rightarrow> exn + 'j" where
  "reschedule_job A i t j = bindE (make_trigger A t) (\<lambda>tr. api_reschedule A i tr j)"

text \<open>Routes work on the session and on the scheduler of the application.\<close>

type_synonym ('j, 'a) app_op = "(session \<times> 'j, 'a) prog"

definition on_db :: "'a op \<Rightarrow> ('j, 'a) app_op" where
  "on_db m = (\<lambda>(s, j). case m s of (r, t) \<Rightarrow> (r, (t, j)))"

definition on_jobs :: "('j \<Rightarrow> exn + 'j) \<Rightarrow> ('j, unit) app_op" where
  "on_jobs f = (\<lambda>(s, j). case f j of Inl e \<Rightarrow> (Inl e, (s, j)) | Inr j' \<Rightarrow> (Inr (), (s, j')))"

declare on_db_def [run_simps] on_jobs_def [run_simps]

record source_status =
  stat_source_id :: int
  stat_connector :: pystr
  stat_name :: pystr
  stat_schedule :: jdict
  stat_fetch_range :: jdict
  stat_fetch_scope :: jdict
  stat_auto_fetch_enabled :: bool
  stat_connector_enabled :: bool
  stat_last_fetched_at :: "int option"
  stat_last_run :: "run_row option"

text \<open>
  The response model takes a dictionary for the schedule, the range and the scope, and for a flag
  whatever pydantic converts to a \<open>bool\<close>; anything else in a configuration makes it raise.
\<close>

definition dict_field :: "pystr \<Rightarrow> json \<Rightarrow> exn + jdict" where
  "dict_field k j = (case j of JObj d \<Rightarrow> Inr d | _ \<Rightarrow> Inl (ValidationError k))"

definition flag_field :: "pylib \<Rightarrow> pystr \<Rightarrow> json \<Rightarrow> exn + bool" where
  "flag_field L k j = (case as_bool L j of None \<Rightarrow> Inl (ValidationError k) | Some b \<Rightarrow> Inr b)"

text \<open>
  \<open>build_source_status\<close>: the ten fields of the last run are those of \<open>stat_last_run\<close>, all null
  (and \<open>warning\<close> false) without one.
\<close>

definition build_source_status :: "pylib \<Rightarrow> source_row \<Rightarrow> run_row option \<Rightarrow> exn + source_status" where
  "build_source_status L src last_run =
     (case src_connector src of
        None \<Rightarrow> Inl (AssertionError (lit ''connector is not None''))
      | Some c \<Rightarrow>
          (let config = src_config src in
           bindE (dict_field (lit ''schedule'') (jget_default config (lit ''schedule'') (JObj []))) (\<lambda>schedule.
           bindE (dict_field (lit ''fetch_range'') (jget_default config (lit ''fetch_range'') (JObj []))) (\<lambda>range.
           bindE (dict_field (lit ''fetch_scope'') (jget_default config (lit ''fetch_scope'')
             (JObj [(lit ''mode'', JStr (lit ''all''))]))) (\<lambda>scope.
           bindE (flag_field L (lit ''auto_fetch_enabled'')
             (jget_default config (lit ''auto_fetch_enabled'') (JBool True))) (\<lambda>auto_fetch.
           bindE (flag_field L (lit ''connector_enabled'')
             (jget_default config (lit ''connector_enabled'') (JBool True))) (\<lambda>enabled.
           Inr \<lparr>stat_source_id = src_id src, stat_connector = c, stat_name = src_name src,
             stat_schedule = schedule, stat_fetch_range = range, stat_fetch_scope = scope,
             stat_auto_fetch_enabled = auto_fetch, stat_connector_enabled = enabled,
             stat_last_fetched_at = src_last_fetched_at src, stat_last_run = last_run\<rparr>)))))))"

definition status_of :: "pylib \<Rightarrow> source_row \<Rightarrow> ('j, source_status) app_op" where
  "status_of L src =
     bindS (on_db (query (latest_run (src_id src)))) (\<lambda>run. liftE (build_source_status L src run))"

definition apply_auto_run_toggle :: "pylib \<Rightarrow> 'j job_api \<Rightarrow> source_row \<Rightarrow> ('j, source_status) app_op" where
  "apply_auto_run_toggle L A src =
     (case src_connector src of
        None \<Rightarrow> raiseS (AssertionError (lit ''connector is not None''))
      | Some c \<Rightarrow>
          bindS (if connector_should_auto_run (src_config src)
                 then on_jobs (api_resume A (build_job_id c))
                 else on_jobs (api_pause A (build_job_id c))) (\<lambda>_.
          status_of L src))"

definition register_job :: "'j job_api \<Rightarrow> (pystr \<Rightarrow> bool) \<Rightarrow> source_row \<Rightarrow> ('j, unit) app_op" where
  "register_job A crontab_ok src =
     (case src_connector src of
        None \<Rightarrow> raiseS (AssertionError (lit ''connector is not None''))
      | Some c \<Rightarrow>
          bindS (on_jobs (add_job A (build_job_id c) (parse_schedule crontab_ok (JObj (src_config src))))) (\<lambda>_.
          if \<not> connector_should_auto_run (src_config src) then on_jobs (api_pause A (build_job_id c))
          else retS ()))"

definition register_jobs :: "'j job_api \<Rightarrow> (pystr \<Rightarrow> bool) \<Rightarrow> ('j, nat) app_op" where
  "register_jobs A crontab_ok =
     bindS (on_db (query sources_with_connector)) (\<lambda>srcs.
     bindS (forS srcs (register_job A crontab_ok)) (\<lambda>_.
     retS (length srcs)))"

section \<open>Routes\<close>

text \<open>\<open>except SchedulerLookupError as exc: raise HTTPException(status_code=404)\<close>\<close>

definition lookup_404 :: "'a op \<Rightarrow> 'a op" where
  "lookup_404 m s =
     (case m s of
        (Inl e, t) \<Rightarrow> (Inl (if is_scheduler_lookup_error e then HTTPException 404 else e), t)
      | (Inr x, t) \<Rightarrow> (Inr x, t))"

declare lookup_404_def [run_simps]

definition update_source_interval :: "pylib \<Rightarrow> 'j job_api \<Rightarrow> pystr \<Rightarrow> int \<Rightarrow> ('j, source_status) app_op" where
  "update_source_interval L A source seconds =
     bindS (on_db (lookup_404 (set_source_interval source seconds))) (\<lambda>row.
     bindS (on_db commit) (\<lambda>_.
     bindS (on_jobs (reschedule_job A (build_job_id source) (Interval_trigger (of_int seconds)))) (\<lambda>_.
     status_of L row)))"

definition update_source_auto_fetch :: "pylib \<Rightarrow> 'j job_api \<Rightarrow> pystr \<Rightarrow> bool \<Rightarrow> ('j, source_status) app_op" where
  "update_source_auto_fetch L A source enabled =
     bindS (on_db (lookup_404 (set_source_auto_fetch source enabled))) (\<lambda>row.
     bindS (on_db commit) (\<lambda>_.
     apply_auto_run_toggle L A row))"

definition update_source_enabled :: "pylib \<Rightarrow> 'j job_api \<Rightarrow> pystr \<Rightarrow> bool \<Rightarrow> ('j, source_status) app_op" where
  "update_source_enabled L A source enabled =
     bindS (on_db (lookup_404 (set_source_enabled source enabled))) (\<lambda>row.
     bindS (on_db commit) (\<lambda>_.
     apply_auto_run_toggle L A row))"

definition update_source_fetch_range :: "pylib \<Rightarrow> pystr \<Rightarrow> json \<Rightarrow> ('j, source_status) app_op" where
  "update_source_fetch_range L source fetch_range =
     bindS (on_db (lookup_404 (set_source_fetch_range source fetch_range))) (\<lambda>row.
     bindS (on_db commit) (\<lambda>_.
     status_of L row))"

definition scheduler_status :: "pylib \<Rightarrow> ('j, source_status list) app_op" where
  "scheduler_status L =
     bindS (on_db (query (\<lambda>d. gather (\<lambda>src. build_source_status L src (latest_run (src_id src) d))
       (sources_with_connector d)))) liftE"

section \<open>Jobs follow the settings\<close>

text \<open>
  What APScheduler documents: an interval of at most a day can be a trigger; adding a job makes it run, pausing stops it, and resuming and
  rescheduling compute its next run time, which makes it run; no other job is touched.
\<close>

definition scheduler_laws :: "'j job_api \<Rightarrow> bool" where
  "scheduler_laws A \<longleftrightarrow>
     (\<forall>q. 0 < q \<and> q \<le> 86400 \<longrightarrow> api_interval_ok A q)
   \<and> (\<forall>i t j. api_has A (api_add A i t j) = (api_has A j)(i := True)
            \<and> api_running A (api_add A i t j) = (api_running A j)(i := True))
   \<and> (\<forall>i j. api_has A j i \<longrightarrow> (\<exists>j'. api_pause A i j = Inr j' \<and> api_has A j' = api_has A j
            \<and> api_running A j' = (api_running A j)(i := False)))
   \<and> (\<forall>i j. api_has A j i \<longrightarrow> (\<exists>j'. api_resume A i j = Inr j' \<and> api_has A j' = api_has A j
            \<and> api_running A j' = (api_running A j)(i := True)))
   \<and> (\<forall>i t j. api_has A j i \<longrightarrow> (\<exists>j'. api_reschedule A i t j = Inr j' \<and> api_has A j' = api_has A j
            \<and> api_running A j' = (api_running A j)(i := True)))"

text \<open>The job of every source runs exactly when the auto-run rule says so.\<close>

definition job_matches :: "'j job_api \<Rightarrow> 'j \<Rightarrow> source_row \<Rightarrow> bool" where
  "job_matches A j src \<longleftrightarrow> (\<forall>c. src_connector src = Some c \<longrightarrow>
     api_has A j (build_job_id c)
     \<and> api_running A j (build_job_id c) = connector_should_auto_run (src_config src))"

definition jobs_match :: "'j job_api \<Rightarrow> db \<Rightarrow> 'j \<Rightarrow> bool" where
  "jobs_match A d j \<longleftrightarrow> list_all (job_matches A j) (sources d)"

definition connectors_distinct :: "db \<Rightarrow> bool" where
  "connectors_distinct d \<longleftrightarrow>
     distinct (map src_id (sources d)) \<and> distinct (map src_connector (sources_with_connector d))"

lemma build_job_id_inj [simp]: "build_job_id a = build_job_id b \<longleftrightarrow> a = b"
  by (simp add: build_job_id_def)

lemma connectors_distinctD:
  assumes "connectors_distinct d" and "a \<in> set (sources d)" "b \<in> set (sources d)"
    and "src_connector a = Some c" "src_connector b = Some c"
  shows "a = b"
  using assms distinct_map_inj [of src_connector "sources_with_connector d" a b]
  by (simp add: connectors_distinct_def sources_with_connector_def)

lemma sources_update:
  "sources (update_source sid f d) = update_where (\<lambda>r. src_id r = sid) f (sources d)"
  by (simp add: update_source_def)

lemma jobs_match_update:
  assumes match: "jobs_match A d j" and src: "src \<in> set (sources d)" "src_connector src = Some c"
    and dist: "connectors_distinct d"
    and f: "f src = src\<lparr>src_config := cfg\<rparr>"
    and has: "api_has A j' = api_has A j"
    and run: "api_running A j' = (api_running A j)(build_job_id c := connector_should_auto_run cfg)"
  shows "jobs_match A (update_source (src_id src) f d) j'"
proof -
  have "job_matches A j' r'" if r': "r' \<in> set (sources (update_source (src_id src) f d))" for r'
  proof -
    from r' obtain r where r: "r \<in> set (sources d)" "r' = (if src_id r = src_id src then f r else r)"
      by (auto simp: sources_update update_where_def)
    have m: "job_matches A j r" using match r(1) by (simp add: jobs_match_def list_all_iff)
    show ?thesis
    proof (cases "src_id r = src_id src")
      case True
      have "distinct (map src_id (sources d))" using dist by (simp add: connectors_distinct_def)
      then have "r = src" using distinct_map_inj [OF _ r(1) src(1) True] by blast
      then show ?thesis
        using r(2) f m src(2) has run by (auto simp: job_matches_def)
    next
      case False
      then have "src_connector r \<noteq> Some c"
        using connectors_distinctD [OF dist r(1) src(1) _ src(2)] by auto
      then show ?thesis using False r(2) m has run by (auto simp: job_matches_def)
    qed
  qed
  then show ?thesis by (simp add: jobs_match_def list_all_iff)
qed

text \<open>The settings of a source the response model accepts.\<close>

definition status_fields_ok :: "pylib \<Rightarrow> jdict \<Rightarrow> bool" where
  "status_fields_ok L config \<longleftrightarrow>
     is_dict (jget_default config (lit ''schedule'') (JObj []))
     \<and> is_dict (jget_default config (lit ''fetch_range'') (JObj []))
     \<and> is_dict (jget_default config (lit ''fetch_scope'') (JObj []))
     \<and> as_bool L (jget_default config (lit ''auto_fetch_enabled'') (JBool True)) \<noteq> None
     \<and> as_bool L (jget_default config (lit ''connector_enabled'') (JBool True)) \<noteq> None"

lemma is_dict_iff: "is_dict j \<longleftrightarrow> (\<exists>d. j = JObj d)"
  by (cases j) simp_all

lemma build_source_status_ok:
  assumes "src_connector src = Some c" and "status_fields_ok L (src_config src)"
  shows "\<exists>st. build_source_status L src run = Inr st"
proof -
  have "is_dict (jget_default (src_config src) (lit ''fetch_scope'') (JObj [(lit ''mode'', JStr (lit ''all''))]))"
    using assms(2) by (simp add: status_fields_ok_def jget_default_def split: option.splits)
  with assms show ?thesis
    by (auto simp: status_fields_ok_def build_source_status_def flag_field_def dict_field_def is_dict_iff Let_def)
qed

lemma status_fields_toggle:
  assumes "status_fields_ok L config" and "as_bool L (JBool b) \<noteq> None"
    and "k = lit ''auto_fetch_enabled'' \<or> k = lit ''connector_enabled''"
  shows "status_fields_ok L (AList.update k (JBool b) config)"
  using assms by (auto simp: status_fields_ok_def jget_default_update lit_def)

text \<open>
  The two flags a source can be toggled with, as one interface: setting a flag finds the
  source, writes a new configuration to it and returns the source as written. What the routes
  then do with the scheduler is proved once.
\<close>

locale auto_run_flag =
  fixes set_flag :: "pystr \<Rightarrow> bool \<Rightarrow> source_row op"
    and new_config :: "bool \<Rightarrow> jdict \<Rightarrow> jdict"
  assumes set_flag_run:
    "c \<in> set registry_names \<Longrightarrow> find_source c (working s) = Some src \<Longrightarrow> \<not> tx_aborted s \<Longrightarrow>
     set_flag c b s = (Inr (src\<lparr>src_config := new_config b (src_config src)\<rparr>),
       s\<lparr>working := update_source (src_id src)
          (write_config (src\<lparr>src_config := new_config b (src_config src)\<rparr>)) (working s)\<rparr>)"
begin

lemma toggle_run:
  assumes laws: "scheduler_laws A" and c: "c \<in> set registry_names"
    and src: "find_source c (working s) = Some src" and tx: "\<not> tx_aborted s"
    and match: "jobs_match A (working s) j" and dist: "connectors_distinct (working s)"
  shows "\<exists>r t j'. bindS (on_db (lookup_404 (set_flag c b))) (\<lambda>row.
        bindS (on_db commit) (\<lambda>_. apply_auto_run_toggle L A row)) (s, j) = (r, (t, j'))
     \<and> (status_fields_ok L (new_config b (src_config src)) \<longrightarrow> (\<exists>st. r = Inr st))
     \<and> jobs_match A (working t) j' \<and> committed t = working t
     \<and> api_running A j' (build_job_id c) = connector_should_auto_run (new_config b (src_config src))
     \<and> (\<forall>x. x \<noteq> build_job_id c \<longrightarrow> api_running A j' x = api_running A j x)"
proof -
  let ?cfg = "new_config b (src_config src)"
  let ?row = "src\<lparr>src_config := ?cfg\<rparr>"
  let ?d = "update_source (src_id src) (write_config ?row) (working s)"
  let ?go = "connector_should_auto_run ?cfg"
  have mem: "src \<in> set (sources (working s))" "src_connector src = Some c"
    using find_source_in [OF src] by auto
  have has: "api_has A j (build_job_id c)"
    using match mem by (auto simp: jobs_match_def list_all_iff job_matches_def)
  obtain j' where j': "(if ?go then api_resume A (build_job_id c) j else api_pause A (build_job_id c) j) = Inr j'"
    and hs: "api_has A j' = api_has A j" and rn: "api_running A j' = (api_running A j)(build_job_id c := ?go)"
    using laws has unfolding scheduler_laws_def by (cases ?go) (simp_all, metis+)
  have "jobs_match A ?d j'"
    using match mem dist _ hs rn by (rule jobs_match_update) (simp add: write_config_def)
  moreover have "bindS (on_db (lookup_404 (set_flag c b))) (\<lambda>row.
        bindS (on_db commit) (\<lambda>_. apply_auto_run_toggle L A row)) (s, j)
      = (build_source_status L ?row (latest_run (src_id src) ?d), (s\<lparr>working := ?d, committed := ?d\<rparr>, j'))"
    using j' tx mem(2)
    by (cases ?go)
      (simp_all add: run_simps set_flag_run [OF c src tx] apply_auto_run_toggle_def status_of_def)
  moreover have "\<exists>st. build_source_status L ?row (latest_run (src_id src) ?d) = Inr st" if "status_fields_ok L ?cfg"
    using build_source_status_ok [of ?row c L] mem(2) that by simp
  ultimately show ?thesis using rn
    by (intro exI [of _ "build_source_status L ?row (latest_run (src_id src) ?d)"] exI
        [of _ "s\<lparr>working := ?d, committed := ?d\<rparr>"] exI [of _ j']) simp
qed

end

lemma set_source_key_run:
  assumes "c \<in> set registry_names" and "find_source c (working s) = Some src" and "\<not> tx_aborted s"
  shows "set_source_key k v c s = (Inr (src\<lparr>src_config := AList.update k v (src_config src)\<rparr>),
       s\<lparr>working := update_source (src_id src)
          (write_config (src\<lparr>src_config := AList.update k v (src_config src)\<rparr>)) (working s)\<rparr>)"
  using assms by (simp add: set_source_key_def resolve_source_by_connector_def run_simps put_config_def)

interpretation auto_fetch: auto_run_flag set_source_auto_fetch
  "\<lambda>b. AList.update (lit ''auto_fetch_enabled'') (JBool b)"
  by unfold_locales (simp add: set_source_auto_fetch_def set_source_key_run)

interpretation enabled: auto_run_flag set_source_enabled
  "\<lambda>b. AList.update (lit ''connector_enabled'') (JBool b)"
  by unfold_locales (simp add: set_source_enabled_def set_source_key_run)

text \<open>C28: Toggling auto-fetch or stopping and starting a connector keeps every job in step with its
  settings: after either route the job of each source runs exactly when both flags of the
  source are on, the change is committed, and no other job is touched. The answer is the status
  of the source whenever its settings are of the types the response has; settings of other types
  spoil the answer, not the toggle.\<close>

theorem toggles_keep_jobs_in_step:
  assumes "scheduler_laws A" and "c \<in> set registry_names" and "find_source c (working s) = Some src"
    and "\<not> tx_aborted s" and "jobs_match A (working s) j" and "connectors_distinct (working s)"
  shows "(\<exists>r t j'. update_source_auto_fetch L A c b (s, j) = (r, (t, j'))
        \<and> (status_fields_ok L (src_config src) \<and> as_bool L (JBool b) = Some b \<longrightarrow> (\<exists>st. r = Inr st))
        \<and> jobs_match A (working t) j' \<and> committed t = working t
        \<and> api_running A j' (build_job_id c) = (b \<and> truthy (jget_default (src_config src) (lit ''connector_enabled'') (JBool True)))
        \<and> (\<forall>x. x \<noteq> build_job_id c \<longrightarrow> api_running A j' x = api_running A j x))
    \<and> (\<exists>r t j'. update_source_enabled L A c b (s, j) = (r, (t, j'))
        \<and> (status_fields_ok L (src_config src) \<and> as_bool L (JBool b) = Some b \<longrightarrow> (\<exists>st. r = Inr st))
        \<and> jobs_match A (working t) j' \<and> committed t = working t
        \<and> api_running A j' (build_job_id c) = (b \<and> truthy (jget_default (src_config src) (lit ''auto_fetch_enabled'') (JBool True)))
        \<and> (\<forall>x. x \<noteq> build_job_id c \<longrightarrow> api_running A j' x = api_running A j x))"
proof -
  have af: "connector_should_auto_run (AList.update (lit ''auto_fetch_enabled'') (JBool b) (src_config src))
      = (b \<and> truthy (jget_default (src_config src) (lit ''connector_enabled'') (JBool True)))"
    and en: "connector_should_auto_run (AList.update (lit ''connector_enabled'') (JBool b) (src_config src))
      = (b \<and> truthy (jget_default (src_config src) (lit ''auto_fetch_enabled'') (JBool True)))"
    by (auto simp: connector_should_auto_run_def jget_default_update)
  have fields: "status_fields_ok L (src_config src) \<and> as_bool L (JBool b) = Some b \<Longrightarrow>
      status_fields_ok L (AList.update k (JBool b) (src_config src))"
    if "k = lit ''auto_fetch_enabled'' \<or> k = lit ''connector_enabled''" for k
    using status_fields_toggle [OF _ _ that] by auto
  show ?thesis
    using auto_fetch.toggle_run [OF assms, where b = b and L = L] enabled.toggle_run [OF assms, where b = b and L = L]
    unfolding update_source_auto_fetch_def update_source_enabled_def af en
    by (elim exE conjE, intro conjI exI) (assumption | use fields in blast)+
qed

text \<open>Changing the interval of a stopped or paused source starts its job: the interval route
  reschedules the job without asking the auto-run rule, so the job runs although the settings
  that were just saved say it must not.\<close>

theorem interval_route_starts_paused_job:
  assumes "scheduler_laws A" and "c \<in> set registry_names" and "find_source c (working s) = Some src"
    and "\<not> tx_aborted s" and "api_has A j (build_job_id c)"
    and "\<not> connector_should_auto_run (src_config src)" and "api_interval_ok A (of_int n)"
  shows "\<exists>r t j' src'. update_source_interval L A c n (s, j) = (r, (t, j'))
    \<and> find_source c (working t) = Some src' \<and> \<not> connector_should_auto_run (src_config src')
    \<and> api_running A j' (build_job_id c)"
proof -
  let ?cfg = "AList.update (lit ''schedule'') (interval_schedule n) (src_config src)"
  let ?row = "src\<lparr>src_config := ?cfg\<rparr>"
  let ?d = "update_source (src_id src) (write_config ?row) (working s)"
  have mem: "src_connector src = Some c" using find_source_in [OF assms(3)] by auto
  obtain j' where j': "api_reschedule A (build_job_id c) (Interval_trigger (of_int n)) j = Inr j'"
    "api_running A j' (build_job_id c)"
    using assms(1,5) unfolding scheduler_laws_def by (metis fun_upd_same)
  have run: "update_source_interval L A c n (s, j)
      = (build_source_status L ?row (latest_run (src_id src) ?d), (s\<lparr>working := ?d, committed := ?d\<rparr>, j'))"
    using j'(1) assms(4) mem
    by (simp add: update_source_interval_def set_source_interval_def run_simps reschedule_job_def make_trigger_def assms(7)
        set_source_key_run [OF assms(2-4)] status_of_def)
  have off: "\<not> connector_should_auto_run ?cfg"
    using assms(6) by (auto simp: connector_should_auto_run_def jget_default_update)
  have "find (\<lambda>r. src_connector r = Some c) (update_where (\<lambda>r. src_id r = sid) (write_config ?row) rows)
      = map_option (\<lambda>r. if src_id r = sid then write_config ?row r else r)
          (find (\<lambda>r. src_connector r = Some c) rows)" for sid rows
    by (induction rows) (auto simp: update_where_def write_config_def)
  then have "find_source c ?d = Some ?row"
    using assms(3) by (simp add: find_source_def sources_update write_config_def)
  with run off j'(2) show ?thesis by fastforce
qed

section \<open>A scheduler to run the examples on\<close>

text \<open>Jobs as a map from their id to the trigger and whether they are due to run.\<close>

definition map_scheduler :: "(pystr \<Rightarrow> (trigger \<times> bool) option) job_api" where
  "map_scheduler =
     \<lparr>api_interval_ok = (\<lambda>q. q < 86400 * 10 ^ 9),
      api_add = (\<lambda>i t j. j(i \<mapsto> (t, True))),
      api_pause = (\<lambda>i j. case j i of None \<Rightarrow> Inl (KeyError i) | Some (t, b) \<Rightarrow> Inr (j(i \<mapsto> (t, False)))),
      api_resume = (\<lambda>i j. case j i of None \<Rightarrow> Inl (KeyError i) | Some (t, b) \<Rightarrow> Inr (j(i \<mapsto> (t, True)))),
      api_reschedule = (\<lambda>i t j. if j i = None then Inl (KeyError i) else Inr (j(i \<mapsto> (t, True)))),
      api_has = (\<lambda>j i. j i \<noteq> None),
      api_running = (\<lambda>j i. case j i of None \<Rightarrow> False | Some (t, b) \<Rightarrow> b)\<rparr>"

lemma map_scheduler_laws: "scheduler_laws map_scheduler"
proof -
  have [simp]: "(j :: pystr \<Rightarrow> (trigger \<times> bool) option) i = Some p \<Longrightarrow>
     (\<exists>j'. j(i \<mapsto> q) = j' \<and> P j') = P (j(i \<mapsto> q))" for j i p q P
    by auto
  show ?thesis
    unfolding scheduler_laws_def map_scheduler_def by (auto simp del: fun_upd_apply) (auto simp: fun_eq_iff)
qed

definition paused_db :: db where
  "paused_db = lifecycle_db True\<lparr>sources := map (\<lambda>r. r\<lparr>src_config :=
     [(lit ''auto_fetch_enabled'', JBool False)]\<rparr>) (sources (lifecycle_db True))\<rparr>"

definition paused_jobs :: "pystr \<Rightarrow> (trigger \<times> bool) option" where
  "paused_jobs = [build_job_id SOLID_JOBS \<mapsto> (default_trigger, False)]"

lemma paused_facts:
  "SOLID_JOBS \<in> set registry_names" "find_source SOLID_JOBS (working (open_session paused_db)) = Some
     ((lifecycle_source True)\<lparr>src_config := [(lit ''auto_fetch_enabled'', JBool False)]\<rparr>)"
  "\<not> tx_aborted (open_session paused_db)" "jobs_match map_scheduler (working (open_session paused_db)) paused_jobs"
  "connectors_distinct (working (open_session paused_db))"
  "\<not> connector_should_auto_run (src_config ((lifecycle_source True)\<lparr>src_config := [(lit ''auto_fetch_enabled'', JBool False)]\<rparr>))"
  "api_has map_scheduler paused_jobs (build_job_id SOLID_JOBS)"
proof -
  show "SOLID_JOBS \<in> set registry_names" by code_simp
qed (auto simp: open_session_def paused_db_def lifecycle_db_def lifecycle_source_def find_source_def
   connectors_distinct_def sources_with_connector_def jobs_match_def job_matches_def map_scheduler_def
   paused_jobs_def connector_should_auto_run_def jget_default_def)

lemma toggles_keep_jobs_in_step_witness:
  "\<exists>st t j'. update_source_enabled sample_lib map_scheduler SOLID_JOBS False (open_session paused_db, paused_jobs) = (Inr st, (t, j'))
     \<and> jobs_match map_scheduler (working t) j'"
proof -
  have "status_fields_ok sample_lib (src_config ((lifecycle_source True)\<lparr>src_config := [(lit ''auto_fetch_enabled'', JBool False)]\<rparr>))
      \<and> as_bool sample_lib (JBool False) = Some False"
    by code_simp
  with toggles_keep_jobs_in_step [OF map_scheduler_laws paused_facts(1-5), where b = False and L = sample_lib]
  show ?thesis by blast
qed

lemma interval_route_starts_paused_job_witness:
  "\<exists>r t j' src'. update_source_interval sample_lib map_scheduler SOLID_JOBS 60 (open_session paused_db, paused_jobs) = (r, (t, j'))
    \<and> find_source SOLID_JOBS (working t) = Some src' \<and> \<not> connector_should_auto_run (src_config src')
    \<and> api_running map_scheduler j' (build_job_id SOLID_JOBS)"
  by (rule interval_route_starts_paused_job [OF map_scheduler_laws paused_facts(1-3,7,6)]) (simp add: map_scheduler_def)

lemma parse_schedule_runs_witness:
  "parse_schedule (\<lambda>_. False) (JObj (AList.update (lit ''schedule'') (interval_schedule 300) [])) = Interval_trigger 300"
  using parse_schedule_runs [of "\<lambda>_. False" JNull 300 "[]"] by simp

section \<open>Seeding\<close>

lemma forS_exec:
  "\<not> tx_aborted s \<Longrightarrow> forS xs (\<lambda>x. exec (f x)) s = (Inr (), s\<lparr>working := fold f xs (working s)\<rparr>)"
  by (induction xs arbitrary: s) (simp_all add: run_simps)

definition missing_specs :: "connector_spec list \<Rightarrow> db \<Rightarrow> connector_spec list" where
  "missing_specs ks d = filter (\<lambda>k. spec_name k \<notin> src_name ` set (sources d)) ks"

lemma fold_insert_source:
  assumes "distinct (map spec_name ks)"
  shows "\<exists>new. sources (fold (insert_source fmt now) ks d) = sources d @ new
     \<and> map src_name new = map spec_name (missing_specs ks d)
     \<and> map src_connector new = map (\<lambda>k. Some (spec_name k)) (missing_specs ks d)
     \<and> map src_config new = map (seed_config fmt now) (missing_specs ks d)"
  using assms
proof (induction ks arbitrary: d)
  case (Cons k ks)
  let ?d = "insert_source fmt now k d"
  obtain new where new: "sources (fold (insert_source fmt now) ks ?d) = sources ?d @ new"
     "map src_name new = map spec_name (missing_specs ks ?d)"
     "map src_connector new = map (\<lambda>k. Some (spec_name k)) (missing_specs ks ?d)"
     "map src_config new = map (seed_config fmt now) (missing_specs ks ?d)"
    using Cons.IH [of ?d] Cons.prems by auto
  define row where "row = \<lparr>src_id = next_id d, src_name = spec_name k, src_connector = Some (spec_name k),
    src_config = seed_config fmt now k, src_last_fetched_at = None\<rparr>"
  have src: "sources ?d = sources d @ (if spec_name k \<in> src_name ` set (sources d) then [] else [row])"
    by (simp add: insert_source_def row_def)
  have "missing_specs ks ?d = missing_specs ks d"
    unfolding missing_specs_def using Cons.prems by (intro filter_cong) (auto simp: insert_source_def, metis imageI)
  moreover have "missing_specs (k # ks) d
      = (if spec_name k \<in> src_name ` set (sources d) then [] else [k]) @ missing_specs ks d"
    by (simp add: missing_specs_def)
  ultimately show ?case
    using new src
    by (intro exI [of _ "(if spec_name k \<in> src_name ` set (sources d) then [] else [row]) @ new"])
      (simp add: row_def)
qed (simp add: missing_specs_def)

text \<open>Seeding at start-up adds a source for exactly the registered connectors that have none,
  with the default configuration of the connector, leaves every existing source as it is, and
  running it again adds nothing.\<close>

theorem ensure_sources_exist_seeds:
  assumes "\<not> tx_aborted s"
  shows "\<exists>t new. ensure_sources_exist fmt now s = (Inr (), t)
     \<and> sources (working t) = sources (working s) @ new
     \<and> map src_name new = map spec_name (missing_specs connector_registry (working s))
     \<and> map src_config new = map (seed_config fmt now) (missing_specs connector_registry (working s))
     \<and> set registry_names \<subseteq> src_name ` set (sources (working t))
     \<and> (\<forall>fmt' now'. \<exists>u. ensure_sources_exist fmt' now' t = (Inr (), u) \<and> sources (working u) = sources (working t))"
proof -
  have dist: "distinct (map spec_name connector_registry)"
    using registry_names_distinct by (simp add: registry_names_def)
  let ?t = "s\<lparr>working := fold (insert_source fmt now) connector_registry (working s)\<rparr>"
  obtain new where new: "sources (working ?t) = sources (working s) @ new"
     "map src_name new = map spec_name (missing_specs connector_registry (working s))"
     "map src_config new = map (seed_config fmt now) (missing_specs connector_registry (working s))"
    using fold_insert_source [OF dist, of fmt now "working s"] by auto
  have "src_name ` set new = spec_name ` set (missing_specs connector_registry (working s))"
    using new(2) by (metis list.set_map)
  then have all: "set registry_names \<subseteq> src_name ` set (sources (working ?t))"
    unfolding new(1) registry_names_def missing_specs_def set_append image_Un set_map by auto
  have "missing_specs connector_registry (working ?t) = []"
    using all unfolding missing_specs_def registry_names_def by (auto simp: filter_empty_conv)
  then have again: "sources (fold (insert_source fmt' now') connector_registry (working ?t)) = sources (working ?t)"
    for fmt' now'
    using fold_insert_source [OF dist, of fmt' now' "working ?t"] by auto
  show ?thesis
    using new all again assms unfolding ensure_sources_exist_def by (auto simp: forS_exec)
qed

section \<open>Registering\<close>

text \<open>The trigger of a source's schedule can be built.\<close>

definition schedule_fits :: "'j job_api \<Rightarrow> (pystr \<Rightarrow> bool) \<Rightarrow> source_row \<Rightarrow> bool" where
  "schedule_fits A crontab_ok src \<longleftrightarrow>
     (case parse_schedule crontab_ok (JObj (src_config src)) of Interval_trigger q \<Rightarrow> api_interval_ok A q | _ \<Rightarrow> True)"

lemma make_trigger_fits:
  "make_trigger A (parse_schedule ok (JObj (src_config src)))
     = (if schedule_fits A ok src then Inr (parse_schedule ok (JObj (src_config src)))
        else Inl (OtherExn (lit ''OverflowError'')))"
  by (simp add: make_trigger_def schedule_fits_def split: trigger.split)

lemma register_job_run:
  assumes laws: "scheduler_laws A" and c: "src_connector src = Some c" and fits: "schedule_fits A ok src"
  shows "\<exists>j'. register_job A ok src (s, j) = (Inr (), (s, j'))
     \<and> api_has A j' = (api_has A j)(build_job_id c := True)
     \<and> api_running A j' = (api_running A j)(build_job_id c := connector_should_auto_run (src_config src))"
proof -
  let ?j = "api_add A (build_job_id c) (parse_schedule ok (JObj (src_config src))) j"
  have a: "api_has A ?j = (api_has A j)(build_job_id c := True)"
     "api_running A ?j = (api_running A j)(build_job_id c := True)"
    using laws by (simp_all add: scheduler_laws_def)
  obtain j' where j': "api_pause A (build_job_id c) ?j = Inr j'" "api_has A j' = api_has A ?j"
     "api_running A j' = (api_running A ?j)(build_job_id c := False)"
    using laws a(1) unfolding scheduler_laws_def by (metis fun_upd_same)
  show ?thesis
    using a j' c fits by (cases "connector_should_auto_run (src_config src)")
      (simp_all add: register_job_def run_simps add_job_def make_trigger_fits)
qed

lemma register_all_run:
  assumes laws: "scheduler_laws A" and "list_all (\<lambda>r. src_connector r \<noteq> None) rows"
    and "distinct (map src_connector rows)" and "list_all (schedule_fits A ok) rows"
  shows "\<exists>j'. forS rows (register_job A ok) (s, j) = (Inr (), (s, j'))
     \<and> list_all (job_matches A j') rows
     \<and> (\<forall>x. (\<forall>r \<in> set rows. \<forall>c. src_connector r = Some c \<longrightarrow> x \<noteq> build_job_id c) \<longrightarrow>
          api_has A j' x = api_has A j x \<and> api_running A j' x = api_running A j x)"
  using assms(2-4)
proof (induction rows arbitrary: j)
  case (Cons r rows)
  then obtain c where c: "src_connector r = Some c" and fits: "schedule_fits A ok r" by auto
  obtain j1 where j1: "register_job A ok r (s, j) = (Inr (), (s, j1))"
     "api_has A j1 = (api_has A j)(build_job_id c := True)"
     "api_running A j1 = (api_running A j)(build_job_id c := connector_should_auto_run (src_config r))"
    using register_job_run [OF laws c fits] by blast
  obtain j2 where j2: "forS rows (register_job A ok) (s, j1) = (Inr (), (s, j2))"
     "list_all (job_matches A j2) rows"
     "\<And>x. (\<forall>r \<in> set rows. \<forall>c. src_connector r = Some c \<longrightarrow> x \<noteq> build_job_id c) \<Longrightarrow>
          api_has A j2 x = api_has A j1 x \<and> api_running A j2 x = api_running A j1 x"
    using Cons.IH [of j1] Cons.prems by auto
  have "\<forall>r' \<in> set rows. src_connector r' \<noteq> Some c" using Cons.prems c by force
  then have keep: "api_has A j2 (build_job_id c) = api_has A j1 (build_job_id c)
      \<and> api_running A j2 (build_job_id c) = api_running A j1 (build_job_id c)"
    by (intro j2(3)) auto
  have "job_matches A j2 r" using keep c j1 by (simp add: job_matches_def)
  moreover have "api_has A j2 x = api_has A j x \<and> api_running A j2 x = api_running A j x"
    if "\<forall>r' \<in> set (r # rows). \<forall>c. src_connector r' = Some c \<longrightarrow> x \<noteq> build_job_id c" for x
    using that j2(3) [of x] j1 c by auto
  moreover have "forS (r # rows) (register_job A ok) (s, j) = (Inr (), (s, j2))"
    using j1(1) j2(1) by (simp add: run_simps)
  ultimately show ?case using j2(2) by (intro exI [of _ j2]) simp
qed (simp add: run_simps)

lemma register_jobs_match:
  assumes "scheduler_laws A" and "\<not> tx_aborted s" and "connectors_distinct (working s)"
    and "list_all (schedule_fits A ok) (sources_with_connector (working s))"
  shows "\<exists>j'. register_jobs A ok (s, j) = (Inr (length (sources_with_connector (working s))), (s, j'))
     \<and> jobs_match A (working s) j'"
proof -
  let ?rows = "sources_with_connector (working s)"
  obtain j' where j': "forS ?rows (register_job A ok) (s, j) = (Inr (), (s, j'))"
     "list_all (job_matches A j') ?rows"
    using register_all_run [OF assms(1), of ?rows ok s j] assms(3,4)
    by (auto simp: connectors_distinct_def sources_with_connector_def list_all_iff)
  have "jobs_match A (working s) j'"
    using j'(2) by (auto simp: jobs_match_def sources_with_connector_def list_all_iff job_matches_def)
  moreover have "register_jobs A ok (s, j) = (Inr (length ?rows), (s, j'))"
    using j'(1) assms(2) by (simp add: register_jobs_def run_simps)
  ultimately show ?thesis by blast
qed

text \<open>Start-up registration gives every source with a connector a job, and after it the job of
  each runs exactly when the auto-run rule of its configuration says so, whatever jobs the
  scheduler held before, provided the trigger of every schedule can be built.\<close>

theorem register_jobs_in_step:
  assumes "scheduler_laws A" and "\<not> tx_aborted s" and "connectors_distinct (working s)"
    and "list_all (schedule_fits A ok) (sources_with_connector (working s))"
  shows "\<exists>j'. register_jobs A ok (s, j) = (Inr (length (sources_with_connector (working s))), (s, j'))
     \<and> jobs_match A (working s) j'"
  by (rule register_jobs_match [OF assms])

lemma ensure_sources_exist_seeds_witness:
  "\<exists>t. ensure_sources_exist (\<lambda>_. []) 0 (open_session paused_db) = (Inr (), t)
     \<and> set registry_names \<subseteq> src_name ` set (sources (working t))"
  using ensure_sources_exist_seeds [OF paused_facts(3), of "\<lambda>_. []" 0] by blast

lemma register_jobs_in_step_witness:
  "\<exists>j'. register_jobs map_scheduler (\<lambda>_. True) (open_session paused_db, Map.empty) = (Inr 1, (open_session paused_db, j'))
     \<and> jobs_match map_scheduler (working (open_session paused_db)) j'"
proof -
  have "length (sources_with_connector (working (open_session paused_db))) = 1"
    by (simp add: sources_with_connector_def open_session_def paused_db_def lifecycle_db_def lifecycle_source_def)
  then show ?thesis
    using register_jobs_in_step [OF map_scheduler_laws paused_facts(3,5), of "\<lambda>_. True" Map.empty]
    by (simp add: sources_with_connector_def open_session_def paused_db_def lifecycle_db_def lifecycle_source_def
        schedule_fits_def parse_schedule_def jget_def default_trigger_def default_interval_seconds_def map_scheduler_def)
qed

end
