(* ===== verification/BulkSettings.thy ===== *)
theory BulkSettings
  imports Settings
begin

text \<open>
  The remaining routes of \<open>app/api/routes/scheduler.py\<close>: the settings written to every source at
  once, the fetch scope of one source, and the manual run.
\<close>

section \<open>Routes\<close>

text \<open>A comprehension that awaits one call per element.\<close>

fun eachS :: "('a \<Rightarrow> ('s, 'b) prog) \<Rightarrow> 'a list \<Rightarrow> ('s, 'b list) prog" where
  "eachS f [] = retS []"
| "eachS f (x # xs) = bindS (f x) (\<lambda>y. bindS (eachS f xs) (\<lambda>ys. retS (y # ys)))"

definition reschedule_all :: "pylib \<Rightarrow> 'j job_api \<Rightarrow> int \<Rightarrow> source_row \<Rightarrow> ('j, source_status) app_op" where
  "reschedule_all L A seconds src =
     (case src_connector src of
        None \<Rightarrow> raiseS (AssertionError (lit ''connector is not None''))
      | Some c \<Rightarrow>
          bindS (on_jobs (reschedule_job A (build_job_id c) (Interval_trigger (of_int seconds)))) (\<lambda>_.
          status_of L src))"

definition update_all_source_intervals :: "pylib \<Rightarrow> 'j job_api \<Rightarrow> int \<Rightarrow> ('j, source_status list) app_op" where
  "update_all_source_intervals L A seconds =
     bindS (on_db (set_all_source_intervals seconds)) (\<lambda>srcs.
     bindS (on_db commit) (\<lambda>_.
     eachS (reschedule_all L A seconds) srcs))"

definition update_all_source_fetch_ranges :: "pylib \<Rightarrow> json \<Rightarrow> ('j, source_status list) app_op" where
  "update_all_source_fetch_ranges L fetch_range =
     bindS (on_db (set_all_source_fetch_ranges fetch_range)) (\<lambda>srcs.
     bindS (on_db commit) (\<lambda>_.
     eachS (status_of L) srcs))"

definition update_all_source_auto_fetch :: "pylib \<Rightarrow> 'j job_api \<Rightarrow> bool \<Rightarrow> ('j, source_status list) app_op" where
  "update_all_source_auto_fetch L A enabled =
     bindS (on_db (set_all_source_auto_fetch enabled)) (\<lambda>srcs.
     bindS (on_db commit) (\<lambda>_.
     eachS (apply_auto_run_toggle L A) srcs))"

definition update_all_source_enabled :: "pylib \<Rightarrow> 'j job_api \<Rightarrow> bool \<Rightarrow> ('j, source_status list) app_op" where
  "update_all_source_enabled L A enabled =
     bindS (on_db (set_all_source_enabled enabled)) (\<lambda>srcs.
     bindS (on_db commit) (\<lambda>_.
     eachS (apply_auto_run_toggle L A) srcs))"

text \<open>\<open>FetchScopeNotSupportedError\<close> is answered with 400, a lookup error with 404.\<close>

fun scope_status :: "exn \<Rightarrow> exn" where
  "scope_status (FetchScopeNotSupportedError c) = HTTPException 400"
| "scope_status e = (if is_scheduler_lookup_error e then HTTPException 404 else e)"

definition update_source_fetch_scope :: "pylib \<Rightarrow> pystr \<Rightarrow> jdict \<Rightarrow> ('j, source_status) app_op" where
  "update_source_fetch_scope L source fetch_scope =
     bindS (on_db (\<lambda>s. case set_source_fetch_scope source fetch_scope s of
                         (Inl e, t) \<Rightarrow> (Inl (scope_status e), t) | (Inr r, t) \<Rightarrow> (Inr r, t))) (\<lambda>row.
     bindS (on_db commit) (\<lambda>_.
     status_of L row))"

text \<open>\<open>ConnectorDisabledError\<close> is answered with 409, a lookup error with 404.\<close>

fun lifecycle_status :: "exn \<Rightarrow> exn" where
  "lifecycle_status (ConnectorDisabledError c) = HTTPException 409"
| "lifecycle_status e = (if is_scheduler_lookup_error e then HTTPException 404 else e)"

definition translated :: "(exn + 'a) \<times> db \<Rightarrow> (exn + 'a) \<times> db" where
  "translated r = (case r of (Inl e, d) \<Rightarrow> (Inl (lifecycle_status e), d) | (Inr x, d) \<Rightarrow> (Inr x, d))"

text \<open>Both doors open a session of their own on what is committed.\<close>

definition trigger_ingest_route :: "connector_runner \<Rightarrow> pystr \<Rightarrow> bool \<Rightarrow> int \<Rightarrow> db \<Rightarrow> (exn + ingest_response) \<times> db" where
  "trigger_ingest_route run_connector source force_refresh now d =
     translated (in_own_session (trigger_ingest run_connector source force_refresh now) d)"

definition trigger_run :: "connector_runner \<Rightarrow> pystr \<Rightarrow> int \<Rightarrow> db \<Rightarrow> (exn + int) \<times> db" where
  "trigger_run run_connector source now d =
     translated (in_own_session (run_source run_connector source (lit ''manual'') now) d)"

section \<open>Writing one key to every source\<close>

lemma set_all_fold:
  assumes "distinct (map src_id (sources d))" and "distinct (map src_id srcs)" and "set srcs \<subseteq> set (sources d)"
  shows "sources (fold (\<lambda>src. update_source (src_id src) (write_config (put_config k v src))) srcs d)
      = map (\<lambda>r. if r \<in> set srcs then put_config k v r else r) (sources d)"
  using assms
proof (induction srcs arbitrary: d)
  case (Cons x xs)
  let ?put = "put_config k v"
  let ?d = "update_source (src_id x) (write_config (?put x)) d"
  have ids: "src_id (?put r) = src_id r" for r by (simp add: put_config_def)
  have same: "r = x" if "r \<in> set (sources d)" "src_id r = src_id x" for r
    using distinct_map_inj [OF Cons.prems(1) that(1) _ that(2)] Cons.prems(3) by simp
  have d1: "sources ?d = map (\<lambda>r. if r = x then ?put r else r) (sources d)"
    unfolding sources_update update_where_def using same
    by (intro map_cong refl) (auto simp: write_config_def put_config_def)
  have out: "?put x \<notin> set xs" "x \<notin> set xs" using Cons.prems(2) ids by (auto simp: image_iff)
  have "map src_id (sources ?d) = map src_id (sources d)" unfolding d1 by (simp add: ids)
  then have "distinct (map src_id (sources ?d))" using Cons.prems(1) by simp
  moreover have "set xs \<subseteq> set (sources ?d)" using Cons.prems(3) out(2) unfolding d1 by auto
  ultimately have "sources (fold (\<lambda>src. update_source (src_id src) (write_config (?put src))) xs ?d)
      = map (\<lambda>r. if r \<in> set xs then ?put r else r) (sources ?d)"
    using Cons.IH [of ?d] Cons.prems(2) by simp
  also have "\<dots> = map (\<lambda>r. if r \<in> set (x # xs) then ?put r else r) (sources d)"
    unfolding d1 using out by (auto intro!: map_cong)
  finally show ?case by simp
qed simp

lemma set_all_run:
  assumes "\<not> tx_aborted s" and "distinct (map src_id (sources (working s)))"
  shows "\<exists>d. set_all_sources_key k v s = (Inr (map (put_config k v) (sources_with_connector (working s))), s\<lparr>working := d\<rparr>)
     \<and> sources d = map (\<lambda>r. if src_connector r = None then r else put_config k v r) (sources (working s))"
proof -
  let ?srcs = "sources_with_connector (working s)"
  let ?d = "fold (\<lambda>src. update_source (src_id src) (write_config (put_config k v src))) ?srcs (working s)"
  have "distinct (map src_id ?srcs)" "set ?srcs \<subseteq> set (sources (working s))"
    using assms(2) by (auto simp: sources_with_connector_def distinct_map_filter)
  then have "sources ?d = map (\<lambda>r. if src_connector r = None then r else put_config k v r) (sources (working s))"
    by (simp add: set_all_fold [OF assms(2)]) (auto simp: sources_with_connector_def)
  moreover have "set_all_sources_key k v s = (Inr (map (put_config k v) ?srcs), s\<lparr>working := ?d\<rparr>)"
    using assms(1) by (simp add: set_all_sources_key_def run_simps forS_exec)
  ultimately show ?thesis by blast
qed

section \<open>Every job follows\<close>

lemma toggle_one:
  assumes laws: "scheduler_laws A" and c: "src_connector r = Some c" and tx: "\<not> tx_aborted s"
    and has: "api_has A j (build_job_id c)" and fields: "status_fields_ok L (src_config r)"
  shows "\<exists>st j'. apply_auto_run_toggle L A r (s, j) = (Inr st, (s, j')) \<and> api_has A j' = api_has A j
     \<and> api_running A j' = (api_running A j)(build_job_id c := connector_should_auto_run (src_config r))"
proof -
  let ?go = "connector_should_auto_run (src_config r)"
  obtain j' where "(if ?go then api_resume A (build_job_id c) j else api_pause A (build_job_id c) j) = Inr j'"
    "api_has A j' = api_has A j" "api_running A j' = (api_running A j)(build_job_id c := ?go)"
    using laws has unfolding scheduler_laws_def by (cases ?go) (simp_all, metis+)
  moreover obtain st where "build_source_status L r (latest_run (src_id r) (working s)) = Inr st"
    using build_source_status_ok [OF c fields] by blast
  ultimately show ?thesis
    using c tx by (cases ?go) (simp_all add: apply_auto_run_toggle_def run_simps status_of_def)
qed

lemma toggle_each:
  assumes laws: "scheduler_laws A" and tx: "\<not> tx_aborted s"
    and "list_all (\<lambda>r. \<exists>c. src_connector r = Some c \<and> api_has A j (build_job_id c) \<and> status_fields_ok L (src_config r)) rows"
    and "distinct (map src_connector rows)"
  shows "\<exists>sts j'. eachS (apply_auto_run_toggle L A) rows (s, j) = (Inr sts, (s, j'))
     \<and> api_has A j' = api_has A j \<and> list_all (job_matches A j') rows
     \<and> (\<forall>c. Some c \<notin> src_connector ` set rows \<longrightarrow> api_running A j' (build_job_id c) = api_running A j (build_job_id c))"
  using assms(3,4)
proof (induction rows arbitrary: j)
  case (Cons r rows)
  then obtain c where c: "src_connector r = Some c" "api_has A j (build_job_id c)" "status_fields_ok L (src_config r)"
    by auto
  obtain st j1 where j1: "apply_auto_run_toggle L A r (s, j) = (Inr st, (s, j1))" "api_has A j1 = api_has A j"
     "api_running A j1 = (api_running A j)(build_job_id c := connector_should_auto_run (src_config r))"
    using toggle_one [OF laws c(1) tx c(2,3)] by blast
  obtain sts j2 where j2: "eachS (apply_auto_run_toggle L A) rows (s, j1) = (Inr sts, (s, j2))"
     "api_has A j2 = api_has A j1" "list_all (job_matches A j2) rows"
     "\<And>c. Some c \<notin> src_connector ` set rows \<Longrightarrow> api_running A j2 (build_job_id c) = api_running A j1 (build_job_id c)"
    using Cons.IH [of j1] Cons.prems j1(2) by auto
  have "Some c \<notin> src_connector ` set rows" using Cons.prems(2) c(1) by simp
  then have "job_matches A j2 r" using j1 j2(2,4) c by (simp add: job_matches_def)
  then show ?case
    using j1 j2 c(1) by (intro exI [of _ "st # sts"] exI [of _ j2]) (auto simp: run_simps)
qed (simp add: run_simps)

text \<open>What both bulk toggles do, for the flag they write.\<close>

lemma bulk_toggle:
  assumes laws: "scheduler_laws A" and tx: "\<not> tx_aborted s" and dist: "connectors_distinct (working s)"
    and match: "jobs_match A (working s) j"
    and fields: "list_all (\<lambda>r. status_fields_ok L (src_config (put_config k v r))) (sources_with_connector (working s))"
  shows "\<exists>sts t j'. bindS (on_db (set_all_sources_key k v)) (\<lambda>srcs.
        bindS (on_db commit) (\<lambda>_. eachS (apply_auto_run_toggle L A) srcs)) (s, j) = (Inr sts, (t, j'))
     \<and> jobs_match A (working t) j' \<and> committed t = working t
     \<and> sources (working t) = map (\<lambda>r. if src_connector r = None then r else put_config k v r) (sources (working s))"
proof -
  let ?rows = "map (put_config k v) (sources_with_connector (working s))"
  have con: "src_connector (put_config k v r) = src_connector r" for r by (simp add: put_config_def)
  obtain d where d: "set_all_sources_key k v s = (Inr ?rows, s\<lparr>working := d\<rparr>)"
     "sources d = map (\<lambda>r. if src_connector r = None then r else put_config k v r) (sources (working s))"
    using set_all_run [OF tx] dist unfolding connectors_distinct_def by blast
  let ?t = "s\<lparr>working := d, committed := d\<rparr>"
  have "\<not> tx_aborted ?t" using tx by simp
  moreover have "list_all (\<lambda>r. \<exists>c. src_connector r = Some c \<and> api_has A j (build_job_id c)
      \<and> status_fields_ok L (src_config r)) ?rows"
    using match fields by (auto simp: list_all_iff sources_with_connector_def jobs_match_def job_matches_def con)
  moreover have "distinct (map src_connector ?rows)"
    using dist by (simp add: connectors_distinct_def o_def con)
  ultimately obtain sts j' where j': "eachS (apply_auto_run_toggle L A) ?rows (?t, j) = (Inr sts, (?t, j'))"
     "list_all (job_matches A j') ?rows"
    using toggle_each [OF laws, where s = ?t and j = j and rows = ?rows and L = L] by blast
  have "jobs_match A d j'"
    using j'(2) by (auto simp: jobs_match_def d(2) list_all_iff sources_with_connector_def)
      (simp add: job_matches_def)
  moreover have "bindS (on_db (set_all_sources_key k v)) (\<lambda>srcs.
        bindS (on_db commit) (\<lambda>_. eachS (apply_auto_run_toggle L A) srcs)) (s, j) = (Inr sts, (?t, j'))"
    using d(1) tx j'(1) by (simp add: run_simps)
  ultimately show ?thesis using d(2) by fastforce
qed

text \<open>A bulk toggle puts every job in step at once: it writes the flag to every source with a
  connector and to no other, keeps the rest of each configuration, commits, and then the job of each
  source runs exactly when both of its flags are on; after switching off, no source's job runs. The
  loop builds each answer before it turns to the next source, so it needs settings the response
  model accepts.\<close>

theorem bulk_toggles_keep_jobs_in_step:
  assumes "scheduler_laws A" and "\<not> tx_aborted s" and "connectors_distinct (working s)"
    and "jobs_match A (working s) j"
    and "list_all (\<lambda>r. status_fields_ok L (src_config r)) (sources_with_connector (working s))"
    and "as_bool L (JBool b) \<noteq> None"
  shows "(\<exists>sts t j'. update_all_source_auto_fetch L A b (s, j) = (Inr sts, (t, j'))
        \<and> jobs_match A (working t) j' \<and> committed t = working t
        \<and> sources (working t) = map (\<lambda>r. if src_connector r = None then r
             else put_config (lit ''auto_fetch_enabled'') (JBool b) r) (sources (working s)))
    \<and> (\<exists>sts t j'. update_all_source_enabled L A b (s, j) = (Inr sts, (t, j'))
        \<and> jobs_match A (working t) j' \<and> committed t = working t
        \<and> sources (working t) = map (\<lambda>r. if src_connector r = None then r
             else put_config (lit ''connector_enabled'') (JBool b) r) (sources (working s))
        \<and> (b \<or> list_all (\<lambda>r. case src_connector r of None \<Rightarrow> True
                              | Some c \<Rightarrow> \<not> api_running A j' (build_job_id c)) (sources (working t))))"
proof
  have fields: "list_all (\<lambda>r. status_fields_ok L (src_config (put_config k (JBool b) r))) (sources_with_connector (working s))"
    if "k = lit ''auto_fetch_enabled'' \<or> k = lit ''connector_enabled''" for k
    using assms(5,6) that by (auto simp: list_all_iff put_config_def intro!: status_fields_toggle)
  show "\<exists>sts t j'. update_all_source_auto_fetch L A b (s, j) = (Inr sts, (t, j'))
        \<and> jobs_match A (working t) j' \<and> committed t = working t
        \<and> sources (working t) = map (\<lambda>r. if src_connector r = None then r
             else put_config (lit ''auto_fetch_enabled'') (JBool b) r) (sources (working s))"
    unfolding update_all_source_auto_fetch_def set_all_source_auto_fetch_def
    by (rule bulk_toggle [OF assms(1-4) fields]) simp
  obtain sts t j' where t: "update_all_source_enabled L A b (s, j) = (Inr sts, (t, j'))"
     "jobs_match A (working t) j'" "committed t = working t"
     "sources (working t) = map (\<lambda>r. if src_connector r = None then r
             else put_config (lit ''connector_enabled'') (JBool b) r) (sources (working s))"
    using bulk_toggle [OF assms(1-4) fields, of "lit ''connector_enabled''"]
    unfolding update_all_source_enabled_def set_all_source_enabled_def by blast
  have "\<not> api_running A j' (build_job_id c)" if "\<not> b" "r \<in> set (sources (working t))" "src_connector r = Some c" for r c
  proof -
    have "\<not> connector_should_auto_run (src_config r)"
      using that unfolding t(4)
      by (auto simp: put_config_def connector_should_auto_run_def jget_default_update split: if_splits)
    then show ?thesis using t(2) that(2,3) by (auto simp: jobs_match_def list_all_iff job_matches_def)
  qed
  then have "b \<or> list_all (\<lambda>r. case src_connector r of None \<Rightarrow> True
                              | Some c \<Rightarrow> \<not> api_running A j' (build_job_id c)) (sources (working t))"
    by (auto simp: list_all_iff split: option.split)
  with t show "\<exists>sts t j'. update_all_source_enabled L A b (s, j) = (Inr sts, (t, j'))
        \<and> jobs_match A (working t) j' \<and> committed t = working t
        \<and> sources (working t) = map (\<lambda>r. if src_connector r = None then r
             else put_config (lit ''connector_enabled'') (JBool b) r) (sources (working s))
        \<and> (b \<or> list_all (\<lambda>r. case src_connector r of None \<Rightarrow> True
                              | Some c \<Rightarrow> \<not> api_running A j' (build_job_id c)) (sources (working t)))"
    by blast
qed

lemma bulk_toggles_keep_jobs_in_step_witness:
  "\<exists>sts t j'. update_all_source_auto_fetch sample_lib map_scheduler True (open_session paused_db, paused_jobs) = (Inr sts, (t, j'))
     \<and> jobs_match map_scheduler (working t) j'"
proof -
  have "list_all (\<lambda>r. status_fields_ok sample_lib (src_config r)) (sources_with_connector (working (open_session paused_db)))"
    "as_bool sample_lib (JBool True) \<noteq> None" by code_simp+
  from bulk_toggles_keep_jobs_in_step [OF map_scheduler_laws paused_facts(3,5,4) this] show ?thesis by blast
qed

end
