(* ===== verification/Boot.thy ===== *)
theory Boot
  imports BulkSettings
begin

text \<open>
  The start of the application, \<open>lifespan\<close> of \<open>app/main.py\<close>: seeding, the sweep over orphaned runs,
  the jobs of the sources and the three jobs of the application itself
  (\<open>app/scheduler/lifecycle.py\<close>). The settings and the rest of \<open>lifespan\<close> are in \<open>Application\<close>.
\<close>

section \<open>The start\<close>

definition scoring_job_id :: pystr where "scoring_job_id = lit ''scoring:backlog''"
definition detail_retry_job_id :: pystr where "detail_retry_job_id = lit ''dlq:retry_403''"
definition proxy_pool_topup_job_id :: pystr where "proxy_pool_topup_job_id = lit ''proxy_pool:topup''"

definition register_scoring_job :: "'j job_api \<Rightarrow> int \<Rightarrow> 'j \<Rightarrow> exn + 'j" where
  "register_scoring_job A seconds = add_job A scoring_job_id (Interval_trigger (of_int seconds))"

definition register_detail_retry_job :: "'j job_api \<Rightarrow> int \<Rightarrow> 'j \<Rightarrow> exn + 'j" where
  "register_detail_retry_job A seconds = add_job A detail_retry_job_id (Interval_trigger (of_int seconds))"

definition register_proxy_pool_topup_job :: "'j job_api \<Rightarrow> int \<Rightarrow> 'j \<Rightarrow> exn + 'j" where
  "register_proxy_pool_topup_job A seconds = add_job A proxy_pool_topup_job_id (Interval_trigger (of_int seconds))"

record job_settings =
  scoring_job_interval_seconds :: int
  detail_retry_job_interval_seconds :: int
  proxy_pool_topup_interval_seconds :: int

text \<open>The first session: seeding and the sweep, committed together.\<close>

definition prepare_tables :: "(int \<Rightarrow> pystr) \<Rightarrow> int \<Rightarrow> nat op" where
  "prepare_tables isoformat now =
     bindS (ensure_sources_exist isoformat now) (\<lambda>_.
     bindS (reconcile_stale_running_runs now) (\<lambda>stale.
     bindS commit (\<lambda>_. retS stale)))"

definition register_own_jobs :: "'j job_api \<Rightarrow> job_settings \<Rightarrow> 'j \<Rightarrow> exn + 'j" where
  "register_own_jobs A cfg j =
     bindE (register_scoring_job A (scoring_job_interval_seconds cfg) j) (\<lambda>j1.
     bindE (register_detail_retry_job A (detail_retry_job_interval_seconds cfg) j1) (\<lambda>j2.
     register_proxy_pool_topup_job A (proxy_pool_topup_interval_seconds cfg) j2))"

text \<open>A start that fails leaves a scheduler that was never started; what it holds is of no use.\<close>

definition lifespan_start ::
    "'j job_api \<Rightarrow> (pystr \<Rightarrow> bool) \<Rightarrow> (int \<Rightarrow> pystr) \<Rightarrow> job_settings \<Rightarrow> int \<Rightarrow> db \<Rightarrow> 'j
     \<Rightarrow> (exn + nat \<times> nat) \<times> db \<times> 'j" where
  "lifespan_start A crontab_ok isoformat cfg now d j =
     (case in_own_session (prepare_tables isoformat now) d of
        (Inl e, d1) \<Rightarrow> (Inl e, d1, j)
      | (Inr stale, d1) \<Rightarrow>
          (case register_jobs A crontab_ok (open_session d1, j) of
             (Inl e, (_, j1)) \<Rightarrow> (Inl e, d1, j1)
           | (Inr job_count, (_, j1)) \<Rightarrow>
               (case register_own_jobs A cfg j1 of
                  Inl e \<Rightarrow> (Inl e, d1, j1)
                | Inr j2 \<Rightarrow> (Inr (stale, job_count), d1, j2))))"

section \<open>What the start leaves\<close>

text \<open>A source is named after its connector, as seeding names it.\<close>

definition named_after_connector :: "db \<Rightarrow> bool" where
  "named_after_connector d \<longleftrightarrow>
     list_all (\<lambda>r. case src_connector r of None \<Rightarrow> True | Some c \<Rightarrow> src_name r = c) (sources d)"

lemma insert_source_ok:
  assumes "db_ok d"
  shows "db_ok (insert_source fmt now k d)"
proof -
  have "next_id d \<notin> src_id ` set (sources d)"
    using assms ids_in_fresh by (fastforce simp: db_ok_def ids_below_def)
  then show ?thesis
    using assms
    by (auto simp: db_ok_def keys_ok_def ids_below_def refs_simps insert_source_def table_simps list_all_iff)
qed

lemma insert_source_named: "named_after_connector d \<Longrightarrow> named_after_connector (insert_source fmt now k d)"
  by (simp add: named_after_connector_def insert_source_def)

lemma fold_keeps: "(\<And>x y. P y \<Longrightarrow> P (f x y)) \<Longrightarrow> P y \<Longrightarrow> P (fold f xs y)"
  by (induction xs arbitrary: y) auto

lemma named_distinct:
  assumes "keys_ok d" and "named_after_connector d"
  shows "connectors_distinct d"
proof -
  let ?rows = "sources_with_connector d"
  have eq: "map src_connector ?rows = map (Some \<circ> src_name) ?rows"
    using assms(2) by (auto simp: sources_with_connector_def named_after_connector_def list_all_iff split: option.splits)
  have "distinct (map src_name ?rows)"
    using assms(1) by (simp add: keys_ok_def sources_with_connector_def distinct_map_filter)
  then have "distinct (map (Some \<circ> src_name) ?rows)" by (metis distinct_map inj_on_def list.map_comp option.inject)
  then have "distinct (map src_connector ?rows)" unfolding eq .
  then show ?thesis using assms(1) by (simp add: connectors_distinct_def keys_ok_def)
qed

lemma job_ids_distinct [simp]:
  "scoring_job_id \<noteq> build_job_id c" "detail_retry_job_id \<noteq> build_job_id c"
  "proxy_pool_topup_job_id \<noteq> build_job_id c"
  "scoring_job_id \<noteq> detail_retry_job_id" "scoring_job_id \<noteq> proxy_pool_topup_job_id"
  "detail_retry_job_id \<noteq> proxy_pool_topup_job_id"
  by (simp_all add: scoring_job_id_def detail_retry_job_id_def proxy_pool_topup_job_id_def build_job_id_def lit_def)

text \<open>The database the start commits.\<close>

definition prepared :: "(int \<Rightarrow> pystr) \<Rightarrow> int \<Rightarrow> db \<Rightarrow> db" where
  "prepared fmt now d =
     (let d1 = fold (insert_source fmt now) connector_registry d in
      d1\<lparr>scheduler_runs := update_where (\<lambda>r. run_status r = st_running) (mark_error interrupted now) (scheduler_runs d1)\<rparr>)"

lemma prepare_run:
  "in_own_session (prepare_tables fmt now) d
     = (Inr (length (filter (\<lambda>r. run_status r = st_running) (scheduler_runs (fold (insert_source fmt now) connector_registry d)))),
        prepared fmt now d)"
  by (simp add: in_own_session_def prepare_tables_def ensure_sources_exist_def bindS_def forS_exec
      reconcile_stale_running_runs_def query_def exec_def commit_def retS_def prepared_def Let_def)

lemma runs_fold_insert: "scheduler_runs (fold (insert_source fmt now) ks d) = scheduler_runs d"
  by (induction ks arbitrary: d) (simp_all add: insert_source_def)

lemma prepared_facts:
  assumes "db_ok d" and "named_after_connector d"
  shows "connectors_distinct (prepared fmt now d)"
    and "\<exists>new. sources (prepared fmt now d) = sources d @ new
       \<and> map src_connector new = map (\<lambda>k. Some (spec_name k)) (missing_specs connector_registry d)
       \<and> map src_config new = map (seed_config fmt now) (missing_specs connector_registry d)"
    and "list_all (\<lambda>r. run_status r \<noteq> st_running) (scheduler_runs (prepared fmt now d))"
proof -
  let ?d = "fold (insert_source fmt now) connector_registry d"
  have same: "sources (prepared fmt now d) = sources ?d" by (simp add: prepared_def Let_def)
  have "db_ok ?d" using fold_keeps [of db_ok, OF insert_source_ok assms(1)] .
  moreover have "named_after_connector ?d"
    using fold_keeps [of named_after_connector, OF insert_source_named assms(2)] .
  ultimately have "connectors_distinct ?d" using named_distinct by (simp add: db_ok_def)
  then show "connectors_distinct (prepared fmt now d)"
    unfolding connectors_distinct_def sources_with_connector_def same .
  have "distinct (map spec_name connector_registry)" using registry_names_distinct by (simp add: registry_names_def)
  from fold_insert_source [OF this, of fmt now d]
  show "\<exists>new. sources (prepared fmt now d) = sources d @ new
       \<and> map src_connector new = map (\<lambda>k. Some (spec_name k)) (missing_specs connector_registry d)
       \<and> map src_config new = map (seed_config fmt now) (missing_specs connector_registry d)"
    unfolding same by blast
  show "list_all (\<lambda>r. run_status r \<noteq> st_running) (scheduler_runs (prepared fmt now d))"
    by (auto simp: prepared_def Let_def list_all_iff update_where_def mark_error_def st_running_def st_error_def)
qed

definition intervals_fit :: "'j job_api \<Rightarrow> job_settings \<Rightarrow> bool" where
  "intervals_fit A cfg \<longleftrightarrow>
     list_all (\<lambda>n. api_interval_ok A (of_int n))
       [scoring_job_interval_seconds cfg, detail_retry_job_interval_seconds cfg, proxy_pool_topup_interval_seconds cfg]"

text \<open>The schedules a connector is seeded with are of at most a day.\<close>

lemma seeded_schedule_fits:
  assumes "scheduler_laws A" and "k \<in> set connector_registry" and "src_config r = seed_config fmt now k"
  shows "schedule_fits A ok r"
proof -
  have "list_all (\<lambda>k. case parse_schedule ok (JObj (seed_config fmt now k)) of
      Interval_trigger q \<Rightarrow> 0 < q \<and> q \<le> 86400 | Cron_trigger e \<Rightarrow> True) connector_registry"
    by code_simp
  then show ?thesis
    using assms by (auto simp: schedule_fits_def scheduler_laws_def list_all_iff split: trigger.split)
qed

lemma prepared_schedules_fit:
  assumes "scheduler_laws A" and "db_ok d" and "named_after_connector d"
    and "list_all (schedule_fits A ok) (sources_with_connector d)"
  shows "list_all (schedule_fits A ok) (sources_with_connector (prepared fmt now d))"
proof -
  obtain new where new: "sources (prepared fmt now d) = sources d @ new"
    "map src_config new = map (seed_config fmt now) (missing_specs connector_registry d)"
    using prepared_facts(2) [OF assms(2,3)] by blast
  have "schedule_fits A ok r" if "r \<in> set new" for r
  proof -
    have "src_config r \<in> seed_config fmt now ` set (missing_specs connector_registry d)"
      using that new(2) by (metis image_eqI image_set)
    then show ?thesis using seeded_schedule_fits [OF assms(1)] by (auto simp: missing_specs_def)
  qed
  then show ?thesis using assms(4) new(1) by (auto simp: sources_with_connector_def list_all_iff)
qed

lemma own_jobs_added:
  assumes "scheduler_laws A" and "jobs_match A d j" and "intervals_fit A cfg"
  shows "\<exists>j'. register_own_jobs A cfg j = Inr j' \<and> jobs_match A d j'
    \<and> list_all (api_running A j') [scoring_job_id, detail_retry_job_id, proxy_pool_topup_job_id]"
proof -
  have add: "api_has A (api_add A i t j1) = (api_has A j1)(i := True)"
    "api_running A (api_add A i t j1) = (api_running A j1)(i := True)" for i t j1
    using assms(1) by (simp_all add: scheduler_laws_def)
  show ?thesis
    using assms(2,3)
    by (auto simp: register_own_jobs_def register_proxy_pool_topup_job_def register_detail_retry_job_def
        register_scoring_job_def add_job_def make_trigger_def intervals_fit_def add jobs_match_def job_matches_def list_all_iff job_ids_distinct [symmetric])
qed

text \<open>C14: A start leaves a consistent application: every registered connector has a source, no run is
  left running, the change is committed, every source has a job that runs exactly when its settings
  allow it, and the three jobs of the application run. It reports the runs it closed and the sources
  it scheduled. For that the trigger of every stored schedule and of the three jobs must be one the
  scheduler can build.\<close>

theorem start_leaves_application_in_step:
  assumes "scheduler_laws A" and "db_ok d" and "named_after_connector d"
    and "list_all (schedule_fits A crontab_ok) (sources_with_connector d)" and "intervals_fit A cfg"
  shows "\<exists>d' j'. lifespan_start A crontab_ok fmt cfg now d j
      = (Inr (length (filter (\<lambda>r. run_status r = st_running) (scheduler_runs d)),
              length (sources_with_connector d')), d', j')
     \<and> jobs_match A d' j' \<and> list_all (api_running A j') [scoring_job_id, detail_retry_job_id, proxy_pool_topup_job_id]
     \<and> list_all (\<lambda>r. run_status r \<noteq> st_running) (scheduler_runs d')
     \<and> list_all (\<lambda>c. find_source c d' \<noteq> None \<or> (\<exists>r \<in> set (sources d). src_name r = c \<and> src_connector r = None)) registry_names"
proof -
  let ?d = "prepared fmt now d"
  note facts = prepared_facts [OF assms(2,3), of fmt now]
  obtain j1 where j1: "register_jobs A crontab_ok (open_session ?d, j)
      = (Inr (length (sources_with_connector ?d)), (open_session ?d, j1))" "jobs_match A ?d j1"
    using register_jobs_match [OF assms(1), of "open_session ?d" crontab_ok j] facts(1)
      prepared_schedules_fit [OF assms(1-4), of fmt now] by auto
  obtain j2 where j2: "register_own_jobs A cfg j1 = Inr j2" "jobs_match A ?d j2"
    "list_all (api_running A j2) [scoring_job_id, detail_retry_job_id, proxy_pool_topup_job_id]"
    using own_jobs_added [OF assms(1) j1(2) assms(5)] by blast
  obtain new where new: "sources ?d = sources d @ new"
    "map src_connector new = map (\<lambda>k. Some (spec_name k)) (missing_specs connector_registry d)"
    using facts(2) by blast
  have "find_source c ?d \<noteq> None \<or> (\<exists>r \<in> set (sources d). src_name r = c \<and> src_connector r = None)"
    if c: "c \<in> set registry_names" for c
  proof (cases "c \<in> src_name ` set (sources d)")
    case True
    then obtain r where r: "r \<in> set (sources d)" "src_name r = c" by auto
    show ?thesis
    proof (cases "src_connector r")
      case None
      with r show ?thesis by blast
    next
      case (Some x)
      then have "x = c" using assms(3) r by (auto simp: named_after_connector_def list_all_iff)
      then have "r \<in> set (sources ?d)" "src_connector r = Some c" using Some r new(1) by simp_all
      then show ?thesis by (auto simp: find_source_def find_None_all)
    qed
  next
    case False
    then have "Some c \<in> set (map (\<lambda>k. Some (spec_name k)) (missing_specs connector_registry d))"
      using c by (auto simp: missing_specs_def registry_names_def)
    then obtain r where "r \<in> set new" "src_connector r = Some c" unfolding new(2) [symmetric] by auto
    then show ?thesis using new(1) by (auto simp: find_source_def find_None_all)
  qed
  then have "list_all (\<lambda>c. find_source c ?d \<noteq> None \<or> (\<exists>r \<in> set (sources d). src_name r = c \<and> src_connector r = None)) registry_names"
    by (simp add: list_all_iff)
  with j2 facts(3) show ?thesis
    unfolding lifespan_start_def prepare_run runs_fold_insert using j1(1)
    by (intro exI [of _ ?d] exI [of _ j2]) simp
qed

lemma start_leaves_application_in_step_witness:
  "\<exists>d' j'. lifespan_start map_scheduler (\<lambda>_. True) (\<lambda>_. []) \<lparr>scoring_job_interval_seconds = 60,
        detail_retry_job_interval_seconds = 300, proxy_pool_topup_interval_seconds = 120\<rparr> 9 (lifecycle_db False) Map.empty
      = (Inr (0, length (sources_with_connector d')), d', j') \<and> jobs_match map_scheduler d' j'
     \<and> find_source PRACUJ d' \<noteq> None"
proof -
  have ok: "keys_ok (lifecycle_db False)" "ids_below (lifecycle_db False)" "refs_ok (lifecycle_db False)"
    "named_after_connector (lifecycle_db False)"
    "list_all (schedule_fits map_scheduler (\<lambda>_. True)) (sources_with_connector (lifecycle_db False))" by code_simp+
  have p: "PRACUJ \<in> set registry_names" by code_simp
  let ?cfg = "\<lparr>scoring_job_interval_seconds = 60, detail_retry_job_interval_seconds = 300,
    proxy_pool_topup_interval_seconds = 120\<rparr>"
  have runs: "scheduler_runs (lifecycle_db False) = []" by (simp add: lifecycle_db_def empty_db_def)
  have named: "\<not> (\<exists>r \<in> set (sources (lifecycle_db False)). src_name r = PRACUJ \<and> src_connector r = None)"
    by (simp add: lifecycle_db_def lifecycle_source_def)
  have "db_ok (lifecycle_db False)" using ok by (simp add: db_ok_def)
  moreover have "intervals_fit map_scheduler ?cfg" by (simp add: intervals_fit_def map_scheduler_def)
  ultimately obtain d' j' where start: "lifespan_start map_scheduler (\<lambda>_. True) (\<lambda>_. []) ?cfg 9 (lifecycle_db False) Map.empty
      = (Inr (0, length (sources_with_connector d')), d', j')" "jobs_match map_scheduler d' j'"
    and all: "list_all (\<lambda>c. find_source c d' \<noteq> None
        \<or> (\<exists>r \<in> set (sources (lifecycle_db False)). src_name r = c \<and> src_connector r = None)) registry_names"
    using start_leaves_application_in_step [OF map_scheduler_laws _ ok(4,5), of ?cfg "\<lambda>_. []" 9 Map.empty] runs
    by auto
  have "find_source PRACUJ d' \<noteq> None" using all p named unfolding list_all_iff by blast
  with start show ?thesis by blast
qed

end
