(* ===== verification/Backlog.thy ===== *)
theory Backlog
  imports Batch
begin

text \<open>
  What a batch of \<open>Batch\<close> does to the backlog: the offers it took are scored or recorded as failed,
  the next selection counts what the summary says remains, no offer gets a second score, and
  the fetch range of the batch is that of the ingestion loop.
\<close>

section \<open>The backlog shrinks\<close>

definition outcome_ok :: "int \<Rightarrow> db \<Rightarrow> offer_row \<times> score_outcome \<Rightarrow> bool" where
  "outcome_ok pid d rx \<longleftrightarrow>
     0 \<le> offer_id (fst rx) \<and> offer_id (fst rx) < 2 ^ 31 \<and> offer_id (fst rx) \<in> offer_id ` set (offers d)
     \<and> (case snd rx of
          Scored m \<Rightarrow> score_offer_id m = offer_id (fst rx) \<and> score_profile_id m = pid
        | Failed e \<Rightarrow> True
        | Not_in_scope \<Rightarrow> False)"

definition scored_ids :: "(offer_row \<times> score_outcome) list \<Rightarrow> int list" where
  "scored_ids outs = map (offer_id \<circ> fst) (filter (\<lambda>rx. case snd rx of Scored _ \<Rightarrow> True | _ \<Rightarrow> False) outs)"

definition failed_ids :: "(offer_row \<times> score_outcome) list \<Rightarrow> int list" where
  "failed_ids outs = map (offer_id \<circ> fst) (filter (\<lambda>rx. case snd rx of Failed _ \<Rightarrow> True | _ \<Rightarrow> False) outs)"

text \<open>What the batch needs of the tables, and what it does not touch.\<close>

definition scoring_ready :: "int \<Rightarrow> session \<Rightarrow> bool" where
  "scoring_ready pid s \<longleftrightarrow>
     \<not> tx_aborted s \<and> refs_ok (working s) \<and> scoring_keys_ok (working s)
     \<and> 0 \<le> pid \<and> pid < 2 ^ 31 \<and> pid \<in> profile_id ` set (profiles (working s))"

definition same_offers :: "session \<Rightarrow> session \<Rightarrow> bool" where
  "same_offers s t \<longleftrightarrow> offers (working t) = offers (working s) \<and> sources (working t) = sources (working s)
     \<and> profiles (working t) = profiles (working s)"

lemma scoring_refs_upsert:
  assumes "scoring_failure_refs d" and "oid \<in> offer_id ` set (offers d)" "pid \<in> profile_id ` set (profiles d)"
  shows "scoring_failure_refs (upsert_scoring key k (failure_fields oid pid m) now d)"
  using assms
  by (auto simp: scoring_failure_refs_def upsert_scoring_def upsert_failure_def failure_fields_def
      update_where_def list_all_iff touch_open_def blank_scoring_failure_def
      blank_dead_letter_def dead_letter.defs)

lemma upsert_scoring_other [simp]:
  "offers (upsert_scoring key k fs now d) = offers d" "sources (upsert_scoring key k fs now d) = sources d"
  "profiles (upsert_scoring key k fs now d) = profiles d"
  "match_scores (upsert_scoring key k fs now d) = match_scores d"
  by (simp_all add: upsert_scoring_def)

lemma add_score_other [simp]:
  "offers (add_score now m d) = offers d" "sources (add_score now m d) = sources d"
  "profiles (add_score now m d) = profiles d" "scoring_failures (add_score now m d) = scoring_failures d"
  by (simp_all add: add_score_def)

lemma outcome_ok_same: "offers d' = offers d \<Longrightarrow> outcome_ok pid d' = outcome_ok pid d"
  by (simp add: fun_eq_iff outcome_ok_def)

lemma failed_step:
  assumes "scoring_ready pid s" and "outcome_ok pid (working s) (row, Failed e)"
    and d_def: "d = upsert_scoring (scoring_key (offer_id row) pid) SCORING_FAILED
             (failure_fields (offer_id row) pid (exn_text e)) now (working s)"
  shows "record_scoring_failure (scoring_key (offer_id row) pid) SCORING_FAILED
       [SF_offer_id (offer_id row), SF_profile_id pid, SF_error_message (exn_text e)] now s
       = (Inr (), s\<lparr>working := d\<rparr>)"
    and "scoring_ready pid (s\<lparr>working := d\<rparr>)" and "same_offers s (s\<lparr>working := d\<rparr>)"
    and "already_scored pid d = already_scored pid (working s)"
    and "open_scoring_failures pid d = insert (offer_id row) (open_scoring_failures pid (working s))"
proof -
  have ok: "\<not> tx_aborted s" "refs_ok (working s)" "scoring_keys_ok (working s)" "0 \<le> pid" "pid < 2 ^ 31"
    "pid \<in> profile_id ` set (profiles (working s))" "0 \<le> offer_id row" "offer_id row < 2 ^ 31"
    "offer_id row \<in> offer_id ` set (offers (working s))"
    using assms(1,2) by (auto simp: scoring_ready_def outcome_ok_def)
  have len: "length (scoring_key (offer_id row) pid) \<le> dedup_key_width"
    using ok by (intro scoring_key_length) auto
  have refs: "scoring_failure_refs d"
    unfolding d_def using ok by (intro scoring_refs_upsert) (auto simp: refs_ok_def)
  show "record_scoring_failure (scoring_key (offer_id row) pid) SCORING_FAILED
       [SF_offer_id (offer_id row), SF_profile_id pid, SF_error_message (exn_text e)] now s
       = (Inr (), s\<lparr>working := d\<rparr>)"
    using len refs ok(1)
    by (simp add: record_scoring_failure_def swallow_def upsert_stmt_def run_simps d_def failure_fields_def)
  have "refs_ok d"
    using ok(2) refs unfolding d_def by (rule refs_ok_upsert_scoring)
  then show "scoring_ready pid (s\<lparr>working := d\<rparr>)"
    using ok scoring_keys_upsert [OF ok(3,7,4)] by (simp add: scoring_ready_def d_def)
  show "same_offers s (s\<lparr>working := d\<rparr>)" by (simp add: same_offers_def d_def)
  show "already_scored pid d = already_scored pid (working s)" by (simp add: already_scored_def d_def)
  show "open_scoring_failures pid d = insert (offer_id row) (open_scoring_failures pid (working s))"
    unfolding d_def using ok(3,7,4) by (rule open_failures_upsert)
qed

lemma scored_step:
  assumes "scoring_ready pid s" and "outcome_ok pid (working s) (row, Scored m)"
    and "insert_score now m s = (Inr r, t)"
  shows "t = s\<lparr>working := add_score now m (working s)\<rparr>" and "ms_offer_id r = offer_id row"
    and "r = score_row (next_id (working s)) now m"
    and "scoring_ready pid t" and "same_offers s t"
    and "already_scored pid (working t) = insert (offer_id row) (already_scored pid (working s))"
    and "open_scoring_failures pid (working t) = open_scoring_failures pid (working s)"
proof -
  have tx: "\<not> tx_aborted s" and refs: "refs_ok (working s)"
    using assms(1) by (simp_all add: scoring_ready_def)
  have mr: "match_score_refs (add_score now m (working s))" and t: "t = s\<lparr>working := add_score now m (working s)\<rparr>"
    and r: "r = score_row (next_id (working s)) now m"
    using assms(3) tx by (auto simp: insert_score_def run_simps add_score_def split: if_splits)
  have m: "score_offer_id m = offer_id row" "score_profile_id m = pid"
    using assms(2) by (auto simp: outcome_ok_def)
  show "t = s\<lparr>working := add_score now m (working s)\<rparr>" by (rule t)
  show "r = score_row (next_id (working s)) now m" by (rule r)
  show "ms_offer_id r = offer_id row" by (simp add: r m score_row_def)
  have "refs_ok (add_score now m (working s))"
    using refs mr by (simp add: refs_ok_def refs_defs [unfolded list_all_iff] add_score_def)
  then show "scoring_ready pid t"
    using assms(1) by (simp add: t scoring_ready_def scoring_keys_ok_def)
  show "same_offers s t" by (simp add: t same_offers_def)
  show "already_scored pid (working t) = insert (offer_id row) (already_scored pid (working s))"
    using m by (auto simp: t already_scored_def add_score_def score_row_def)
  show "open_scoring_failures pid (working t) = open_scoring_failures pid (working s)"
    by (simp add: t open_scoring_failures_def)
qed

lemma store_outcomes_effect:
  assumes "store_outcomes pid now outs s = (Inr rs, t)" and "scoring_ready pid s"
    and "list_all (outcome_ok pid (working s)) outs"
  shows "same_offers s t \<and> map ms_offer_id rs = scored_ids outs
    \<and> already_scored pid (working t) = already_scored pid (working s) \<union> set (scored_ids outs)
    \<and> open_scoring_failures pid (working t) = open_scoring_failures pid (working s) \<union> set (failed_ids outs)
    \<and> scoring_ready pid t"
  using assms
proof (induction pid now outs arbitrary: s rs rule: store_outcomes.induct)
  case (1 pid now)
  then show ?case by (simp add: same_offers_def scored_ids_def failed_ids_def)
next
  case (2 pid now row e rest)
  let ?d = "upsert_scoring (scoring_key (offer_id row) pid) SCORING_FAILED
             (failure_fields (offer_id row) pid (exn_text e)) now (working s)"
  have ok: "outcome_ok pid (working s) (row, Failed e)" using 2(4) by simp
  note step = failed_step [OF 2(3) ok refl, of now]
  have run: "store_outcomes pid now rest (s\<lparr>working := ?d\<rparr>) = (Inr rs, t)"
    using 2(2) by (simp add: bindS_def step(1))
  have "list_all (outcome_ok pid (working (s\<lparr>working := ?d\<rparr>))) rest"
    using 2(4) outcome_ok_same [of ?d "working s"] by simp
  from 2(1) [OF run step(2) this] step show ?case
    by (auto simp: same_offers_def scored_ids_def failed_ids_def)
next
  case (3 pid now row m rest)
  from 3(2) obtain r u rs' where ins: "insert_score now m s = (Inr r, u)"
    and run: "store_outcomes pid now rest u = (Inr rs', t)" and rs: "rs = r # rs'"
    by (auto elim!: bindS_InrE)
  have ok: "outcome_ok pid (working s) (row, Scored m)" using 3(4) by simp
  note step = scored_step [OF 3(3) ok ins]
  have "list_all (outcome_ok pid (working u)) rest"
    using 3(4) step(5) outcome_ok_same [of "working u" "working s"] by (simp add: same_offers_def)
  from 3(1) [OF run step(4) this] step rs show ?case
    by (auto simp: same_offers_def scored_ids_def failed_ids_def)
next
  case (4 pid now row rest)
  then show ?case by (simp add: outcome_ok_def)
qed

lemma score_offer_ids:
  "score_offer chain oid pid p o1 = Inr m \<Longrightarrow> score_offer_id m = oid \<and> score_profile_id m = pid"
  by (auto simp: score_offer_def Let_def bindE_Inr_iff match_score_model_def)

lemma gather_process:
  assumes "gather (process_offer chain scope pid p) ofs = Inr outs"
    and "list_all (\<lambda>(r, c). c \<in> set scope \<and> 0 \<le> offer_id r \<and> offer_id r < 2 ^ 31 \<and> r \<in> set (offers d)) ofs"
  shows "map fst outs = map fst ofs \<and> list_all (outcome_ok pid d) outs"
  using assms
proof (induction ofs arbitrary: outs)
  case (Cons oc ofs)
  obtain r c where oc: "oc = (r, c)" by (cases oc)
  from Cons.prems(1) obtain rx outs' where rx: "process_offer chain scope pid p oc = Inr rx"
    and rest: "gather (process_offer chain scope pid p) ofs = Inr outs'" and outs: "outs = rx # outs'"
    by (auto simp: bindE_Inr_iff)
  have r: "c \<in> set scope" "0 \<le> offer_id r" "offer_id r < 2 ^ 31" "offer_id r \<in> offer_id ` set (offers d)"
    using Cons.prems(2) by (auto simp: oc)
  obtain o1 where o1: "offer_from_row r = Inr o1"
    using rx r(1) by (auto simp: oc process_offer_def bindE_Inr_iff)
  have "fst rx = r \<and> outcome_ok pid d rx"
  proof (cases "score_offer chain (offer_id r) pid p o1")
    case (Inl e)
    then have "\<exists>e'. rx = (r, Failed e')"
      using rx r(1) o1 by (cases e) (auto simp: oc process_offer_def)
    then show ?thesis using r by (auto simp: outcome_ok_def)
  next
    case (Inr m)
    then have "rx = (r, Scored m)" using rx r(1) o1 by (simp add: oc process_offer_def)
    then show ?thesis using r score_offer_ids [OF Inr] by (simp add: outcome_ok_def)
  qed
  with Cons.IH [OF rest] Cons.prems(2) outs oc show ?case by simp
qed simp

lemma filter_drop_selected:
  assumes "distinct (map g rows)"
  shows "filter (\<lambda>r. g r \<notin> g ` set (take n rows)) rows = drop n rows"
proof -
  have d: "distinct (map g (take n rows @ drop n rows))" using assms by simp
  have "filter (\<lambda>r. g r \<notin> g ` set (take n rows)) (take n rows @ drop n rows) = drop n rows"
  proof -
    have "filter (\<lambda>r. g r \<notin> g ` set (take n rows)) (take n rows) = []"
      by (auto simp: filter_empty_conv)
    moreover have "filter (\<lambda>r. g r \<notin> g ` set (take n rows)) (drop n rows) = drop n rows"
    proof (intro filter_True ballI)
      fix x assume "x \<in> set (drop n rows)"
      then have "g x \<in> set (map g (drop n rows))" by simp
      moreover have "set (map g (take n rows)) \<inter> set (map g (drop n rows)) = {}"
        using d unfolding map_append distinct_append by (rule conjunct2 [OF conjunct2])
      ultimately show "g x \<notin> g ` set (take n rows)" by auto
    qed
    ultimately show ?thesis unfolding filter_append by simp
  qed
  then show ?thesis by simp
qed

lemma source_of_same:
  "sources d' = sources d \<Longrightarrow> source_of r d' = source_of r d"
  by (simp add: source_of_def)

lemma select_after:
  assumes sel: "select_candidates L now pid scope lmt d = Inr sel" and "keys_ok d"
    and same: "offers d' = offers d" "sources d' = sources d"
    and gone: "already_scored pid d' \<union> open_scoring_failures pid d'
       = already_scored pid d \<union> open_scoring_failures pid d \<union> offer_id ` set (map fst (sel_selected sel))"
  shows "\<exists>sel'. select_candidates L now pid scope n d' = Inr sel'
    \<and> sel_total sel' = sel_total sel - length (sel_selected sel)
    \<and> (\<forall>r \<in> set (map fst (sel_selected sel')). r \<notin> set (map fst (sel_selected sel)))"
proof -
  let ?ok = "\<lambda>r. row_in_range L now d r = Inr True"
  obtain rows where fE: "filterE (row_in_range L now d) (candidate_scan pid scope d) = Inr rows"
    and s: "sel = \<lparr>sel_selected = map (hydrate d) (take lmt rows), sel_total = length rows\<rparr>"
    using sel by (auto simp: select_candidates_def bindE_Inr_iff)
  have rows: "rows = filter ?ok (candidate_scan pid scope d)"
    and tot: "\<forall>r \<in> set (candidate_scan pid scope d). \<exists>b. row_in_range L now d r = Inr b"
    using filterE_Inr [OF fE] by auto
  have X: "offer_id ` set (map fst (sel_selected sel)) = offer_id ` set (take lmt rows)"
    by (simp add: s hydrate_def image_image)
  let ?new = "\<lambda>r. offer_id r \<notin> offer_id ` set (take lmt rows)"
  have elig: "eligible pid scope d' = (\<lambda>r. eligible pid scope d r \<and> ?new r)"
    using gone same(2) unfolding X by (auto simp: fun_eq_iff eligible_def source_connector_def source_of_def)
  have scan: "candidate_scan pid scope d' = filter ?new (candidate_scan pid scope d)"
    by (simp add: candidate_scan_def same(1) elig filter_sort conj_commute)
  have rng: "row_in_range L now d' = row_in_range L now d"
    by (simp add: fun_eq_iff row_in_range_def source_of_same [OF same(2)])
  have "filterE (row_in_range L now d') (candidate_scan pid scope d')
      = Inr (filter ?ok (filter ?new (candidate_scan pid scope d)))"
    unfolding rng scan using tot by (intro filterE_total) auto
  moreover have "filter ?ok (filter ?new (candidate_scan pid scope d)) = filter ?new rows"
    by (simp add: rows conj_commute)
  moreover have "distinct (map offer_id rows)"
    using assms(2) unfolding rows candidate_scan_def keys_ok_def distinct_map
    by (auto intro: inj_on_subset)
  then have "filter ?new rows = drop lmt rows" by (rule filter_drop_selected)
  ultimately have "filterE (row_in_range L now d') (candidate_scan pid scope d') = Inr (drop lmt rows)"
    by simp
  moreover have "r \<notin> set (take lmt rows)" if "r \<in> set (take n (drop lmt rows))" for r
    using \<open>distinct (map offer_id rows)\<close> in_set_takeD [OF that]
    by (metis disjoint_iff append_take_drop_id distinct_append distinct_map)
  ultimately show ?thesis
    by (auto simp: select_candidates_def s hydrate_def)
qed

text \<open>The parts of a batch that returned a summary.\<close>

lemma run_batch_parts:
  assumes "run_batch_scoring L chain now dl lmt connectors ended (p, s) = (Inr sm, (p', t))"
    and "get_active_profile (working s) = Some row"
  obtains sel prof outs rs where
    "select_candidates L now (profile_id row) (case connectors of None \<Rightarrow> langchain_sources | Some c \<Rightarrow> c)
       (case lmt of None \<Rightarrow> dl | Some n \<Rightarrow> n) (working s) = Inr sel"
    "sel_selected sel = [] \<Longrightarrow> t = s \<and> rs = []"
    "sel_selected sel \<noteq> [] \<Longrightarrow>
       gather (process_offer chain (case connectors of None \<Rightarrow> langchain_sources | Some c \<Rightarrow> c)
         (profile_id row) prof) (sel_selected sel) = Inr outs
       \<and> store_outcomes (profile_id row) now outs s = (Inr rs, t)"
    "sum_scored sm = length rs" "sum_failed sm = length (sel_selected sel) - length rs"
    "sum_remaining sm = sel_total sel - length (sel_selected sel)"
    "\<not> tx_aborted s" "gather (event_of (sel_selected sel)) rs = Inr (sum_events sm)"
proof -
  have tx: "\<not> tx_aborted s" using assms(1) by (auto simp: run_batch_scoring_def run_simps)
  let ?scope = "case connectors of None \<Rightarrow> langchain_sources | Some c \<Rightarrow> c"
  let ?n = "case lmt of None \<Rightarrow> dl | Some n \<Rightarrow> n"
  obtain sel where sel: "select_candidates L now (profile_id row) ?scope ?n (working s) = Inr sel"
    using assms tx
    by (cases "select_candidates L now (profile_id row) ?scope ?n (working s)")
      (auto simp: run_batch_scoring_def run_simps Let_def select_scoring_candidates_def)
  obtain rs u where sc: "score_offers_with_langchain chain now row (sel_selected sel) (Some ?scope) s = (Inr rs, u)"
    using assms tx sel
    by (cases "score_offers_with_langchain chain now row (sel_selected sel) (Some ?scope) s")
      (auto simp: run_batch_scoring_def run_simps Let_def select_scoring_candidates_def scoring_step_def
        split: sum.splits)
  have sums: "t = u \<and> sum_scored sm = length rs \<and> sum_failed sm = length (sel_selected sel) - length rs
      \<and> sum_remaining sm = sel_total sel - length (sel_selected sel)
      \<and> gather (event_of (sel_selected sel)) rs = Inr (sum_events sm)"
    using assms tx sel sc
    by (cases "gather (event_of (sel_selected sel)) rs")
      (auto simp: run_batch_scoring_def run_simps Let_def select_scoring_candidates_def scoring_step_def)
  show thesis
  proof (cases "sel_selected sel = []")
    case True
    with sc sums have "t = s" "rs = []" by (auto simp: score_offers_with_langchain_def retS_def)
    with True sums sel tx show thesis by (intro that [of sel rs]) auto
  next
    case False
    with sc obtain prof outs where "gather (process_offer chain ?scope (profile_id row) prof) (sel_selected sel) = Inr outs"
      "store_outcomes (profile_id row) now outs s = (Inr rs, u)"
      by (auto simp: score_offers_with_langchain_def Let_def elim!: bindS_InrE)
    with False sums sel tx show thesis by (intro that [of sel rs prof outs]) auto
  qed
qed

lemma scored_failed_ids:
  "list_all (outcome_ok pid d) outs \<Longrightarrow>
   set (scored_ids outs) \<union> set (failed_ids outs) = (offer_id \<circ> fst) ` set outs"
proof (induction outs)
  case (Cons rx outs)
  then show ?case
    by (cases "snd rx") (auto simp: scored_ids_def failed_ids_def outcome_ok_def)
qed (simp add: scored_ids_def failed_ids_def)

lemma batch_effect:
  assumes sel: "select_candidates L now pid scope k (working s) = Inr sel" and keys: "keys_ok (working s)"
    and pos: "\<And>i. i \<in> offer_id ` set (offers (working s)) \<Longrightarrow> 0 < i \<and> i < 2 ^ 31"
    and ready: "scoring_ready pid s"
    and idle: "sel_selected sel = [] \<Longrightarrow> t = s \<and> rs = []"
    and busy: "sel_selected sel \<noteq> [] \<Longrightarrow>
       gather (process_offer chain scope pid prof) (sel_selected sel) = Inr outs
       \<and> store_outcomes pid now' outs s = (Inr rs, t)"
  shows "offers (working t) = offers (working s) \<and> sources (working t) = sources (working s)
      \<and> already_scored pid (working t) \<union> open_scoring_failures pid (working t)
        = already_scored pid (working s) \<union> open_scoring_failures pid (working s)
          \<union> offer_id ` set (map fst (sel_selected sel))
      \<and> length rs \<le> length (sel_selected sel)"
proof (cases "sel_selected sel = []")
  case True
  with idle show ?thesis by simp
next
  case False
  have facts: "list_all (\<lambda>(r, c). c \<in> set scope \<and> 0 \<le> offer_id r \<and> offer_id r < 2 ^ 31
      \<and> r \<in> set (offers (working s))) (sel_selected sel)"
    using conjunct1 [OF conjunct2 [OF conjunct2 [OF conjunct2 [OF selection_facts [OF sel keys]]]]] pos
    by (fastforce simp: list_all_iff)
  from busy False have g: "gather (process_offer chain scope pid prof) (sel_selected sel) = Inr outs"
    and st: "store_outcomes pid now' outs s = (Inr rs, t)" by auto
  from gather_process [OF g facts] have fo: "map fst outs = map fst (sel_selected sel)"
    and ok: "list_all (outcome_ok pid (working s)) outs" by auto
  from store_outcomes_effect [OF st ready ok] have e: "same_offers s t" "map ms_offer_id rs = scored_ids outs"
    "already_scored pid (working t) = already_scored pid (working s) \<union> set (scored_ids outs)"
    "open_scoring_failures pid (working t) = open_scoring_failures pid (working s) \<union> set (failed_ids outs)"
    by auto
  have all: "set (scored_ids outs) \<union> set (failed_ids outs) = offer_id ` set (map fst outs)"
    using scored_failed_ids [OF ok] by (simp add: image_comp)
  have "length rs = length (scored_ids outs)" using e(2) by (metis length_map)
  also have "\<dots> \<le> length outs" by (simp add: scored_ids_def)
  also have "\<dots> = length (sel_selected sel)" using fo by (metis length_map)
  finally have len: "length rs \<le> length (sel_selected sel)" .
  show ?thesis using e(1,3,4) all len unfolding fo by (simp add: same_offers_def) blast
qed

text \<open>C7: A batch that returns accounts for the backlog: every offer it selected was either
  scored or recorded as failed, and a selection made right after it counts exactly the
  \<open>remaining\<close> offers the summary reports, none of them among those the batch took.\<close>

theorem batch_drains_backlog:
  assumes "run_batch_scoring L chain now dl lmt connectors ended (p, s) = (Inr sm, (p', t))"
    and "get_active_profile (working s) = Some row" and "profile_id row < 2 ^ 31"
    and "db_ok (working s)" and "scoring_keys_ok (working s)"
    and "\<forall>r \<in> set (offers (working s)). offer_id r < 2 ^ 31"
  shows "\<exists>sel sel'.
      select_candidates L now (profile_id row) (case connectors of None \<Rightarrow> langchain_sources | Some c \<Rightarrow> c)
        (case lmt of None \<Rightarrow> dl | Some n \<Rightarrow> n) (working s) = Inr sel
    \<and> sum_scored sm + sum_failed sm = length (sel_selected sel)
    \<and> select_candidates L now (profile_id row) (case connectors of None \<Rightarrow> langchain_sources | Some c \<Rightarrow> c)
        n (working t) = Inr sel'
    \<and> sel_total sel' = sum_remaining sm
    \<and> (\<forall>r \<in> set (map fst (sel_selected sel')). r \<notin> set (map fst (sel_selected sel)))"
  using assms(1,2)
proof (cases rule: run_batch_parts)
  case (1 sel prof outs rs)
  let ?scope = "case connectors of None \<Rightarrow> langchain_sources | Some c \<Rightarrow> c"
  let ?pid = "profile_id row"
  have keys: "keys_ok (working s)" using assms(4) by (simp add: db_ok_def)
  have pid: "?pid \<in> profile_id ` set (profiles (working s))"
    using assms(2) by (auto simp: get_active_profile_def dest: find_Some_in_set)
  have pos: "0 < i" if "i \<in> offer_id ` set (offers (working s)) \<or> i \<in> profile_id ` set (profiles (working s))" for i
    using assms(4) that by (auto simp: db_ok_def ids_below_def ids_in_def list_all_iff)
  have ready: "scoring_ready ?pid s"
    using 1(7) assms(3-5) pid pos [of ?pid] by (simp add: scoring_ready_def db_ok_def)
  note eff = batch_effect [OF 1(1) keys _ ready 1(2,3)]
  have eff: "offers (working t) = offers (working s) \<and> sources (working t) = sources (working s)
      \<and> already_scored ?pid (working t) \<union> open_scoring_failures ?pid (working t)
        = already_scored ?pid (working s) \<union> open_scoring_failures ?pid (working s)
          \<union> offer_id ` set (map fst (sel_selected sel))
      \<and> length rs \<le> length (sel_selected sel)"
    by (rule eff) (use assms(6) pos in auto)
  from select_after [OF 1(1) keys, of "working t" n] eff obtain sel' where
    "select_candidates L now ?pid ?scope n (working t) = Inr sel'"
    "sel_total sel' = sel_total sel - length (sel_selected sel)"
    "\<forall>r \<in> set (map fst (sel_selected sel')). r \<notin> set (map fst (sel_selected sel))"
    by auto
  then show ?thesis
    using 1(1,4,5,6) eff by fastforce
qed

section \<open>No offer is scored twice\<close>

definition score_unique :: "db \<Rightarrow> bool" where
  "score_unique d \<longleftrightarrow> distinct (map (\<lambda>m. (ms_offer_id m, ms_profile_id m)) (match_scores d))"

lemma record_scoring_keeps_scores:
  "match_scores (working (snd (record_scoring_failure key k fs now s))) = match_scores (working s)"
  by (simp add: record_scoring_failure_def swallow_def upsert_stmt_def run_simps)

definition own_score :: "int \<Rightarrow> offer_row \<times> score_outcome \<Rightarrow> bool" where
  "own_score pid rx \<longleftrightarrow> (case snd rx of
     Scored m \<Rightarrow> score_offer_id m = offer_id (fst rx) \<and> score_profile_id m = pid | _ \<Rightarrow> True)"

lemma store_outcomes_unique:
  assumes "score_unique (working s)" and "list_all (own_score pid) outs"
    and "distinct (map (offer_id \<circ> fst) outs)"
    and "(offer_id \<circ> fst) ` set outs \<inter> already_scored pid (working s) = {}"
  shows "score_unique (working (snd (store_outcomes pid now outs s)))"
  using assms
proof (induction pid now outs arbitrary: s rule: store_outcomes.induct)
  case (1 pid now)
  then show ?case by (simp add: retS_def)
next
  case (2 pid now row e rest)
  let ?rec = "record_scoring_failure (scoring_key (offer_id row) pid) SCORING_FAILED
    [SF_offer_id (offer_id row), SF_profile_id pid, SF_error_message (exn_text e)] now"
  obtain u where u: "?rec s = (Inr (), u)"
    by (simp add: record_scoring_failure_def swallow_def)
  have ms: "match_scores (working u) = match_scores (working s)"
    using record_scoring_keeps_scores [of "scoring_key (offer_id row) pid" SCORING_FAILED _ now s] u
    by (metis snd_conv)
  have "score_unique (working (snd (store_outcomes pid now rest u)))"
    by (rule 2(1)) (use 2(2-5) ms in \<open>auto simp: score_unique_def already_scored_def\<close>)
  then show ?case by (simp add: bindS_def u)
next
  case (3 pid now row m rest)
  show ?case
  proof (cases "insert_score now m s")
    case (Pair res u)
    show ?thesis
    proof (cases res)
      case (Inl e)
      have "match_scores (working u) = match_scores (working s)"
        using Pair Inl by (auto simp: insert_score_def run_simps split: if_splits)
      then show ?thesis using 3(2) Pair Inl by (simp add: bindS_def score_unique_def)
    next
      case (Inr r)
      have u: "match_scores (working u) = match_scores (working s) @ [score_row (next_id (working s)) now m]"
        using Pair Inr by (auto simp: insert_score_def run_simps add_score_def split: if_splits)
      have m: "score_offer_id m = offer_id row" "score_profile_id m = pid"
        using 3(3) by (auto simp: own_score_def)
      have "score_unique (working (snd (store_outcomes pid now rest u)))"
      proof (rule 3(1))
        have "(offer_id row, pid) \<notin> (\<lambda>m. (ms_offer_id m, ms_profile_id m)) ` set (match_scores (working s))"
          using 3(5) by (auto simp: already_scored_def)
        then show "score_unique (working u)"
          using 3(2) by (simp add: score_unique_def u score_row_def m)
        show "list_all (own_score pid) rest" "distinct (map (offer_id \<circ> fst) rest)"
          using 3(3,4) by (simp_all add: o_def)
        show "(offer_id \<circ> fst) ` set rest \<inter> already_scored pid (working u) = {}"
          using 3(4,5) by (auto simp: already_scored_def u score_row_def m)
      qed
      then show ?thesis using Pair Inr by (auto simp: bindS_def retS_def split: prod.splits sum.splits)
    qed
  qed
next
  case (4 pid now row rest)
  then show ?case by simp
qed

lemma gather_own:
  "gather (process_offer chain scope pid p) ofs = Inr outs \<Longrightarrow>
   map fst outs = map fst ofs \<and> list_all (own_score pid) outs"
proof (induction ofs arbitrary: outs)
  case (Cons oc ofs)
  obtain r c where oc: "oc = (r, c)" by (cases oc)
  from Cons.prems obtain rx outs' where rx: "process_offer chain scope pid p oc = Inr rx"
    and rest: "gather (process_offer chain scope pid p) ofs = Inr outs'" and outs: "outs = rx # outs'"
    by (auto simp: bindE_Inr_iff)
  have "fst rx = r \<and> own_score pid rx"
  proof (cases "c \<in> set scope")
    case False
    then show ?thesis using rx by (auto simp: oc process_offer_def own_score_def)
  next
    case True
    then obtain o1 where o1: "offer_from_row r = Inr o1"
      using rx by (auto simp: oc process_offer_def bindE_Inr_iff)
    show ?thesis
    proof (cases "score_offer chain (offer_id r) pid p o1")
      case (Inl e)
      then have "\<exists>e'. rx = (r, Failed e')"
        using rx True o1 by (cases e) (auto simp: oc process_offer_def)
      then show ?thesis by (auto simp: own_score_def)
    next
      case (Inr m)
      then have "rx = (r, Scored m)" using rx True o1 by (simp add: oc process_offer_def)
      then show ?thesis using score_offer_ids [OF Inr] by (simp add: own_score_def)
    qed
  qed
  with Cons.IH [OF rest] outs oc show ?case by simp
qed simp

lemma run_batch_session:
  "snd (snd (run_batch_scoring L chain now dl lmt connectors ended (p, s))) = s
   \<or> (\<exists>row sel scope n. select_candidates L now (profile_id row) scope n (working s) = Inr sel
        \<and> snd (snd (run_batch_scoring L chain now dl lmt connectors ended (p, s)))
            = snd (score_offers_with_langchain chain now row (sel_selected sel) (Some scope) s))"
proof -
  let ?scope = "case connectors of None \<Rightarrow> langchain_sources | Some c \<Rightarrow> c"
  let ?n = "case lmt of None \<Rightarrow> dl | Some n \<Rightarrow> n"
  show ?thesis
  proof (cases "tx_aborted s \<or> get_active_profile (working s) = None")
    case True
    then show ?thesis by (auto simp: run_batch_scoring_def run_simps)
  next
    case False
    then obtain row where tx: "\<not> tx_aborted s" and row: "get_active_profile (working s) = Some row" by auto
    show ?thesis
    proof (cases "select_candidates L now (profile_id row) ?scope ?n (working s)")
      case (Inl e)
      then show ?thesis using tx row
        by (simp add: run_batch_scoring_def run_simps Let_def select_scoring_candidates_def)
    next
      case (Inr sel)
      have "snd (snd (run_batch_scoring L chain now dl lmt connectors ended (p, s)))
            = snd (score_offers_with_langchain chain now row (sel_selected sel) (Some ?scope) s)"
        using tx row Inr
        by (auto simp: run_batch_scoring_def run_simps Let_def select_scoring_candidates_def
            scoring_step_def split: prod.splits sum.splits)
      with Inr show ?thesis by blast
    qed
  qed
qed

lemma batch_scores_unique:
  assumes "distinct (map offer_id (offers (working s)))" and "score_unique (working s)"
  shows "score_unique (working (snd (snd (run_batch_scoring L chain now dl lmt connectors ended (p, s)))))"
proof -
  have "score_unique (working (snd (score_offers_with_langchain chain now row (sel_selected sel) (Some scope) s)))"
    if sel: "select_candidates L now (profile_id row) scope n (working s) = Inr sel" for row sel scope n
  proof (cases "sel_selected sel = []")
    case True
    then show ?thesis using assms(2) by (simp add: score_offers_with_langchain_def retS_def)
  next
    case False
    note spec = selection_facts_distinct [OF sel assms(1)]
    show ?thesis
    proof (cases "profile_of_row row")
      case (Inl e)
      with False assms(2) show ?thesis by (simp add: score_offers_with_langchain_def Let_def run_simps)
    next
      case (Inr prof)
      show ?thesis
      proof (cases "gather (process_offer chain scope (profile_id row) prof) (sel_selected sel)")
        case (Inl e)
        with Inr False assms(2) show ?thesis by (simp add: score_offers_with_langchain_def Let_def run_simps)
      next
        case g: (Inr outs)
        from gather_own [OF g] have fo: "map fst outs = map fst (sel_selected sel)"
          and own: "list_all (own_score (profile_id row)) outs" by auto
        have ids: "map (offer_id \<circ> fst) outs = map (offer_id \<circ> fst) (sel_selected sel)"
          using fo by (metis map_map)
        have "score_unique (working (snd (store_outcomes (profile_id row) now outs s)))"
        proof (rule store_outcomes_unique [OF assms(2) own])
          show "distinct (map (offer_id \<circ> fst) outs)" using spec unfolding ids by blast
          have "(offer_id \<circ> fst) ` set outs = (offer_id \<circ> fst) ` set (sel_selected sel)"
            using ids by (metis set_map)
          then show "(offer_id \<circ> fst) ` set outs \<inter> already_scored (profile_id row) (working s) = {}"
            using conjunct1 [OF conjunct2 [OF conjunct2 [OF conjunct2 [OF spec]]]] by auto
        qed
        then show ?thesis using Inr False g by (simp add: score_offers_with_langchain_def Let_def run_simps)
      qed
    qed
  qed
  then show ?thesis
    using run_batch_session [of L chain now dl lmt connectors ended p s] assms(2) by metis
qed

text \<open>C8: No offer is ever scored twice for a profile: when the stored scores are one per offer
  and profile, they still are after a batch, also when the batch raises half way.\<close>

theorem batch_keeps_scores_unique:
  assumes "keys_ok (working s)" and "score_unique (working s)"
  shows "score_unique (working (snd (snd (run_batch_scoring L chain now dl lmt connectors ended (p, s)))))"
  by (rule batch_scores_unique) (use assms in \<open>simp_all add: keys_ok_def\<close>)

section \<open>One fetch range\<close>

lemma in_fetch_range_eq:
  assumes "resolve_fetch_range L (jget config (lit ''fetch_range'')) = (since, until)"
  shows "in_fetch_range L now posted config =
    bindE (outside_range since until (case posted of None \<Rightarrow> Aware now | Some t \<Rightarrow> t)) (\<lambda>out. Inr (\<not> out))"
proof (cases since)
  case None
  with assms show ?thesis
    by (cases until) (simp_all add: in_fetch_range_def outside_range_def Let_def)
next
  case (Some a)
  with assms show ?thesis
    by (cases "dt_less (case posted of None \<Rightarrow> Aware now | Some t \<Rightarrow> t) a")
      (auto simp: in_fetch_range_def outside_range_def Let_def split: option.splits)
qed

lemma offer_posted_at:
  assumes "offer_model_validate L d = Inr o1" and "posted_at o1 = Some t"
  shows "parse_datetime L (jget d (lit ''posted_at'')) = Some t"
proof -
  have "opt_field (as_dt L) d (lit ''posted_at'') = Inr (Some t)"
    using assms by (auto simp: offer_model_validate_def offer_fields_def bindE_Inr_iff)
  then show ?thesis
    by (auto simp: opt_field_def parse_datetime_def jget_def split: option.splits json.splits)
qed

text \<open>The scorer and the ingestion loop read a source's fetch range alike: a dated offer that
  a run stored under a fetch range with zoned bounds (or none) is inside that range for the
  batch, whenever the batch runs. The hypothesis on the driver is that it stores a zoned date
  unchanged.\<close>

theorem stored_offer_stays_in_range:
  assumes "from_feed L map_offer sid A r" and "posted_at r \<noteq> None"
    and "resolve_fetch_range L (jget config (lit ''fetch_range'')) = (arg_since A, arg_until A)"
    and "\<And>n. db_instant L (Aware n) = n"
    and "\<And>n. arg_since A \<noteq> Some (Naive n)" and "\<And>n. arg_until A \<noteq> Some (Naive n)"
  shows "in_fetch_range L later (posted_at r) config = Inr True"
proof -
  obtain mapped now o1 n h where
    out: "outside_range (arg_since A) (arg_until A) (effective_date L mapped now) = Inr False"
    and o1: "offer_model_validate L mapped = Inr o1" and r: "r = new_offer_row L n h (raw_payload r) now o1"
    using assms(1) by (auto simp: from_feed_def)
  have "posted_at r = map_option (\<lambda>t. Aware (db_instant L t)) (posted_at o1)"
    by (subst r) simp
  with assms(2) obtain t where t: "posted_at o1 = Some t" "posted_at r = Some (Aware (db_instant L t))"
    by (cases "posted_at o1") auto
  have eff: "effective_date L mapped now = t"
    using offer_posted_at [OF o1 t(1)] by (simp add: effective_date_def)
  show ?thesis
  proof (cases t)
    case (Aware k)
    with t(2) assms(4) have "posted_at r = Some t" by simp
    then show ?thesis using out eff by (simp add: in_fetch_range_eq [OF assms(3)])
  next
    case (Naive k)
    have "arg_since A = None"
      using out eff Naive assms(5)
      by (cases "arg_since A"; cases "the (arg_since A)") (auto simp: outside_range_def)
    moreover from this have "arg_until A = None"
      using out eff Naive assms(6)
      by (cases "arg_until A"; cases "the (arg_until A)") (auto simp: outside_range_def)
    ultimately show ?thesis by (simp add: in_fetch_range_eq [OF assms(3)])
  qed
qed

lemma filterE_raises:
  assumes "x \<in> set xs" and "f x = Inl e" and "\<And>y e'. f y = Inl e' \<Longrightarrow> P e'"
  shows "\<exists>e'. filterE f xs = Inl e' \<and> P e'"
  using assms
proof (induction xs)
  case (Cons y ys)
  show ?case
  proof (cases "f y")
    case (Inl e')
    with Cons.prems(3) show ?thesis by auto
  next
    case (Inr b)
    with Cons show ?thesis by auto
  qed
qed simp

lemma dt_less_exn: "dt_less a b = Inl e \<Longrightarrow> \<exists>m. e = TypeError m"
  by (cases a; cases b) auto

lemma outside_range_exn: "outside_range since until eff = Inl e \<Longrightarrow> \<exists>m. e = TypeError m"
  unfolding outside_range_def
  by (erule bindE_exn_intro [rotated 2]) (auto dest: dt_less_exn split: option.splits if_splits)

lemma in_fetch_range_exn: "in_fetch_range L now posted config = Inl e \<Longrightarrow> \<exists>m. e = TypeError m"
  using in_fetch_range_eq [of L config _ _ now posted]
  by (cases "resolve_fetch_range L (jget config (lit ''fetch_range''))")
    (auto dest: outside_range_exn elim!: bindE_exn_intro [rotated 2])

text \<open>One source's fetch range without a time zone stops all scoring: when its \<open>since\<close> has no
  zone, which the settings endpoint accepts, and one dated unscored offer belongs to it, every
  selection over a scope that has the source's connector raises \<open>TypeError\<close>, whatever the
  limit.\<close>

theorem naive_range_stops_scoring:
  assumes "r \<in> set (offers d)" and "eligible pid scope d r" and "posted_at r = Some (Aware k)"
    and "source_of r d = Some src"
    and "resolve_fetch_range L (jget (src_config src) (lit ''fetch_range'')) = (Some (Naive n), until)"
  shows "\<exists>m. select_candidates L now pid scope lmt d = Inl (TypeError m)"
proof -
  have "row_in_range L now d r = Inl (TypeError (lit ''can't compare offset-naive and offset-aware datetimes''))"
    using assms(3-5) by (simp add: row_in_range_def in_fetch_range_eq [OF assms(5)] outside_range_def)
  moreover have "r \<in> set (candidate_scan pid scope d)" using assms(1,2) by (simp add: candidate_scan_def)
  moreover have "\<exists>m. e = TypeError m" if "row_in_range L now d y = Inl e" for y e
    using that in_fetch_range_exn by (auto simp: row_in_range_def)
  ultimately obtain e where "filterE (row_in_range L now d) (candidate_scan pid scope d) = Inl e"
    "\<exists>m. e = TypeError m"
    using filterE_raises [of r "candidate_scan pid scope d" "row_in_range L now d" _ "\<lambda>e. \<exists>m. e = TypeError m"]
    by blast
  then show ?thesis by (auto simp: select_candidates_def)
qed

section \<open>A small backlog\<close>

definition scoring_source :: "json \<Rightarrow> source_row" where
  "scoring_source fetch_range = \<lparr>src_id = 1, src_name = SOLID_JOBS, src_connector = Some SOLID_JOBS,
     src_config = [(lit ''fetch_range'', fetch_range)], src_last_fetched_at = None\<rparr>"

definition stored_row :: "int \<Rightarrow> int \<Rightarrow> offer_row" where
  "stored_row n t = new_offer_row sample_lib n (show_int n) [] 0
     (sample_offer\<lparr>posted_at := Some (Aware t)\<rparr>)"

definition scoring_db :: "json \<Rightarrow> db" where
  "scoring_db fetch_range = empty_db\<lparr>next_id := 10, sources := [scoring_source fetch_range],
     offers := [stored_row 2 50, stored_row 3 90],
     profiles := [\<lparr>profile_id = 4, profile_name = lit ''a'', profile_status = lit ''active'',
                   is_active = True, profile_data = Some cpp_profile\<rparr>]\<rparr>"

definition all_range :: json where
  "all_range = JObj [(lit ''mode'', JStr (lit ''all''))]"

definition range_from :: "pydt \<Rightarrow> json" where
  "range_from t = JObj [(lit ''mode'', JStr (lit ''range'')), (lit ''since'', JDate t)]"

definition batch_run :: "(exn + batch_summary) \<times> scoring_progress \<times> session" where
  "batch_run = run_batch_scoring sample_lib (\<lambda>_ _. Inr perfect_output) 100 10 (Some 1) None 0
     (initial_progress, open_session (scoring_db all_range))"

lemma scoring_db_ok: "db_ok (scoring_db all_range) \<and> scoring_keys_ok (scoring_db all_range)"
proof -
  have "keys_ok (scoring_db all_range)" by code_simp
  moreover have "ids_below (scoring_db all_range)" by code_simp
  moreover have "refs_ok (scoring_db all_range)" by code_simp
  moreover have "scoring_keys_ok (scoring_db all_range)" by code_simp
  ultimately show ?thesis by (simp add: db_ok_def)
qed

lemma batch_run_counts:
  "(case batch_run of (Inr sm, _) \<Rightarrow> sum_scored sm = 1 \<and> sum_remaining sm = 1 | _ \<Rightarrow> False)"
  by code_simp

lemma scoring_db_active:
  "map_option profile_id (get_active_profile (working (open_session (scoring_db all_range)))) = Some 4"
  by code_simp

theorem selection_spec_witness:
  "\<exists>sel. select_candidates sample_lib 100 4 [SOLID_JOBS] 1 (scoring_db all_range) = Inr sel
     \<and> length (sel_selected sel) = min 1 (sel_total sel)"
proof -
  have "(case select_candidates sample_lib 100 4 [SOLID_JOBS] 1 (scoring_db all_range) of
      Inr _ \<Rightarrow> True | Inl _ \<Rightarrow> False)"
    by code_simp
  then obtain sel where "select_candidates sample_lib 100 4 [SOLID_JOBS] 1 (scoring_db all_range) = Inr sel"
    by (auto split: sum.splits)
  with selection_spec [OF this] scoring_db_ok show ?thesis by (auto simp: db_ok_def)
qed

theorem batch_drains_backlog_witness:
  "\<exists>sm p' t sel'. batch_run = (Inr sm, (p', t)) \<and> sum_remaining sm = 1
     \<and> select_candidates sample_lib 100 4 langchain_sources 5 (working t) = Inr sel'
     \<and> sel_total sel' = 1"
proof -
  obtain sm p' t where run: "batch_run = (Inr sm, (p', t))" and rem: "sum_remaining sm = 1"
    using batch_run_counts by (auto split: prod.splits sum.splits)
  obtain row where row: "get_active_profile (working (open_session (scoring_db all_range))) = Some row"
    "profile_id row = 4"
    using scoring_db_active by auto
  have small: "list_all (\<lambda>r. offer_id r < 2 ^ 31) (offers (scoring_db all_range))" by code_simp
  have w: "working (open_session (scoring_db all_range)) = scoring_db all_range"
    by (simp add: open_session_def)
  from batch_drains_backlog [OF run [unfolded batch_run_def] row(1), of 5] row(2) scoring_db_ok small
  show ?thesis using run rem unfolding w by (auto simp: list_all_iff)
qed

theorem batch_keeps_scores_unique_witness:
  "score_unique (working (snd (snd batch_run)))"
  unfolding batch_run_def
  by (rule batch_keeps_scores_unique)
    (use scoring_db_ok in \<open>auto simp: open_session_def db_ok_def score_unique_def\<close>,
      simp add: scoring_db_def empty_db_def)

theorem batch_ends_not_running_witness: "\<not> pg_running (fst (snd batch_run))"
  unfolding batch_run_def by (rule batch_ends_not_running) (simp add: initial_progress_def)

theorem stored_offer_stays_in_range_witness:
  "in_fetch_range sample_lib 200 (posted_at (stored_row 2 50))
     [(lit ''fetch_range'', range_from (Aware 40))] = Inr True"
proof -
  let ?A = "plain_args\<lparr>arg_since := Some (Aware 40)\<rparr>"
  let ?raw = "sample_posting @ [(lit ''posted_at'', JDate (Aware 50))]"
  let ?o = "sample_offer\<lparr>posted_at := Some (Aware 50)\<rparr>"
  have "offer_model_validate sample_lib ?raw = Inr ?o" by code_simp
  moreover have "outside_range (arg_since ?A) (arg_until ?A) (effective_date sample_lib ?raw 0) = Inr False"
    by code_simp
  ultimately have "from_feed sample_lib (\<lambda>_ _. Inr ?raw) 1 ?A (stored_row 2 50)"
    unfolding from_feed_def stored_row_def new_offer_row_simps by blast
  then show ?thesis
  proof (rule stored_offer_stays_in_range)
    show "resolve_fetch_range sample_lib
        (jget [(lit ''fetch_range'', range_from (Aware 40))] (lit ''fetch_range'')) = (arg_since ?A, arg_until ?A)"
      by code_simp
  qed (simp_all add: stored_row_def sample_lib_def plain_args_def sample_offer_def)
qed

theorem naive_range_stops_scoring_witness:
  "\<exists>m. select_candidates sample_lib 100 4 [SOLID_JOBS] 1 (scoring_db (range_from (Naive 40)))
     = Inl (TypeError m)"
proof (rule naive_range_stops_scoring)
  let ?d = "scoring_db (range_from (Naive 40))"
  show "stored_row 2 50 \<in> set (offers ?d)" by (simp add: scoring_db_def)
  show "eligible 4 [SOLID_JOBS] ?d (stored_row 2 50)" by code_simp
  show "posted_at (stored_row 2 50) = Some (Aware 50)" by code_simp
  show "source_of (stored_row 2 50) ?d = Some (scoring_source (range_from (Naive 40)))" by code_simp
  show "resolve_fetch_range sample_lib
      (jget (src_config (scoring_source (range_from (Naive 40)))) (lit ''fetch_range''))
    = (Some (Naive 40), None)"
    by code_simp
qed

end
