(* ===== verification/Events.thy ===== *)
theory Events
  imports Batch
begin

text \<open>
  The event hub of \<open>app/scoring/events.py\<close>: one unbounded queue per open event stream, and what the
  stream of \<open>GET /scoring/events\<close> takes from its queue.
\<close>

section \<open>The event hub\<close>

text \<open>The subscribers are queues; a queue is known by a number that is never used again.\<close>

record hub =
  hub_next :: nat
  hub_queues :: "(nat \<times> score_event list) list"

definition empty_hub :: hub where
  "empty_hub = \<lparr>hub_next = 0, hub_queues = []\<rparr>"

definition subscribe :: "hub \<Rightarrow> nat \<times> hub" where
  "subscribe h = (hub_next h, h\<lparr>hub_next := hub_next h + 1, hub_queues := hub_queues h @ [(hub_next h, [])]\<rparr>)"

definition unsubscribe :: "nat \<Rightarrow> hub \<Rightarrow> hub" where
  "unsubscribe q h = h\<lparr>hub_queues := filter (\<lambda>p. fst p \<noteq> q) (hub_queues h)\<rparr>"

definition publish_score :: "score_event \<Rightarrow> hub \<Rightarrow> hub" where
  "publish_score e h = h\<lparr>hub_queues := map (\<lambda>(q, es). (q, es @ [e])) (hub_queues h)\<rparr>"

text \<open>\<open>queue.get()\<close> of the event stream: the oldest event, when there is one.\<close>

definition queue_get :: "nat \<Rightarrow> hub \<Rightarrow> score_event option \<times> hub" where
  "queue_get q h =
     (case map_of (hub_queues h) q of
        Some (e # es) \<Rightarrow> (Some e, h\<lparr>hub_queues := AList.update q es (hub_queues h)\<rparr>)
      | _ \<Rightarrow> (None, h))"

text \<open>What can happen to the hub, with the events each stream has sent so far.\<close>

datatype hub_action = Subscribe | Unsubscribe nat | Publish score_event | Get nat

fun hub_act :: "hub_action \<Rightarrow> hub \<times> (nat \<Rightarrow> score_event list) \<Rightarrow> hub \<times> (nat \<Rightarrow> score_event list)" where
  "hub_act Subscribe (h, sent) = (snd (subscribe h), sent)"
| "hub_act (Unsubscribe q) (h, sent) = (unsubscribe q h, sent)"
| "hub_act (Publish e) (h, sent) = (publish_score e h, sent)"
| "hub_act (Get q) (h, sent) =
     (case queue_get q h of (None, h') \<Rightarrow> (h', sent) | (Some e, h') \<Rightarrow> (h', sent(q := sent q @ [e])))"

fun published :: "hub_action list \<Rightarrow> score_event list" where
  "published [] = []"
| "published (Publish e # as) = e # published as"
| "published (_ # as) = published as"

definition hub_ok :: "hub \<Rightarrow> bool" where
  "hub_ok h \<longleftrightarrow> distinct (map fst (hub_queues h)) \<and> set (map fst (hub_queues h)) \<subseteq> {..< hub_next h}"

lemma map_of_publish:
  "map_of (map (\<lambda>(q, es). (q, es @ [e])) qs) q = map_option (\<lambda>es. es @ [e]) (map_of qs q)"
  by (induction qs) auto

lemma map_of_unsubscribe:
  "map_of (filter (\<lambda>p. fst p \<noteq> q) qs) i = (if i = q then None else map_of qs i)"
  by (induction qs) auto

lemma map_of_subscribe:
  assumes "n \<notin> fst ` set qs"
  shows "map_of (qs @ [(n, es)]) i = (if i = n then Some es else map_of qs i)"
proof -
  have "map_of qs n = None" using assms by (simp add: map_of_eq_None_iff)
  then show ?thesis by (cases "map_of qs i") (auto simp: map_add_def)
qed

lemma hub_fresh: "hub_ok h \<Longrightarrow> hub_next h \<notin> fst ` set (hub_queues h)"
  by (auto simp: hub_ok_def)

lemma hub_ok_act:
  assumes "hub_ok h" and "hub_act a (h, sent) = (h', sent')"
  shows "hub_ok h'"
proof (cases a)
  case (Get q)
  show ?thesis
  proof (cases "map_of (hub_queues h) q")
    case None
    then show ?thesis using assms Get by (simp add: queue_get_def)
  next
    case (Some es)
    then have "q \<in> set (map fst (hub_queues h))" by (metis domI dom_map_of_conv_image_fst image_set)
    then have "map fst (AList.update q es' (hub_queues h)) = map fst (hub_queues h)" for es'
      by (simp add: update_keys)
    then show ?thesis
      using assms Get Some by (cases es) (auto simp add: queue_get_def hub_ok_def simp del: set_map)
  qed
next
  case (Publish e)
  have "map fst (map (\<lambda>(q, es). (q, es @ [e])) qs) = map fst qs" for qs :: "(nat \<times> score_event list) list"
    by (induction qs) auto
  then show ?thesis
    using assms Publish by (auto simp add: hub_ok_def publish_score_def simp del: set_map map_map)
next
  case (Unsubscribe q)
  then show ?thesis
    using assms by (auto simp: unsubscribe_def hub_ok_def distinct_map_filter subset_eq dest: bspec)
qed (use assms hub_fresh [OF assms(1)] in \<open>force simp: subscribe_def hub_ok_def less_Suc_eq subset_eq\<close>)

text \<open>What a stream has sent and what its queue still holds is what was published since it subscribed.\<close>

definition stream_holds :: "nat \<Rightarrow> score_event list \<Rightarrow> hub \<times> (nat \<Rightarrow> score_event list) \<Rightarrow> bool" where
  "stream_holds q es hs \<longleftrightarrow>
     hub_ok (fst hs) \<and> (\<exists>rest. map_of (hub_queues (fst hs)) q = Some rest \<and> snd hs q @ rest = es)"

lemma stream_step:
  assumes "stream_holds q es (h, sent)" and "a \<noteq> Unsubscribe q"
  shows "stream_holds q (es @ published [a]) (hub_act a (h, sent))"
proof -
  obtain rest where ok: "hub_ok h" and m: "map_of (hub_queues h) q = Some rest" "sent q @ rest = es"
    using assms(1) by (auto simp: stream_holds_def)
  obtain h' sent' where act: "hub_act a (h, sent) = (h', sent')" by fastforce
  have ok': "hub_ok h'" using hub_ok_act [OF ok act] .
  have "\<exists>rest'. map_of (hub_queues h') q = Some rest' \<and> sent' q @ rest' = es @ published [a]"
  proof (cases a)
    case Subscribe
    then have "hub_next h \<notin> fst ` set (hub_queues h)" using hub_fresh [OF ok] by blast
    moreover have "q \<noteq> hub_next h" using ok m by (auto simp: hub_ok_def dest: map_of_SomeD)
    ultimately show ?thesis using Subscribe act m by (auto simp: subscribe_def map_of_subscribe simp del: map_of_append)
  next
    case (Unsubscribe p)
    then show ?thesis using act m assms(2) by (auto simp: unsubscribe_def map_of_unsubscribe)
  next
    case (Publish e)
    then show ?thesis using act m by (auto simp: publish_score_def map_of_publish)
  next
    case (Get p)
    show ?thesis
    proof (cases "p = q")
      case True
      then show ?thesis using act m Get
        by (cases rest) (auto simp: queue_get_def update_conv')
    next
      case False
      then show ?thesis using act m Get
        by (auto simp: queue_get_def update_conv' split: option.splits list.splits)
    qed
  qed
  with act ok' show ?thesis by (simp add: stream_holds_def)
qed

lemma published_append: "published (as @ bs) = published as @ published bs"
  by (induction as rule: published.induct) auto

lemma stream_run:
  "stream_holds q es hs \<Longrightarrow> Unsubscribe q \<notin> set as \<Longrightarrow> stream_holds q (es @ published as) (fold hub_act as hs)"
proof (induction as arbitrary: es hs)
  case (Cons a as)
  obtain h sent where hs: "hs = (h, sent)" by fastforce
  have "stream_holds q (es @ published [a]) (hub_act a hs)"
    using stream_step Cons.prems by (auto simp: hs)
  from Cons.IH [OF this] Cons.prems(2) show ?case
    using published_append [of "[a]" as] by simp
qed simp

lemma hub_ok_subscribe: "hub_ok h \<Longrightarrow> hub_ok (snd (subscribe h))"
  using hub_ok_act [of h Subscribe "\<lambda>_. []"] by simp

text \<open>An event stream loses nothing and repeats nothing: whatever other streams come, go or read in
  between, what it has sent followed by what still waits in its queue is exactly the events
  published since it subscribed, in their order.\<close>

lemma stream_gets_every_event:
  assumes "hub_ok h" and "subscribe h = (q, h1)" and "sent q = []" and "Unsubscribe q \<notin> set acts"
    and "fold hub_act acts (h1, sent) = (h', sent')"
  shows "\<exists>rest. map_of (hub_queues h') q = Some rest \<and> sent' q @ rest = published acts"
proof -
  have "hub_ok h1" using hub_ok_subscribe [OF assms(1)] assms(2) by simp
  moreover have "map_of (hub_queues h1) q = Some []"
    using assms(2) hub_fresh [OF assms(1)] by (auto simp: subscribe_def map_of_subscribe simp del: map_of_append)
  ultimately have "stream_holds q [] (h1, sent)" using assms(3) by (simp add: stream_holds_def)
  from stream_run [OF this assms(4)] assms(5) show ?thesis by (simp add: stream_holds_def)
qed

section \<open>The event stream\<close>

text \<open>
  \<open>GET /scoring/events\<close>: the stream subscribes, sends what its queue gives until the client is gone, and
  unsubscribes whichever way it ends. \<open>disconnected k\<close> is what the client's \<open>k\<close>-th check finds, and
  \<open>others k\<close> what happens to the hub while the stream waits for the \<open>k\<close>-th time, up to its timeout of
  15 seconds; an empty queue is a timeout. The loop has no bound of its own: \<open>n\<close> is the number of checks
  looked at.
\<close>

definition score_message :: "(json \<Rightarrow> pystr) \<Rightarrow> score_event \<Rightarrow> pystr pydict" where
  "score_message dumps e =
     [(lit ''event'', lit ''score''),
      (lit ''data'', dumps (JObj
        [(lit ''score_id'', JInt (ev_score_id e)), (lit ''offer_id'', JInt (ev_offer_id e)),
         (lit ''title'', JStr (ev_title e)), (lit ''company'', JStr (ev_company e)),
         (lit ''score_percent'', JInt (ev_score_percent e))]))]"

fun event_stream ::
    "(json \<Rightarrow> pystr) \<Rightarrow> (nat \<Rightarrow> bool) \<Rightarrow> (nat \<Rightarrow> hub_action list) \<Rightarrow> nat \<Rightarrow> nat \<Rightarrow> nat \<Rightarrow> hub
     \<Rightarrow> pystr pydict list \<times> hub" where
  "event_stream dumps disconnected others q 0 k h = ([], h)"
| "event_stream dumps disconnected others q (Suc n) k h =
     (if disconnected k then ([], unsubscribe q h)
      else case queue_get q (fst (fold hub_act (others k) (h, \<lambda>_. []))) of
             (None, h1) \<Rightarrow> event_stream dumps disconnected others q n (k + 1) h1
           | (Some e, h1) \<Rightarrow>
               (case event_stream dumps disconnected others q n (k + 1) h1 of
                  (messages, h2) \<Rightarrow> (score_message dumps e # messages, h2)))"

definition scoring_events ::
    "(json \<Rightarrow> pystr) \<Rightarrow> (nat \<Rightarrow> bool) \<Rightarrow> (nat \<Rightarrow> hub_action list) \<Rightarrow> nat \<Rightarrow> hub \<Rightarrow> pystr pydict list \<times> hub" where
  "scoring_events dumps disconnected others n h =
     (case subscribe h of (q, h1) \<Rightarrow> event_stream dumps disconnected others q n 0 h1)"

lemma sent_by_others: "Get q \<notin> set as \<Longrightarrow> snd (fold hub_act as hs) q = snd hs q"
proof (induction as arbitrary: hs)
  case (Cons a as)
  obtain h sent where "hs = (h, sent)" by fastforce
  then have "snd (hub_act a hs) q = snd hs q"
    using Cons.prems by (cases a) (auto split: prod.split option.split)
  with Cons show ?case by simp
qed simp

text \<open>While others act, the queue of a stream only grows, by what is published.\<close>

lemma queue_grows:
  assumes "hub_ok h" and "map_of (hub_queues h) q = Some es"
    and "Get q \<notin> set as" and "Unsubscribe q \<notin> set as"
  shows "hub_ok (fst (fold hub_act as (h, \<lambda>_. [])))
    \<and> map_of (hub_queues (fst (fold hub_act as (h, \<lambda>_. [])))) q = Some (es @ published as)"
proof -
  have "stream_holds q es (h, \<lambda>_. [])" using assms(1,2) by (simp add: stream_holds_def)
  from stream_run [OF this assms(4)] sent_by_others [OF assms(3), of "(h, \<lambda>_. [])"]
  show ?thesis by (simp add: stream_holds_def)
qed

lemma queue_get_cases:
  assumes "hub_ok h" and "map_of (hub_queues h) q = Some es"
  shows "\<exists>h1. hub_ok h1 \<and> map_of (hub_queues h1) q = Some (tl es)
    \<and> queue_get q h = (if es = [] then None else Some (hd es), h1)"
proof -
  obtain h1 where get: "queue_get q h = (if es = [] then None else Some (hd es), h1)"
    and q: "map_of (hub_queues h1) q = Some (tl es)"
    using assms(2) by (cases es) (auto simp: queue_get_def update_conv')
  have "fst (hub_act (Get q) (h, \<lambda>_. [])) = h1" by (simp add: get)
  then have "hub_ok h1" using hub_ok_act [OF assms(1), of "Get q" "\<lambda>_. []"] by (metis prod.collapse)
  with get q show ?thesis by blast
qed

lemma stream_until_disconnect:
  assumes "hub_ok h" and "map_of (hub_queues h) q = Some es"
    and "\<And>i. Get q \<notin> set (others i) \<and> Unsubscribe q \<notin> set (others i)"
    and "disconnected m" and "\<And>i. k \<le> i \<Longrightarrow> i < m \<Longrightarrow> \<not> disconnected i" and "k \<le> m" and "m < k + n"
    and "event_stream dumps disconnected others q n k h = (messages, h')"
  shows "hub_ok h' \<and> q \<notin> fst ` set (hub_queues h')
    \<and> (\<exists>j. messages = map (score_message dumps) (take j (es @ published (concat (map others [k..<m])))))"
  using assms
proof (induction n arbitrary: k h es messages h')
  case 0
  then show ?case by simp
next
  case (Suc n)
  show ?case
  proof (cases "disconnected k")
    case True
    then have "messages = []" "h' = unsubscribe q h" using Suc.prems(8) by simp_all
    moreover have "hub_ok (unsubscribe q h)" using hub_ok_act [OF Suc.prems(1), of "Unsubscribe q" "\<lambda>_. []"] by simp
    ultimately show ?thesis by (auto simp: unsubscribe_def intro: exI [of _ 0])
  next
    case False
    with Suc.prems(4,6) have km: "k < m" by (cases "k = m") auto
    let ?h = "fst (fold hub_act (others k) (h, \<lambda>_. []))" and ?es = "es @ published (others k)"
    have grown: "hub_ok ?h \<and> map_of (hub_queues ?h) q = Some ?es"
      using queue_grows [OF Suc.prems(1,2)] Suc.prems(3) by blast
    obtain h1 where h1: "hub_ok h1" "map_of (hub_queues h1) q = Some (tl ?es)"
      and get: "queue_get q ?h = (if ?es = [] then None else Some (hd ?es), h1)"
      using queue_get_cases grown by blast
    obtain ms where rest: "event_stream dumps disconnected others q n (k + 1) h1 = (ms, h')"
      and messages: "messages = (if ?es = [] then ms else score_message dumps (hd ?es) # ms)"
      using Suc.prems(8) False get by (auto split: if_splits prod.splits)
    have "\<And>i. k + 1 \<le> i \<Longrightarrow> i < m \<Longrightarrow> \<not> disconnected i" using Suc.prems(5) by simp
    from Suc.IH [OF h1 Suc.prems(3,4) this _ _ rest] km Suc.prems(7)
    obtain j where "hub_ok h'" "q \<notin> fst ` set (hub_queues h')"
      and ms: "ms = map (score_message dumps) (take j (tl ?es @ published (concat (map others [k + 1..<m]))))"
      by auto
    have all: "es @ published (concat (map others [k..<m])) = ?es @ published (concat (map others [k + 1..<m]))"
      using km by (simp add: upt_conv_Cons published_append)
    have "messages = map (score_message dumps) (take (if ?es = [] then j else Suc j)
        (es @ published (concat (map others [k..<m]))))"
      unfolding all messages ms by (cases ?es) simp_all
    with \<open>hub_ok h'\<close> \<open>q \<notin> fst ` set (hub_queues h')\<close> show ?thesis by blast
  qed
qed

text \<open>The other half: an event that waits is sent once as many waits have passed as events were before it.\<close>

lemma stream_sends_soon:
  assumes "hub_ok h" and "map_of (hub_queues h) q = Some es"
    and "\<And>i. Get q \<notin> set (others i) \<and> Unsubscribe q \<notin> set (others i)"
    and "disconnected m" and "\<And>i. k \<le> i \<Longrightarrow> i < m \<Longrightarrow> \<not> disconnected i" and "k \<le> p" and "p \<le> m" and "m < k + n"
    and "event_stream dumps disconnected others q n k h = (messages, h')"
  shows "min (length (es @ published (concat (map others [k..<p])))) (m - p) \<le> length messages"
  using assms
proof (induction n arbitrary: k h es messages h' p)
  case 0
  then show ?case by simp
next
  case (Suc n)
  show ?case
  proof (cases "k = m")
    case False
    then have km: "k < m" "\<not> disconnected k" using Suc.prems(5-7) by auto
    let ?h = "fst (fold hub_act (others k) (h, \<lambda>_. []))" and ?es = "es @ published (others k)"
    have grown: "hub_ok ?h \<and> map_of (hub_queues ?h) q = Some ?es"
      using queue_grows [OF Suc.prems(1,2)] Suc.prems(3) by blast
    obtain h1 where h1: "hub_ok h1" "map_of (hub_queues h1) q = Some (tl ?es)"
      and get: "queue_get q ?h = (if ?es = [] then None else Some (hd ?es), h1)"
      using queue_get_cases grown by blast
    obtain ms where rest: "event_stream dumps disconnected others q n (k + 1) h1 = (ms, h')"
      and messages: "messages = (if ?es = [] then ms else score_message dumps (hd ?es) # ms)"
      using Suc.prems(9) km(2) get by (auto split: if_splits prod.splits)
    have "\<And>i. k + 1 \<le> i \<Longrightarrow> i < m \<Longrightarrow> \<not> disconnected i" using Suc.prems(5) by simp
    note later = Suc.IH [OF h1 Suc.prems(3,4) this _ _ _ rest, of "max p (k + 1)"]
    have "min (length (tl ?es @ published (concat (map others [k + 1..<max p (k + 1)])))) (m - max p (k + 1)) \<le> length ms"
      using later km(1) Suc.prems(7,8) by simp
    moreover have "es @ published (concat (map others [k..<p])) = ?es @ published (concat (map others [k + 1..<p]))" if "k < p"
      using that by (simp add: upt_conv_Cons published_append)
    ultimately show ?thesis
      using km(1) Suc.prems(6) messages by (cases "k < p"; cases ?es) (auto simp: max_def split: if_splits)
  qed (use Suc.prems(6,7) in simp)
qed

text \<open>C27: A stream whose client goes away at its check \<open>m\<close> has sent the oldest of the events published since it
  subscribed, each once and in order; an event published before its wait \<open>p\<close> has been sent if as many
  waits followed as there were events by then. The stream leaves no queue behind that would grow for ever.
\<close>

theorem event_stream_sends_and_leaves:
  assumes "hub_ok h" and "disconnected m" and "\<forall>i<m. \<not> disconnected i" and "m < n" and "p \<le> m"
    and "\<forall>i. Get (hub_next h) \<notin> set (others i) \<and> Unsubscribe (hub_next h) \<notin> set (others i)"
    and "scoring_events dumps disconnected others n h = (messages, h')"
  shows "hub_ok h' \<and> hub_next h \<notin> fst ` set (hub_queues h')
    \<and> (\<exists>j. messages = map (score_message dumps) (take j (published (concat (map others [0..<m])))))
    \<and> min (length (published (concat (map others [0..<p])))) (m - p) \<le> length messages"
proof -
  obtain h1 where s: "subscribe h = (hub_next h, h1)" by (simp add: subscribe_def)
  have ok: "hub_ok h1" using hub_ok_subscribe [OF assms(1)] s by simp
  have q: "map_of (hub_queues h1) (hub_next h) = Some []"
    using s hub_fresh [OF assms(1)] by (auto simp: subscribe_def map_of_subscribe simp del: map_of_append)
  have run: "event_stream dumps disconnected others (hub_next h) n 0 h1 = (messages, h')"
    using assms(7) s by (simp add: scoring_events_def)
  show ?thesis
    using stream_until_disconnect [OF ok q _ assms(2) _ _ _ run] stream_sends_soon [OF ok q _ assms(2) _ _ assms(5) _ run]
      assms(3-6) by simp
qed

section \<open>Examples\<close>

definition sample_event :: "int \<Rightarrow> score_event" where
  "sample_event n = \<lparr>ev_score_id = n, ev_offer_id = n, ev_title = lit ''Engineer'', ev_company = lit ''A'',
     ev_score_percent = 80\<rparr>"

lemma stream_gets_every_event_witness:
  "(case fold hub_act [Publish (sample_event 1), Subscribe, Get 0, Publish (sample_event 2), Unsubscribe 1]
      (snd (subscribe empty_hub), \<lambda>_. []) of (h', sent') \<Rightarrow>
      (\<exists>rest. map_of (hub_queues h') 0 = Some rest \<and> sent' 0 @ rest = [sample_event 1, sample_event 2]))"
proof -
  let ?acts = "[Publish (sample_event 1), Subscribe, Get 0, Publish (sample_event 2), Unsubscribe 1]"
  have s: "subscribe empty_hub = (0, snd (subscribe empty_hub))" by (simp add: subscribe_def empty_hub_def)
  have ok: "hub_ok empty_hub" by (simp add: hub_ok_def empty_hub_def)
  obtain h' sent' where run: "fold hub_act ?acts (snd (subscribe empty_hub), \<lambda>_. []) = (h', sent')" by fastforce
  from stream_gets_every_event [OF ok s _ _ run] show ?thesis unfolding run by simp
qed

lemma event_stream_sends_and_leaves_witness:
  "(case scoring_events (\<lambda>_. []) (\<lambda>k. k = 3) (\<lambda>k. if k < 2 then [Publish (sample_event (int k)), Subscribe] else []) 4 empty_hub of
      (messages, h') \<Rightarrow> 0 \<notin> fst ` set (hub_queues h') \<and> 1 \<le> length messages)"
proof -
  let ?others = "\<lambda>k::nat. if k < 2 then [Publish (sample_event (int k)), Subscribe] else []"
  obtain messages h' where run: "scoring_events (\<lambda>_. []) (\<lambda>k. k = 3) ?others 4 empty_hub = (messages, h')" by fastforce
  have ok: "hub_ok empty_hub" by (simp add: hub_ok_def empty_hub_def)
  have alone: "\<forall>i. Get (hub_next empty_hub) \<notin> set (?others i) \<and> Unsubscribe (hub_next empty_hub) \<notin> set (?others i)"
    by simp
  have "min (length (published (concat (map ?others [0..<2])))) (3 - 2) = 1" by (simp add: upt_rec)
  then show ?thesis
    using event_stream_sends_and_leaves [OF ok _ _ _ _ alone run, of 3 2] unfolding run by (simp add: empty_hub_def)
qed

end
