(* ===== verification/ScoringApi.thy ===== *)
theory ScoringApi
  imports Backlog Events
begin

text \<open>
  The two doors of a scoring batch, \<open>POST /score/batch\<close> of \<open>app/api/routes/scoring.py\<close> and
  \<open>run_scoring_job\<close> of \<open>app/scheduler/service.py\<close>, with the status route: the batch runs, its
  transaction is committed, and only then its events go to the hub.
\<close>

section \<open>The doors\<close>

text \<open>The state is the progress record with the session of the request, and the hub of the process.\<close>

type_synonym 'a hub_op = "((scoring_progress \<times> session) \<times> hub, 'a) prog"

definition on_batch :: "'a batch_op \<Rightarrow> 'a hub_op" where
  "on_batch m = (\<lambda>(ps, h). case m ps of (r, ps') \<Rightarrow> (r, (ps', h)))"

definition publish_all :: "score_event list \<Rightarrow> unit hub_op" where
  "publish_all evs = forS evs (\<lambda>e. modS (\<lambda>(ps, h). (ps, publish_score e h)))"

declare on_batch_def [run_simps]

text \<open>What both doors do between opening and closing the session.\<close>

definition batch_commit_publish :: "pylib \<Rightarrow> chain \<Rightarrow> int \<Rightarrow> nat \<Rightarrow> nat \<Rightarrow> batch_summary hub_op" where
  "batch_commit_publish L chain now default_limit ended =
     bindS (on_batch (run_batch_scoring L chain now default_limit None None ended)) (\<lambda>summary.
     bindS (on_batch (in_session commit)) (\<lambda>_.
     bindS (publish_all (sum_events summary)) (\<lambda>_.
     retS summary)))"

record batch_scoring_response =
  bsr_scored :: nat
  bsr_skipped :: nat
  bsr_failed :: nat
  bsr_remaining :: nat

definition trigger_batch_scoring :: "pylib \<Rightarrow> chain \<Rightarrow> int \<Rightarrow> nat \<Rightarrow> nat \<Rightarrow> batch_scoring_response hub_op" where
  "trigger_batch_scoring L chain now default_limit ended =
     bindS (batch_commit_publish L chain now default_limit ended) (\<lambda>summary.
     retS \<lparr>bsr_scored = sum_scored summary, bsr_skipped = sum_skipped summary,
           bsr_failed = sum_failed summary, bsr_remaining = sum_remaining summary\<rparr>)"

text \<open>\<open>except Exception: await session.rollback(); raise\<close>\<close>

definition rolling_back :: "'a hub_op \<Rightarrow> 'a hub_op" where
  "rolling_back m psh =
     (case m psh of
        (Inl e, t) \<Rightarrow> (Inl e, snd (on_batch (in_session rollback) t))
      | (Inr x, t) \<Rightarrow> (Inr x, t))"

text \<open>The job opens a session on what is committed; its state is the progress record, the database and
  the hub.\<close>

definition run_scoring_job ::
    "pylib \<Rightarrow> chain \<Rightarrow> int \<Rightarrow> nat \<Rightarrow> nat \<Rightarrow> ((scoring_progress \<times> db) \<times> hub, batch_summary) prog" where
  "run_scoring_job L chain now default_limit ended = (\<lambda>((p, d), h).
     case rolling_back (batch_commit_publish L chain now default_limit ended) ((p, open_session d), h) of
       (r, ((p', s), h')) \<Rightarrow> (r, ((p', committed s), h')))"

record scoring_status_response =
  ssr_running :: bool
  ssr_processed :: nat
  ssr_total :: nat
  ssr_remaining_backlog :: nat
  ssr_unscored_backlog :: nat
  ssr_total_offers :: nat
  ssr_started_at :: "int option"
  ssr_finished_at :: "int option"
  ssr_last_scored :: nat
  ssr_last_skipped :: nat
  ssr_last_failed :: nat

definition scoring_status :: "pylib \<Rightarrow> int \<Rightarrow> scoring_status_response batch_op" where
  "scoring_status L now = (\<lambda>(p, s).
     (bindS (in_session (count_unscored_backlog L now None)) (\<lambda>unscored_backlog.
      bindS (in_session (query count_total_offers)) (\<lambda>total_offers.
      retS \<lparr>ssr_running = pg_running p, ssr_processed = pg_processed p, ssr_total = pg_total p,
            ssr_remaining_backlog = pg_remaining_backlog p, ssr_unscored_backlog = unscored_backlog,
            ssr_total_offers = total_offers, ssr_started_at = pg_started_at p,
            ssr_finished_at = pg_finished_at p, ssr_last_scored = pg_last_scored p,
            ssr_last_skipped = pg_last_skipped p, ssr_last_failed = pg_last_failed p\<rparr>)))
     (p, s))"

section \<open>What a batch leaves to be committed\<close>

lemma record_scoring_session:
  "committed (snd (record_scoring_failure key k fs now s)) = committed s"
  by (simp add: record_scoring_failure_def swallow_def upsert_stmt_def run_simps)

lemma insert_score_rows:
  assumes "insert_score now m s = (r, t)"
  shows "committed t = committed s \<and> (\<forall>x. r = Inr x \<longrightarrow> match_scores (working t) = match_scores (working s) @ [x])"
  using assms by (auto simp: insert_score_def run_simps add_score_def split: if_splits)

lemma store_outcomes_rows:
  assumes "store_outcomes pid now outs s = (r, t)"
  shows "committed t = committed s
    \<and> (\<forall>rs. r = Inr rs \<longrightarrow> match_scores (working t) = match_scores (working s) @ rs)"
  using assms
proof (induction pid now outs arbitrary: s r t rule: store_outcomes.induct)
  case (1 pid now)
  then show ?case by (auto simp: retS_def)
next
  case (2 pid now row e rest)
  let ?rec = "record_scoring_failure (scoring_key (offer_id row) pid) SCORING_FAILED
    [SF_offer_id (offer_id row), SF_profile_id pid, SF_error_message (exn_text e)] now"
  obtain u where u: "?rec s = (Inr (), u)"
    by (simp add: record_scoring_failure_def swallow_def)
  have same: "match_scores (working u) = match_scores (working s)" "committed u = committed s"
    using record_scoring_keeps_scores [of "scoring_key (offer_id row) pid" SCORING_FAILED _ now s]
      record_scoring_session [of "scoring_key (offer_id row) pid" SCORING_FAILED _ now s] u
    by (metis snd_conv)+
  have "store_outcomes pid now rest u = (r, t)" using 2(2) by (simp add: bindS_def u)
  from 2(1) [OF this] show ?case unfolding same .
next
  case (3 pid now row m rest)
  obtain ir u where ins: "insert_score now m s = (ir, u)" by fastforce
  note new = insert_score_rows [OF ins]
  show ?case
  proof (cases ir)
    case (Inl e)
    then show ?thesis using 3(2) ins new by (auto simp: bindS_def)
  next
    case (Inr x)
    obtain rr v where run: "store_outcomes pid now rest u = (rr, v)" by fastforce
    note rest = 3(1) [OF run]
    have "t = v \<and> r = (case rr of Inl e \<Rightarrow> Inl e | Inr rs \<Rightarrow> Inr (x # rs))"
      using 3(2) ins run Inr by (auto simp: bindS_def retS_def split: sum.splits)
    then show ?thesis using rest new Inr by (auto split: sum.splits)
  qed
next
  case (4 pid now row rest)
  then show ?case by simp
qed

lemma batch_committed:
  "committed (snd (snd (run_batch_scoring L chain now dl lmt connectors ended (p, s)))) = committed s"
proof -
  have "committed (snd (store_outcomes pid now outs s)) = committed s" for pid outs
    using store_outcomes_rows [of pid now outs s] by (metis prod.collapse)
  then have "committed (snd (score_offers_with_langchain chain now row ofs scope s)) = committed s" for row ofs scope
    by (auto simp: score_offers_with_langchain_def Let_def run_simps split: sum.splits)
  then show ?thesis
    using run_batch_session [of L chain now dl lmt connectors ended p s] by metis
qed

lemma publish_all_run: "publish_all evs (ps, h) = (Inr (), (ps, fold publish_score evs h))"
  by (induction evs arbitrary: h) (simp_all add: publish_all_def run_simps)

lemma gather_related:
  "gather f xs = Inr ys \<Longrightarrow> (\<And>x y. f x = Inr y \<Longrightarrow> g y = k x) \<Longrightarrow> map g ys = map k xs"
  by (induction xs arbitrary: ys) (auto simp: bindE_Inr_iff)

definition event_key :: "score_event \<Rightarrow> int \<times> int \<times> int" where
  "event_key e = (ev_score_id e, ev_offer_id e, ev_score_percent e)"

definition score_key :: "match_score_row \<Rightarrow> int \<times> int \<times> int" where
  "score_key m = (ms_id m, ms_offer_id m, ms_score_percent m)"

lemma event_of_key: "event_of ofs m = Inr e \<Longrightarrow> event_key e = score_key m"
  by (auto simp: event_of_def event_key_def score_key_def split: option.splits)

text \<open>The bounds of the id columns, which the keys of scoring failures rely on.\<close>

definition ids_fit :: "db \<Rightarrow> bool" where
  "ids_fit d \<longleftrightarrow> list_all (\<lambda>r. offer_id r < 2 ^ 31) (offers d) \<and> list_all (\<lambda>r. profile_id r < 2 ^ 31) (profiles d)"

lemma batch_rows:
  assumes run: "run_batch_scoring L chain now dl lmt connectors ended (p, s) = (Inr sm, (p', t))"
    and ok: "db_ok (working s)" "scoring_keys_ok (working s)" "ids_fit (working s)"
  shows "\<exists>rows. match_scores (working t) = match_scores (working s) @ rows \<and> \<not> tx_aborted t
     \<and> map event_key (sum_events sm) = map score_key rows \<and> length (sum_events sm) = sum_scored sm"
proof (cases "get_active_profile (working s)")
  case None
  then have "\<not> tx_aborted s \<and> t = s \<and> sum_events sm = [] \<and> sum_scored sm = 0"
    using run by (auto simp: run_batch_scoring_def run_simps split: if_splits)
  then show ?thesis by (intro exI [where x = "[]"]) simp
next
  case (Some row)
  from run Some show ?thesis
  proof (cases rule: run_batch_parts)
    case (1 sel prof outs rs)
    have keys: "map event_key (sum_events sm) = map score_key rs"
      using gather_related [OF 1(8) event_of_key] .
    then have len: "length (sum_events sm) = length rs" by (metis length_map)
    have "match_scores (working t) = match_scores (working s) @ rs \<and> \<not> tx_aborted t"
    proof (cases "sel_selected sel = []")
      case True
      with 1(2,7) show ?thesis by simp
    next
      case False
      with 1(3) have g: "gather (process_offer chain (case connectors of None \<Rightarrow> langchain_sources | Some c \<Rightarrow> c)
          (profile_id row) prof) (sel_selected sel) = Inr outs"
        and st: "store_outcomes (profile_id row) now outs s = (Inr rs, t)" by auto
      have kok: "keys_ok (working s)" using ok(1) by (simp add: db_ok_def)
      have row: "row \<in> set (profiles (working s))"
        using Some by (auto simp: get_active_profile_def dest: find_Some_in_set)
      have pos: "0 < i" if "i \<in> offer_id ` set (offers (working s)) \<or> i \<in> profile_id ` set (profiles (working s))" for i
        using ok(1) that by (auto simp: db_ok_def ids_below_def ids_in_def list_all_iff)
      have ready: "scoring_ready (profile_id row) s"
        using 1(7) ok row pos [of "profile_id row"]
        by (simp add: scoring_ready_def db_ok_def ids_fit_def list_all_iff)
      have "list_all (\<lambda>(r, c). c \<in> set (case connectors of None \<Rightarrow> langchain_sources | Some c \<Rightarrow> c)
          \<and> 0 \<le> offer_id r \<and> offer_id r < 2 ^ 31 \<and> r \<in> set (offers (working s))) (sel_selected sel)"
        using conjunct1 [OF conjunct2 [OF conjunct2 [OF conjunct2 [OF selection_facts [OF 1(1) kok]]]]] pos ok(3)
        by (fastforce simp: list_all_iff ids_fit_def)
      with gather_process [OF g] have "list_all (outcome_ok (profile_id row) (working s)) outs" by blast
      from store_outcomes_effect [OF st ready this] store_outcomes_rows [OF st]
      show ?thesis by (simp add: scoring_ready_def)
    qed
    with keys len 1(4) show ?thesis by auto
  qed
qed

text \<open>The common part of both doors, ended well or by an exception.\<close>

lemma batch_commit_publish_run:
  assumes "batch_commit_publish L chain now dl ended ((p, s), h) = (r, ((p', t), h'))"
    and "db_ok (working s)" "scoring_keys_ok (working s)" "ids_fit (working s)"
  shows "case r of
      Inl e \<Rightarrow> committed t = committed s \<and> h' = h
    | Inr sm \<Rightarrow> h' = fold publish_score (sum_events sm) h \<and> length (sum_events sm) = sum_scored sm
        \<and> (\<exists>rows. match_scores (committed t) = match_scores (working s) @ rows
             \<and> map event_key (sum_events sm) = map score_key rows)"
proof (cases "run_batch_scoring L chain now dl None None ended (p, s)")
  case (fields res q u)
  show ?thesis
  proof (cases res)
    case (Inl e)
    then have "r = Inl e \<and> t = u \<and> h' = h"
      using assms(1) fields by (simp add: batch_commit_publish_def run_simps)
    then show ?thesis using batch_committed [of L chain now dl None None ended p s] fields by simp
  next
    case (Inr sm)
    from batch_rows [OF fields [unfolded Inr] assms(2-4)] obtain rows where
      rows: "match_scores (working u) = match_scores (working s) @ rows" "\<not> tx_aborted u"
      "map event_key (sum_events sm) = map score_key rows" "length (sum_events sm) = sum_scored sm" by blast
    then have "r = Inr sm \<and> t = u\<lparr>committed := working u\<rparr> \<and> h' = fold publish_score (sum_events sm) h"
      using assms(1) fields Inr
      by (auto simp: batch_commit_publish_def publish_all_run commit_def bindS_def retS_def on_batch_def in_session_def)
    then show ?thesis using rows by auto
  qed
qed

text \<open>C13: The scoring job publishes what it commits. A tick that ends well has stored one new score row
  per event, in the order of the events and with their ids, offers and percentages, and every
  stream gets exactly those events; a tick that raises stores nothing and publishes nothing.\<close>

theorem scoring_job_publishes_what_it_commits:
  assumes "run_scoring_job L chain now dl ended ((p, d), h) = (r, ((p', d'), h'))"
    and "db_ok d" and "scoring_keys_ok d" and "ids_fit d"
  shows "case r of
      Inl e \<Rightarrow> d' = d \<and> h' = h
    | Inr sm \<Rightarrow> h' = fold publish_score (sum_events sm) h \<and> length (sum_events sm) = sum_scored sm
        \<and> (\<exists>rows. match_scores d' = match_scores d @ rows
             \<and> map event_key (sum_events sm) = map score_key rows)"
proof -
  obtain res q u h1 where run: "batch_commit_publish L chain now dl ended ((p, open_session d), h) = (res, ((q, u), h1))"
    by (metis prod.collapse)
  note spec = batch_commit_publish_run [OF run]
  show ?thesis
  proof (cases res)
    case (Inl e)
    then show ?thesis
      using assms(1) run spec assms(2-4)
      by (auto simp: run_scoring_job_def rolling_back_def on_batch_def in_session_def rollback_def)
  next
    case (Inr sm)
    then show ?thesis
      using assms(1) run spec assms(2-4) by (auto simp: run_scoring_job_def rolling_back_def)
  qed
qed

lemma scoring_job_publishes_what_it_commits_witness:
  "case run_scoring_job sample_lib (\<lambda>_ _. Inr perfect_output) 100 1 0 ((initial_progress, scoring_db all_range), snd (subscribe empty_hub)) of
     (r, ((p', d'), h')) \<Rightarrow> length (match_scores d') = 1
       \<and> map_option length (map_of (hub_queues h') 0) = Some 1"
proof -
  let ?run = "run_scoring_job sample_lib (\<lambda>_ _. Inr perfect_output) 100 1 0 ((initial_progress, scoring_db all_range), snd (subscribe empty_hub))"
  obtain sm q u where batch: "batch_run = (Inr sm, (q, u))" and one: "sum_scored sm = 1"
    using batch_run_counts by (auto split: prod.splits sum.splits)
  have small: "run_batch_scoring sample_lib (\<lambda>_ _. Inr perfect_output) 100 1 None None 0
      (initial_progress, open_session (scoring_db all_range)) = batch_run"
    unfolding batch_run_def run_batch_scoring_def option.case ..
  obtain p' d' h' where run: "?run = (Inr sm, ((p', d'), h'))"
    by (cases "tx_aborted u") (simp_all add: small [unfolded One_nat_def] batch run_scoring_job_def rolling_back_def batch_commit_publish_def publish_all_run
        bindS_def retS_def on_batch_def in_session_def commit_def)
  have fit: "ids_fit (scoring_db all_range)" by code_simp
  have empty: "match_scores (scoring_db all_range) = []" by (simp add: scoring_db_def empty_db_def)
  have queue: "map_of (hub_queues (fold publish_score evs h)) 0 = map_option (\<lambda>es. es @ evs) (map_of (hub_queues h) 0)" for evs h
    by (induction evs arbitrary: h)
      (auto simp: publish_score_def map_of_publish option.map_comp comp_def option.map_ident)
  from scoring_job_publishes_what_it_commits [OF run _ _ fit] scoring_db_ok
  obtain rows where "match_scores d' = rows" "h' = fold publish_score (sum_events sm) (snd (subscribe empty_hub))"
    "length (sum_events sm) = 1" "map event_key (sum_events sm) = map score_key rows"
    using one empty by auto
  moreover from this have "length rows = 1" by (metis length_map)
  ultimately show ?thesis using run by (simp add: queue subscribe_def empty_hub_def)
qed

end
