(* ===== verification/Overview.thy ===== *)
theory Overview
  imports Backlog
begin

text \<open>
  \<open>app/api/routes/connectors.py\<close>: the connectors with how many of their offers are scored for the
  active profile, and how those counts relate to the backlog the scoring status reports.
\<close>

section \<open>The route\<close>

record connector_option =
  co_id :: pystr
  co_label :: pystr
  co_offer_count :: nat
  co_scored_count :: nat
  co_unscored_count :: int
  co_supports_fetch_scope :: bool

text \<open>\<open>count(offers.id)\<close> of a group, and the count of those whose id the subquery has.\<close>

definition offers_of :: "pystr option \<Rightarrow> db \<Rightarrow> offer_row list" where
  "offers_of c d = filter (\<lambda>r. source_of r d \<noteq> None \<and> source_connector r d = c) (offers d)"

definition active_or_none :: "db \<Rightarrow> int" where
  "active_or_none d = (case get_active_profile d of None \<Rightarrow> - 1 | Some p \<Rightarrow> profile_id p)"

definition group_counts :: "db \<Rightarrow> pystr option \<Rightarrow> nat \<times> nat" where
  "group_counts d c =
     (let rows = offers_of c d in
      (length rows, length (filter (\<lambda>r. offer_id r \<in> already_scored (active_or_none d) d) rows)))"

text \<open>A connector without offers is no group, and \<open>get\<close> gives it two zeros.\<close>

definition connector_option_of :: "db \<Rightarrow> connector_spec \<Rightarrow> connector_option" where
  "connector_option_of d k =
     (let (offer_count, scored_count) = group_counts d (Some (spec_name k)) in
      \<lparr>co_id = spec_name k, co_label = spec_label k, co_offer_count = offer_count,
       co_scored_count = scored_count, co_unscored_count = int offer_count - int scored_count,
       co_supports_fetch_scope = supports_fetch_scope k\<rparr>)"

definition list_connectors :: "connector_option list op" where
  "list_connectors = query (\<lambda>d. map (connector_option_of d) connector_registry)"

section \<open>The counts add up\<close>

lemma length_filter_mono: "(\<And>x. P x \<Longrightarrow> Q x) \<Longrightarrow> length (filter P xs) \<le> length (filter Q xs)"
  by (induction xs) (auto simp: le_Suc_eq)

lemma length_filter_split:
  "length (filter P xs) = length (filter (\<lambda>x. P x \<and> Q x) xs) + length (filter (\<lambda>x. P x \<and> \<not> Q x) xs)"
  by (induction xs) auto

lemma sum_groups:
  "distinct cs \<Longrightarrow> sum_list (map (\<lambda>c. length (filter (\<lambda>r. f r = Some c) rows)) cs)
     = length (filter (\<lambda>r. connector_in (f r) cs) rows)"
proof (induction cs)
  case (Cons c cs)
  have "length (filter (\<lambda>r. connector_in (f r) (c # cs)) rows)
      = length (filter (\<lambda>r. f r = Some c) rows) + length (filter (\<lambda>r. connector_in (f r) cs) rows)"
    using Cons.prems
    by (induction rows) (auto simp: connector_in_def split: option.split)
  with Cons show ?case by simp
qed (simp add: connector_in_def split: option.split)

lemma offers_of_connector: "offers_of (Some c) d = filter (\<lambda>r. source_connector r d = Some c) (offers d)"
  unfolding offers_of_def by (intro filter_cong refl) (auto simp: source_connector_def split: option.splits)

lemma sum_offer_counts:
  "sum_list (map co_offer_count (map (connector_option_of d) connector_registry))
     = length (filter (\<lambda>r. connector_in (source_connector r d) registry_names) (offers d))"
  using sum_groups [OF registry_names_distinct, of "\<lambda>r. source_connector r d" "offers d"]
  by (simp add: connector_option_of_def group_counts_def Let_def offers_of_connector registry_names_def o_def)

lemma sum_scored_counts:
  "sum_list (map co_scored_count (map (connector_option_of d) connector_registry))
     = length (filter (\<lambda>r. connector_in (source_connector r d) registry_names
         \<and> offer_id r \<in> already_scored (active_or_none d) d) (offers d))"
  using sum_groups [OF registry_names_distinct, of "\<lambda>r. source_connector r d"
      "filter (\<lambda>r. offer_id r \<in> already_scored (active_or_none d) d) (offers d)"]
  by (simp add: connector_option_of_def group_counts_def Let_def offers_of_connector registry_names_def o_def conj_commute)

lemma sum_unscored_counts:
  "sum_list (map co_unscored_count (map (connector_option_of d) ks))
     = int (sum_list (map co_offer_count (map (connector_option_of d) ks)))
       - int (sum_list (map co_scored_count (map (connector_option_of d) ks)))"
  by (induction ks) (simp_all add: connector_option_of_def Let_def case_prod_beta)

text \<open>Every candidate of a selection over all connectors is an unscored offer of one of them.\<close>

lemma selection_unscored:
  assumes "select_candidates L now pid registry_names k d = Inr sel"
  shows "sel_total sel \<le> length (filter (\<lambda>r. connector_in (source_connector r d) registry_names
      \<and> offer_id r \<notin> already_scored pid d) (offers d))"
proof -
  obtain rows where rows: "filterE (row_in_range L now d) (candidate_scan pid registry_names d) = Inr rows"
    and n: "sel_total sel = length rows"
    using assms by (auto simp: select_candidates_def bindE_Inr_iff)
  have "length rows \<le> length (candidate_scan pid registry_names d)"
    using filterE_Inr [OF rows] by simp
  also have "\<dots> = length (filter (eligible pid registry_names d) (offers d))"
    by (simp add: candidate_scan_def)
  also have "\<dots> \<le> length (filter (\<lambda>r. connector_in (source_connector r d) registry_names
      \<and> offer_id r \<notin> already_scored pid d) (offers d))"
    by (rule length_filter_mono) (simp add: eligible_def)
  finally show ?thesis unfolding n .
qed

text \<open>C29: The connector overview adds up: one entry per registered connector in the registry's order,
  each with as many scored and unscored offers as it has offers; together they count every offer of
  a registered connector once; and the backlog the scoring status reports never exceeds the unscored
  offers the overview shows.\<close>

theorem overview_bounds_backlog:
  assumes "list_connectors s = (Inr opts, t)" and "count_unscored_backlog L now None s = (Inr n, u)"
  shows "t = s \<and> map co_id opts = registry_names
     \<and> list_all (\<lambda>o1. int (co_scored_count o1) + co_unscored_count o1 = int (co_offer_count o1)
          \<and> 0 \<le> co_unscored_count o1) opts
     \<and> sum_list (map co_offer_count opts)
         = length (filter (\<lambda>r. connector_in (source_connector r (working s)) registry_names) (offers (working s)))
     \<and> int n \<le> sum_list (map co_unscored_count opts)"
proof -
  let ?d = "working s"
  have opts: "opts = map (connector_option_of ?d) connector_registry" and t: "t = s" and tx: "\<not> tx_aborted s"
    using assms(1) by (auto simp: list_connectors_def run_simps split: if_splits)
  let ?in = "\<lambda>r. connector_in (source_connector r ?d) registry_names"
  let ?sc = "\<lambda>r. offer_id r \<in> already_scored (active_or_none ?d) ?d"
  have split: "length (filter ?in (offers ?d))
      = length (filter (\<lambda>r. ?in r \<and> ?sc r) (offers ?d)) + length (filter (\<lambda>r. ?in r \<and> \<not> ?sc r) (offers ?d))"
    by (rule length_filter_split)
  have unscored: "sum_list (map co_unscored_count opts) = int (length (filter (\<lambda>r. ?in r \<and> \<not> ?sc r) (offers ?d)))"
    unfolding opts sum_unscored_counts sum_offer_counts sum_scored_counts split by simp
  have "n \<le> length (filter (\<lambda>r. ?in r \<and> \<not> ?sc r) (offers ?d))"
  proof (cases "get_active_profile ?d")
    case None
    then show ?thesis using assms(2) tx by (simp add: count_unscored_backlog_def run_simps)
  next
    case (Some row)
    then obtain sel where "select_candidates L now (profile_id row) registry_names 0 ?d = Inr sel" "n = sel_total sel"
      using assms(2) tx
      by (cases "select_candidates L now (profile_id row) registry_names 0 ?d")
        (auto simp: count_unscored_backlog_def run_simps select_scoring_candidates_def langchain_sources_def)
    with selection_unscored Some show ?thesis by (fastforce simp: active_or_none_def)
  qed
  then have "int n \<le> sum_list (map co_unscored_count opts)" unfolding unscored by simp
  moreover have "list_all (\<lambda>o1. int (co_scored_count o1) + co_unscored_count o1 = int (co_offer_count o1)
          \<and> 0 \<le> co_unscored_count o1) opts"
    by (simp add: opts list_all_iff connector_option_of_def group_counts_def Let_def)
  moreover have "map co_id opts = registry_names"
    by (simp add: opts registry_names_def connector_option_of_def Let_def case_prod_beta)
  moreover have "sum_list (map co_offer_count opts) = length (filter ?in (offers ?d))"
    unfolding opts by (rule sum_offer_counts)
  ultimately show ?thesis using t by blast
qed

lemma overview_bounds_backlog_witness:
  "\<exists>opts. list_connectors (open_session (scoring_db all_range)) = (Inr opts, open_session (scoring_db all_range))
     \<and> 2 \<le> sum_list (map co_unscored_count opts)"
proof -
  let ?s = "open_session (scoring_db all_range)"
  obtain opts where opts: "list_connectors ?s = (Inr opts, ?s)" by (simp add: list_connectors_def run_simps)
  have "(case count_unscored_backlog sample_lib 100 None ?s of (Inr n, _) \<Rightarrow> n = 2 | _ \<Rightarrow> False)" by code_simp
  then obtain u where "count_unscored_backlog sample_lib 100 None ?s = (Inr 2, u)"
    by (auto split: prod.splits sum.splits)
  from overview_bounds_backlog [OF opts this] opts show ?thesis by auto
qed

end
