(* ===== verification/Retry.thy ===== *)
theory Retry
  imports Backlog Lifecycle
begin

text \<open>
  \<open>app/dlq/retry.py\<close>: the retry of one dead letter by the handler of its failure type, and the
  scheduled batch over the blocked ones. A handler works on the session of its caller; the retry of
  a whole source opens a session of its own while the caller's transaction is still open.
\<close>

section \<open>Dead letters as the handlers see them\<close>

text \<open>A handler gets the row as it was loaded, from either table.\<close>

datatype failure_row = Ingestion_row ingestion_failure | Scoring_row scoring_failure

fun row_failure_type :: "failure_row \<Rightarrow> pystr" where
  "row_failure_type (Ingestion_row r) = failure_type r"
| "row_failure_type (Scoring_row r) = failure_type r"

fun row_status :: "failure_row \<Rightarrow> pystr" where
  "row_status (Ingestion_row r) = dl_status r"
| "row_status (Scoring_row r) = dl_status r"

fun row_payload :: "failure_row \<Rightarrow> jdict option" where
  "row_payload (Ingestion_row r) = dl_raw_payload r"
| "row_payload (Scoring_row r) = dl_raw_payload r"

definition update_ingestion_failure :: "int \<Rightarrow> (ingestion_failure \<Rightarrow> ingestion_failure) \<Rightarrow> db \<Rightarrow> db" where
  "update_ingestion_failure i f d =
     d\<lparr>ingestion_failures := update_where (\<lambda>r. dl_id r = i) f (ingestion_failures d)\<rparr>"

definition update_scoring_failure :: "int \<Rightarrow> (scoring_failure \<Rightarrow> scoring_failure) \<Rightarrow> db \<Rightarrow> db" where
  "update_scoring_failure i f d =
     d\<lparr>scoring_failures := update_where (\<lambda>r. dl_id r = i) f (scoring_failures d)\<rparr>"

definition find_failure :: "int \<Rightarrow> 'a dead_letter_scheme list \<Rightarrow> 'a dead_letter_scheme option" where
  "find_failure i rows = find (\<lambda>r. dl_id r = i) rows"

definition failing :: "pystr \<Rightarrow> int \<Rightarrow> 'a dead_letter_scheme \<Rightarrow> 'a dead_letter_scheme" where
  "failing msg now r = r\<lparr>error_message := msg, occurred_at := now\<rparr>"

fun mark_still_failing :: "failure_row \<Rightarrow> pystr \<Rightarrow> int \<Rightarrow> unit op" where
  "mark_still_failing (Ingestion_row r) msg now = exec (update_ingestion_failure (dl_id r) (failing msg now))"
| "mark_still_failing (Scoring_row r) msg now = exec (update_scoring_failure (dl_id r) (failing msg now))"

text \<open>
  \<open>row.status = "resolved"\<close> writes the column when the loaded row had another status;
  \<open>resolved_at\<close> is always new.
\<close>

definition resolved_row :: "pystr \<Rightarrow> int \<Rightarrow> 'a dead_letter_scheme \<Rightarrow> 'a dead_letter_scheme" where
  "resolved_row loaded now r =
     r\<lparr>dl_status := (if loaded = status_resolved then dl_status r else status_resolved),
       resolved_at := Some now\<rparr>"

fun mark_resolved :: "failure_row \<Rightarrow> int \<Rightarrow> unit op" where
  "mark_resolved (Ingestion_row r) now =
     exec (update_ingestion_failure (dl_id r) (resolved_row (dl_status r) now))"
| "mark_resolved (Scoring_row r) now =
     exec (update_scoring_failure (dl_id r) (resolved_row (dl_status r) now))"

section \<open>Handlers\<close>

record retry_env =
  env_lib :: pylib
  env_runner :: connector_runner
  env_chain :: chain
  env_detail_retry :: "pystr \<Rightarrow> source_row \<Rightarrow> pystr \<Rightarrow> bool op"

definition retry_validation_failed :: "retry_env \<Rightarrow> failure_row \<Rightarrow> int \<Rightarrow> bool op" where
  "retry_validation_failed E row now =
     (case row_payload row of
        None \<Rightarrow> bindS (mark_still_failing row (lit ''cannot retry: no raw payload stored'') now) (\<lambda>_. retS False)
      | Some payload \<Rightarrow>
          (case offer_model_validate (env_lib E) payload of
             Inl e \<Rightarrow> bindS (mark_still_failing row (exn_text e) now) (\<lambda>_. retS False)
           | Inr o1 \<Rightarrow> bindS (persist_offer (env_lib E) o1 payload now) (\<lambda>_. retS True)))"

text \<open>\<open>assert source is not None and source.connector is not None\<close>\<close>

definition source_of_failure :: "ingestion_failure \<Rightarrow> (source_row \<times> pystr) op" where
  "source_of_failure r =
     bindS (query (find_source_by_id (if_source_id r))) (\<lambda>src.
     case src of
       None \<Rightarrow> raiseS (AssertionError (lit ''source is not None''))
     | Some s \<Rightarrow>
         (case src_connector s of
            None \<Rightarrow> raiseS (AssertionError (lit ''source.connector is not None''))
          | Some c \<Rightarrow> retS (s, c)))"

text \<open>
  What the caller of a handler has changed on the row and flushed, but not committed: nothing,
  or its new \<open>retry_count\<close>. The transaction holds a lock on a row it has changed, and a statement
  of another session that writes the row waits for it. When that session is one the caller itself
  waits for, neither ends: such a call does not return. The model ends it with this marker.
\<close>

type_synonym pending = "(ingestion_failure \<Rightarrow> ingestion_failure) option"

definition never_returns :: exn where
  "never_returns = OtherExn (lit ''waits for a lock its own caller holds'')"

definition writes_failure :: "int \<Rightarrow> db \<Rightarrow> db \<Rightarrow> bool" where
  "writes_failure i d d' \<longleftrightarrow>
     find_failure i (ingestion_failures d') \<noteq> find_failure i (ingestion_failures d)"

text \<open>
  A call that runs in a session of its own: it works on what is committed, and what it commits is
  seen by the caller's next statement, below the caller's own pending change.
\<close>

definition in_other_session :: "int \<Rightarrow> pending \<Rightarrow> 'a op \<Rightarrow> 'a op" where
  "in_other_session i pend m s =
     (if tx_aborted s then (Inl tx_error, s)
      else
        case in_own_session m (committed s) of
          (r, d) \<Rightarrow>
            if pend \<noteq> None \<and> writes_failure i (committed s) d then (Inl never_returns, s)
            else
              (r, s\<lparr>committed := d,
                    working := (case pend of None \<Rightarrow> d | Some f \<Rightarrow> update_ingestion_failure i f d)\<rparr>))"

definition retry_fetch_failed :: "retry_env \<Rightarrow> pending \<Rightarrow> failure_row \<Rightarrow> int \<Rightarrow> bool op" where
  "retry_fetch_failed E pend row now =
     (case row of
        Scoring_row r \<Rightarrow> raiseS (AttributeError (lit ''source_id''))
      | Ingestion_row r \<Rightarrow>
          bindS (source_of_failure r) (\<lambda>(_, c).
          bindS (in_other_session (dl_id r) pend (trigger_ingest (env_runner E) c False now)) (\<lambda>result.
          retS (ir_ok result))))"

text \<open>\<open>except BlockedFetchError\<close> and \<open>except MatcherError\<close>\<close>

fun blocked_code :: "exn \<Rightarrow> int option" where
  "blocked_code (BlockedFetchError code) = Some code"
| "blocked_code _ = None"

fun is_matcher_error :: "exn \<Rightarrow> bool" where
  "is_matcher_error (MatcherError _) = True"
| "is_matcher_error _ = False"

definition retry_detail_fetch_blocked :: "retry_env \<Rightarrow> failure_row \<Rightarrow> int \<Rightarrow> bool op" where
  "retry_detail_fetch_blocked E row now =
     (case row of
        Scoring_row r \<Rightarrow> raiseS (AttributeError (lit ''source_id''))
      | Ingestion_row r \<Rightarrow>
          bindS (source_of_failure r) (\<lambda>(src, c).
          case url r of
            None \<Rightarrow> bindS (mark_still_failing row (lit ''cannot retry: no url stored'') now) (\<lambda>_. retS False)
          | Some u \<Rightarrow>
              (case find_spec c of
                 None \<Rightarrow> raiseS (KeyError c)
               | Some spec \<Rightarrow>
                   if \<not> has_detail_retry spec then raiseS (AssertionError (c @ lit '' has no detail_retry handler''))
                   else
                     bindS (tryS (env_detail_retry E c src u)) (\<lambda>res.
                     case res of
                       Inr b \<Rightarrow> retS b
                     | Inl e \<Rightarrow>
                         (case blocked_code e of
                            Some code \<Rightarrow>
                              bindS (mark_still_failing row (lit ''still blocked: HTTP '' @ show_int code) now) (\<lambda>_. retS False)
                          | None \<Rightarrow> raiseS e)))))"

definition retry_scoring_failed :: "retry_env \<Rightarrow> failure_row \<Rightarrow> int \<Rightarrow> bool op" where
  "retry_scoring_failed E row now =
     (case row of
        Ingestion_row r \<Rightarrow> raiseS (AttributeError (lit ''offer_id''))
      | Scoring_row r \<Rightarrow>
          bindS (query (find_offer (sf_offer_id r))) (\<lambda>offer_row.
          bindS (query (get_profile_by_id (sf_profile_id r))) (\<lambda>profile_row.
          case (offer_row, profile_row) of
            (Some o1, Some p) \<Rightarrow>
              bindS (liftE (offer_from_row o1)) (\<lambda>off.
              bindS (liftE (profile_of_row p)) (\<lambda>prof.
              case score_offer (env_chain E) (offer_id o1) (profile_id p) prof off of
                Inr m \<Rightarrow> bindS (insert_score now m) (\<lambda>_. retS True)
              | Inl e \<Rightarrow>
                  if is_matcher_error e
                  then bindS (mark_still_failing row (exn_text e) now) (\<lambda>_. retS False)
                  else raiseS e))
          | _ \<Rightarrow>
              bindS (mark_still_failing row (lit ''cannot retry: offer or profile no longer exists'') now)
                (\<lambda>_. retS False))))"

text \<open>\<open>RETRY_HANDLERS\<close>\<close>

fun retry_handler :: "retry_env \<Rightarrow> pending \<Rightarrow> failure_kind \<Rightarrow> failure_row \<Rightarrow> int \<Rightarrow> bool op" where
  "retry_handler E pend VALIDATION_FAILED = retry_validation_failed E"
| "retry_handler E pend PAGE_FETCH_FAILED = retry_fetch_failed E pend"
| "retry_handler E pend RUN_FETCH_FAILED = retry_fetch_failed E pend"
| "retry_handler E pend SCORING_FAILED = retry_scoring_failed E"
| "retry_handler E pend DETAIL_FETCH_BLOCKED = retry_detail_fetch_blocked E"

definition externally_recorded :: "failure_kind \<Rightarrow> bool" where
  "externally_recorded k \<longleftrightarrow> k = PAGE_FETCH_FAILED \<or> k = RUN_FETCH_FAILED"

text \<open>\<open>session.refresh(row)\<close> reads the row again; a row that is gone raises.\<close>

definition refreshed_status :: "failure_row \<Rightarrow> pystr op" where
  "refreshed_status row =
     (case row of
        Ingestion_row r \<Rightarrow>
          bindS (query (\<lambda>d. find_failure (dl_id r) (ingestion_failures d))) (\<lambda>x.
          case x of None \<Rightarrow> raiseS (OtherExn (lit ''InvalidRequestError'')) | Some y \<Rightarrow> retS (dl_status y))
      | Scoring_row r \<Rightarrow>
          bindS (query (\<lambda>d. find_failure (dl_id r) (scoring_failures d))) (\<lambda>x.
          case x of None \<Rightarrow> raiseS (OtherExn (lit ''InvalidRequestError'')) | Some y \<Rightarrow> retS (dl_status y)))"

text \<open>The result is the status of the row object when the retry returns.\<close>

definition perform_retry :: "retry_env \<Rightarrow> pending \<Rightarrow> failure_row \<Rightarrow> int \<Rightarrow> pystr op" where
  "perform_retry E pend row now =
     (case failure_kind_of (row_failure_type row) of
        None \<Rightarrow> raiseS (UnknownFailureTypeError (row_failure_type row))
      | Some k \<Rightarrow>
          bindS (retry_handler E pend k row now) (\<lambda>succeeded.
          bindS (if succeeded then bindS (mark_resolved row now) (\<lambda>_. retS status_resolved)
                 else if externally_recorded k then refreshed_status row
                 else retS (row_status row)) (\<lambda>st.
          bindS commit (\<lambda>_. retS st))))"

section \<open>The scheduled batch\<close>

record detail_retry_summary =
  dr_attempted :: nat
  dr_resolved :: nat
  dr_still_blocked :: nat
  dr_abandoned :: nat

definition retry_due :: "int \<Rightarrow> ingestion_failure \<Rightarrow> bool" where
  "retry_due cutoff r \<longleftrightarrow> dl_status r = status_open \<and> blocked_status r \<noteq> None \<and> occurred_at r \<le> cutoff"

definition bump :: "ingestion_failure \<Rightarrow> ingestion_failure \<Rightarrow> ingestion_failure" where
  "bump loaded r = r\<lparr>retry_count := retry_count loaded + 1\<rparr>"

definition abandon :: "ingestion_failure \<Rightarrow> ingestion_failure" where
  "abandon r = r\<lparr>dl_status := status_abandoned\<rparr>"

definition retry_due_row ::
    "retry_env \<Rightarrow> int \<Rightarrow> int \<Rightarrow> ingestion_failure \<Rightarrow> detail_retry_summary \<Rightarrow> detail_retry_summary op" where
  "retry_due_row E max_attempts now r sm =
     (if max_attempts \<le> retry_count r then
        bindS (exec (update_ingestion_failure (dl_id r) abandon)) (\<lambda>_.
        bindS commit (\<lambda>_. retS (sm\<lparr>dr_abandoned := dr_abandoned sm + 1\<rparr>)))
      else
        bindS (exec (update_ingestion_failure (dl_id r) (bump r))) (\<lambda>_.
        bindS (perform_retry E (Some (bump r)) (Ingestion_row (bump r r)) now) (\<lambda>st.
        retS (if st = status_resolved
              then sm\<lparr>dr_attempted := dr_attempted sm + 1, dr_resolved := dr_resolved sm + 1\<rparr>
              else sm\<lparr>dr_attempted := dr_attempted sm + 1, dr_still_blocked := dr_still_blocked sm + 1\<rparr>))))"

fun retry_due_rows ::
    "retry_env \<Rightarrow> int \<Rightarrow> int \<Rightarrow> ingestion_failure list \<Rightarrow> detail_retry_summary \<Rightarrow> detail_retry_summary op" where
  "retry_due_rows E max_attempts now [] sm = retS sm"
| "retry_due_rows E max_attempts now (r # rs) sm =
     bindS (retry_due_row E max_attempts now r sm) (\<lambda>sm1. retry_due_rows E max_attempts now rs sm1)"

definition run_detail_retry_batch :: "retry_env \<Rightarrow> int \<Rightarrow> int \<Rightarrow> int \<Rightarrow> detail_retry_summary op" where
  "run_detail_retry_batch E min_age_seconds max_attempts now =
     bindS (query (\<lambda>d. filter (retry_due (now - min_age_seconds * 1000000)) (ingestion_failures d))) (\<lambda>rows.
     retry_due_rows E max_attempts now rows
       \<lparr>dr_attempted = 0, dr_resolved = 0, dr_still_blocked = 0, dr_abandoned = 0\<rparr>)"

section \<open>What a retry keeps\<close>

lemma session_own: "I d \<Longrightarrow> session_inv I (open_session d)"
  by (simp add: session_inv_def open_session_def)

lemma keeps_in_own:
  assumes "keeps I m" and "I d" and "in_own_session m d = (r, d')"
  shows "I d'"
proof (cases "m (open_session d)")
  case (Pair x t)
  have "session_inv I t" using assms(1) session_own [of I d, OF assms(2)] Pair by (metis keeps_def snd_conv)
  with Pair assms(3) show ?thesis by (simp add: in_own_session_def session_inv_def)
qed

lemma keeps_other_session:
  assumes "keeps I m" and "\<And>f d. pend = Some f \<Longrightarrow> I d \<Longrightarrow> I (update_ingestion_failure i f d)"
  shows "keeps I (in_other_session i pend m)"
  unfolding keeps_def
proof (intro allI impI)
  fix s assume s: "session_inv I s"
  obtain r d where rd: "in_own_session m (committed s) = (r, d)" by fastforce
  have "I d" using keeps_in_own [OF assms(1) _ rd] s by (simp add: session_inv_def)
  then show "session_inv I (snd (in_other_session i pend m s))"
    using s rd assms(2) by (auto simp: in_other_session_def session_inv_def split: option.split)
qed

text \<open>The updates and operations a handler is built from.\<close>

definition retry_closed :: "(db \<Rightarrow> bool) \<Rightarrow> retry_env \<Rightarrow> bool" where
  "retry_closed I E \<longleftrightarrow>
     (\<forall>d i msg now. I d \<longrightarrow> I (update_ingestion_failure i (failing msg now) d)
         \<and> I (update_scoring_failure i (failing msg now) d))
     \<and> (\<forall>d i st now. I d \<longrightarrow> I (update_ingestion_failure i (resolved_row st now) d)
         \<and> I (update_scoring_failure i (resolved_row st now) d))
     \<and> (\<forall>o1 raw now. keeps I (persist_offer (env_lib E) o1 raw now)) \<and> (\<forall>now m. keeps I (insert_score now m))
     \<and> (\<forall>c now. keeps I (trigger_ingest (env_runner E) c False now))
     \<and> (\<forall>c src u. keeps I (env_detail_retry E c src u))"

lemma keeps_mark_still_failing:
  "retry_closed I E \<Longrightarrow> keeps I (mark_still_failing row msg now)"
  by (cases row) (auto simp: retry_closed_def intro!: keeps_exec)

lemma keeps_mark_resolved: "retry_closed I E \<Longrightarrow> keeps I (mark_resolved row now)"
  by (cases row) (auto simp: retry_closed_def intro!: keeps_exec)

lemma keeps_source_of_failure [keeps_intros]: "keeps I (source_of_failure r)"
  unfolding source_of_failure_def by (intro keeps_intros)

lemma keeps_failure_row:
  "(\<And>r. keeps I (f r)) \<Longrightarrow> (\<And>r. keeps I (g r)) \<Longrightarrow> keeps I (case row of Ingestion_row r \<Rightarrow> f r | Scoring_row r \<Rightarrow> g r)"
  by (cases row) auto

lemma keeps_refreshed [keeps_intros]: "keeps I (refreshed_status row)"
  unfolding refreshed_status_def by (intro keeps_failure_row keeps_intros)

lemma keeps_handler:
  assumes I: "retry_closed I E"
    and pend: "\<And>f d i. pend = Some f \<Longrightarrow> I d \<Longrightarrow> I (update_ingestion_failure i f d)"
  shows "keeps I (retry_handler E pend k row now)"
proof -
  note mark = keeps_mark_still_failing [OF I]
  have "keeps I (retry_validation_failed E row now)"
    using I unfolding retry_validation_failed_def
    by (intro keeps_intros mark) (simp add: retry_closed_def)
  moreover have "keeps I (retry_fetch_failed E pend row now)"
    using I pend unfolding retry_fetch_failed_def
    by (intro keeps_failure_row keeps_intros keeps_other_session) (simp_all add: retry_closed_def)
  moreover have "keeps I (retry_detail_fetch_blocked E row now)"
    using I unfolding retry_detail_fetch_blocked_def
    by (intro keeps_failure_row keeps_intros mark) (simp_all add: retry_closed_def)
  moreover have "keeps I (retry_scoring_failed E row now)"
    using I unfolding retry_scoring_failed_def
    by (intro keeps_failure_row keeps_intros mark) (simp_all add: retry_closed_def)
  ultimately show ?thesis by (cases k) simp_all
qed

lemma keeps_perform_retry:
  assumes "retry_closed I E"
    and "\<And>f d i. pend = Some f \<Longrightarrow> I d \<Longrightarrow> I (update_ingestion_failure i f d)"
  shows "keeps I (perform_retry E pend row now)"
  unfolding perform_retry_def
  by (intro keeps_intros keeps_handler [OF assms] keeps_mark_resolved [OF assms(1)])

lemma keeps_retry_due_rows:
  assumes "retry_closed I E"
    and "\<And>r d i. retry_count r < max_attempts \<Longrightarrow> I d \<Longrightarrow> I (update_ingestion_failure i (bump r) d)"
    and "\<And>d i. I d \<Longrightarrow> I (update_ingestion_failure i abandon d)"
  shows "keeps I (retry_due_rows E max_attempts now rows sm)"
proof (induction rows arbitrary: sm)
  case (Cons r rows)
  have "keeps I (retry_due_row E max_attempts now r sm)"
  proof (cases "max_attempts \<le> retry_count r")
    case True
    then show ?thesis
      unfolding retry_due_row_def by (simp, intro keeps_intros assms(3))
  next
    case False
    then have b: "I d \<Longrightarrow> I (update_ingestion_failure i (bump r) d)" for d i
      using assms(2) by simp
    show ?thesis
      using False unfolding retry_due_row_def
      by (simp, intro keeps_intros keeps_perform_retry [OF assms(1)] b) (auto intro: b)
  qed
  then show ?case using Cons.IH by (auto intro: keeps_bindS)
qed (simp add: keeps_retS)


lemma update_failure_ok:
  assumes "\<And>r. dl_id (f r) = dl_id r" "\<And>r. dedup_key (f r) = dedup_key r"
    and "\<And>r. if_source_id (f r) = if_source_id r" "\<And>r. scheduler_run_id (f r) = scheduler_run_id r"
    and "db_ok d"
  shows "db_ok (update_ingestion_failure i f d)"
  using assms
  by (simp add: db_ok_def keys_ok_def ids_below_def update_ingestion_failure_def refs_simps
      table_simps)

lemma update_scoring_ok:
  assumes "\<And>r. dl_id (f r) = dl_id r" "\<And>r. dedup_key (f r) = dedup_key r"
    and "\<And>r. sf_offer_id (f r) = sf_offer_id r" "\<And>r. sf_profile_id (f r) = sf_profile_id r"
    and "db_ok d"
  shows "db_ok (update_scoring_failure i f d)"
  using assms
  by (simp add: db_ok_def keys_ok_def ids_below_def update_scoring_failure_def refs_simps
      table_simps)


lemma stamp_fetched_ok: "db_ok d \<Longrightarrow> db_ok (stamp_fetched sid now d)"
  by (simp add: db_ok_def keys_ok_def ids_below_def stamp_fetched_def refs_simps map_update_where
      image_update_where)

lemma keeps_trigger_ingest:
  assumes "\<And>c src b. keeps db_ok (run_connector c src b)"
  shows "keeps db_ok (trigger_ingest run_connector c b now)"
  unfolding trigger_ingest_def run_with_lifecycle_def record_run_fetch_failure_def option.case Let_def
  by (intro keeps_intros keeps_dispatch assms stamp_fetched_ok)

lemma retry_closed_db_ok:
  assumes "\<And>c src b. keeps db_ok (env_runner E c src b)" and "\<And>c src u. keeps db_ok (env_detail_retry E c src u)"
  shows "retry_closed db_ok E"
  unfolding retry_closed_def
  using assms keeps_trigger_ingest [OF assms(1)] keeps_persist_offer keeps_insert_score
  by (auto intro!: update_failure_ok update_scoring_ok simp: failing_def resolved_row_def)

text \<open>No row is retried more often than the batch allows.\<close>

definition attempts_within :: "int \<Rightarrow> db \<Rightarrow> bool" where
  "attempts_within n d \<longleftrightarrow> list_all (\<lambda>r. retry_count r \<le> n) (ingestion_failures d)"

lemma attempts_update:
  "attempts_within n d \<Longrightarrow> (\<And>r. retry_count r \<le> n \<Longrightarrow> retry_count (f r) \<le> n) \<Longrightarrow>
   attempts_within n (update_ingestion_failure i f d)"
  by (auto simp: attempts_within_def update_ingestion_failure_def list_all_iff update_where_def)

lemma attempts_same:
  "ingestion_failures d' = ingestion_failures d \<Longrightarrow> attempts_within n d' = attempts_within n d"
  by (simp add: attempts_within_def)

lemma attempts_upsert: "0 \<le> n \<Longrightarrow> attempts_within n d \<Longrightarrow> attempts_within n (upsert_ingestion key k fs now d)"
  by (auto simp: attempts_within_def upsert_ingestion_def upsert_failure_def list_all_iff update_where_def)

lemma keeps_attempts_record:
  "0 \<le> n \<Longrightarrow> keeps (attempts_within n) (record_ingestion_failure key k fs now)"
  unfolding record_ingestion_failure_def by (intro keeps_swallow keeps_upsert_stmt attempts_upsert)

lemma keeps_attempts_persist: "keeps (attempts_within n) (persist_offer L o1 raw now)"
  unfolding persist_offer_def
  by (intro keeps_intros) (simp add: attempts_within_def insert_offer_def)

lemma keeps_attempts_score: "keeps (attempts_within n) (insert_score now m)"
  unfolding insert_score_def by (intro keeps_intros) (simp add: attempts_within_def add_score_def)

lemma keeps_attempts_trigger:
  assumes "\<And>c src b. keeps (attempts_within n) (run_connector c src b)" and "0 \<le> n"
  shows "keeps (attempts_within n) (trigger_ingest run_connector c b now)"
  unfolding trigger_ingest_def run_with_lifecycle_def record_run_fetch_failure_def option.case Let_def
  by (intro keeps_intros keeps_dispatch assms(1) keeps_attempts_record assms(2))
    (simp add: attempts_within_def stamp_fetched_def)

lemma retry_closed_attempts:
  assumes "\<And>c src b. keeps (attempts_within n) (env_runner E c src b)"
    and "\<And>c src u. keeps (attempts_within n) (env_detail_retry E c src u)" and "0 \<le> n"
  shows "retry_closed (attempts_within n) E"
  unfolding retry_closed_def
  using assms(2) keeps_attempts_trigger [OF assms(1,3)] keeps_attempts_persist keeps_attempts_score
  by (auto intro!: attempts_update simp: failing_def resolved_row_def)
    (simp_all add: attempts_within_def update_scoring_failure_def)

lemma keeps_batch:
  assumes "retry_closed I E"
    and "\<And>r d i. retry_count r < max_attempts \<Longrightarrow> I d \<Longrightarrow> I (update_ingestion_failure i (bump r) d)"
    and "\<And>d i. I d \<Longrightarrow> I (update_ingestion_failure i abandon d)"
  shows "keeps I (run_detail_retry_batch E min_age max_attempts now)"
  unfolding run_detail_retry_batch_def by (intro keeps_intros keeps_retry_due_rows assms) auto

text \<open>Retrying keeps the tables: whatever the language model answers and the boards send, a manual
  retry and a batch keep keys and references valid, and a batch that allows \<open>n\<close> attempts never
  brings the attempts of a row above \<open>n\<close>, as long as the connectors keep the same.\<close>

theorem retries_keep_tables:
  assumes "\<And>c src b. keeps db_ok (env_runner E c src b)" and "\<And>c src u. keeps db_ok (env_detail_retry E c src u)"
    and "\<And>c src b. keeps (attempts_within n) (env_runner E c src b)"
    and "\<And>c src u. keeps (attempts_within n) (env_detail_retry E c src u)"
    and "session_inv db_ok s" and "session_inv (attempts_within n) s" and "0 \<le> n"
  shows "session_inv db_ok (snd (perform_retry E None row now s))
     \<and> session_inv db_ok (snd (run_detail_retry_batch E min_age n now s))
     \<and> session_inv (attempts_within n) (snd (run_detail_retry_batch E min_age n now s))"
proof -
  note db = retry_closed_db_ok [OF assms(1,2)] and at = retry_closed_attempts [OF assms(3,4,7)]
  have "keeps db_ok (perform_retry E None row now)" by (rule keeps_perform_retry [OF db]) simp
  moreover have "keeps db_ok (run_detail_retry_batch E min_age n now)"
    by (rule keeps_batch [OF db]) (auto intro!: update_failure_ok simp: bump_def abandon_def)
  moreover have "keeps (attempts_within n) (run_detail_retry_batch E min_age n now)"
    by (rule keeps_batch [OF at]) (auto intro!: attempts_update simp: bump_def abandon_def)
  ultimately show ?thesis using assms(5,6) by (simp add: keeps_def)
qed

section \<open>What a batch reports\<close>

lemma retry_due_row_counts:
  assumes "retry_due_row E n now r sm s = (Inr sm', t)"
  shows "dr_attempted sm' + dr_abandoned sm' = dr_attempted sm + dr_abandoned sm + 1
     \<and> dr_attempted sm' + dr_resolved sm + dr_still_blocked sm = dr_attempted sm + dr_resolved sm' + dr_still_blocked sm'
     \<and> dr_abandoned sm' = dr_abandoned sm + (if n \<le> retry_count r then 1 else 0)"
  using assms by (auto simp: retry_due_row_def bindS_Inr_iff retS_def split: if_splits)

lemma retry_due_rows_counts:
  assumes "retry_due_rows E n now rows sm s = (Inr sm', t)"
  shows "dr_attempted sm' + dr_abandoned sm' = dr_attempted sm + dr_abandoned sm + length rows
     \<and> dr_attempted sm' + dr_resolved sm + dr_still_blocked sm = dr_attempted sm + dr_resolved sm' + dr_still_blocked sm'
     \<and> dr_abandoned sm' = dr_abandoned sm + length (filter (\<lambda>r. n \<le> retry_count r) rows)"
  using assms
proof (induction rows arbitrary: sm s)
  case (Cons r rows)
  then obtain sm1 s1 where step: "retry_due_row E n now r sm s = (Inr sm1, s1)"
    "retry_due_rows E n now rows sm1 s1 = (Inr sm', t)"
    by (auto simp: bindS_Inr_iff)
  from retry_due_row_counts [OF step(1)] Cons.IH [OF step(2)] show ?case by auto
qed (simp add: retS_def)

text \<open>C23: A batch that returns accounts for every row that was due: each was either attempted or
  abandoned, the abandoned ones are those that had used up their attempts, and each attempt
  is reported as resolved or still blocked.\<close>

theorem retry_batch_accounts:
  assumes "run_detail_retry_batch E min_age n now s = (Inr sm, t)"
  shows "dr_attempted sm + dr_abandoned sm
       = length (filter (retry_due (now - min_age * 1000000)) (ingestion_failures (working s)))
     \<and> dr_attempted sm = dr_resolved sm + dr_still_blocked sm
     \<and> dr_abandoned sm = length (filter (\<lambda>r. retry_due (now - min_age * 1000000) r \<and> n \<le> retry_count r)
          (ingestion_failures (working s)))"
proof -
  have "retry_due_rows E n now (filter (retry_due (now - min_age * 1000000)) (ingestion_failures (working s)))
      \<lparr>dr_attempted = 0, dr_resolved = 0, dr_still_blocked = 0, dr_abandoned = 0\<rparr> s = (Inr sm, t)"
    using assms by (auto simp: run_detail_retry_batch_def bindS_def query_def split: if_splits)
  from retry_due_rows_counts [OF this] show ?thesis by (simp add: conj_commute)
qed

section \<open>Retrying a posting\<close>

lemma find_failure_update:
  assumes "\<And>r. dl_id (f r) = dl_id r"
  shows "find_failure i (update_where (\<lambda>r. dl_id r = j) f rows)
    = map_option (\<lambda>r. if i = j then f r else r) (find_failure i rows)"
  using assms by (induction rows) (auto simp: find_failure_def update_where_def)

lemma persist_keeps_failures:
  "persist_offer L o1 raw now s = (Inr x, t) \<Longrightarrow> ingestion_failures (working t) = ingestion_failures (working s)"
  by (auto simp: persist_offer_def run_simps insert_offer_def split: option.splits sum.splits if_splits)

lemma persist_stored:
  assumes "persist_offer L o1 raw now s = (Inr (x, created), t)"
  shows "x \<in> set (offers (working t)) \<and> (same_content x o1 \<or> compute_dedup_hash L o1 = Inr (dedup_hash x))"
  using assms
proof (cases rule: persist_cases)
  case duplicate
  then show ?thesis by (auto simp: find_content_duplicate_def dest: find_Some_in_set)
next
  case (conflict h)
  then show ?thesis
    by (auto simp: insert_offer_conflict find_by_hash_def dest: find_Some_in_set)
next
  case (inserted h)
  then show ?thesis by (simp add: insert_offer_def)
qed

text \<open>What validating the stored posting again gives.\<close>

definition revalidated :: "pylib \<Rightarrow> ingestion_failure \<Rightarrow> offer option" where
  "revalidated L r = (case dl_raw_payload r of None \<Rightarrow> None
     | Some payload \<Rightarrow> (case offer_model_validate L payload of Inl e \<Rightarrow> None | Inr o1 \<Rightarrow> Some o1))"

lemma retry_validation_cases:
  assumes "retry_validation_failed E (Ingestion_row r) now s = (Inr ok, t)" and "\<not> tx_aborted s"
  obtains (stored) o1 payload x created where "revalidated (env_lib E) r = Some o1" "ok"
      "persist_offer (env_lib E) o1 payload now s = (Inr (x, created), t)"
  | (invalid) msg where "revalidated (env_lib E) r = None" "\<not> ok"
      "t = s\<lparr>working := update_ingestion_failure (dl_id r) (failing msg now) (working s)\<rparr>"
  using assms
  by (auto simp: retry_validation_failed_def revalidated_def bindS_Inr_iff exec_def retS_def
      split: option.splits sum.splits)

lemma persist_not_aborted: "persist_offer L o1 raw now s = (Inr x, t) \<Longrightarrow> \<not> tx_aborted t"
  by (cases x) (auto elim!: persist_cases)

text \<open>Retrying a posting that failed validation resolves its row when the stored posting is now
  valid, and then the posting is in the table; otherwise the row only gets the new message and
  time, and no offer changes. What the retry did is committed.\<close>

theorem retry_validation_failure:
  assumes "perform_retry E None (Ingestion_row r) now s = (Inr st, t)"
    and "failure_type r = failure_value VALIDATION_FAILED"
    and "find_failure (dl_id r) (ingestion_failures (working s)) = Some r"
    and "dl_status r = status_open" and "\<not> tx_aborted s"
  shows "committed t = working t
     \<and> (case revalidated (env_lib E) r of
          Some o1 \<Rightarrow> st = status_resolved
            \<and> (\<exists>x \<in> set (offers (working t)). same_content x o1 \<or> compute_dedup_hash (env_lib E) o1 = Inr (dedup_hash x))
            \<and> find_failure (dl_id r) (ingestion_failures (working t))
                = Some (r\<lparr>dl_status := status_resolved, resolved_at := Some now\<rparr>)
        | None \<Rightarrow> st = status_open \<and> offers (working t) = offers (working s)
            \<and> (\<exists>msg. find_failure (dl_id r) (ingestion_failures (working t))
                = Some (r\<lparr>error_message := msg, occurred_at := now\<rparr>)))"
proof -
  have k: "failure_kind_of (failure_type r) = Some VALIDATION_FAILED" using assms(2) by (metis failure_kind_of_value)
  obtain ok u where h: "retry_validation_failed E (Ingestion_row r) now s = (Inr ok, u)"
    using assms(1) by (auto simp: perform_retry_def k bindS_Inr_iff)
  have id: "dl_id (resolved_row st now x) = dl_id x" "dl_id (failing msg now x) = dl_id x"
    for st msg and x :: ingestion_failure
    by (simp_all add: resolved_row_def failing_def)
  from h assms(5) show ?thesis
  proof (cases rule: retry_validation_cases)
    case (stored o1 payload x created)
    note rest = persist_keeps_failures [OF stored(3)] persist_not_aborted [OF stored(3)] persist_stored [OF stored(3)]
    have "st = status_resolved \<and> t = u\<lparr>working := update_ingestion_failure (dl_id r) (resolved_row (dl_status r) now) (working u),
        committed := update_ingestion_failure (dl_id r) (resolved_row (dl_status r) now) (working u)\<rparr>"
      using assms(1) h stored(2) rest(2) by (simp add: perform_retry_def k run_simps)
    then show ?thesis
      using stored(1) rest assms(3,4)
      by (simp add: update_ingestion_failure_def find_failure_update [OF id(1)])
        (auto simp: resolved_row_def)
  next
    case (invalid msg)
    have "st = status_open \<and> t = u\<lparr>committed := working u\<rparr>"
      using assms(1,4,5) h invalid(2,3) by (auto simp: perform_retry_def k run_simps externally_recorded_def)
    then show ?thesis
      using invalid(1,3) assms(3)
      by (simp add: update_ingestion_failure_def find_failure_update [OF id(2)])
        (auto simp: failing_def)
  qed
qed

section \<open>Retrying a whole source\<close>

lemma other_session_run:
  "\<not> tx_aborted s \<Longrightarrow> in_own_session m (committed s) = (Inr x, d) \<Longrightarrow>
   in_other_session i None m s = (Inr x, s\<lparr>committed := d, working := d\<rparr>)"
  by (simp add: in_other_session_def)

text \<open>A retry can hide a fresh failure: when retrying a failed page fails on a later page again, the
  run still counts as a success and reopens the very row that is retried, and the retry then
  marks that row resolved. The failure that was just recorded is no longer listed.\<close>

theorem retried_page_failure_is_hidden:
  assumes "failure_type r = failure_value PAGE_FETCH_FAILED" and "dl_status r = status_open"
    and "find_source_by_id (if_source_id r) (working s) = Some src" and "src_connector src = Some c"
    and "in_own_session (trigger_ingest (env_runner E) c False now) (committed s) = (Inr resp, d)"
    and "ir_ok resp" and "find_failure (dl_id r) (ingestion_failures d) = Some fresh"
    and "dl_status fresh = status_open" and "\<not> tx_aborted s"
  shows "\<exists>t. perform_retry E None (Ingestion_row r) now s = (Inr status_resolved, t)
     \<and> find_failure (dl_id r) (ingestion_failures (committed t))
         = Some (fresh\<lparr>dl_status := status_resolved, resolved_at := Some now\<rparr>)"
proof -
  have k: "failure_kind_of (failure_type r) = Some PAGE_FETCH_FAILED" using assms(1) by (metis failure_kind_of_value)
  have id: "dl_id (resolved_row st now x) = dl_id x" for st and x :: ingestion_failure
    by (simp add: resolved_row_def)
  show ?thesis
    using assms(2-9)
    by (simp add: perform_retry_def k retry_fetch_failed_def source_of_failure_def run_simps
        other_session_run update_ingestion_failure_def find_failure_update [OF id])
      (simp add: resolved_row_def)
qed

text \<open>The batch changes a row before it retries it, and the retry of a source runs in another session.\<close>

lemma batch_first_row:
  assumes "filter (retry_due (now - min_age * 1000000)) (ingestion_failures d) = r # rows"
    and "retry_count r < n"
    and "failure_type r = failure_value k" "externally_recorded k"
    and "find_source_by_id (if_source_id r) d = Some src" and "src_connector src = Some c"
    and "in_other_session (dl_id r) (Some (bump r)) (trigger_ingest (env_runner E) c False now)
       ((open_session d)\<lparr>working := update_ingestion_failure (dl_id r) (bump r) d\<rparr>) = (Inl e, t)"
  shows "in_own_session (run_detail_retry_batch E min_age n now) d = (Inl e, committed t)"
proof -
  have h: "retry_handler E (Some (bump r)) k = retry_fetch_failed E (Some (bump r))"
    using assms(4) by (auto simp: externally_recorded_def)
  have k: "failure_kind_of (failure_type (bump r r)) = Some k"
    and i: "dl_id (bump r r) = dl_id r" "if_source_id (bump r r) = if_source_id r"
    using assms(3) by (simp_all add: bump_def)
  have src: "find_source_by_id (if_source_id r) (update_ingestion_failure (dl_id r) (bump r) d) = Some src"
    using assms(5) by (simp add: find_source_by_id_def update_ingestion_failure_def)
  show ?thesis
    using assms(1,2,6,7) src
    by (simp add: in_own_session_def run_detail_retry_batch_def retry_due_row_def perform_retry_def k i h
        retry_fetch_failed_def source_of_failure_def run_simps open_session_def)
qed

text \<open>One stopped connector starves the batch: when the first due row is a blocked fetch of a
  stopped connector, the batch raises before it has touched any other row, with nothing
  committed, so every later tick starts with the same row and ends the same way.\<close>

theorem stopped_connector_starves_batch:
  assumes "filter (retry_due (now - min_age * 1000000)) (ingestion_failures d) = r # rows"
    and "retry_count r < n"
    and "failure_type r = failure_value k" "externally_recorded k"
    and "find_source_by_id (if_source_id r) d = Some src" and "src_connector src = Some c"
    and "c \<in> set registry_names" and "find_source c d = Some src" and "\<not> connector_enabled (src_config src)"
  shows "in_own_session (run_detail_retry_batch E min_age n now) d = (Inl (ConnectorDisabledError c), d)"
proof -
  let ?s = "(open_session d)\<lparr>working := update_ingestion_failure (dl_id r) (bump r) d\<rparr>"
  have "in_own_session (trigger_ingest (env_runner E) c False now) d = (Inl (ConnectorDisabledError c), d)"
    using assms(7-9) by (simp add: in_own_session_def trigger_ingest_def run_with_lifecycle_def
        resolve_source_by_connector_def run_simps open_session_def)
  then have "in_other_session (dl_id r) (Some (bump r)) (trigger_ingest (env_runner E) c False now) ?s
      = (Inl (ConnectorDisabledError c), ?s\<lparr>committed := d\<rparr>)"
    by (simp add: in_other_session_def open_session_def writes_failure_def)
  from batch_first_row [OF assms(1-6) this] show ?thesis by simp
qed

lemma find_failure_where:
  assumes "\<And>r. dl_id (f r) = dl_id r"
  shows "find_failure i (update_where P f rows) = map_option (\<lambda>r. if P r then f r else r) (find_failure i rows)"
  using assms by (induction rows) (auto simp: find_failure_def update_where_def)

lemma find_failure_member:
  "distinct (map dl_id rows) \<Longrightarrow> r \<in> set rows \<Longrightarrow> find_failure (dl_id r) rows = Some r"
  unfolding find_failure_def by (rule find_unique) (auto dest: distinct_map_inj)

lemma upsert_touches:
  assumes "r \<in> set (ingestion_failures d)" and "keys_ok d"
  shows "\<exists>r'. find_failure (dl_id r) (ingestion_failures (upsert_ingestion (dedup_key r) k fs now d)) = Some r'
     \<and> occurred_at r' = now"
proof -
  have "find_failure (dl_id r) (ingestion_failures d) = Some r"
    using assms by (intro find_failure_member) (simp_all add: keys_ok_def)
  moreover have "dedup_key r \<in> dedup_key ` set (ingestion_failures d)" using assms(1) by simp
  ultimately show ?thesis
    by (simp add: upsert_ingestion_def upsert_failure_def find_failure_where)
qed

lemma failed_trigger:
  assumes "c \<in> set registry_names" and "find_source c d = Some src" and "connector_enabled (src_config src)"
    and "run_connector c src False (open_session d) = (Inr res, open_session d)" and "\<not> res_ok res"
    and "db_ok d" and "src_id src < 2 ^ 31"
  shows "\<exists>fs resp. in_own_session (trigger_ingest run_connector c False now) d
    = (Inr resp, upsert_ingestion (source_key (src_id src)) RUN_FETCH_FAILED fs now d)"
proof -
  obtain fs where fs: "record_run_fetch_failure src res None now =
      record_ingestion_failure (source_key (src_id src)) RUN_FETCH_FAILED fs now"
    "list_all ingestion_field_sendable fs"
    "\<And>k n. ingestion_failure_refs (upsert_ingestion k RUN_FETCH_FAILED fs n d)"
  proof -
    let ?m = "case res_error_message res of
               None \<Rightarrow> lit ''ingestion failed'' | Some m \<Rightarrow> if m = [] then lit ''ingestion failed'' else m"
    let ?fs = "[F_source_id (src_id src), F_error_message ?m]
           @ (case res_blocked_status res of None \<Rightarrow> [] | Some b \<Rightarrow> [F_blocked_status (Some b)])"
    have "src_id src \<in> src_id ` set (sources d)" using find_source_in [OF assms(2)] by blast
    moreover have "ingestion_failure_refs d" using assms(6) by (simp add: db_ok_def refs_ok_def)
    ultimately have "ingestion_failure_refs (upsert_ingestion k RUN_FETCH_FAILED ?fs n d)" for k n
      by (auto simp: ingestion_failure_refs_def upsert_ingestion_def upsert_failure_def
          update_where_def list_all_iff touch_open_def blank_ingestion_failure_def
          blank_dead_letter_def dead_letter.defs split: option.splits)
    then show thesis
      using assms(5) by (intro that [of ?fs]) (auto simp: record_run_fetch_failure_def split: option.split)
  qed
  have "0 \<le> src_id src"
    using find_source_in [OF assms(2)] assms(6) by (auto simp: db_ok_def ids_below_def ids_in_def list_all_iff)
  then have rec: "record_ingestion_failure (source_key (src_id src)) RUN_FETCH_FAILED fs now (open_session d)
      = (Inr (), (open_session d)\<lparr>working := upsert_ingestion (source_key (src_id src)) RUN_FETCH_FAILED fs now d\<rparr>)"
    using record_ingestion_failure_ok [of "open_session d" "source_key (src_id src)" fs RUN_FETCH_FAILED now]
      fs(2,3) source_key_length assms(7) by (simp add: open_session_def)
  have conn: "src_connector src = Some c" using find_source_in [OF assms(2)] by blast
  show ?thesis
    using assms(1-5) conn fs(1) rec
    by (simp add: in_own_session_def trigger_ingest_def run_with_lifecycle_def dispatch_ingestion_def
        resolve_source_by_connector_def run_simps open_session_def) blast
qed

text \<open>The batch waits for itself: when the first due row is a blocked fetch of an enabled source
  and the source fails again, the batch never returns. It has flushed the row's new attempt count
  and holds the lock on the row, and the session it waits for wants to record the new failure on
  that same row.\<close>

theorem retry_batch_never_returns:
  assumes "filter (retry_due (now - min_age * 1000000)) (ingestion_failures d) = r # rows"
    and "retry_count r < n" and "0 < min_age"
    and "failure_type r = failure_value k" "externally_recorded k"
    and "find_source_by_id (if_source_id r) d = Some src" and "find_source c d = Some src"
    and "dedup_key r = source_key (src_id src)"
    and "c \<in> set registry_names" and "connector_enabled (src_config src)"
    and "env_runner E c src False (open_session d) = (Inr res, open_session d)" and "\<not> res_ok res"
    and "db_ok d" and "src_id src < 2 ^ 31"
  shows "in_own_session (run_detail_retry_batch E min_age n now) d = (Inl never_returns, d)"
proof -
  let ?s = "(open_session d)\<lparr>working := update_ingestion_failure (dl_id r) (bump r) d\<rparr>"
  have "r \<in> set (filter (retry_due (now - min_age * 1000000)) (ingestion_failures d))" using assms(1) by simp
  then have r: "r \<in> set (ingestion_failures d)" and old: "occurred_at r \<noteq> now"
    using assms(3) by (auto simp: retry_due_def)
  have keys: "keys_ok d" using assms(13) by (simp add: db_ok_def)
  have conn: "src_connector src = Some c" using find_source_in [OF assms(7)] by blast
  obtain fs resp where t: "in_own_session (trigger_ingest (env_runner E) c False now) d
      = (Inr resp, upsert_ingestion (source_key (src_id src)) RUN_FETCH_FAILED fs now d)"
    using failed_trigger [where run_connector = "env_runner E", OF assms(9,7,10-14)] by blast
  have mem: "find_failure (dl_id r) (ingestion_failures d) = Some r"
    using r keys by (intro find_failure_member) (simp_all add: keys_ok_def)
  have "writes_failure (dl_id r) d (upsert_ingestion (source_key (src_id src)) RUN_FETCH_FAILED fs now d)"
    using upsert_touches [OF r keys, of RUN_FETCH_FAILED fs now] old mem
    by (auto simp: writes_failure_def assms(8))
  then have "in_other_session (dl_id r) (Some (bump r)) (trigger_ingest (env_runner E) c False now) ?s
      = (Inl never_returns, ?s)"
    using t by (simp add: in_other_session_def open_session_def)
  from batch_first_row [OF assms(1,2,4-6) conn this] show ?thesis by (simp add: open_session_def)
qed

section \<open>Retrying a score\<close>

text \<open>A scoring retry that succeeds stores exactly one more score, of the failure's offer and
  profile, and resolves the row. Nothing asks whether the row is still open or the pair already
  has a score: retrying a resolved row scores the offer a second time.\<close>

theorem retry_scoring_stores_score:
  assumes "failure_type r = failure_value SCORING_FAILED" and "\<not> tx_aborted s" and "db_ok (working s)"
    and "find_offer (sf_offer_id r) (working s) = Some o1" and "offer_from_row o1 = Inr off"
    and "get_profile_by_id (sf_profile_id r) (working s) = Some p" and "profile_of_row p = Inr prof"
    and "score_offer (env_chain E) (sf_offer_id r) (sf_profile_id r) prof off = Inr m"
  shows "\<exists>t row. perform_retry E None (Scoring_row r) now s = (Inr status_resolved, t)
     \<and> match_scores (committed t) = match_scores (working s) @ [row]
     \<and> ms_offer_id row = sf_offer_id r \<and> ms_profile_id row = sf_profile_id r
     \<and> ms_score_percent row = score_percent m
     \<and> scoring_failures (committed t) = update_where (\<lambda>x. dl_id x = dl_id r)
          (resolved_row (dl_status r) now) (scoring_failures (working s))"
proof -
  have k: "failure_kind_of (failure_type r) = Some SCORING_FAILED" using assms(1) by (metis failure_kind_of_value)
  have ids: "offer_id o1 = sf_offer_id r" "profile_id p = sf_profile_id r"
    using assms(4,6) by (auto simp: find_offer_def get_profile_by_id_def dest: find_Some_in_set)
  have mids: "score_offer_id m = sf_offer_id r \<and> score_profile_id m = sf_profile_id r"
    using score_offer_ids [OF assms(8)] by simp
  have "sf_offer_id r \<in> offer_id ` set (offers (working s))" "sf_profile_id r \<in> profile_id ` set (profiles (working s))"
    using assms(4,6) ids by (auto simp: find_offer_def get_profile_by_id_def dest!: find_Some_in_set)
      (metis imageI)+
  then have refs: "match_score_refs (add_score now m (working s))"
    using assms(3) mids by (simp add: db_ok_def refs_ok_def match_score_refs_def add_score_def score_row_def)
  have handler: "retry_scoring_failed E (Scoring_row r) now s = (Inr True, s\<lparr>working := add_score now m (working s)\<rparr>)"
    using assms(2,4-8) ids refs by (simp add: retry_scoring_failed_def insert_score_def run_simps)
  show ?thesis
    using assms(2) mids
    by (simp add: perform_retry_def k run_simps handler update_scoring_failure_def add_score_def score_row_def)
qed

section \<open>Concrete retries\<close>

definition blocked_row :: "failure_kind \<Rightarrow> jdict option \<Rightarrow> ingestion_failure" where
  "blocked_row k payload = dead_letter.extend
     \<lparr>dl_id = 5, dedup_key = source_key 1, failure_type = failure_value k, error_message = lit ''x'',
      dl_raw_payload = payload, dl_status = status_open, occurred_at = 0, resolved_at = None\<rparr>
     \<lparr>if_source_id = 1, scheduler_run_id = None, page = None, url = None,
      blocked_status = Some 403, retry_count = 0\<rparr>"

definition retry_db :: "bool \<Rightarrow> failure_kind \<Rightarrow> jdict option \<Rightarrow> db" where
  "retry_db on k payload = (lifecycle_db on)\<lparr>next_id := 9, ingestion_failures := [blocked_row k payload]\<rparr>"

definition env_with :: "connector_runner \<Rightarrow> retry_env" where
  "env_with runner = \<lparr>env_lib = sample_lib, env_runner = runner, env_chain = (\<lambda>_ _. Inr perfect_output),
     env_detail_retry = (\<lambda>_ _ _. retS True)\<rparr>"

definition idle_runner :: connector_runner where
  "idle_runner c src b = retS (finished 0 0)"

definition blocked_result :: ingestion_result where
  "blocked_result = \<lparr>res_ok = False, res_fetched = 0, res_created = 0, res_error_message = None,
     res_blocked_status = Some 403\<rparr>"

text \<open>A board whose second page is blocked.\<close>

definition cut_feed :: "unit fetch_page" where
  "cut_feed p cursor k = (if p = 0 then Inr (Some ([], Some ())) else Inl (BlockedFetchError 403))"

definition cut_runner :: connector_runner where
  "cut_runner c src b = run_paginated_ingestion sample_lib (src_id src) cut_feed (\<lambda>_ raw. Inr raw) None
     plain_args (\<lambda>_ _. 7)"

lemma retry_db_facts:
  "db_ok (retry_db on k payload)" "blocked_row k payload \<in> set (ingestion_failures (retry_db on k payload))"
  "find_source_by_id 1 (retry_db on k payload) = Some (lifecycle_source on)"
  "find_source SOLID_JOBS (retry_db on k payload) = Some (lifecycle_source on)"
  "find_failure 5 (ingestion_failures (retry_db on k payload)) = Some (blocked_row k payload)"
  "filter (retry_due (2000000 - 1 * 1000000)) (ingestion_failures (retry_db on k payload)) = [blocked_row k payload]"
  by (simp_all add: retry_db_def blocked_row_def dead_letter.defs lifecycle_db_def lifecycle_source_def
      empty_db_def db_ok_def keys_ok_def ids_below_def ids_in_def refs_simps find_source_by_id_def
      find_source_def find_failure_def retry_due_def)

lemma blocked_row_simps [simp]:
  "dl_id (blocked_row k payload) = 5" "failure_type (blocked_row k payload) = failure_value k"
  "dl_status (blocked_row k payload) = status_open" "if_source_id (blocked_row k payload) = 1"
  "retry_count (blocked_row k payload) = 0" "dedup_key (blocked_row k payload) = source_key 1"
  "dl_raw_payload (blocked_row k payload) = payload"
  by (simp_all add: blocked_row_def dead_letter.defs)


lemma retries_keep_tables_witness:
  "session_inv db_ok (snd (run_detail_retry_batch (env_with idle_runner) 1 3 2000000
     (open_session (retry_db True RUN_FETCH_FAILED None))))"
proof -
  have "session_inv db_ok (open_session (retry_db True RUN_FETCH_FAILED None))"
    "session_inv (attempts_within 3) (open_session (retry_db True RUN_FETCH_FAILED None))"
    by (simp_all add: session_own retry_db_facts(1)) (simp add: session_inv_def attempts_within_def retry_db_def)
  then show ?thesis
    using retries_keep_tables [of "env_with idle_runner" 3 "open_session (retry_db True RUN_FETCH_FAILED None)"]
    by (simp add: env_with_def idle_runner_def keeps_retS)
qed

lemma retry_batch_accounts_witness:
  "\<exists>sm t. run_detail_retry_batch (env_with idle_runner) 1 3 2000000 (open_session (retry_db True RUN_FETCH_FAILED None))
      = (Inr sm, t) \<and> dr_attempted sm + dr_abandoned sm = 1"
proof -
  let ?run = "run_detail_retry_batch (env_with idle_runner) 1 3 2000000 (open_session (retry_db True RUN_FETCH_FAILED None))"
  have "(case ?run of (Inr sm, t) \<Rightarrow> dr_resolved sm = 1 | _ \<Rightarrow> False)" by code_simp
  then obtain sm t where run: "?run = (Inr sm, t)" by (auto split: prod.splits sum.splits)
  from retry_batch_accounts [OF run] have "dr_attempted sm + dr_abandoned sm = 1"
    unfolding open_session_simps retry_db_facts(6) by simp
  with run show ?thesis by blast
qed

lemma retry_validation_failure_witness:
  "\<exists>t. perform_retry (env_with idle_runner) None (Ingestion_row (blocked_row VALIDATION_FAILED (Some sample_posting))) 9
      (open_session (retry_db True VALIDATION_FAILED (Some sample_posting))) = (Inr status_resolved, t)
    \<and> offers (working t) \<noteq> []"
proof -
  let ?run = "perform_retry (env_with idle_runner) None (Ingestion_row (blocked_row VALIDATION_FAILED (Some sample_posting))) 9
      (open_session (retry_db True VALIDATION_FAILED (Some sample_posting)))"
  have "(case ?run of (Inr st, t) \<Rightarrow> st = status_resolved | _ \<Rightarrow> False)" by code_simp
  then obtain t where run: "?run = (Inr status_resolved, t)" by (auto split: prod.splits sum.splits)
  have v: "revalidated sample_lib (blocked_row VALIDATION_FAILED (Some sample_posting)) = Some sample_offer" by code_simp
  from retry_validation_failure [OF run] retry_db_facts(5) v have "offers (working t) \<noteq> []"
    by (auto simp: env_with_def)
  with run show ?thesis by blast
qed

lemma retried_page_failure_is_hidden_witness:
  "\<exists>t row. perform_retry (env_with cut_runner) None (Ingestion_row (blocked_row PAGE_FETCH_FAILED None)) 9
      (open_session (retry_db True PAGE_FETCH_FAILED None)) = (Inr status_resolved, t)
    \<and> find_failure 5 (ingestion_failures (committed t)) = Some row
    \<and> page row = Some 1 \<and> dl_status row = status_resolved"
proof -
  let ?d = "retry_db True PAGE_FETCH_FAILED None"
  let ?own = "in_own_session (trigger_ingest cut_runner SOLID_JOBS False 9) ?d"
  have "(case ?own of (Inr resp, d) \<Rightarrow> ir_ok resp \<and> (case find_failure 5 (ingestion_failures d) of None \<Rightarrow> False
       | Some fresh \<Rightarrow> dl_status fresh = status_open \<and> page fresh = Some 1) | _ \<Rightarrow> False)" by code_simp
  then obtain resp d fresh where own: "?own = (Inr resp, d)" "ir_ok resp"
    "find_failure 5 (ingestion_failures d) = Some fresh" "dl_status fresh = status_open" "page fresh = Some 1"
    by (auto split: prod.splits sum.splits option.splits)
  have "src_connector (lifecycle_source True) = Some SOLID_JOBS" by (simp add: lifecycle_source_def)
  then show ?thesis
    using retried_page_failure_is_hidden [of "blocked_row PAGE_FETCH_FAILED None" "open_session ?d"
        "lifecycle_source True" SOLID_JOBS "env_with cut_runner" 9 resp d fresh] own retry_db_facts(3)
    by (auto simp: env_with_def)
qed

lemma stopped_connector_starves_batch_witness:
  "in_own_session (run_detail_retry_batch (env_with idle_runner) 1 3 2000000) (retry_db False RUN_FETCH_FAILED None)
     = (Inl (ConnectorDisabledError SOLID_JOBS), retry_db False RUN_FETCH_FAILED None)"
  by (rule stopped_connector_starves_batch [where r = "blocked_row RUN_FETCH_FAILED None" and rows = "[]"
        and k = RUN_FETCH_FAILED and src = "lifecycle_source False"])
    (use retry_db_facts(6) in \<open>simp_all add: externally_recorded_def retry_db_facts(3,4) lifecycle_lookup\<close>,
      simp add: lifecycle_source_def)

lemma retry_batch_never_returns_witness:
  "in_own_session (run_detail_retry_batch (env_with (\<lambda>_ _ _. retS blocked_result)) 1 3 2000000)
       (retry_db True RUN_FETCH_FAILED None)
     = (Inl never_returns, retry_db True RUN_FETCH_FAILED None)"
  by (rule retry_batch_never_returns [where r = "blocked_row RUN_FETCH_FAILED None" and rows = "[]"
        and k = RUN_FETCH_FAILED and src = "lifecycle_source True" and c = SOLID_JOBS and res = blocked_result])
    (use retry_db_facts(6) in \<open>simp_all add: externally_recorded_def retry_db_facts(1,3,4) lifecycle_lookup
       env_with_def retS_def blocked_result_def\<close>, simp_all add: lifecycle_source_def)

definition scored_row :: scoring_failure where
  "scored_row = dead_letter.extend
     \<lparr>dl_id = 6, dedup_key = scoring_key 2 4, failure_type = failure_value SCORING_FAILED, error_message = lit ''x'',
      dl_raw_payload = None, dl_status = status_resolved, occurred_at = 0, resolved_at = Some 1\<rparr>
     \<lparr>sf_offer_id = 2, sf_profile_id = 4\<rparr>"

lemma retry_scoring_stores_score_witness:
  "\<exists>t row. perform_retry (env_with idle_runner) None (Scoring_row scored_row) 9 (open_session (scoring_db all_range))
       = (Inr status_resolved, t) \<and> match_scores (committed t) = [row] \<and> ms_offer_id row = 2"
proof -
  let ?o = "stored_row 2 50"
  let ?p = "hd (profiles (scoring_db all_range))"
  have o: "find_offer 2 (scoring_db all_range) = Some ?o" and p: "get_profile_by_id 4 (scoring_db all_range) = Some ?p"
    by code_simp+
  have "(case offer_from_row ?o of Inr off \<Rightarrow> (case profile_of_row ?p of Inr prof \<Rightarrow>
      (case score_offer (\<lambda>_ _. Inr perfect_output) 2 4 prof off of Inr m \<Rightarrow> True | _ \<Rightarrow> False) | _ \<Rightarrow> False) | _ \<Rightarrow> False)"
    by code_simp
  then obtain off prof m where sc: "offer_from_row ?o = Inr off" "profile_of_row ?p = Inr prof"
    "score_offer (\<lambda>_ _. Inr perfect_output) 2 4 prof off = Inr m" by (auto split: sum.splits)
  have ids: "sf_offer_id scored_row = 2" "sf_profile_id scored_row = 4" "failure_type scored_row = failure_value SCORING_FAILED"
    by (simp_all add: scored_row_def dead_letter.defs)
  have none: "match_scores (scoring_db all_range) = []" by (simp add: scoring_db_def empty_db_def)
  have ch: "env_chain (env_with idle_runner) = (\<lambda>_ _. Inr perfect_output)" by (simp add: env_with_def)
  have db: "db_ok (working (open_session (scoring_db all_range)))" using scoring_db_ok by simp
  note ready = retry_scoring_stores_score [where E = "env_with idle_runner" and now = 9,
    OF ids(3) _ db, unfolded ids open_session_simps ch]
  from ready [OF _ o sc(1) p sc(2,3)]
  show ?thesis unfolding none by auto
qed

end
