(* ===== verification/FailuresApi.thy ===== *)
theory FailuresApi
  imports Retry
begin

text \<open>
  \<open>app/dlq/registry.py\<close> and \<open>app/api/routes/failures.py\<close>: the two dead-letter queues behind one
  pair of routes, the filters each queue supports, the listing and the manual retry, with the
  scheduled retry job of \<open>app/scheduler/service.py\<close>.
\<close>

section \<open>The registry of queues\<close>

datatype queue = Ingestion_queue | Scoring_queue

text \<open>\<open>DEAD_LETTER_REGISTRY\<close> with its \<open>filterable_params\<close>; the model and the schemas of a queue are the
  branches of the routes below.\<close>

definition dead_letter_registry :: "queue pydict" where
  "dead_letter_registry = [(lit ''ingestion'', Ingestion_queue), (lit ''scoring'', Scoring_queue)]"

fun filterable_params :: "queue \<Rightarrow> pystr list" where
  "filterable_params Ingestion_queue = map lit [''source'', ''failure_type'', ''status'']"
| "filterable_params Scoring_queue = map lit [''offer_id'', ''profile_id'', ''failure_type'', ''status'']"

definition spec_or_404 :: "pystr \<Rightarrow> exn + queue" where
  "spec_or_404 process =
     (case map_of dead_letter_registry process of None \<Rightarrow> Inl (HTTPException 404) | Some q \<Rightarrow> Inr q)"

section \<open>Listing\<close>

datatype status_choice = Status pystr | All_statuses

record failure_query =
  fq_failure_type :: "pystr option"
  fq_source :: "pystr option"
  fq_offer_id :: "int option"
  fq_profile_id :: "int option"
  fq_status :: status_choice
  fq_limit :: nat
  fq_offset :: nat

definition provided :: "failure_query \<Rightarrow> pystr list" where
  "provided q =
     (if fq_source q = None then [] else [lit ''source''])
     @ (if fq_offer_id q = None then [] else [lit ''offer_id''])
     @ (if fq_profile_id q = None then [] else [lit ''profile_id''])"

definition no_matching_source_id :: int where "no_matching_source_id = -1"

text \<open>A filter compares one column with a value; the connector is looked up first.\<close>

definition build_ingestion_filters :: "failure_query \<Rightarrow> (ingestion_failure \<Rightarrow> bool) list op" where
  "build_ingestion_filters q =
     (case fq_source q of
        None \<Rightarrow> retS []
      | Some c \<Rightarrow>
          bindS (query (find_source c)) (\<lambda>src.
          retS [\<lambda>r. if_source_id r = (case src of None \<Rightarrow> no_matching_source_id | Some s \<Rightarrow> src_id s)]))"

definition build_scoring_filters :: "failure_query \<Rightarrow> (scoring_failure \<Rightarrow> bool) list" where
  "build_scoring_filters q =
     (case fq_offer_id q of None \<Rightarrow> [] | Some i \<Rightarrow> [\<lambda>r. sf_offer_id r = i])
     @ (case fq_profile_id q of None \<Rightarrow> [] | Some i \<Rightarrow> [\<lambda>r. sf_profile_id r = i])"

definition shared_filters :: "failure_query \<Rightarrow> ('a dead_letter_scheme \<Rightarrow> bool) list" where
  "shared_filters q =
     (case fq_failure_type q of None \<Rightarrow> [] | Some t \<Rightarrow> [\<lambda>r. failure_type r = t])
     @ (case fq_status q of All_statuses \<Rightarrow> [] | Status st \<Rightarrow> [\<lambda>r. dl_status r = st])"

text \<open>The item schemas of \<open>app/schemas/dlq.py\<close>: every column but the deduplication key.\<close>

record failure_response =
  fr_id :: int
  fr_failure_type :: pystr
  fr_error_message :: pystr
  fr_raw_payload :: "jdict option"
  fr_status :: pystr
  fr_occurred_at :: int
  fr_resolved_at :: "int option"

record ingestion_failure_response = failure_response +
  fr_source_id :: int
  fr_scheduler_run_id :: "int option"
  fr_page :: "int option"
  fr_url :: "pystr option"
  fr_blocked_status :: "int option"
  fr_retry_count :: int

record scoring_failure_response = failure_response +
  fr_offer_id :: int
  fr_profile_id :: int

definition failure_response_of :: "'a dead_letter_scheme \<Rightarrow> failure_response" where
  "failure_response_of r = \<lparr>fr_id = dl_id r, fr_failure_type = failure_type r,
     fr_error_message = error_message r, fr_raw_payload = dl_raw_payload r, fr_status = dl_status r,
     fr_occurred_at = occurred_at r, fr_resolved_at = resolved_at r\<rparr>"

definition ingestion_response_of :: "ingestion_failure \<Rightarrow> ingestion_failure_response" where
  "ingestion_response_of r = failure_response.extend (failure_response_of r)
     \<lparr>fr_source_id = if_source_id r, fr_scheduler_run_id = scheduler_run_id r, fr_page = page r,
      fr_url = url r, fr_blocked_status = blocked_status r, fr_retry_count = retry_count r\<rparr>"

definition scoring_response_of :: "scoring_failure \<Rightarrow> scoring_failure_response" where
  "scoring_response_of r = failure_response.extend (failure_response_of r)
     \<lparr>fr_offer_id = sf_offer_id r, fr_profile_id = sf_profile_id r\<rparr>"

datatype failure_page =
    Ingestion_page "ingestion_failure_response list" nat
  | Scoring_page "scoring_failure_response list" nat

definition list_failures_route ::
    "(ingestion_failure list \<Rightarrow> ingestion_failure list) \<Rightarrow> (scoring_failure list \<Rightarrow> scoring_failure list)
     \<Rightarrow> pystr \<Rightarrow> failure_query \<Rightarrow> failure_page op" where
  "list_failures_route scan_i scan_s process q =
     bindS (liftE (spec_or_404 process)) (\<lambda>spec.
     if \<not> set (provided q) \<subseteq> set (filterable_params spec) then raiseS (HTTPException 400)
     else
       case spec of
         Ingestion_queue \<Rightarrow>
           bindS (build_ingestion_filters q) (\<lambda>filters.
           bindS (query (\<lambda>d. list_failures scan_i (fq_limit q) (fq_offset q) (filters @ shared_filters q)
                    (ingestion_failures d))) (\<lambda>(rows, total).
           retS (Ingestion_page (map ingestion_response_of rows) total)))
       | Scoring_queue \<Rightarrow>
           bindS (query (\<lambda>d. list_failures scan_s (fq_limit q) (fq_offset q)
                    (build_scoring_filters q @ shared_filters q) (scoring_failures d))) (\<lambda>(rows, total).
           retS (Scoring_page (map scoring_response_of rows) total)))"

section \<open>Retrying\<close>

text \<open>The response shows the row object after the retry; its id and status are kept here.\<close>

definition retry_failure_route :: "retry_env \<Rightarrow> pystr \<Rightarrow> int \<Rightarrow> int \<Rightarrow> (int \<times> pystr) op" where
  "retry_failure_route E process fid now =
     bindS (liftE (spec_or_404 process)) (\<lambda>spec.
     bindS (query (\<lambda>d.
       case spec of
         Ingestion_queue \<Rightarrow> map_option Ingestion_row (find_failure fid (ingestion_failures d))
       | Scoring_queue \<Rightarrow> map_option Scoring_row (find_failure fid (scoring_failures d)))) (\<lambda>row.
     case row of
       None \<Rightarrow> raiseS (HTTPException 404)
     | Some r \<Rightarrow> bindS (perform_retry E None r now) (\<lambda>st. retS (fid, st))))"

text \<open>One tick of the retry job, in a session of its own that is closed whatever happens.\<close>

definition run_detail_retry_job ::
    "retry_env \<Rightarrow> int \<Rightarrow> int \<Rightarrow> int \<Rightarrow> db \<Rightarrow> (exn + detail_retry_summary) \<times> db" where
  "run_detail_retry_job E min_age_seconds max_attempts now d =
     in_own_session (run_detail_retry_batch E min_age_seconds max_attempts now) d"

section \<open>What a listing shows\<close>

definition filter_holds :: "'a option \<Rightarrow> 'a \<Rightarrow> bool" where
  "filter_holds f x \<longleftrightarrow> (case f of None \<Rightarrow> True | Some y \<Rightarrow> x = y)"

definition status_holds :: "status_choice \<Rightarrow> pystr \<Rightarrow> bool" where
  "status_holds c st \<longleftrightarrow> (case c of All_statuses \<Rightarrow> True | Status x \<Rightarrow> st = x)"

definition connector_of_failure :: "db \<Rightarrow> ingestion_failure \<Rightarrow> pystr option" where
  "connector_of_failure d r = (case find_source_by_id (if_source_id r) d of None \<Rightarrow> None | Some s \<Rightarrow> src_connector s)"

text \<open>The rows a query asks for, by the connector of their own source.\<close>

definition wanted_ingestion :: "failure_query \<Rightarrow> db \<Rightarrow> ingestion_failure \<Rightarrow> bool" where
  "wanted_ingestion q d r \<longleftrightarrow>
     (case fq_source q of None \<Rightarrow> True | Some c \<Rightarrow> connector_of_failure d r = Some c)
     \<and> filter_holds (fq_failure_type q) (failure_type r) \<and> status_holds (fq_status q) (dl_status r)"

definition wanted_scoring :: "failure_query \<Rightarrow> scoring_failure \<Rightarrow> bool" where
  "wanted_scoring q r \<longleftrightarrow>
     filter_holds (fq_offer_id q) (sf_offer_id r) \<and> filter_holds (fq_profile_id q) (sf_profile_id r)
     \<and> filter_holds (fq_failure_type q) (failure_type r) \<and> status_holds (fq_status q) (dl_status r)"

definition newest_first :: "'a dead_letter_scheme list \<Rightarrow> 'a dead_letter_scheme list" where
  "newest_first = sort_key (\<lambda>r. - occurred_at r)"

lemma list_failures_wanted:
  assumes "\<And>r. r \<in> set rows \<Longrightarrow> list_all (\<lambda>f. f r) filters \<longleftrightarrow> P r" and "mset (scan rows) = mset rows"
  shows "list_failures scan lmt off filters rows
    = (take lmt (drop off (newest_first (filter P (scan rows)))), length (filter P rows))"
proof -
  have "filter (\<lambda>r. list_all (\<lambda>f. f r) filters) rows = filter P rows"
    using assms(1) by (intro filter_cong) auto
  moreover have "filter (\<lambda>r. list_all (\<lambda>f. f r) filters) (scan rows) = filter P (scan rows)"
    using assms(1) mset_eq_setD [OF assms(2)] by (intro filter_cong) auto
  ultimately show ?thesis by (simp add: list_failures_def newest_first_def Let_def)
qed

lemma shared_filters_hold:
  "list_all (\<lambda>f. f r) (shared_filters q)
     \<longleftrightarrow> filter_holds (fq_failure_type q) (failure_type r) \<and> status_holds (fq_status q) (dl_status r)"
  by (simp add: shared_filters_def filter_holds_def status_holds_def split: option.split status_choice.split)

text \<open>Two sources may not share a connector, or the filter shows the failures of one of them only.\<close>

definition connectors_unique :: "db \<Rightarrow> bool" where
  "connectors_unique d \<longleftrightarrow> distinct (map src_connector (filter (\<lambda>s. src_connector s \<noteq> None) (sources d)))"

lemma connector_filter:
  assumes "db_ok d" and "connectors_unique d" and "r \<in> set (ingestion_failures d)"
  shows "if_source_id r = (case find_source c d of None \<Rightarrow> no_matching_source_id | Some s \<Rightarrow> src_id s)
    \<longleftrightarrow> connector_of_failure d r = Some c"
proof -
  have "if_source_id r \<in> src_id ` set (sources d)"
    using assms(1,3) by (simp add: db_ok_def refs_simps list_all_iff)
  then obtain s where s: "s \<in> set (sources d)" "src_id s = if_source_id r" by auto
  have dist: "distinct (map src_id (sources d))" using assms(1) by (simp add: db_ok_def keys_ok_def)
  have own: "find_source_by_id (if_source_id r) d = Some s"
    using find_unique [OF dist s(1)] s(2) by (simp add: find_source_by_id_def)
  have pos: "0 < src_id s"
    using assms(1) s(1) by (auto simp: db_ok_def ids_below_def ids_in_def list_all_iff)
  show ?thesis
  proof (cases "find_source c d")
    case None
    then have "src_connector s \<noteq> Some c" using s(1) by (auto simp: find_source_def find_None_all)
    then show ?thesis using None own pos s(2) by (simp add: connector_of_failure_def no_matching_source_id_def)
  next
    case (Some s')
    then have s': "s' \<in> set (sources d)" "src_connector s' = Some c"
      by (auto simp: find_source_def dest: find_Some_in_set)
    have "src_id s = src_id s' \<longleftrightarrow> src_connector s = Some c"
    proof
      assume "src_id s = src_id s'"
      then have "s = s'" using distinct_map_inj [OF dist s(1) s'(1)] by blast
      then show "src_connector s = Some c" using s'(2) by simp
    next
      assume "src_connector s = Some c"
      then have "s = s'"
        using distinct_map_inj [OF assms(2) [unfolded connectors_unique_def], of s s'] s(1) s' by simp
      then show "src_id s = src_id s'" by simp
    qed
    then show ?thesis using Some own s(2) by (auto simp: connector_of_failure_def)
  qed
qed

text \<open>A listing of a dead-letter queue shows exactly the rows the query asks for: for the ingestion
  queue those whose own source has the asked connector (none for an unknown one, never all), with
  the asked type and status, newest first, one page of them with the number of all, rows of one
  instant as the server reads them; and a filter the queue does not have is refused with 400 before
  anything is read.\<close>

theorem failure_listing_spec:
  assumes "\<not> tx_aborted s" and "db_ok (working s)" and "connectors_unique (working s)"
    and "mset (scan_i (ingestion_failures (working s))) = mset (ingestion_failures (working s))"
    and "mset (scan_s (scoring_failures (working s))) = mset (scoring_failures (working s))"
  shows "list_failures_route scan_i scan_s (lit ''ingestion'') q s =
      (if fq_offer_id q = None \<and> fq_profile_id q = None then
         let kept = filter (wanted_ingestion q (working s)); rows = ingestion_failures (working s) in
         Inr (Ingestion_page (map ingestion_response_of (take (fq_limit q) (drop (fq_offset q) (newest_first (kept (scan_i rows))))))
           (length (kept rows)))
       else Inl (HTTPException 400), s)
    \<and> list_failures_route scan_i scan_s (lit ''scoring'') q s =
      (if fq_source q = None then
         let kept = filter (wanted_scoring q); rows = scoring_failures (working s) in
         Inr (Scoring_page (map scoring_response_of (take (fq_limit q) (drop (fq_offset q) (newest_first (kept (scan_s rows))))))
           (length (kept rows)))
       else Inl (HTTPException 400), s)"
proof
  let ?d = "working s"
  have ing: "list_failures scan_i lmt off ((case fq_source q of None \<Rightarrow> []
        | Some c \<Rightarrow> [\<lambda>r. if_source_id r = (case find_source c ?d of None \<Rightarrow> no_matching_source_id | Some s \<Rightarrow> src_id s)])
        @ shared_filters q) (ingestion_failures ?d)
      = (take lmt (drop off (newest_first (filter (wanted_ingestion q ?d) (scan_i (ingestion_failures ?d))))),
         length (filter (wanted_ingestion q ?d) (ingestion_failures ?d)))" for lmt off
    by (rule list_failures_wanted [where scan = scan_i and rows = "ingestion_failures ?d", OF _ assms(4)])
      (auto simp: wanted_ingestion_def shared_filters_hold connector_filter [OF assms(2,3)] split: option.split)
  have sc: "list_failures scan_s lmt off (build_scoring_filters q @ shared_filters q) (scoring_failures ?d)
      = (take lmt (drop off (newest_first (filter (wanted_scoring q) (scan_s (scoring_failures ?d))))),
         length (filter (wanted_scoring q) (scoring_failures ?d)))" for lmt off
    by (rule list_failures_wanted [where scan = scan_s and rows = "scoring_failures ?d", OF _ assms(5)])
      (auto simp: wanted_scoring_def shared_filters_hold build_scoring_filters_def filter_holds_def split: option.split)
  show "list_failures_route scan_i scan_s (lit ''ingestion'') q s =
      (if fq_offer_id q = None \<and> fq_profile_id q = None then
         let kept = filter (wanted_ingestion q (working s)); rows = ingestion_failures (working s) in
         Inr (Ingestion_page (map ingestion_response_of (take (fq_limit q) (drop (fq_offset q) (newest_first (kept (scan_i rows))))))
           (length (kept rows)))
       else Inl (HTTPException 400), s)"
    using assms(1) ing
    by (cases "fq_source q")
      (auto simp: list_failures_route_def spec_or_404_def dead_letter_registry_def provided_def run_simps
        build_ingestion_filters_def Let_def)
  show "list_failures_route scan_i scan_s (lit ''scoring'') q s =
      (if fq_source q = None then
         let kept = filter (wanted_scoring q); rows = scoring_failures (working s) in
         Inr (Scoring_page (map scoring_response_of (take (fq_limit q) (drop (fq_offset q) (newest_first (kept (scan_s rows))))))
           (length (kept rows)))
       else Inl (HTTPException 400), s)"
    using assms(1) sc
    by (auto simp: list_failures_route_def spec_or_404_def dead_letter_registry_def provided_def run_simps Let_def)
qed

definition sample_failure_query :: failure_query where
  "sample_failure_query = \<lparr>fq_failure_type = None, fq_source = Some SOLID_JOBS, fq_offer_id = None,
     fq_profile_id = None, fq_status = Status status_open, fq_limit = 50, fq_offset = 0\<rparr>"

lemma failure_listing_spec_witness:
  "list_failures_route rev rev (lit ''ingestion'') sample_failure_query (open_session (retry_db True RUN_FETCH_FAILED None))
     = (Inr (Ingestion_page [ingestion_response_of (blocked_row RUN_FETCH_FAILED None)] 1),
        open_session (retry_db True RUN_FETCH_FAILED None))"
proof -
  let ?d = "retry_db True RUN_FETCH_FAILED None"
  have rows: "filter (wanted_ingestion sample_failure_query ?d) (ingestion_failures ?d) = [blocked_row RUN_FETCH_FAILED None]"
    by code_simp
  then have kept: "filter (wanted_ingestion sample_failure_query ?d) (rev (ingestion_failures ?d)) = [blocked_row RUN_FETCH_FAILED None]"
    by (simp add: rev_filter [symmetric])
  have "connectors_unique ?d" by code_simp
  then show ?thesis
    using failure_listing_spec [of "open_session ?d" rev rev sample_failure_query] retry_db_facts(1) rows kept
    by (simp add: sample_failure_query_def newest_first_def Let_def)
qed

end
