(* ===== verification/ProfileApi.thy ===== *)
theory ProfileApi
  imports ProfileRepo
begin

text \<open>
  \<open>app/api/routes/profile.py\<close>: reading the active profile, saving one, and turning an uploaded CV
  into a draft. Reading a file into text and a text into a profile are arguments.
\<close>

section \<open>Routes\<close>

record profile_response =
  pr_id :: int
  pr_name :: pystr
  pr_status :: pystr
  pr_is_active :: bool
  pr_profile :: profile

definition profile_response_of :: "profile_row \<Rightarrow> exn + profile_response" where
  "profile_response_of row =
     bindE (profile_of_row row) (\<lambda>p. Inr
       \<lparr>pr_id = profile_id row, pr_name = profile_name row, pr_status = profile_status row,
        pr_is_active = is_active row, pr_profile = p\<rparr>)"

definition get_profile :: "profile_response option op" where
  "get_profile =
     bindS (query get_active_profile) (\<lambda>row.
     case row of
       None \<Rightarrow> retS None
     | Some r \<Rightarrow> bindS (liftE (profile_response_of r)) (\<lambda>p. retS (Some p)))"

text \<open>\<open>except ... as exc: raise HTTPException(...)\<close>\<close>

definition translating :: "(exn \<Rightarrow> exn) \<Rightarrow> 'a op \<Rightarrow> 'a op" where
  "translating f m s = (case m s of (Inl e, t) \<Rightarrow> (Inl (f e), t) | (Inr x, t) \<Rightarrow> (Inr x, t))"

declare translating_def [run_simps]

fun not_found :: "exn \<Rightarrow> exn" where
  "not_found (ProfileNotFoundError i) = HTTPException 404"
| "not_found e = e"

fun unsupported_file :: "exn \<Rightarrow> exn" where
  "unsupported_file (UnsupportedFileTypeError m) = HTTPException 415"
| "unsupported_file e = e"

fun extraction_failed :: "exn \<Rightarrow> exn" where
  "extraction_failed (CVExtractionError m) = HTTPException 503"
| "extraction_failed e = e"

definition put_profile :: "profile \<Rightarrow> int option \<Rightarrow> bool \<Rightarrow> profile_response op" where
  "put_profile payload pid activate =
     bindS (translating not_found (upsert_profile payload pid activate)) (\<lambda>row.
     bindS commit (\<lambda>_.
     liftE (profile_response_of row)))"

text \<open>\<open>filename\<close> is None when the upload has none.\<close>

definition upload_cv ::
    "(pystr \<Rightarrow> 'content \<Rightarrow> exn + pystr) \<Rightarrow> (pystr \<Rightarrow> exn + profile) \<Rightarrow> pystr
     \<Rightarrow> pystr option \<Rightarrow> 'content \<Rightarrow> profile_response op" where
  "upload_cv extract_text extract_profile uuid filename content =
     bindS (translating unsupported_file
              (liftE (extract_text (case filename of None \<Rightarrow> [] | Some n \<Rightarrow> n) content))) (\<lambda>cv_text.
     bindS (translating extraction_failed (liftE (extract_profile cv_text))) (\<lambda>p.
     bindS (create_draft_profile uuid p) (\<lambda>row.
     bindS commit (\<lambda>_.
     liftE (profile_response_of row)))))"

section \<open>From an upload to the active profile\<close>

definition draft_row :: "pystr \<Rightarrow> profile \<Rightarrow> db \<Rightarrow> profile_row" where
  "draft_row uuid p d = \<lparr>profile_id = next_id d, profile_name = lit ''draft-'' @ uuid,
     profile_status = lit ''draft'', is_active = False, profile_data = Some p\<rparr>"

abbreviation add_draft :: "pystr \<Rightarrow> profile \<Rightarrow> db \<Rightarrow> db" where
  "add_draft uuid p \<equiv> add_profile_row (lit ''draft-'' @ uuid) (lit ''draft'') (Some p)"

lemma draft_run:
  assumes "\<not> tx_aborted s" and "profiles_ok (working s)"
    and "lit ''draft-'' @ uuid \<notin> profile_name ` set (profiles (working s))"
  shows "create_draft_profile uuid p s
     = (Inr (draft_row uuid p (working s)), s\<lparr>working := add_draft uuid p (working s)\<rparr>)"
    and "profiles_ok (add_draft uuid p (working s))"
    and "get_profile_by_id (next_id (working s)) (add_draft uuid p (working s)) = Some (draft_row uuid p (working s))"
    and "get_active_profile (add_draft uuid p (working s)) = get_active_profile (working s)"
proof -
  have u: "unique_profile_names (add_draft uuid p (working s))"
    using assms(2,3) by (simp add: unique_profile_names_def add_profile_row_def profiles_ok_def db_ok_def keys_ok_def)
  then show "create_draft_profile uuid p s
     = (Inr (draft_row uuid p (working s)), s\<lparr>working := add_draft uuid p (working s)\<rparr>)"
    using assms(1) by (simp add: create_draft_profile_def insert_profile_def run_simps)
      (simp add: add_profile_row_def draft_row_def)
  show "profiles_ok (add_draft uuid p (working s))" using add_profile_ok [OF assms(2) u] .
  have "next_id (working s) \<notin> profile_id ` set (profiles (working s))"
    using assms(2) ids_in_fresh by (fastforce simp: profiles_ok_def db_ok_def ids_below_def)
  then have "find (\<lambda>r. profile_id r = next_id (working s)) (profiles (working s)) = None"
    by (metis (mono_tags, lifting) find_None_all image_eqI)
  then show "get_profile_by_id (next_id (working s)) (add_draft uuid p (working s)) = Some (draft_row uuid p (working s))"
    by (simp add: get_profile_by_id_def add_profile_row_def draft_row_def find_append)
  show "get_active_profile (add_draft uuid p (working s)) = get_active_profile (working s)"
    by (simp add: get_active_profile_def add_profile_row_def find_append split: option.split)
qed

lemma active_row_found:
  assumes "active_ids d = [i]" and "get_profile_by_id i d = Some r" and "distinct (map profile_id (profiles d))"
  shows "get_active_profile d = Some r"
proof -
  obtain x where x: "filter is_active (profiles d) = [x]" "profile_id x = i"
    using assms(1) by (auto simp: active_ids_def map_eq_Cons_conv)
  have sole: "{r \<in> set (profiles d). is_active r} = {x}" using x(1) by (metis list.set(1) list.set(2) set_filter)
  then have mem: "x \<in> set (profiles d)" "is_active x" by auto
  have "r \<in> set (profiles d)" "profile_id r = i"
    using assms(2) by (auto simp: get_profile_by_id_def dest: find_Some_in_set)
  then have "x = r" using distinct_map_inj [OF assms(3) mem(1)] x(2) by simp
  moreover obtain y where y: "find is_active (profiles d) = Some y"
    using mem by (cases "find is_active (profiles d)") (auto simp: find_None_all)
  ultimately show ?thesis
    using find_Some_in_set [OF y] sole y by (auto simp: get_active_profile_def)
qed

text \<open>C18: An uploaded CV comes back as the active profile. The upload stores a draft with the extracted
  data and leaves the active profile as it was; saving any valid profile under the draft's id makes
  it the active one, and reading the profile then gives exactly what was saved. Both writes are
  committed.\<close>

theorem upload_save_read:
  assumes "\<not> tx_aborted s" and "profiles_ok (working s)"
    and "lit ''draft-'' @ uuid \<notin> profile_name ` set (profiles (working s))"
    and "extract_text filename content = Inr cv_text" and "extract_profile cv_text = Inr p"
    and "profile_ok p" and "profile_ok q"
  shows "\<exists>r t r' u. upload_cv extract_text extract_profile uuid (Some filename) content s = (Inr r, t)
     \<and> pr_profile r = p \<and> \<not> pr_is_active r \<and> committed t = working t
     \<and> fst (get_profile t) = fst (get_profile s)
     \<and> put_profile q (Some (pr_id r)) True t = (Inr r', u) \<and> committed u = working u
     \<and> pr_profile r' = q \<and> pr_id r' = pr_id r \<and> get_profile u = (Inr (Some r'), u)"
proof -
  let ?row = "draft_row uuid p (working s)" and ?d = "add_draft uuid p (working s)"
  let ?t = "s\<lparr>working := ?d, committed := ?d\<rparr>"
  note draft = draft_run [OF assms(1-3), of p]
  obtain r where r: "profile_response_of ?row = Inr r" "pr_profile r = p" "\<not> pr_is_active r" "pr_id r = next_id (working s)"
    using assms(6) by (simp add: profile_response_of_def profile_of_row_def draft_row_def check_def)
  have up: "upload_cv extract_text extract_profile uuid (Some filename) content s = (Inr r, ?t)"
    using assms(1,4,5) draft(1) r(1) by (simp add: upload_cv_def run_simps)
  have same: "fst (get_profile ?t) = fst (get_profile s)"
    using assms(1) draft(4) by (cases "get_active_profile (working s)") (auto simp: get_profile_def run_simps split: sum.splits)
  have tx: "\<not> tx_aborted ?t" and ok: "profiles_ok (working ?t)"
    and row: "get_profile_by_id (next_id (working s)) (working ?t) = Some ?row"
    using assms(1) draft(2,3) by simp_all
  from save_and_activate [OF tx row ok, of q] obtain r1 v where
    run: "upsert_profile q (Some (next_id (working s))) True ?t = (Inr r1, v)"
    and v: "active_ids (working v) = [next_id (working s)]" "get_profile_by_id (next_id (working s)) (working v) = Some r1"
      "profile_data r1 = Some q" "profile_id r1 = next_id (working s)" "\<not> tx_aborted v"
      "map profile_id (profiles (working v)) = map profile_id (profiles (working ?t))"
    by blast
  obtain r' where r': "profile_response_of r1 = Inr r'" "pr_profile r' = q" "pr_id r' = next_id (working s)"
    using assms(7) v(3,4) by (simp add: profile_response_of_def profile_of_row_def check_def)
  let ?u = "v\<lparr>committed := working v\<rparr>"
  have put: "put_profile q (Some (pr_id r)) True ?t = (Inr r', ?u)"
    using run r(4) r'(1) v(5) by (simp add: put_profile_def run_simps)
  have "distinct (map profile_id (profiles (working v)))"
    unfolding v(6) using ok by (simp add: profiles_ok_def db_ok_def keys_ok_def)
  from active_row_found [OF v(1,2) this] have got: "get_profile ?u = (Inr (Some r'), ?u)"
    using v(5) r'(1) by (simp add: get_profile_def run_simps)
  show ?thesis
    using up same put got r r' by (intro exI conjI) (assumption | simp)+
qed

lemma upload_save_read_witness:
  "\<exists>r t r' u. upload_cv (\<lambda>_ _. Inr (lit ''text'')) (\<lambda>_. Inr empty_profile) (lit ''7'') (Some (lit ''cv.pdf'')) ()
       (open_session two_profiles) = (Inr r, t)
     \<and> put_profile remote_profile (Some (pr_id r)) True t = (Inr r', u)
     \<and> get_profile u = (Inr (Some r'), u) \<and> pr_profile r' = remote_profile"
proof -
  have "lit ''draft-'' @ lit ''7'' \<notin> profile_name ` set (profiles two_profiles)"
    and ok: "profile_ok empty_profile" "profile_ok remote_profile" by code_simp+
  then show ?thesis
    using upload_save_read [of "open_session two_profiles" "lit ''7''" "\<lambda>_ _. Inr (lit ''text'')" "lit ''cv.pdf''" "()"
        "lit ''text''" "\<lambda>_. Inr empty_profile" empty_profile remote_profile]
    by fastforce
qed

end
