(* ===== verification/Boards.thy ===== *)
theory Boards
  imports Runner Registry
begin

text \<open>
  The job boards with an API or a feed: \<open>solid_jobs.py\<close>, \<open>justjoinit.py\<close>, \<open>nofluffjobs.py\<close>,
  \<open>remoteok.py\<close>, \<open>remotive.py\<close> and \<open>we_work_remotely.py\<close> of \<open>app/connectors\<close>: how each asks for a
  page, finds the postings in the answer and maps one to the fields of an offer. The network is an
  argument of the definitions.
\<close>

section \<open>Library functions\<close>

text \<open>
  \<open>datetime.fromisoformat\<close> and \<open>isoformat\<close>, \<open>email.utils.parsedate_to_datetime\<close>, and \<open>float\<close>.
\<close>

record board_lib =
  from_iso :: "pystr \<Rightarrow> pydt option"
  to_iso :: "pydt \<Rightarrow> pystr"
  parse_rfc2822 :: "pystr \<Rightarrow> pydt option"
  float_of :: "json \<Rightarrow> exn + rat"

section \<open>Building JSON\<close>

fun opt_str :: "pystr option \<Rightarrow> json" where
  "opt_str None = JNull"
| "opt_str (Some s) = JStr s"

fun opt_int :: "int option \<Rightarrow> json" where
  "opt_int None = JNull"
| "opt_int (Some n) = JInt n"

definition currency_of :: "pylib \<Rightarrow> json \<Rightarrow> json" where
  "currency_of L raw = JStr (snd (snd (normalize_salary L None None raw)))"

text \<open>\<open>[str(x) for x in v]\<close>: a string gives its characters, a dictionary its keys.\<close>

definition iter_strs :: "pylib \<Rightarrow> json \<Rightarrow> exn + pystr list" where
  "iter_strs L v =
     (case v of
        JArr xs \<Rightarrow> Inr (map (py_str L) xs)
      | JStr s \<Rightarrow> Inr (map (\<lambda>c. [c]) s)
      | JObj d \<Rightarrow> Inr (map fst d)
      | _ \<Rightarrow> Inl (TypeError (lit ''object is not iterable'')))"

text \<open>\<open>x if x else None\<close> of a joined text, and the truthy values of one key in a list of objects.\<close>

definition joined_or_null :: "pystr list \<Rightarrow> json" where
  "joined_or_null xs = (if xs = [] then JNull else JStr (py_join (lit '', '') xs))"

fun texts_at :: "pylib \<Rightarrow> pystr \<Rightarrow> json list \<Rightarrow> pystr list" where
  "texts_at L k [] = []"
| "texts_at L k (JObj d # js) =
     (if truthy (jget d k) then py_str L (jget d k) # texts_at L k js else texts_at L k js)"
| "texts_at L k (_ # js) = texts_at L k js"

section \<open>SOLID.Jobs\<close>

definition solid_url :: "pylib \<Rightarrow> jdict \<Rightarrow> pystr" where
  "solid_url L config =
     lit ''https://solid.jobs/public-api/offers/'' @ py_str L (jget_default config (lit ''division'') (JStr (lit ''IT'')))"

text \<open>\<open>if v: params[key] = ",".join(str(x) for x in v)\<close>\<close>

definition add_joined :: "pylib \<Rightarrow> pystr \<Rightarrow> json \<Rightarrow> jdict \<Rightarrow> exn + jdict" where
  "add_joined L key v params =
     (if truthy v then bindE (iter_strs L v) (\<lambda>xs. Inr (AList.update key (JStr (py_join (lit '','') xs)) params))
      else Inr params)"

definition solid_params :: "pylib \<Rightarrow> pystr \<Rightarrow> jdict \<Rightarrow> json \<Rightarrow> int \<Rightarrow> exn + jdict" where
  "solid_params L campaign config cursor page_size =
     bindE (add_joined L (lit ''search.cities'') (jget config (lit ''cities''))
       [(lit ''campaign'', JStr campaign), (lit ''pageIndex'', cursor), (lit ''pageSize'', JInt page_size),
        (lit ''sortActive'', JStr (lit ''validFrom'')), (lit ''sortDirection'', JStr (lit ''desc''))]) (\<lambda>params1.
     bindE (add_joined L (lit ''search.experiences'') (jget config (lit ''experience_levels'')) params1) (\<lambda>params2.
     bindE (add_joined L (lit ''search.searchTerm'') (jget config (lit ''terms'')) params2) (\<lambda>params3.
     Inr (if jget config (lit ''min_salary'') = JNull then params3
          else AList.update (lit ''search.minimumSalary'') (jget config (lit ''min_salary'')) params3))))"

text \<open>The cursor is the page index, which starts at 0.\<close>

definition solid_next_cursor :: "json \<Rightarrow> jdict list \<Rightarrow> json \<Rightarrow> int \<Rightarrow> json option" where
  "solid_next_cursor payload ofs cursor page_size =
     (if page_size \<le> int (length ofs) then Some (case cursor of JInt n \<Rightarrow> JInt (n + 1) | c \<Rightarrow> c) else None)"

definition solid_apply_term :: "jdict \<Rightarrow> pystr \<Rightarrow> jdict" where
  "solid_apply_term config trm = AList.update (lit ''terms'') (JArr [JStr trm]) config"

definition solid_map_offer :: "pylib \<Rightarrow> map_offer" where
  "solid_map_offer L sid raw =
     (let salary = dict_or_empty (jget raw (lit ''salary''));
          location = (case jget raw (lit ''locations'') of JArr xs \<Rightarrow> joined_or_null (map (py_str L) xs) | _ \<Rightarrow> JNull) in
      Inr [(lit ''source_id'', JInt sid), (lit ''external_id'', jget raw (lit ''jobOfferKey'')),
           (lit ''canonical_url'', jget raw (lit ''url'')),
           (lit ''title'', py_or (jget raw (lit ''title'')) (JStr [])),
           (lit ''company'', py_or (jget raw (lit ''company'')) (JStr [])),
           (lit ''location'', location),
           (lit ''remote'', JBool (normalize_remote SOLID_JOBS (jget_default raw (lit ''isRemote'') (JBool False)))),
           (lit ''seniority'', opt_str (normalize_seniority SOLID_JOBS (jget raw (lit ''experienceLevel'')))),
           (lit ''salary_min'', jget salary (lit ''from'')), (lit ''salary_max'', jget salary (lit ''to'')),
           (lit ''salary_currency'', currency_of L (jget salary (lit ''currency''))),
           (lit ''contract_type'', jget salary (lit ''employmentType'')),
           (lit ''posted_at'', jget raw (lit ''validFrom'')), (lit ''description'', jget raw (lit ''description''))])"

section \<open>JustJoin.it\<close>

definition justjoin_params :: "jdict \<Rightarrow> json \<Rightarrow> int \<Rightarrow> exn + jdict" where
  "justjoin_params config cursor page_size =
     Inr [(lit ''from'', cursor), (lit ''itemsCount'', JInt page_size)]"

text \<open>\<open>isinstance(x, int)\<close> holds of a \<open>bool\<close> too.\<close>

definition justjoin_next_cursor :: "json \<Rightarrow> jdict list \<Rightarrow> json \<Rightarrow> int \<Rightarrow> json option" where
  "justjoin_next_cursor payload ofs cursor page_size =
     (case payload of
        JObj d \<Rightarrow>
          (case jget d (lit ''meta'') of
             JObj meta \<Rightarrow>
               (case jget meta (lit ''next'') of
                  JObj next_block \<Rightarrow>
                    (case jget next_block (lit ''cursor'') of
                       JInt n \<Rightarrow> Some (JInt n) | JBool b \<Rightarrow> Some (JBool b) | _ \<Rightarrow> None)
                | _ \<Rightarrow> None)
           | _ \<Rightarrow> None)
      | _ \<Rightarrow> None)"

definition first_employment_type :: "jdict \<Rightarrow> jdict" where
  "first_employment_type raw =
     (case jget raw (lit ''employmentTypes'') of JArr (JObj d # _) \<Rightarrow> d | _ \<Rightarrow> [])"

definition justjoin_location :: "pylib \<Rightarrow> jdict \<Rightarrow> json" where
  "justjoin_location L raw =
     py_or (case jget raw (lit ''locations'') of
              JArr (x # xs) \<Rightarrow> JStr (py_join (lit '', '') (texts_at L (lit ''city'') (x # xs)))
            | _ \<Rightarrow> py_or (jget raw (lit ''city'')) JNull) JNull"

definition justjoin_map_offer :: "pylib \<Rightarrow> map_offer" where
  "justjoin_map_offer L sid raw =
     (let primary = first_employment_type raw; slug = jget raw (lit ''slug'') in
      Inr [(lit ''source_id'', JInt sid), (lit ''external_id'', jget raw (lit ''guid'')),
           (lit ''canonical_url'', if truthy slug then JStr (lit ''https://justjoin.it/job-offer/'' @ py_str L slug) else JNull),
           (lit ''title'', py_or (jget raw (lit ''title'')) (JStr [])),
           (lit ''company'', py_or (jget raw (lit ''companyName'')) (JStr [])),
           (lit ''location'', justjoin_location L raw),
           (lit ''remote'', JBool (normalize_remote JUSTJOINIT (jget raw (lit ''workplaceType'')))),
           (lit ''seniority'', opt_str (normalize_seniority JUSTJOINIT (jget raw (lit ''experienceLevel'')))),
           (lit ''salary_min'', opt_int (to_int (jget primary (lit ''from'')))),
           (lit ''salary_max'', opt_int (to_int (jget primary (lit ''to'')))),
           (lit ''salary_currency'', currency_of L (jget primary (lit ''currency''))),
           (lit ''contract_type'', jget primary (lit ''type'')),
           (lit ''posted_at'', jget raw (lit ''publishedAt'')), (lit ''description'', JNull)])"

section \<open>NoFluffJobs\<close>

definition nofluff_params :: "jdict \<Rightarrow> json \<Rightarrow> int \<Rightarrow> exn + jdict" where
  "nofluff_params config cursor page_size =
     Inr [(lit ''pageSize'', JInt page_size), (lit ''salaryCurrency'', JStr (lit ''PLN'')),
          (lit ''salaryPeriod'', JStr (lit ''month''))]"

text \<open>
  \<open>datetime.fromtimestamp(value / 1000, tz=UTC)\<close>, to the nearest microsecond; an instant outside
  the years 1 to 9999 raises.
\<close>

definition from_epoch_ms :: "rat \<Rightarrow> exn + json" where
  "from_epoch_ms v =
     (let us = py_round (v * 1000) in
      if -62135596800000000 \<le> us \<and> us < 253402300800000000 then Inr (JDate (Aware us))
      else Inl (ValueError (lit ''year is out of range'')))"

definition epoch_ms_to_datetime :: "json \<Rightarrow> exn + json" where
  "epoch_ms_to_datetime v =
     (case v of
        JInt n \<Rightarrow> from_epoch_ms (of_int n)
      | JBool b \<Rightarrow> from_epoch_ms (if b then 1 else 0)
      | JFloat q \<Rightarrow> from_epoch_ms q
      | _ \<Rightarrow> Inr JNull)"

definition join_cities :: "pylib \<Rightarrow> jdict \<Rightarrow> json" where
  "join_cities L place =
     (case jget place (lit ''places'') of
        JArr places \<Rightarrow> joined_or_null (texts_at L (lit ''city'') places) | _ \<Rightarrow> JNull)"

definition nofluff_map_offer :: "pylib \<Rightarrow> map_offer" where
  "nofluff_map_offer L sid raw =
     (let location = dict_or_empty (jget raw (lit ''location''));
          salary = dict_or_empty (jget raw (lit ''salary'')); url = jget raw (lit ''url'') in
      bindE (epoch_ms_to_datetime (jget raw (lit ''posted''))) (\<lambda>posted.
      Inr [(lit ''source_id'', JInt sid), (lit ''external_id'', jget raw (lit ''id'')),
           (lit ''canonical_url'', if truthy url then JStr (lit ''https://nofluffjobs.com/job/'' @ py_str L url) else JNull),
           (lit ''title'', py_or (jget raw (lit ''title'')) (JStr [])),
           (lit ''company'', py_or (jget raw (lit ''name'')) (JStr [])),
           (lit ''location'', join_cities L location),
           (lit ''remote'', JBool (normalize_remote NOFLUFFJOBS (jget_default location (lit ''fullyRemote'') (JBool False)))),
           (lit ''seniority'', opt_str (normalize_seniority NOFLUFFJOBS (jget raw (lit ''seniority'')))),
           (lit ''salary_min'', opt_int (to_int (jget salary (lit ''from'')))),
           (lit ''salary_max'', opt_int (to_int (jget salary (lit ''to'')))),
           (lit ''salary_currency'', currency_of L (jget salary (lit ''currency''))),
           (lit ''contract_type'', py_or (jget salary (lit ''type'')) JNull),
           (lit ''posted_at'', posted), (lit ''description'', JNull)]))"

section \<open>RemoteOK\<close>

definition zero_to_none :: "json \<Rightarrow> int option" where
  "zero_to_none v = (case to_int v of Some n \<Rightarrow> if n = 0 then None else Some n | None \<Rightarrow> None)"

text \<open>The first element of the answer is a legal notice.\<close>

definition remoteok_extract :: "json \<Rightarrow> jdict list option" where
  "remoteok_extract payload =
     (case payload of JArr (x # xs) \<Rightarrow> extract_envelope_list (JArr xs) [] True | _ \<Rightarrow> None)"

text \<open>\<open>str(x) if x is not None else None\<close>\<close>

definition str_or_null :: "pylib \<Rightarrow> json \<Rightarrow> json" where
  "str_or_null L v = (if v = JNull then JNull else JStr (py_str L v))"

definition remoteok_map_offer :: "pylib \<Rightarrow> map_offer" where
  "remoteok_map_offer L sid raw =
     Inr [(lit ''source_id'', JInt sid), (lit ''external_id'', str_or_null L (jget raw (lit ''id''))),
          (lit ''canonical_url'', py_or (jget raw (lit ''url'')) (jget raw (lit ''apply_url''))),
          (lit ''title'', py_or (jget raw (lit ''position'')) (JStr [])),
          (lit ''company'', py_or (jget raw (lit ''company'')) (JStr [])),
          (lit ''location'', py_or (jget raw (lit ''location'')) JNull),
          (lit ''remote'', JBool True), (lit ''seniority'', JNull),
          (lit ''salary_min'', opt_int (zero_to_none (jget raw (lit ''salary_min'')))),
          (lit ''salary_max'', opt_int (zero_to_none (jget raw (lit ''salary_max'')))),
          (lit ''salary_currency'', currency_of L (JStr (lit ''USD''))),
          (lit ''contract_type'', JNull),
          (lit ''posted_at'', jget raw (lit ''date'')), (lit ''description'', jget raw (lit ''description'')),
          (lit ''industry_tags'', JArr (case jget raw (lit ''tags'') of JArr tags \<Rightarrow> map (JStr \<circ> py_str L) tags | _ \<Rightarrow> []))]"

section \<open>Remotive\<close>

definition default_categories :: "pystr list" where
  "default_categories = map lit [''software-development'', ''devops'', ''qa'', ''data'']"

definition category_slug_to_name :: "pystr pydict" where
  "category_slug_to_name = lits
     [(''software-development'', ''Software Development''), (''devops'', ''Devops''),
      (''qa'', ''Quality Assurance''), (''data'', ''Data and Analytics'')]"

text \<open>A date without a zone is taken to be UTC; a text that is no date is passed on.\<close>

definition normalize_posted_at :: "board_lib \<Rightarrow> json \<Rightarrow> json" where
  "normalize_posted_at B v =
     (case v of
        JStr s \<Rightarrow>
          if s = [] then JNull
          else (case from_iso B s of
                  None \<Rightarrow> JStr s
                | Some (Aware n) \<Rightarrow> JStr (to_iso B (Aware n))
                | Some (Naive n) \<Rightarrow> JStr (to_iso B (Aware n)))
      | _ \<Rightarrow> JNull)"

text \<open>\<open>list(dict.fromkeys(prefix + tags))\<close>\<close>

definition tags_with_category :: "pylib \<Rightarrow> json \<Rightarrow> pystr list \<Rightarrow> json" where
  "tags_with_category L category tags =
     JArr (map JStr (py_dedup ((if truthy category then [py_str L category] else []) @ tags)))"

fun str_items :: "json list \<Rightarrow> pystr list" where
  "str_items [] = []"
| "str_items (JStr s # js) = s # str_items js"
| "str_items (_ # js) = str_items js"

definition remotive_map_offer :: "pylib \<Rightarrow> board_lib \<Rightarrow> map_offer" where
  "remotive_map_offer L B sid raw =
     (let tags = (case jget raw (lit ''tags'') of JArr js \<Rightarrow> str_items js | _ \<Rightarrow> []) in
      Inr [(lit ''source_id'', JInt sid), (lit ''external_id'', str_or_null L (jget raw (lit ''id''))),
           (lit ''canonical_url'', jget raw (lit ''url'')),
           (lit ''title'', py_or (jget raw (lit ''title'')) (JStr [])),
           (lit ''company'', py_or (jget raw (lit ''company_name'')) (JStr [])),
           (lit ''location'', py_or (jget raw (lit ''candidate_required_location'')) JNull),
           (lit ''remote'', JBool True), (lit ''seniority'', JNull),
           (lit ''salary_min'', JNull), (lit ''salary_max'', JNull),
           (lit ''salary_currency'', currency_of L (JStr (lit ''USD''))),
           (lit ''contract_type'', JNull),
           (lit ''posted_at'', normalize_posted_at B (jget raw (lit ''publication_date''))),
           (lit ''description'', jget raw (lit ''description'')),
           (lit ''industry_tags'', tags_with_category L (jget raw (lit ''category'')) tags)])"

fun allowed_names :: "pystr list \<Rightarrow> pystr list" where
  "allowed_names [] = []"
| "allowed_names (slug # slugs) =
     (case map_of category_slug_to_name slug of None \<Rightarrow> allowed_names slugs | Some n \<Rightarrow> n # allowed_names slugs)"

text \<open>\<open>offer.get("category") in allowed_names\<close>: a list or a dictionary cannot be looked up in a set.\<close>

definition in_names :: "pystr list \<Rightarrow> json \<Rightarrow> exn + bool" where
  "in_names names v =
     (case v of
        JStr s \<Rightarrow> Inr (s \<in> set names)
      | JArr _ \<Rightarrow> Inl (TypeError (lit ''unhashable type''))
      | JObj _ \<Rightarrow> Inl (TypeError (lit ''unhashable type''))
      | _ \<Rightarrow> Inr False)"

fun filter_category :: "pystr list \<Rightarrow> jdict list \<Rightarrow> exn + jdict list" where
  "filter_category names [] = Inr []"
| "filter_category names (o1 # os) =
     bindE (in_names names (jget o1 (lit ''category''))) (\<lambda>b.
     bindE (filter_category names os) (\<lambda>kept. Inr (if b then o1 # kept else kept)))"

definition wanted_categories :: "pylib \<Rightarrow> jdict \<Rightarrow> exn + pystr list" where
  "wanted_categories L config =
     (if truthy (jget config (lit ''categories'')) then iter_strs L (jget config (lit ''categories''))
      else Inr default_categories)"

section \<open>We Work Remotely\<close>

text \<open>An element of \<open>xml.etree\<close>: tag, text before the first child, children.\<close>

datatype xml = Elem (xml_tag: pystr) (xml_text: "pystr option") (xml_children: "xml list")

definition item_fields :: "pystr list" where
  "item_fields = map lit [''title'', ''link'', ''guid'', ''pubDate'', ''region'', ''country'', ''state'',
     ''skills'', ''category'', ''type'', ''description'']"

text \<open>\<open>find\<close> and \<open>findtext(field) or None\<close>\<close>

definition xml_find :: "pystr \<Rightarrow> xml \<Rightarrow> xml option" where
  "xml_find tag e = find (\<lambda>c. xml_tag c = tag) (xml_children e)"

definition find_text_or_none :: "pystr \<Rightarrow> xml \<Rightarrow> json" where
  "find_text_or_none tag e =
     (case xml_find tag e of
        None \<Rightarrow> JNull
      | Some c \<Rightarrow> (case xml_text c of None \<Rightarrow> JNull | Some s \<Rightarrow> if s = [] then JNull else JStr s))"

definition item_to_dict :: "xml \<Rightarrow> jdict" where
  "item_to_dict item = map (\<lambda>f. (f, find_text_or_none f item)) item_fields"

definition extract_rss_items :: "xml \<Rightarrow> jdict list option" where
  "extract_rss_items e =
     map_option (\<lambda>channel. map item_to_dict (filter (\<lambda>c. xml_tag c = lit ''item'') (xml_children channel)))
       (xml_find (lit ''channel'') e)"

text \<open>\<open>raw_title.partition(": ")\<close>: what stands before and after the first separator.\<close>

fun partition_colon :: "pystr \<Rightarrow> (pystr \<times> pystr) option" where
  "partition_colon [] = None"
| "partition_colon (c # cs) =
     (if c = 58 \<and> is_prefix [32] cs then Some ([], tl cs)
      else map_option (\<lambda>(a, b). (c # a, b)) (partition_colon cs))"

definition split_company_and_title :: "pystr \<Rightarrow> pystr \<times> pystr" where
  "split_company_and_title raw_title =
     (case partition_colon raw_title of None \<Rightarrow> ([], raw_title) | Some (a, b) \<Rightarrow> (a, b))"

text \<open>\<open><[^>]+>\<close> is replaced by a space: an opening bracket, something, the next closing bracket.\<close>

function strip_html_tags :: "pystr \<Rightarrow> pystr" where
  "strip_html_tags [] = []"
| "strip_html_tags (c # cs) =
     (if c = 60 \<and> 62 \<in> set cs \<and> hd cs \<noteq> 62
      then 32 # strip_html_tags (tl (dropWhile (\<lambda>d. d \<noteq> 62) cs))
      else c # strip_html_tags cs)"
  by pat_completeness auto
termination
proof (relation "measure length", simp)
  fix c :: nat and cs :: "nat list"
  have "length (tl (dropWhile (\<lambda>d. d \<noteq> 62) cs)) \<le> length cs"
    by (metis diff_le_self dual_order.trans length_dropWhile_le length_tl)
  then show "(tl (dropWhile (\<lambda>d. d \<noteq> 62) cs), c # cs) \<in> measure length" by simp
qed simp

text \<open>A letter of a pattern that ignores case; the long s folds to an s.\<close>

definition same_letter :: "nat \<Rightarrow> nat \<Rightarrow> bool" where
  "same_letter p c \<longleftrightarrow> lower_cp c = p \<or> p = 115 \<and> c = 383"

fun strip_ci :: "pystr \<Rightarrow> pystr \<Rightarrow> pystr option" where
  "strip_ci [] s = Some s"
| "strip_ci (p # ps) [] = None"
| "strip_ci (p # ps) (c # cs) = (if same_letter p c then strip_ci ps cs else None)"

text \<open>\<open>up to\s+(?:usd|us\$|\$)\s*([\d][\d,]*)\<close> at one position: the digits of the group.\<close>

definition strip_currency :: "pystr \<Rightarrow> pystr option" where
  "strip_currency s =
     (case strip_ci (lit ''usd'') s of
        Some r \<Rightarrow> Some r
      | None \<Rightarrow>
          (case strip_ci (lit ''us$'') s of Some r \<Rightarrow> Some r | None \<Rightarrow> strip_ci (lit ''$'') s))"

definition ceiling_here :: "pystr \<Rightarrow> pystr option" where
  "ceiling_here s =
     (case strip_ci (lit ''up to'') s of
        Some (c # r) \<Rightarrow>
          if is_space c then
            (case strip_currency (dropWhile is_space r) of
               Some r' \<Rightarrow>
                 (case dropWhile is_space r' of
                    d # ds \<Rightarrow> if is_digit d then Some (filter is_digit (d # takeWhile (\<lambda>x. is_digit x \<or> x = 44) ds)) else None
                  | [] \<Rightarrow> None)
             | None \<Rightarrow> None)
          else None
      | _ \<Rightarrow> None)"

fun search_ceiling :: "pystr \<Rightarrow> pystr option" where
  "search_ceiling [] = None"
| "search_ceiling (c # cs) =
     (case ceiling_here (c # cs) of Some ds \<Rightarrow> Some ds | None \<Rightarrow> search_ceiling cs)"

text \<open>\<open>int\<close> refuses more than 4300 digits with a \<open>ValueError\<close>, which is caught.\<close>

definition parse_salary_ceiling :: "pystr \<Rightarrow> int option" where
  "parse_salary_ceiling txt =
     (case search_ceiling (strip_html_tags txt) of
        None \<Rightarrow> None
      | Some ds \<Rightarrow> if 4300 < length ds then None else parse_digits 0 False ds)"

fun join_parts :: "json list \<Rightarrow> pystr list \<Rightarrow> pystr list" where
  "join_parts [] acc = acc"
| "join_parts (JStr s # js) acc = join_parts js (if s = [] \<or> s \<in> set acc then acc else acc @ [s])"
| "join_parts (_ # js) acc = join_parts js acc"

definition parse_posted_at :: "board_lib \<Rightarrow> json \<Rightarrow> json" where
  "parse_posted_at B v =
     (case v of
        JStr s \<Rightarrow> if s = [] then JNull else (case parse_rfc2822 B s of None \<Rightarrow> JNull | Some t \<Rightarrow> JStr (to_iso B t))
      | _ \<Rightarrow> JNull)"

text \<open>A value of an item is a text or null; \<open>str_of\<close> reads null as the empty text.\<close>

fun str_of :: "json \<Rightarrow> pystr" where
  "str_of (JStr s) = s"
| "str_of _ = []"

fun split_commas :: "pystr \<Rightarrow> pystr \<Rightarrow> pystr list" where
  "split_commas acc [] = [rev acc]"
| "split_commas acc (c # cs) = (if c = 44 then rev acc # split_commas [] cs else split_commas (c # acc) cs)"

definition wwr_map_offer :: "pylib \<Rightarrow> board_lib \<Rightarrow> map_offer" where
  "wwr_map_offer L B sid raw =
     (let (company, job_title) = split_company_and_title (str_of (jget raw (lit ''title'')));
          skills = filter (\<lambda>s. s \<noteq> []) (map py_strip (split_commas [] (str_of (jget raw (lit ''skills''))))) in
      Inr [(lit ''source_id'', JInt sid), (lit ''external_id'', py_or (jget raw (lit ''guid'')) JNull),
           (lit ''canonical_url'', jget raw (lit ''link'')),
           (lit ''title'', JStr job_title), (lit ''company'', JStr company),
           (lit ''location'', joined_or_null (join_parts
              [jget raw (lit ''region''), jget raw (lit ''country''), jget raw (lit ''state'')] [])),
           (lit ''remote'', JBool True), (lit ''seniority'', JNull),
           (lit ''salary_min'', JNull),
           (lit ''salary_max'', opt_int (parse_salary_ceiling (str_of (jget raw (lit ''description''))))),
           (lit ''salary_currency'', currency_of L (JStr (lit ''USD''))),
           (lit ''contract_type'', JNull),
           (lit ''posted_at'', parse_posted_at B (jget raw (lit ''pubDate''))),
           (lit ''description'', jget raw (lit ''description'')),
           (lit ''industry_tags'', tags_with_category L (jget raw (lit ''category'')) skills)])"

end
