(* ===== verification/Connectors.thy ===== *)
theory Connectors
  imports Boards
begin

text \<open>
  \<open>app/connectors/base.py\<close>: the template every board with an API fills in, and the six boards
  of \<open>Boards\<close> as connectors (the feed of We Work Remotely goes to the loop directly, Remotive
  has a \<open>fetch_page\<close> of its own). Every run is one or more runs of the pagination loop.
\<close>

section \<open>The hooks of a board\<close>

text \<open>
  A fetch gets the number of the call, since what the network answers is not a function of the
  address; it raises \<open>BlockedFetchError\<close> or gives \<open>None\<close> when it fails.
\<close>

type_synonym net = "nat \<Rightarrow> pystr \<Rightarrow> jdict \<Rightarrow> pystr pydict \<Rightarrow> exn + json option"

record api_hooks =
  api_url :: "jdict \<Rightarrow> pystr"
  api_headers :: "pystr pydict"
  api_params :: "jdict \<Rightarrow> json \<Rightarrow> int \<Rightarrow> exn + jdict"
  api_extract :: "json \<Rightarrow> jdict list option"
  api_next :: "json \<Rightarrow> jdict list \<Rightarrow> json \<Rightarrow> int \<Rightarrow> json option"

record board =
  board_name :: pystr
  board_fetch :: "net \<Rightarrow> jdict \<Rightarrow> int \<Rightarrow> json fetch_page"
  board_kwargs :: "jdict \<Rightarrow> runner_args \<Rightarrow> exn + runner_args"
  board_apply_term :: "(jdict \<Rightarrow> pystr \<Rightarrow> jdict) option"
  board_map :: map_offer

definition build_url :: "pylib \<Rightarrow> pystr \<Rightarrow> jdict \<Rightarrow> pystr" where
  "build_url L default_url config = py_str L (jget_default config (lit ''endpoint_url'') (JStr default_url))"

text \<open>\<open>page_size\<close> is the number of the configuration, which may be negative.\<close>

definition template_fetch_page :: "api_hooks \<Rightarrow> net \<Rightarrow> jdict \<Rightarrow> int \<Rightarrow> json fetch_page" where
  "template_fetch_page h net config page_size p cursor n =
     (let c = (case cursor of None \<Rightarrow> JNull | Some j \<Rightarrow> j) in
      bindE (api_params h config c page_size) (\<lambda>params.
      bindE (net p (api_url h config) params (api_headers h)) (\<lambda>payload.
      case payload of
        None \<Rightarrow> Inr None
      | Some js \<Rightarrow>
          (case api_extract h js of
             None \<Rightarrow> Inr None
           | Some ofs \<Rightarrow> Inr (Some (ofs, api_next h js ofs c page_size))))))"

text \<open>Remotive fetches once and keeps the postings of the configured categories.\<close>

definition remotive_fetch_page :: "pylib \<Rightarrow> net \<Rightarrow> jdict \<Rightarrow> int \<Rightarrow> json fetch_page" where
  "remotive_fetch_page L net config page_size p cursor n =
     bindE (wanted_categories L config) (\<lambda>categories.
     bindE (net p (lit ''https://remotive.com/api/remote-jobs'') [] []) (\<lambda>payload.
     case payload of
       None \<Rightarrow> Inr None
     | Some js \<Rightarrow>
         (case extract_envelope_list js (lit ''jobs'') True of
            None \<Rightarrow> Inr None
          | Some ofs \<Rightarrow>
              bindE (filter_category (allowed_names categories) ofs) (\<lambda>kept. Inr (Some (kept, None))))))"

section \<open>The boards\<close>

definition no_kwargs :: "jdict \<Rightarrow> runner_args \<Rightarrow> exn + runner_args" where
  "no_kwargs config A = Inr A"

text \<open>JustJoin.it adds a delay between pages, whose value \<open>float\<close> has to accept.\<close>

definition justjoin_kwargs :: "board_lib \<Rightarrow> jdict \<Rightarrow> runner_args \<Rightarrow> exn + runner_args" where
  "justjoin_kwargs B config A =
     bindE (float_of B (jget_default config (lit ''rate_limit_delay_seconds'') (JFloat 1))) (\<lambda>_. Inr A)"

definition nofluff_kwargs :: "jdict \<Rightarrow> runner_args \<Rightarrow> exn + runner_args" where
  "nofluff_kwargs config A = Inr (A\<lparr>arg_max_pages := 1, arg_threshold := 1\<rparr>)"

definition solid_jobs_board :: "pylib \<Rightarrow> pystr \<Rightarrow> board" where
  "solid_jobs_board L campaign =
     \<lparr>board_name = lit ''SOLID.Jobs'',
      board_fetch = template_fetch_page
        \<lparr>api_url = solid_url L, api_headers = [(lit ''X-Api-Version'', lit ''1.0'')],
         api_params = solid_params L campaign,
         api_extract = (\<lambda>js. extract_envelope_list js (lit ''jobs'') True), api_next = solid_next_cursor\<rparr>,
      board_kwargs = no_kwargs, board_apply_term = Some solid_apply_term, board_map = solid_map_offer L\<rparr>"

definition justjoinit_board :: "pylib \<Rightarrow> board_lib \<Rightarrow> board" where
  "justjoinit_board L B =
     \<lparr>board_name = lit ''JustJoin.it'',
      board_fetch = template_fetch_page
        \<lparr>api_url = build_url L (lit ''https://justjoin.it/api/candidate-api/offers''), api_headers = [],
         api_params = justjoin_params,
         api_extract = (\<lambda>js. extract_envelope_list js (lit ''data'') True), api_next = justjoin_next_cursor\<rparr>,
      board_kwargs = justjoin_kwargs B, board_apply_term = None, board_map = justjoin_map_offer L\<rparr>"

definition nofluffjobs_board :: "pylib \<Rightarrow> board" where
  "nofluffjobs_board L =
     \<lparr>board_name = lit ''NoFluffJobs'',
      board_fetch = template_fetch_page
        \<lparr>api_url = build_url L (lit ''https://nofluffjobs.com/api/joboffers/main''), api_headers = [],
         api_params = nofluff_params,
         api_extract = (\<lambda>js. extract_envelope_list js (lit ''postings'') False),
         api_next = (\<lambda>_ _ _ _. None)\<rparr>,
      board_kwargs = nofluff_kwargs, board_apply_term = None, board_map = nofluff_map_offer L\<rparr>"

definition remoteok_board :: "pylib \<Rightarrow> board" where
  "remoteok_board L =
     \<lparr>board_name = lit ''RemoteOK'',
      board_fetch = template_fetch_page
        \<lparr>api_url = build_url L (lit ''https://remoteok.com/api''), api_headers = [],
         api_params = (\<lambda>_ _ _. Inr []), api_extract = remoteok_extract, api_next = (\<lambda>_ _ _ _. None)\<rparr>,
      board_kwargs = no_kwargs, board_apply_term = None, board_map = remoteok_map_offer L\<rparr>"

definition remotive_board :: "pylib \<Rightarrow> board_lib \<Rightarrow> board" where
  "remotive_board L B =
     \<lparr>board_name = lit ''Remotive'', board_fetch = remotive_fetch_page L,
      board_kwargs = no_kwargs, board_apply_term = None, board_map = remotive_map_offer L B\<rparr>"

section \<open>A run\<close>

text \<open>The arguments of the loop that \<open>run\<close> reads from the configuration of the source.\<close>

definition config_args :: "pylib \<Rightarrow> pystr \<Rightarrow> jdict \<Rightarrow> bool \<Rightarrow> int \<Rightarrow> int \<Rightarrow> int \<Rightarrow> runner_args" where
  "config_args L name config force page_size max_pages threshold =
     (let (since, until) = resolve_fetch_range L (jget config (lit ''fetch_range'')) in
      \<lparr>arg_source_name = name, arg_page_size = nat page_size, arg_max_pages = nat max_pages,
       arg_threshold = nat threshold, arg_force_refresh = force, arg_since = since,
       arg_until = until, arg_sorted_by_recency = True\<rparr>)"

definition base_kwargs :: "pylib \<Rightarrow> board \<Rightarrow> jdict \<Rightarrow> bool \<Rightarrow> exn + int \<times> runner_args" where
  "base_kwargs L b config force =
     bindE (py_int (jget_default config (lit ''page_size'') (JInt 100))) (\<lambda>ps.
     bindE (py_int (jget_default config (lit ''max_pages'') (JInt 100))) (\<lambda>mp.
     bindE (py_int (jget_default config (lit ''already_seen_stop_threshold'') (JInt 20))) (\<lambda>th.
     bindE (board_kwargs b config (config_args L (board_name b) config force ps mp th)) (\<lambda>A.
     Inr (ps, A)))))"

text \<open>
  The runs of a filtered scope, one for each term: the totals are summed, and the first run that
  fails ends them with its message.
\<close>

definition failed_run :: "nat \<Rightarrow> nat \<Rightarrow> pystr option \<Rightarrow> ingestion_result" where
  "failed_run fetched created message = \<lparr>res_ok = False, res_fetched = fetched, res_created = created,
     res_error_message = message, res_blocked_status = None\<rparr>"

fun run_terms :: "(nat \<Rightarrow> pystr \<Rightarrow> ingestion_result op) \<Rightarrow> nat \<Rightarrow> pystr list \<Rightarrow> nat \<Rightarrow> nat \<Rightarrow> ingestion_result op" where
  "run_terms run i [] fetched created = retS (finished fetched created)"
| "run_terms run i (trm # trms) fetched created =
     bindS (run i trm) (\<lambda>r.
     let fetched1 = fetched + res_fetched r; created1 = created + res_created r in
     if \<not> res_ok r then retS (failed_run fetched1 created1 (res_error_message r))
     else run_terms run (i + 1) trms fetched1 created1)"

definition run_board_pages ::
    "pylib \<Rightarrow> board \<Rightarrow> net \<Rightarrow> (nat \<Rightarrow> nat \<Rightarrow> int) \<Rightarrow> int \<Rightarrow> jdict \<Rightarrow> int \<Rightarrow> runner_args \<Rightarrow> ingestion_result op" where
  "run_board_pages L b net now sid config page_size A =
     run_paginated_ingestion L sid (board_fetch b net config page_size) (board_map b) (Some (JInt 0)) A now"

text \<open>\<open>run\<close>: \<open>nets\<close> and \<open>nows\<close> give the network and the clock of each run of the loop.\<close>

definition board_run ::
    "pylib \<Rightarrow> board \<Rightarrow> (nat \<Rightarrow> net) \<Rightarrow> (nat \<Rightarrow> nat \<Rightarrow> nat \<Rightarrow> int) \<Rightarrow> source_row \<Rightarrow> bool \<Rightarrow> ingestion_result op" where
  "board_run L b nets nows source force =
     (let config = src_config source; sid = src_id source in
      bindS (liftE (base_kwargs L b config force)) (\<lambda>(page_size, A).
      case board_apply_term b of
        None \<Rightarrow> run_board_pages L b (nets 0) (nows 0) sid config page_size A
      | Some apply_term \<Rightarrow>
          bindS (resolve_fetch_scope_terms config) (\<lambda>scope.
          if scope_blocked_reason scope \<noteq> None
          then retS (failed_run 0 0 (scope_blocked_reason scope))
          else if scope_mode scope = ScopeFiltered then
            run_terms (\<lambda>i trm. run_board_pages L b (nets i) (nows i) sid (apply_term config trm) page_size A)
              0 (scope_terms scope) 0 0
          else run_board_pages L b (nets 0) (nows 0) sid config page_size A)))"

section \<open>The feed of We Work Remotely\<close>

definition wwr_fetch_page :: "(nat \<Rightarrow> exn + xml option) \<Rightarrow> unit fetch_page" where
  "wwr_fetch_page fetch_xml p cursor n =
     bindE (fetch_xml p) (\<lambda>answer.
     case answer of
       None \<Rightarrow> Inr None
     | Some e \<Rightarrow> Inr (map_option (\<lambda>items. (items, None)) (extract_rss_items e)))"

definition run_we_work_remotely_ingestion ::
    "pylib \<Rightarrow> board_lib \<Rightarrow> (nat \<Rightarrow> exn + xml option) \<Rightarrow> (nat \<Rightarrow> nat \<Rightarrow> int) \<Rightarrow> source_row \<Rightarrow> bool \<Rightarrow> ingestion_result op" where
  "run_we_work_remotely_ingestion L B fetch_xml now source force =
     (let config = src_config source in
      bindS (liftE (py_int (jget_default config (lit ''already_seen_stop_threshold'') (JInt 20)))) (\<lambda>th.
      run_paginated_ingestion L (src_id source) (wwr_fetch_page fetch_xml) (wwr_map_offer L B) (Some ())
        (config_args L (lit ''We Work Remotely'') config force 1 1 th) now))"

section \<open>Every mapping keeps the source\<close>

text \<open>
  What a run relies on: an offer made from a posting of a board names the source the run is for.
\<close>

locale job_board =
  fixes mapping :: map_offer
  assumes own_source: "mapping sid raw = Inr mapped \<Longrightarrow> jget mapped (lit ''source_id'') = JInt sid"
begin

lemma valid_offer_source:
  assumes "mapping sid raw = Inr mapped" and "offer_model_validate L mapped = Inr o1"
    and "as_int L (JInt sid) = Some sid"
  shows "source_id o1 = sid"
proof -
  have "map_of mapped (lit ''source_id'') = Some (JInt sid)"
    using own_source [OF assms(1)] by (auto simp: jget_def split: option.splits)
  then have "req_field (as_int L) mapped (lit ''source_id'') = Inr sid"
    using assms(3) by (simp add: req_field_def)
  then show ?thesis
    using assms(2) by (auto simp: offer_model_validate_def offer_fields_def bindE_Inr_iff)
qed

lemma feed_row_source:
  assumes "from_feed L mapping sid A r" and "as_int L (JInt sid) = Some sid"
  shows "source_id r = sid"
proof -
  from assms(1) obtain mapped now o1 n h where "mapping sid (raw_payload r) = Inr mapped"
    "offer_model_validate L mapped = Inr o1" "r = new_offer_row L n h (raw_payload r) now o1"
    unfolding from_feed_def by blast
  with valid_offer_source [OF this(1,2) assms(2)] show ?thesis
    by (metis new_offer_row_simps)
qed

end

interpretation solid: job_board "solid_map_offer L" for L
  by unfold_locales (auto simp: solid_map_offer_def Let_def jget_def)

interpretation justjoin: job_board "justjoin_map_offer L" for L
  by unfold_locales (auto simp: justjoin_map_offer_def Let_def jget_def)

interpretation nofluff: job_board "nofluff_map_offer L" for L
  by unfold_locales (auto simp: nofluff_map_offer_def Let_def jget_def bindE_Inr_iff)

interpretation remoteok: job_board "remoteok_map_offer L" for L
  by unfold_locales (auto simp: remoteok_map_offer_def jget_def)

interpretation remotive: job_board "remotive_map_offer L B" for L B
  by unfold_locales (auto simp: remotive_map_offer_def Let_def jget_def)

interpretation wwr: job_board "wwr_map_offer L B" for L B
  by unfold_locales (auto simp: wwr_map_offer_def Let_def jget_def split: prod.splits)

definition api_boards :: "pylib \<Rightarrow> board_lib \<Rightarrow> pystr \<Rightarrow> board list" where
  "api_boards L B campaign =
     [solid_jobs_board L campaign, justjoinit_board L B, nofluffjobs_board L, remoteok_board L, remotive_board L B]"

lemma api_board_map: "b \<in> set (api_boards L B campaign) \<Longrightarrow> job_board (board_map b)"
  by (auto simp: api_boards_def solid_jobs_board_def justjoinit_board_def nofluffjobs_board_def
      remoteok_board_def remotive_board_def
      intro: solid.job_board_axioms justjoin.job_board_axioms nofluff.job_board_axioms
        remoteok.job_board_axioms remotive.job_board_axioms)

section \<open>What a run stores\<close>

lemma run_paginated_appended:
  assumes "run_paginated_ingestion L sid fp m cursor A now s = (Inr res, t)"
  shows "appended L m sid A s t (res_created res) \<and> res_created res \<le> res_fetched res"
  using run_pages_accounting [OF assms [unfolded run_paginated_ingestion_def]] by auto

lemma run_terms_appended:
  assumes "\<And>i trm s r u. run i trm s = (Inr r, u) \<Longrightarrow>
      appended L m sid A s u (res_created r) \<and> res_created r \<le> res_fetched r"
    and "run_terms run i trms fetched created s = (Inr res, t)" and "created \<le> fetched"
  shows "\<exists>k. res_created res = created + k \<and> appended L m sid A s t k \<and> res_created res \<le> res_fetched res"
  using assms(2,3)
proof (induction trms arbitrary: i fetched created s)
  case Nil
  then show ?case by (auto intro!: exI [of _ 0])
next
  case (Cons trm trms)
  from Cons.prems(1) obtain r u where r: "run i trm s = (Inr r, u)"
    and k: "(if \<not> res_ok r then retS (failed_run (fetched + res_fetched r) (created + res_created r) (res_error_message r))
      else run_terms run (i + 1) trms (fetched + res_fetched r) (created + res_created r)) u = (Inr res, t)"
    by (auto simp: Let_def elim!: bindS_InrE)
  from assms(1) [OF r] have a: "appended L m sid A s u (res_created r)" "res_created r \<le> res_fetched r" by auto
  show ?case
  proof (cases "res_ok r")
    case False
    with k a Cons.prems(2) show ?thesis by (auto simp: failed_run_def)
  next
    case True
    with k have "run_terms run (i + 1) trms (fetched + res_fetched r) (created + res_created r) u = (Inr res, t)"
      by simp
    from Cons.IH [OF this] a(2) Cons.prems(2) obtain j where
      "res_created res = created + res_created r + j" "appended L m sid A u t j" "res_created res \<le> res_fetched res"
      by auto
    with appended_trans [OF a(1)] show ?thesis by (auto intro!: exI [of _ "res_created r + j"])
  qed
qed

lemma appended_range:
  assumes "appended L m sid A s t n" and "arg_since A = arg_since A'" and "arg_until A = arg_until A'"
  shows "appended L m sid A' s t n"
proof -
  have "from_feed L m sid A = from_feed L m sid A'"
    using assms(2,3) by (intro ext) (simp add: from_feed_def)
  with assms(1) show ?thesis by (simp add: appended_def)
qed

lemma config_args_range [simp]:
  "arg_since (config_args L n config force ps mp th) = fst (resolve_fetch_range L (jget config (lit ''fetch_range'')))"
  "arg_until (config_args L n config force ps mp th) = snd (resolve_fetch_range L (jget config (lit ''fetch_range'')))"
  by (simp_all add: config_args_def split: prod.splits)

lemma api_board_kwargs:
  assumes "b \<in> set (api_boards L B campaign)" and "board_kwargs b config A = Inr A'"
  shows "arg_since A' = arg_since A" "arg_until A' = arg_until A"
  using assms
  by (auto simp: api_boards_def solid_jobs_board_def justjoinit_board_def nofluffjobs_board_def
      remoteok_board_def remotive_board_def no_kwargs_def justjoin_kwargs_def nofluff_kwargs_def bindE_Inr_iff)

lemma base_kwargs_range:
  assumes "base_kwargs L b config force = Inr (ps, A)" and "b \<in> set (api_boards L B campaign)"
  shows "arg_since A = fst (resolve_fetch_range L (jget config (lit ''fetch_range'')))"
    and "arg_until A = snd (resolve_fetch_range L (jget config (lit ''fetch_range'')))"
proof -
  from assms(1) obtain ps' mp th where
    "board_kwargs b config (config_args L (board_name b) config force ps' mp th) = Inr A"
    by (auto simp: base_kwargs_def bindE_Inr_iff)
  from api_board_kwargs [OF assms(2) this]
  show "arg_since A = fst (resolve_fetch_range L (jget config (lit ''fetch_range'')))"
    and "arg_until A = snd (resolve_fetch_range L (jget config (lit ''fetch_range'')))" by simp_all
qed

lemma query_state: "query f s = (Inr x, t) \<Longrightarrow> t = s"
  by (auto simp: query_def split: if_splits)

lemma fetch_scope_state: "resolve_fetch_scope_terms config s = (Inr scope, t) \<Longrightarrow> t = s"
  by (auto simp: resolve_fetch_scope_terms_def split: if_splits option.splits elim!: bindS_InrE dest!: query_state)

lemma run_board_pages_appended:
  assumes "run_board_pages L b net now sid config ps A s = (Inr res, t)"
  shows "appended L (board_map b) sid A s t (res_created res) \<and> res_created res \<le> res_fetched res"
  using run_paginated_appended assms unfolding run_board_pages_def by blast

lemma board_run_appended:
  assumes "board_run L b nets nows source force s = (Inr res, t)"
  shows "\<exists>ps A. base_kwargs L b (src_config source) force = Inr (ps, A)
    \<and> appended L (board_map b) (src_id source) A s t (res_created res) \<and> res_created res \<le> res_fetched res"
proof -
  let ?c = "src_config source" and ?sid = "src_id source"
  from assms obtain ps A where A: "base_kwargs L b ?c force = Inr (ps, A)"
    and k: "(case board_apply_term b of
        None \<Rightarrow> run_board_pages L b (nets 0) (nows 0) ?sid ?c ps A
      | Some apply_term \<Rightarrow>
          bindS (resolve_fetch_scope_terms ?c) (\<lambda>scope.
          if scope_blocked_reason scope \<noteq> None then retS (failed_run 0 0 (scope_blocked_reason scope))
          else if scope_mode scope = ScopeFiltered then
            run_terms (\<lambda>i trm. run_board_pages L b (nets i) (nows i) ?sid (apply_term ?c trm) ps A)
              0 (scope_terms scope) 0 0
          else run_board_pages L b (nets 0) (nows 0) ?sid ?c ps A)) s = (Inr res, t)"
    by (auto simp: board_run_def Let_def elim!: bindS_InrE)
  have "appended L (board_map b) ?sid A s t (res_created res) \<and> res_created res \<le> res_fetched res"
  proof (cases "board_apply_term b")
    case None
    with k show ?thesis by (auto dest: run_board_pages_appended)
  next
    case (Some apply_term)
    define rest where "rest = (\<lambda>scope :: fetch_scope_resolution. if scope_blocked_reason scope \<noteq> None then retS (failed_run 0 0 (scope_blocked_reason scope))
          else if scope_mode scope = ScopeFiltered then
            run_terms (\<lambda>i trm. run_board_pages L b (nets i) (nows i) ?sid (apply_term ?c trm) ps A)
              0 (scope_terms scope) 0 0
          else run_board_pages L b (nets 0) (nows 0) ?sid ?c ps A)"
    from k Some have "bindS (resolve_fetch_scope_terms ?c) rest s = (Inr res, t)"
      by (simp add: rest_def)
    then obtain scope u where "resolve_fetch_scope_terms ?c s = (Inr scope, u)" "rest scope u = (Inr res, t)"
      by (rule bindS_InrE)
    then have r: "rest scope s = (Inr res, t)" by (auto dest: fetch_scope_state)
    show ?thesis
    proof (cases "scope_blocked_reason scope = None \<and> scope_mode scope = ScopeFiltered")
      case True
      then have "run_terms (\<lambda>i trm. run_board_pages L b (nets i) (nows i) ?sid (apply_term ?c trm) ps A)
          0 (scope_terms scope) 0 0 s = (Inr res, t)"
        using r by (simp add: rest_def)
      from run_terms_appended [OF run_board_pages_appended this] show ?thesis by auto
    next
      case False
      with r show ?thesis
        by (auto simp: rest_def failed_run_def split: if_splits dest: run_board_pages_appended)
    qed
  qed
  with A show ?thesis by blast
qed

text \<open>C30: A run of a board with an API accounts for its work, over one feed or one search term after
  another: the table grows by as many offers as the run reports, no more than it fetched, and every
  new row is of its source, comes from a posting the board's mapping gives, and was posted within
  the fetch range of the source's settings.\<close>

theorem board_run_accounts:
  assumes "b \<in> set (api_boards L B campaign)" and "as_int L (JInt (src_id source)) = Some (src_id source)"
    and "board_run L b nets nows source force s = (Inr res, t)"
  shows "\<exists>new. offers (working t) = offers (working s) @ new \<and> length new = res_created res
    \<and> res_created res \<le> res_fetched res
    \<and> (\<forall>r\<in>set new. source_id r = src_id source
        \<and> (\<exists>mapped now. board_map b (src_id source) (raw_payload r) = Inr mapped
            \<and> (case resolve_fetch_range L (jget (src_config source) (lit ''fetch_range'')) of (since, until) \<Rightarrow>
                outside_range since until (effective_date L mapped now) = Inr False)))"
proof -
  from board_run_appended [OF assms(3)] obtain ps A where A: "base_kwargs L b (src_config source) force = Inr (ps, A)"
    and app: "appended L (board_map b) (src_id source) A s t (res_created res)" and le: "res_created res \<le> res_fetched res"
    by blast
  from app obtain new where new: "offers (working t) = offers (working s) @ new" "length new = res_created res"
    and feed: "\<And>r. r \<in> set new \<Longrightarrow> from_feed L (board_map b) (src_id source) A r"
    unfolding appended_def list_all_iff by blast
  have "source_id r = src_id source" if "r \<in> set new" for r
    using job_board.feed_row_source [OF api_board_map [OF assms(1)] feed [OF that] assms(2)] .
  with new le feed show ?thesis
    unfolding from_feed_def base_kwargs_range [OF A assms(1)] by (fastforce split: prod.splits)
qed

lemma keeps_resolve_fetch_scope_terms [keeps_intros]: "keeps I (resolve_fetch_scope_terms config)"
  by (auto simp: resolve_fetch_scope_terms_def intro!: keeps_intros)

lemma keeps_run_terms:
  assumes "\<And>i trm. keeps I (run i trm)"
  shows "keeps I (run_terms run i trms fetched created)"
proof (induction trms arbitrary: i fetched created)
  case (Cons trm trms)
  then show ?case by (auto simp: Let_def intro!: keeps_intros assms)
qed (simp add: keeps_retS)

lemma keeps_run_paginated: "keeps store_ok (run_paginated_ingestion L sid fp m cursor A now)"
  unfolding run_paginated_ingestion_def
  by (rule keeps_run_pages [OF keeps_store_ingest keeps_store_record])

lemma keeps_board_run: "keeps store_ok (board_run L b nets nows source force)"
  by (auto simp: board_run_def run_board_pages_def Let_def split: prod.splits
      intro!: keeps_intros keeps_run_terms keeps_run_paginated)

text \<open>A fetch that is blocked on the first page of a filtered run fails the run without the
  status of the block, which the same fetch of an unfiltered run reports.\<close>

theorem filtered_run_hides_block:
  assumes "board_apply_term b = Some apply_term" and "base_kwargs L b config force = Inr (ps, A)"
    and "0 < arg_max_pages A" and "src_config source = config"
    and "resolve_fetch_scope_terms config s
      = (Inr \<lparr>scope_mode = ScopeFiltered, scope_terms = trm # trms, scope_blocked_reason = None\<rparr>, s)"
    and "\<And>n. board_fetch b (nets 0) (apply_term config trm) ps 0 (Some (JInt 0)) n = Inl (BlockedFetchError code)"
  shows "(\<exists>res. board_run L b nets nows source force s = (Inr res, s) \<and> \<not> res_ok res
      \<and> res_blocked_status res = None)
    \<and> (\<exists>res. run_board_pages L b (nets 0) now sid (apply_term config trm) ps A s = (Inr res, s)
      \<and> \<not> res_ok res \<and> res_blocked_status res = Some code)"
proof -
  obtain n where n: "arg_max_pages A = Suc n" using assms(3) by (cases "arg_max_pages A") auto
  have one: "run_board_pages L b (nets 0) now sid (apply_term config trm) ps A s
      = (Inr \<lparr>res_ok = False, res_fetched = 0, res_created = 0,
          res_error_message = Some (lit ''failed to fetch '' @ arg_source_name A @ lit '' offers''),
          res_blocked_status = Some code\<rparr>, s)" for now sid
    by (simp add: run_board_pages_def run_paginated_ingestion_def n assms(6) fetch_or_blocked_def run_simps)
  show ?thesis
    by (simp add: board_run_def Let_def liftE_def retS_def assms(1,2,4,5) one bindS_def failed_run_def)
qed

section \<open>Concrete runs\<close>

definition sample_board_lib :: board_lib where
  "sample_board_lib = \<lparr>from_iso = (\<lambda>_. None), to_iso = (\<lambda>_. []), parse_rfc2822 = (\<lambda>_. None),
     float_of = (\<lambda>_. Inr 0)\<rparr>"

definition sample_source :: "jdict \<Rightarrow> source_row" where
  "sample_source config = \<lparr>src_id = 1, src_name = lit ''A'', src_connector = None, src_config = config,
     src_last_fetched_at = None\<rparr>"

text \<open>RemoteOK answers with its notice and one posting.\<close>

definition remoteok_net :: net where
  "remoteok_net p address params headers =
     Inr (Some (JArr [JObj [(lit ''legal'', JStr (lit ''notice''))],
       JObj [(lit ''position'', JStr (lit ''D'')), (lit ''company'', JStr (lit ''A''))]]))"

definition one_page_config :: jdict where
  "one_page_config = [(lit ''max_pages'', JInt 1)]"

definition blocked_net :: net where
  "blocked_net p address params headers = Inl (BlockedFetchError 403)"

definition filtered_config :: jdict where
  "filtered_config = [(lit ''fetch_scope'', JObj [(lit ''mode'', JStr (lit ''filtered''))])]"

definition skilled_profile :: profile where
  "skilled_profile = empty_profile\<lparr>skills := [\<lparr>skill_name = lit ''python'', skill_category = None, skill_hard = True\<rparr>]\<rparr>"

lemma skilled_skills: "skills skilled_profile = [\<lparr>skill_name = lit ''python'', skill_category = None, skill_hard = True\<rparr>]"
  by (simp add: skilled_profile_def)

definition skilled_db :: db where
  "skilled_db = empty_db\<lparr>next_id := 5,
     profiles := [\<lparr>profile_id = 1, profile_name = lit ''a'', profile_status = lit ''active'',
                   is_active = True, profile_data = Some skilled_profile\<rparr>]\<rparr>"

theorem board_run_accounts_witness:
  "\<exists>r t. offers (working t) = [r] \<and> source_id r = 1 \<and>
     board_run sample_lib (remoteok_board sample_lib) (\<lambda>_. remoteok_net) (\<lambda>_ _ _. 0) (sample_source one_page_config)
       False (open_session sample_db) = (Inr (finished 1 1), t)"
proof -
  let ?run = "board_run sample_lib (remoteok_board sample_lib) (\<lambda>_. remoteok_net) (\<lambda>_ _ _. 0) (sample_source one_page_config)
       False (open_session sample_db)"
  have "fst ?run = Inr (finished 1 1)" by code_simp
  then obtain t where run: "?run = (Inr (finished 1 1), t)" by (metis prod.collapse)
  have "remoteok_board sample_lib \<in> set (api_boards sample_lib sample_board_lib [])"
    by (simp add: api_boards_def)
  from board_run_accounts [OF this _ run] obtain new where
    "offers (working t) = offers (working (open_session sample_db)) @ new" "length new = 1"
    "\<forall>r\<in>set new. source_id r = 1"
    by (auto simp: sample_source_def sample_lib_def)
  moreover have "offers (working (open_session sample_db)) = []"
    by (simp add: open_session_def sample_db_def empty_db_def)
  ultimately obtain r where "offers (working t) = [r]" "source_id r = 1"
    by (auto simp: length_Suc_conv)
  with run show ?thesis by (intro exI conjI)
qed

theorem filtered_run_hides_block_witness:
  "\<exists>res. board_run sample_lib (solid_jobs_board sample_lib []) (\<lambda>_. blocked_net) (\<lambda>_ _ _. 0)
       (sample_source filtered_config) False (open_session skilled_db) = (Inr res, open_session skilled_db)
     \<and> res_blocked_status res = None"
proof -
  let ?b = "solid_jobs_board sample_lib []"
  obtain ps A where A: "base_kwargs sample_lib ?b filtered_config False = Inr (ps, A)" "0 < arg_max_pages A"
  proof -
    have "(case base_kwargs sample_lib ?b filtered_config False of Inr (ps, A) \<Rightarrow> 0 < arg_max_pages A | _ \<Rightarrow> False)"
      by code_simp
    then show thesis using that by (auto split: sum.splits prod.splits)
  qed
  have ok: "check (profile_ok skilled_profile) ''profile'' = Inr ()" by code_simp
  have scope: "resolve_fetch_scope_terms filtered_config (open_session skilled_db)
      = (Inr \<lparr>scope_mode = ScopeFiltered, scope_terms = lit ''python'' # [], scope_blocked_reason = None\<rparr>,
         open_session skilled_db)"
    by (simp add: resolve_fetch_scope_terms_def resolve_fetch_scope_mode_def filtered_config_def jget_def
        get_active_profile_def skilled_db_def resolve_fetch_scope_def hard_skill_names_def ok
        skilled_skills profile_of_row_def open_session_def bindS_def liftE_def retS_def query_def empty_db_def)
  have b: "board_apply_term ?b = Some solid_apply_term" by (simp add: solid_jobs_board_def)
  have fetch: "board_fetch ?b blocked_net (solid_apply_term filtered_config (lit ''python'')) ps 0 (Some (JInt 0)) n
      = Inl (BlockedFetchError 403)" for n
    by (simp add: solid_jobs_board_def template_fetch_page_def solid_params_def add_joined_def jget_def
        solid_apply_term_def filtered_config_def blocked_net_def iter_strs_def)
  have src: "src_config (sample_source filtered_config) = filtered_config" by (simp add: sample_source_def)
  from filtered_run_hides_block [OF b A src scope fetch] show ?thesis by blast
qed

end
