(* ===== verification/Sitemap.thy ===== *)
theory Sitemap
  imports Connectors
begin

text \<open>
  The boards without an API: \<open>sitemap.py\<close>, the walk over a sitemap of \<open>sitemap_detail.py\<close> with
  the cursor it keeps in the configuration of the source, and its two boards \<open>rocket_jobs.py\<close> and
  \<open>bulldogjob.py\<close>. What the network answers and the parsers of XML and JSON are arguments.
\<close>

section \<open>Library functions\<close>

text \<open>\<open>ET.fromstring\<close>, \<open>json.loads\<close>, \<open>urllib.parse.quote\<close> and \<open>repr\<close> of a string.\<close>

record page_lib =
  parse_xml :: "pystr \<Rightarrow> xml option"
  json_loads :: "pystr \<Rightarrow> json option"
  quote_all :: "pystr \<Rightarrow> pystr"
  repr_str :: "pystr \<Rightarrow> pystr"

text \<open>\<open>xs[a:b]\<close>: an index below zero counts from the end, and one past an end is cut to it.\<close>

definition slice_index :: "int \<Rightarrow> int \<Rightarrow> int" where
  "slice_index n i = (if i < 0 then max 0 (i + n) else min i n)"

definition py_slice :: "'a list \<Rightarrow> int \<Rightarrow> int \<Rightarrow> 'a list" where
  "py_slice xs a b =
     (let i = slice_index (int (length xs)) a; j = slice_index (int (length xs)) b in
      take (nat (j - i)) (drop (nat i) xs))"

section \<open>Sitemaps\<close>

definition sitemap_tag :: "pystr \<Rightarrow> pystr" where
  "sitemap_tag t = lit ''{http://www.sitemaps.org/schemas/sitemap/0.9}'' @ t"

definition children_named :: "pystr \<Rightarrow> xml \<Rightarrow> xml list" where
  "children_named t e = filter (\<lambda>c. xml_tag c = sitemap_tag t) (xml_children e)"

fun texts_of :: "xml list \<Rightarrow> pystr list" where
  "texts_of [] = []"
| "texts_of (e # es) =
     (case xml_text e of
        None \<Rightarrow> texts_of es
      | Some s \<Rightarrow> if s = [] then texts_of es else py_strip s # texts_of es)"

definition parse_sitemap_locs :: "page_lib \<Rightarrow> pystr \<Rightarrow> pystr \<Rightarrow> pystr list" where
  "parse_sitemap_locs P source tag =
     (case parse_xml P source of
        None \<Rightarrow> []
      | Some r \<Rightarrow> texts_of (concat (map (children_named (lit ''loc'')) (children_named tag r))))"

definition resolve_sitemap_cursor :: "jdict \<Rightarrow> int \<Rightarrow> exn + int" where
  "resolve_sitemap_cursor config url_count =
     bindE (py_int (py_or (jget_default config (lit ''sitemap_cursor'') (JInt 0)) (JInt 0))) (\<lambda>cursor.
     Inr (if 0 \<le> cursor \<and> cursor < url_count then cursor else 0))"

definition next_sitemap_cursor :: "int option \<Rightarrow> int" where
  "next_sitemap_cursor final_cursor = (case final_cursor of None \<Rightarrow> 0 | Some c \<Rightarrow> c)"

section \<open>One page of the walk\<close>

text \<open>
  The hooks of a board. A fetch of an address gets the number of the request, and raises
  \<open>BlockedFetchError\<close> or gives \<open>None\<close> when it fails.
\<close>

type_synonym text_net = "nat \<Rightarrow> pystr \<Rightarrow> exn + pystr option"

record detail_board =
  db_name :: pystr
  db_sitemap_urls :: "text_net \<Rightarrow> jdict \<Rightarrow> exn + pystr list option"
  db_filtered_urls :: "(text_net \<Rightarrow> jdict \<Rightarrow> pystr \<Rightarrow> exn + pystr list option) option"
  db_extract :: "pystr \<Rightarrow> pystr \<Rightarrow> jdict option"
  db_map :: map_offer

text \<open>\<open>for url in chunk_urls\<close>: the postings found and the blocked addresses.\<close>

fun fetch_details ::
    "detail_board \<Rightarrow> text_net \<Rightarrow> nat \<Rightarrow> pystr list \<Rightarrow> exn + jdict list \<times> (pystr \<times> int) list" where
  "fetch_details b net i [] = Inr ([], [])"
| "fetch_details b net i (u # us) =
     (case net i u of
        Inl (BlockedFetchError code) \<Rightarrow>
          bindE (fetch_details b net (i + 1) us) (\<lambda>(ofs, blocked). Inr (ofs, (u, code) # blocked))
      | Inl e \<Rightarrow> Inl e
      | Inr None \<Rightarrow> fetch_details b net (i + 1) us
      | Inr (Some html) \<Rightarrow>
          (case db_extract b html u of
             None \<Rightarrow> fetch_details b net (i + 1) us
           | Some parsed \<Rightarrow>
               bindE (fetch_details b net (i + 1) us) (\<lambda>(ofs, blocked). Inr (parsed # ofs, blocked))))"

text \<open>The inner \<open>fetch_page\<close>; besides the page it gives the blocked addresses of the page.\<close>

definition detail_page ::
    "detail_board \<Rightarrow> (nat \<Rightarrow> text_net) \<Rightarrow> pystr list \<Rightarrow> int \<Rightarrow> nat \<Rightarrow> int
     \<Rightarrow> exn + (jdict list \<times> int option) \<times> (pystr \<times> int) list" where
  "detail_page b nets urls page_size p cursor =
     (let chunk = py_slice urls cursor (cursor + page_size) in
      if chunk = [] then Inr (([], None), [])
      else
        bindE (fetch_details b (nets p) 0 chunk) (\<lambda>(ofs, blocked).
        Inr ((ofs, if cursor + page_size < int (length urls) then Some (cursor + page_size) else None), blocked)))"

definition detail_fetch_page ::
    "detail_board \<Rightarrow> (nat \<Rightarrow> text_net) \<Rightarrow> pystr list \<Rightarrow> int \<Rightarrow> int fetch_page" where
  "detail_fetch_page b nets urls page_size p cursor n =
     bindE (detail_page b nets urls page_size p (next_sitemap_cursor cursor)) (\<lambda>(pg, blocked). Inr (Some pg))"

section \<open>The loop with the cursors it visits\<close>

text \<open>
  \<open>run_pages\<close>, returning besides its result the cursors \<open>fetch_page\<close> was called with: what the
  variables \<open>last_cursor\<close> and \<open>blocked\<close> of the closure hold when the loop ends depends on them.
\<close>

fun run_pages_visited ::
    "pylib \<Rightarrow> int \<Rightarrow> 'c fetch_page \<Rightarrow> map_offer \<Rightarrow> runner_args \<Rightarrow> (nat \<Rightarrow> nat \<Rightarrow> int)
     \<Rightarrow> nat \<Rightarrow> nat \<Rightarrow> 'c option \<Rightarrow> nat \<Rightarrow> nat \<Rightarrow> nat \<Rightarrow> (ingestion_result \<times> 'c option list) op" where
  "run_pages_visited L sid fetch_page map_offer A now 0 p cursor fetched created seen =
     retS (finished fetched created, [])"
| "run_pages_visited L sid fetch_page map_offer A now (Suc n) p cursor fetched created seen =
     bindS (liftE (fetch_or_blocked (fetch_page p cursor (arg_page_size A)))) (\<lambda>(pg, blocked).
     case pg of
       None \<Rightarrow>
         if p = 0 then
           retS (\<lparr>res_ok = False, res_fetched = 0, res_created = 0,
                 res_error_message = Some (lit ''failed to fetch '' @ arg_source_name A @ lit '' offers''),
                 res_blocked_status = blocked\<rparr>, [cursor])
         else
           bindS (record_ingestion_failure (source_key sid) PAGE_FETCH_FAILED
             [F_source_id sid, F_page (int p),
              F_error_message (lit ''failed to fetch '' @ arg_source_name A @ lit '' page '' @ show_int (int p)),
              F_blocked_status blocked] (now p 0)) (\<lambda>_.
           retS (finished fetched created, [cursor]))
     | Some (raws, next_cursor) \<Rightarrow>
         bindS (run_items L map_offer sid A (now p) 0 raws
           \<lparr>total_created = created, consecutive_already_seen = seen,
            page_all_older = (arg_sorted_by_recency A \<and> arg_since A \<noteq> None \<and> raws \<noteq> [])\<rparr>) (\<lambda>c.
         let fetched1 = fetched + length raws in
         if arg_since A \<noteq> None \<and> raws \<noteq> [] \<and> page_all_older c
         then retS (finished fetched1 (total_created c), [cursor])
         else if next_cursor = None then retS (finished fetched1 (total_created c), [cursor])
         else if \<not> arg_force_refresh A \<and> arg_threshold A \<le> consecutive_already_seen c
         then retS (finished fetched1 (total_created c), [cursor])
         else
           bindS (run_pages_visited L sid fetch_page map_offer A now n (p + 1) next_cursor fetched1
             (total_created c) (consecutive_already_seen c)) (\<lambda>(res, visited).
           retS (res, cursor # visited))))"

lemma bindS_if: "bindS (if b then m else m') f = (if b then bindS m f else bindS m' f)"
  by simp

lemma drop_visited:
  "bindS (bindS m (\<lambda>(res, visited). retS (res, c # visited))) (\<lambda>x. retS (fst x)) = bindS m (\<lambda>x. retS (fst x))"
  by (simp add: bindS_assoc case_prod_beta')

lemma run_pages_visited_result:
  "bindS (run_pages_visited L sid fp m A now n p cursor fetched created seen) (\<lambda>x. retS (fst x))
    = run_pages L sid fp m A now n p cursor fetched created seen"
proof (induction n arbitrary: p cursor fetched created seen)
  case (Suc n)
  note tail = trans [OF drop_visited Suc.IH]
  show ?case
    unfolding run_pages_visited.simps run_pages.simps bindS_assoc
    apply (rule arg_cong2 [where f = bindS, OF refl], rule ext)
    subgoal for pb
      apply (cases pb, cases "fst pb")
       apply (simp add: bindS_assoc)
      apply (simp add: bindS_assoc Let_def split: prod.splits)
      apply (intro allI impI arg_cong2 [where f = bindS, OF refl], rule ext)
      apply (simp add: bindS_if tail)
      done
    done
qed simp

section \<open>A walk over the addresses\<close>

text \<open>The variables of the closure after the pages of the visited cursors, the first being page \<open>p\<close>.\<close>

fun closure_state ::
    "(nat \<Rightarrow> int \<Rightarrow> exn + (jdict list \<times> int option) \<times> (pystr \<times> int) list) \<Rightarrow> nat \<Rightarrow> int option list
     \<Rightarrow> int option \<times> (pystr \<times> int) list \<Rightarrow> int option \<times> (pystr \<times> int) list" where
  "closure_state f p [] st = st"
| "closure_state f p (c # cs) (last_cursor, blocked) =
     closure_state f (p + 1) cs
       (case f p (next_sitemap_cursor c) of
          Inr ((_, nxt), found) \<Rightarrow> (nxt, blocked @ found)
        | Inl _ \<Rightarrow> (last_cursor, blocked))"

definition blocked_message :: "pystr \<Rightarrow> int \<Rightarrow> pystr" where
  "blocked_message name code = name @ lit '' detail fetch blocked: HTTP '' @ show_int code"

fun record_blocked :: "pylib \<Rightarrow> pystr \<Rightarrow> int \<Rightarrow> (nat \<Rightarrow> int) \<Rightarrow> nat \<Rightarrow> (pystr \<times> int) list \<Rightarrow> unit op" where
  "record_blocked L name sid now i [] = retS ()"
| "record_blocked L name sid now i ((u, code) # blocked) =
     bindS (record_ingestion_failure (build_detail_url_dedup_key L sid u) DETAIL_FETCH_BLOCKED
       [F_source_id sid, F_url u, F_blocked_status (Some code), F_error_message (blocked_message name code)]
       (now i)) (\<lambda>_.
     record_blocked L name sid now (i + 1) blocked)"

text \<open>
  Assigning an attribute of a row that the session holds: nothing is sent to the database yet, so
  an aborted transaction does not raise here.
\<close>

definition assign :: "(db \<Rightarrow> db) \<Rightarrow> unit op" where
  "assign f s = (Inr (), if tx_aborted s then s else s\<lparr>working := f (working s)\<rparr>)"

definition store_cursor :: "int \<Rightarrow> jdict \<Rightarrow> int \<Rightarrow> db \<Rightarrow> db" where
  "store_cursor sid config n d =
     d\<lparr>sources := update_where (\<lambda>r. src_id r = sid)
       (\<lambda>r. r\<lparr>src_config := AList.update (lit ''sitemap_cursor'') (JInt n) config\<rparr>) (sources d)\<rparr>"

definition store_config :: "int \<Rightarrow> jdict \<Rightarrow> db \<Rightarrow> db" where
  "store_config sid config d =
     d\<lparr>sources := update_where (\<lambda>r. src_id r = sid) (\<lambda>r. r\<lparr>src_config := config\<rparr>) (sources d)\<rparr>"

lemma store_cursor_config:
  "store_cursor sid config n d = store_config sid (AList.update (lit ''sitemap_cursor'') (JInt n) config) d"
  by (simp add: store_cursor_def store_config_def)

definition walk_args :: "pylib \<Rightarrow> pystr \<Rightarrow> jdict \<Rightarrow> bool \<Rightarrow> int \<Rightarrow> int \<Rightarrow> int \<Rightarrow> runner_args" where
  "walk_args L name config force page_size max_pages threshold =
     (config_args L name config force page_size max_pages threshold)\<lparr>arg_sorted_by_recency := False\<rparr>"

text \<open>The settings of a walk: page size, pages and threshold (the delay only has to be a number).\<close>

definition walk_settings :: "board_lib \<Rightarrow> jdict \<Rightarrow> exn + int \<times> int \<times> int" where
  "walk_settings B config =
     bindE (py_int (jget_default config (lit ''page_size'') (JInt 20))) (\<lambda>ps.
     bindE (py_int (jget_default config (lit ''max_pages'') (JInt 50))) (\<lambda>mp.
     bindE (py_int (jget_default config (lit ''already_seen_stop_threshold'') (JInt 20))) (\<lambda>th.
     bindE (float_of B (jget_default config (lit ''rate_limit_delay_seconds'') (JFloat (1 / 2)))) (\<lambda>_.
     Inr (ps, mp, th)))))"

definition run_over_urls ::
    "pylib \<Rightarrow> board_lib \<Rightarrow> detail_board \<Rightarrow> (nat \<Rightarrow> text_net) \<Rightarrow> (nat \<Rightarrow> nat \<Rightarrow> int) \<Rightarrow> (nat \<Rightarrow> int)
     \<Rightarrow> int \<Rightarrow> jdict \<Rightarrow> pystr list \<Rightarrow> bool \<Rightarrow> bool \<Rightarrow> ingestion_result op" where
  "run_over_urls L B b nets now later sid config urls force persist_cursor =
     bindS (liftE (walk_settings B config)) (\<lambda>(ps, mp, th).
     bindS (liftE (resolve_sitemap_cursor config (int (length urls)))) (\<lambda>initial.
     bindS (run_pages_visited L sid (detail_fetch_page b nets urls ps) (db_map b)
       (walk_args L (db_name b) config force ps mp th) now (nat mp) 0 (Some initial) 0 0 0) (\<lambda>(res, visited).
     let (last_cursor, blocked) =
       closure_state (detail_page b nets urls ps) 0 visited (Some initial, []) in
     bindS (record_blocked L (db_name b) sid later 0 blocked) (\<lambda>_.
     bindS (if persist_cursor then assign (store_cursor sid config (next_sitemap_cursor last_cursor)) else retS ()) (\<lambda>_.
     retS res)))))"

section \<open>A run\<close>

text \<open>
  \<open>world i\<close> is the network and the clock of the \<open>i\<close>-th term: the requests for the list of
  addresses, those for the postings, the times of the postings and of the blocked addresses.
\<close>

record walk_world =
  ww_lists :: text_net
  ww_details :: "nat \<Rightarrow> text_net"
  ww_now :: "nat \<Rightarrow> nat \<Rightarrow> int"
  ww_later :: "nat \<Rightarrow> int"

definition list_failed :: "nat \<Rightarrow> nat \<Rightarrow> pystr \<Rightarrow> int option \<Rightarrow> ingestion_result" where
  "list_failed fetched created message code =
     \<lparr>res_ok = False, res_fetched = fetched, res_created = created, res_error_message = Some message,
      res_blocked_status = code\<rparr>"

definition offers_message :: "detail_board \<Rightarrow> pystr" where
  "offers_message b = lit ''failed to fetch '' @ db_name b @ lit '' offers''"

definition term_message :: "page_lib \<Rightarrow> detail_board \<Rightarrow> pystr \<Rightarrow> pystr" where
  "term_message P b trm = offers_message b @ lit '' filtered by '' @ repr_str P trm"

text \<open>What the list of addresses comes to: a failure with its status, if any, or the list.\<close>

definition listed :: "exn + pystr list option \<Rightarrow> exn + int option + pystr list" where
  "listed r =
     (case r of
        Inl (BlockedFetchError code) \<Rightarrow> Inr (Inl (Some code))
      | Inl e \<Rightarrow> Inl e
      | Inr None \<Rightarrow> Inr (Inl None)
      | Inr (Some urls) \<Rightarrow> Inr (Inr urls))"

fun run_filtered ::
    "pylib \<Rightarrow> board_lib \<Rightarrow> page_lib \<Rightarrow> detail_board \<Rightarrow> (text_net \<Rightarrow> jdict \<Rightarrow> pystr \<Rightarrow> exn + pystr list option)
     \<Rightarrow> (nat \<Rightarrow> walk_world) \<Rightarrow> int \<Rightarrow> jdict \<Rightarrow> bool \<Rightarrow> nat \<Rightarrow> pystr list \<Rightarrow> nat \<Rightarrow> nat \<Rightarrow> ingestion_result op" where
  "run_filtered L B P b urls_for world sid config force i [] fetched created = retS (finished fetched created)"
| "run_filtered L B P b urls_for world sid config force i (trm # trms) fetched created =
     bindS (liftE (listed (urls_for (ww_lists (world i)) config trm))) (\<lambda>found.
     case found of
       Inl code \<Rightarrow> retS (list_failed fetched created (term_message P b trm) code)
     | Inr urls \<Rightarrow>
         bindS (run_over_urls L B b (ww_details (world i)) (ww_now (world i)) (ww_later (world i)) sid config urls
           force False) (\<lambda>r.
         let fetched1 = fetched + res_fetched r; created1 = created + res_created r in
         if \<not> res_ok r then retS (failed_run fetched1 created1 (res_error_message r))
         else run_filtered L B P b urls_for world sid config force (i + 1) trms fetched1 created1))"

definition detail_run ::
    "pylib \<Rightarrow> board_lib \<Rightarrow> page_lib \<Rightarrow> detail_board \<Rightarrow> (nat \<Rightarrow> walk_world) \<Rightarrow> source_row \<Rightarrow> bool \<Rightarrow> ingestion_result op" where
  "detail_run L B P b world source force =
     (let config = src_config source; sid = src_id source; w = world 0;
          full_run =
            bindS (liftE (listed (db_sitemap_urls b (ww_lists w) config))) (\<lambda>found.
            case found of
              Inl code \<Rightarrow> retS (list_failed 0 0 (offers_message b) code)
            | Inr urls \<Rightarrow> run_over_urls L B b (ww_details w) (ww_now w) (ww_later w) sid config urls force True)
      in
      case db_filtered_urls b of
        None \<Rightarrow> full_run
      | Some urls_for \<Rightarrow>
          bindS (resolve_fetch_scope_terms config) (\<lambda>scope.
          if scope_blocked_reason scope \<noteq> None then retS (failed_run 0 0 (scope_blocked_reason scope))
          else if scope_mode scope = ScopeFiltered then
            run_filtered L B P b urls_for world sid config force 0 (scope_terms scope) 0 0
          else full_run))"

text \<open>\<open>retry_detail_fetch\<close>: one address again; a block or an exception of the mapping raises.\<close>

definition retry_detail_fetch ::
    "pylib \<Rightarrow> detail_board \<Rightarrow> text_net \<Rightarrow> int \<Rightarrow> source_row \<Rightarrow> pystr \<Rightarrow> bool op" where
  "retry_detail_fetch L b net now source u =
     bindS (liftE (net 0 u)) (\<lambda>answer.
     case answer of
       None \<Rightarrow> retS False
     | Some html \<Rightarrow>
         (case db_extract b html u of
            None \<Rightarrow> retS False
          | Some parsed \<Rightarrow>
              bindS (liftE (db_map b (src_id source) parsed)) (\<lambda>mapped.
              bindS (normalize_and_validate L mapped now) (\<lambda>vo.
              case vo of
                None \<Rightarrow> retS False
              | Some o1 \<Rightarrow> bindS (persist_offer L o1 parsed now) (\<lambda>_. retS True)))))"

section \<open>The segment a walk covers\<close>

lemma run_pages_visited_Suc_cases:
  assumes "run_pages_visited L sid fp m A now (Suc n) p cursor fetched created seen s = (Inr (res, visited), t)"
    and "fp p cursor (arg_page_size A) = Inr (Some (raws, nxt))"
  obtains (stopped) c c0 where "visited = [cursor]" "run_items L m sid A (now p) 0 raws c0 s = (Inr c, t)"
  | (continued) c c0 u rest where "nxt \<noteq> None" "visited = cursor # rest"
      "run_items L m sid A (now p) 0 raws c0 s = (Inr c, u)" "total_created c0 = created"
      "run_pages_visited L sid fp m A now n (p + 1) nxt (fetched + length raws) (total_created c)
         (consecutive_already_seen c) u = (Inr (res, rest), t)"
proof -
  let ?c0 = "\<lparr>total_created = created, consecutive_already_seen = seen,
      page_all_older = (arg_sorted_by_recency A \<and> arg_since A \<noteq> None \<and> raws \<noteq> [])\<rparr>"
  from assms obtain c u where it: "run_items L m sid A (now p) 0 raws ?c0 s = (Inr c, u)"
    and k: "(if arg_since A \<noteq> None \<and> raws \<noteq> [] \<and> page_all_older c
         then retS (finished (fetched + length raws) (total_created c), [cursor])
         else if nxt = None then retS (finished (fetched + length raws) (total_created c), [cursor])
         else if \<not> arg_force_refresh A \<and> arg_threshold A \<le> consecutive_already_seen c
         then retS (finished (fetched + length raws) (total_created c), [cursor])
         else
           bindS (run_pages_visited L sid fp m A now n (p + 1) nxt (fetched + length raws)
             (total_created c) (consecutive_already_seen c)) (\<lambda>(res, visited).
           retS (res, cursor # visited))) u = (Inr (res, visited), t)"
    by (auto simp: fetch_or_blocked_def Let_def elim!: bindS_InrE)
  show thesis
  proof (cases "visited = [cursor] \<and> u = t")
    case True
    with it show thesis by (intro stopped) auto
  next
    case False
    with k have "nxt \<noteq> None" and "bindS (run_pages_visited L sid fp m A now n (p + 1) nxt (fetched + length raws)
             (total_created c) (consecutive_already_seen c)) (\<lambda>(res, visited).
           retS (res, cursor # visited)) u = (Inr (res, visited), t)"
      by (auto split: if_splits)
    then obtain rest where "nxt \<noteq> None" "visited = cursor # rest"
      "run_pages_visited L sid fp m A now n (p + 1) nxt (fetched + length raws) (total_created c)
         (consecutive_already_seen c) u = (Inr (res, rest), t)"
      by (auto elim!: bindS_InrE)
    with it show thesis by (intro continued) auto
  qed
qed

text \<open>
  A page of a walk that returned: what it found, which is now known to the store, and where it
  goes on. \<open>covers\<close> says it of the pages from the \<open>p\<close>-th on.
\<close>

definition page_done ::
    "pylib \<Rightarrow> int \<Rightarrow> detail_board \<Rightarrow> (nat \<Rightarrow> text_net) \<Rightarrow> pystr list \<Rightarrow> int \<Rightarrow> session \<Rightarrow> nat \<Rightarrow> int \<Rightarrow> bool" where
  "page_done L sid b nets urls ps t p c \<longleftrightarrow>
     (\<exists>ofs blocked. fetch_details b (nets p) 0 (py_slice urls c (c + ps)) = Inr (ofs, blocked)
        \<and> list_all (known_raw L (db_map b) sid (working t)) ofs)"

lemma slice_nonempty:
  assumes "0 \<le> c" "c < int (length urls)" "0 < ps"
  shows "py_slice urls c (c + ps) \<noteq> []"
  using assms by (auto simp: py_slice_def slice_index_def Let_def)

lemma detail_page_inside:
  assumes "0 \<le> c" "c < int (length urls)" "0 < ps"
  shows "detail_page b nets urls ps p c =
    bindE (fetch_details b (nets p) 0 (py_slice urls c (c + ps))) (\<lambda>(ofs, blocked).
      Inr ((ofs, if c + ps < int (length urls) then Some (c + ps) else None), blocked))"
  using slice_nonempty [OF assms] by (simp add: detail_page_def Let_def)

lemma page_done_mono:
  assumes "page_done L sid b nets urls ps s p c" and "set (offers (working s)) \<subseteq> set (offers (working t))"
  shows "page_done L sid b nets urls ps t p c"
  using assms unfolding page_done_def list_all_iff by (blast intro: known_raw_mono)

lemma run_pages_visited_grows:
  assumes "run_pages_visited L sid fp m A now n p cursor fetched created seen s = (Inr (res, visited), t)"
    and "created \<le> fetched"
  shows "set (offers (working s)) \<subseteq> set (offers (working t))"
proof -
  have "bindS (run_pages_visited L sid fp m A now n p cursor fetched created seen) (\<lambda>x. retS (fst x)) s
      = (Inr res, t)"
    using assms(1) by (simp add: bindS_def retS_def)
  then have "run_pages L sid fp m A now n p cursor fetched created seen s = (Inr res, t)"
    by (simp only: run_pages_visited_result)
  from run_pages_accounting [OF this assms(2)] show ?thesis by (auto dest: appended_subset)
qed

lemma fetch_details_not_blocked [simp]: "fetch_details b net i us \<noteq> Inl (BlockedFetchError code)"
proof (induction us arbitrary: i)
  case (Cons u us)
  show ?case
    using Cons.IH [of "i + 1"]
    by (cases "fetch_details b net (i + 1) us") (auto split: sum.splits exn.splits option.splits)
qed simp

lemma walk_segment:
  assumes "run_pages_visited L sid (detail_fetch_page b nets urls ps) (db_map b) A now n p (Some c)
      fetched created seen s = (Inr (res, visited), t)"
    and "0 < n" "0 \<le> c" "c < int (length urls)" "0 < ps" "created \<le> fetched"
    and "arg_since A = None" "arg_until A = None"
  shows "\<exists>k > 0. (\<forall>j<k. c + int j * ps < int (length urls) \<and> page_done L sid b nets urls ps t (p + j) (c + int j * ps))
    \<and> fst (closure_state (detail_page b nets urls ps) p visited st)
      = (if c + int k * ps < int (length urls) then Some (c + int k * ps) else None)"
  using assms(1-4,6)
proof (induction n arbitrary: p c fetched created seen s visited st)
  case (Suc n)
  let ?N = "int (length urls)"
  let ?nxt = "if c + ps < ?N then Some (c + ps) else None"
  obtain ofs blocked where page: "fetch_details b (nets p) 0 (py_slice urls c (c + ps)) = Inr (ofs, blocked)"
    using Suc.prems(1) detail_page_inside [OF Suc.prems(3,4) assms(5), of b nets p]
    by (cases "fetch_details b (nets p) 0 (py_slice urls c (c + ps))")
      (auto simp: detail_fetch_page_def next_sitemap_cursor_def fetch_or_blocked_def bindS_def liftE_def
        retS_def split: exn.splits)
  have one: "detail_page b nets urls ps p c = Inr ((ofs, ?nxt), blocked)"
    using detail_page_inside [OF Suc.prems(3,4) assms(5)] by (simp add: page)
  then have fp: "detail_fetch_page b nets urls ps p (Some c) (arg_page_size A) = Inr (Some (ofs, ?nxt))"
    by (simp add: detail_fetch_page_def next_sitemap_cursor_def)
  have here: "page_done L sid b nets urls ps u p c"
    if "run_items L (db_map b) sid A (now p) 0 ofs c0 s = (Inr c1, u)" for c0 c1 u
    using run_items_all_known [OF that assms(7,8)] page unfolding page_done_def by blast
  have closure: "closure_state (detail_page b nets urls ps) p (Some c # rest) st
      = closure_state (detail_page b nets urls ps) (p + 1) rest (?nxt, snd st @ blocked)" for rest
    by (cases st) (simp add: next_sitemap_cursor_def one)
  from Suc.prems(1) fp show ?case
  proof (cases rule: run_pages_visited_Suc_cases)
    case (stopped c1 c0)
    then show ?thesis
      using here [OF stopped(2)] closure [of "[]"] Suc.prems(4) by (intro exI [of _ 1]) simp
  next
    case (continued c1 c0 u rest)
    then have nxt: "c + ps < ?N" "?nxt = Some (c + ps)" by (auto split: if_splits)
    obtain k0 where k0: "k0 \<le> length ofs" "total_created c1 = total_created c0 + k0" "appended L (db_map b) sid A s u k0"
      using run_items_appended [OF continued(3)] by blast
    show ?thesis
    proof (cases n)
      case 0
      with continued have "rest = []" "t = u" by auto
      then show ?thesis
        using here [OF continued(3)] closure [of "[]"] Suc.prems(4) continued(2) nxt by (intro exI [of _ 1]) simp
    next
      case (Suc n')
      have le: "total_created c1 \<le> fetched + length ofs"
        using k0 continued(4) Suc.prems(5) by simp
      from continued(5) nxt have "run_pages_visited L sid (detail_fetch_page b nets urls ps) (db_map b) A now n (p + 1)
          (Some (c + ps)) (fetched + length ofs) (total_created c1) (consecutive_already_seen c1) u = (Inr (res, rest), t)"
        by simp
      from Suc.IH [OF this _ _ nxt(1) le, of "(?nxt, snd st @ blocked)"] obtain k where k: "0 < k"
        "\<And>j. j < k \<Longrightarrow> c + ps + int j * ps < ?N \<and> page_done L sid b nets urls ps t (p + 1 + j) (c + ps + int j * ps)"
        "fst (closure_state (detail_page b nets urls ps) (p + 1) rest (?nxt, snd st @ blocked))
          = (if c + ps + int k * ps < ?N then Some (c + ps + int k * ps) else None)"
        using Suc.prems(3) assms(5) \<open>n = Suc n'\<close> by auto
      have grow: "set (offers (working u)) \<subseteq> set (offers (working t))"
        using run_pages_visited_grows [OF continued(5) le] .
      have "c + int j * ps < ?N \<and> page_done L sid b nets urls ps t (p + j) (c + int j * ps)" if "j < Suc k" for j
      proof (cases j)
        case 0
        with here [OF continued(3)] grow Suc.prems(4) show ?thesis by (auto intro: page_done_mono)
      next
        case (Suc i)
        with k(2) [of i] that show ?thesis by (simp add: algebra_simps)
      qed
      then show ?thesis
        using k(3) closure [of rest] continued(2) by (intro exI [of _ "Suc k"]) (simp add: algebra_simps)
    qed
  qed
qed simp

section \<open>What a walk leaves behind\<close>

definition same_sources :: "source_row list \<Rightarrow> db \<Rightarrow> bool" where
  "same_sources rows d \<longleftrightarrow> sources d = rows"

lemma keeps_sources_record [keeps_intros]: "keeps (same_sources rows) (record_ingestion_failure key k fs now)"
  unfolding record_ingestion_failure_def
  by (intro keeps_swallow keeps_upsert_stmt) (simp add: same_sources_def upsert_ingestion_def)

lemma keeps_sources_ingest [keeps_intros]: "keeps (same_sources rows) (ingest_offer L mapped raw now)"
  unfolding ingest_offer_def normalize_and_validate_def persist_offer_def
  by (intro keeps_intros keeps_json_int) (auto simp: same_sources_def insert_offer_def intro!: keeps_intros)

lemma keeps_run_pages_visited:
  assumes "\<And>m r t. keeps I (ingest_offer L m r t)"
    and "\<And>key k fs t. keeps I (record_ingestion_failure key k fs t)"
  shows "keeps I (run_pages_visited L sid fp m A now n p cursor fetched created seen)"
proof -
  have "snd (run_pages_visited L sid fp m A now n p cursor fetched created seen s)
      = snd (run_pages L sid fp m A now n p cursor fetched created seen s)" for s
    by (simp add: run_pages_visited_result [symmetric] bindS_def retS_def split: prod.splits sum.splits)
  then show ?thesis using keeps_run_pages [OF assms] by (simp add: keeps_def)
qed

lemma keeps_record_blocked:
  assumes "\<And>key k fs t. keeps I (record_ingestion_failure key k fs t)"
  shows "keeps I (record_blocked L name sid now i blocked)"
  by (induction L name sid now i blocked rule: record_blocked.induct) (auto intro!: keeps_intros assms)

lemma record_blocked_offers:
  "record_blocked L name sid now i blocked s = (res, t) \<Longrightarrow> offers (working t) = offers (working s)"
proof (induction L name sid now i blocked arbitrary: s rule: record_blocked.induct)
  case (2 L name sid now i u code blocked)
  then show ?case
    by (auto simp: bindS_def dest: record_keeps_offers split: prod.splits sum.splits)
qed (simp add: retS_def)

text \<open>
  A walk always advances: when it returns, it has read the addresses from the stored cursor on,
  page after page, has every posting of them that is valid in the store, and has stored as the
  next cursor the first address it did not read, or 0 when it reached the end.
\<close>

lemma walk_advances_step:
  assumes "run_over_urls L B b nets now later sid config urls force True s = (Inr res, t)"
    and "walk_settings B config = Inr (ps, mp, th)" "0 < ps" "0 < mp" "urls \<noteq> []"
    and "resolve_fetch_range L (jget config (lit ''fetch_range'')) = (None, None)"
    and "resolve_sitemap_cursor config (int (length urls)) = Inr c"
    and "sources (committed s) = sources (working s)" "\<not> tx_aborted t"
  shows "\<exists>k > 0. (\<forall>j<k. c + int j * ps < int (length urls) \<and> page_done L sid b nets urls ps t j (c + int j * ps))
    \<and> sources (working t) = update_where (\<lambda>r. src_id r = sid)
        (\<lambda>r. r\<lparr>src_config := AList.update (lit ''sitemap_cursor'')
           (JInt (if c + int k * ps < int (length urls) then c + int k * ps else 0)) config\<rparr>) (sources (working s))"
proof -
  let ?A = "walk_args L (db_name b) config force ps mp th"
  let ?f = "detail_page b nets urls ps"
  from assms(1,2,7) obtain visited res' u where
    loop: "run_pages_visited L sid (detail_fetch_page b nets urls ps) (db_map b) ?A now (nat mp) 0 (Some c) 0 0 0 s
      = (Inr (res', visited), u)"
    and tail: "(case closure_state ?f 0 visited (Some c, []) of (last_cursor, blocked) \<Rightarrow>
      bindS (record_blocked L (db_name b) sid later 0 blocked) (\<lambda>_.
      bindS (assign (store_cursor sid config (next_sitemap_cursor last_cursor))) (\<lambda>_. retS res'))) u = (Inr res, t)"
    unfolding run_over_urls_def by (auto elim!: bindS_InrE)
  have c: "0 \<le> c" "c < int (length urls)"
    using assms(5,7) by (auto simp: resolve_sitemap_cursor_def bindE_Inr_iff split: if_splits)
  have range: "arg_since ?A = None" "arg_until ?A = None"
    using assms(6) by (simp_all add: walk_args_def)
  obtain k where k: "0 < k"
    "\<And>j. j < k \<Longrightarrow> c + int j * ps < int (length urls) \<and> page_done L sid b nets urls ps u j (c + int j * ps)"
    "fst (closure_state ?f 0 visited (Some c, []))
      = (if c + int k * ps < int (length urls) then Some (c + int k * ps) else None)"
    using walk_segment [OF loop _ c assms(3) _ range, of "(Some c, [])"] assms(4) by auto
  obtain last_cursor blocked where st: "closure_state ?f 0 visited (Some c, []) = (last_cursor, blocked)" by fastforce
  from tail st obtain v where rec: "record_blocked L (db_name b) sid later 0 blocked u = (Inr (), v)"
    and t: "t = (if tx_aborted v then v else v\<lparr>working := store_cursor sid config (next_sitemap_cursor last_cursor) (working v)\<rparr>)"
    by (auto simp: assign_def elim!: bindS_InrE)
  have "session_inv (same_sources (sources (working s))) s"
    using assms(8) by (simp add: session_inv_def same_sources_def)
  then have "session_inv (same_sources (sources (working s))) u"
    using keeps_run_pages_visited [OF keeps_sources_ingest keeps_sources_record] loop
    unfolding keeps_def by (metis snd_conv)
  then have "session_inv (same_sources (sources (working s))) v"
    using keeps_record_blocked [OF keeps_sources_record] rec unfolding keeps_def by (metis snd_conv)
  then have src: "sources (working v) = sources (working s)"
    by (simp add: session_inv_def same_sources_def)
  have off: "offers (working t) = offers (working u)"
    using record_blocked_offers [OF rec] by (simp add: t store_cursor_def)
  then have "page_done L sid b nets urls ps t j (c + int j * ps)" if "j < k" for j
    using k(2) [OF that] by (auto intro: page_done_mono)
  moreover have "sources (working t) = update_where (\<lambda>r. src_id r = sid)
        (\<lambda>r. r\<lparr>src_config := AList.update (lit ''sitemap_cursor'')
           (JInt (if c + int k * ps < int (length urls) then c + int k * ps else 0)) config\<rparr>) (sources (working s))"
    using assms(9) k(3) st src
    by (auto simp: t store_cursor_def next_sitemap_cursor_def split: if_splits)
  ultimately show ?thesis using k(1,2) by blast
qed

section \<open>Run after run\<close>

lemma walks_reach_end:
  fixes c :: "nat \<Rightarrow> int"
  assumes "\<And>m. 0 \<le> c m \<and> c m < n" and "\<And>m. 0 < k m" and "0 < ps"
    and "\<And>m. c (Suc m) = (if c m + int (k m) * ps < n then c m + int (k m) * ps else 0)"
  shows "\<exists>r. r \<le> nat (n - c m) \<and> c (m + r) = 0
    \<and> (\<forall>i. c m \<le> i \<longrightarrow> i < n \<longrightarrow> (\<exists>j<r. c (m + j) \<le> i \<and> i < c (m + j) + int (k (m + j)) * ps))"
proof (induction "nat (n - c m)" arbitrary: m rule: less_induct)
  case less
  have pos: "0 < int (k m) * ps" using assms(2,3) by simp
  show ?case
  proof (cases "c m + int (k m) * ps < n")
    case True
    then have step: "c (Suc m) = c m + int (k m) * ps" using assms(4) by simp
    then have "nat (n - c (Suc m)) < nat (n - c m)" using True pos by simp
    from less [OF this] obtain r where r: "r \<le> nat (n - c (Suc m))" "c (Suc m + r) = 0"
      "\<And>i. c (Suc m) \<le> i \<Longrightarrow> i < n \<Longrightarrow> \<exists>j<r. c (Suc m + j) \<le> i \<and> i < c (Suc m + j) + int (k (Suc m + j)) * ps"
      by blast
    have "\<exists>j<Suc r. c (m + j) \<le> i \<and> i < c (m + j) + int (k (m + j)) * ps" if "c m \<le> i" "i < n" for i
    proof (cases "i < c (Suc m)")
      case True
      with that step show ?thesis by (intro exI [of _ 0]) simp
    next
      case False
      with r(3) [of i] that obtain j where "j < r" "c (Suc m + j) \<le> i" "i < c (Suc m + j) + int (k (Suc m + j)) * ps"
        by auto
      then show ?thesis by (intro exI [of _ "Suc j"]) simp
    qed
    moreover have "Suc r \<le> nat (n - c m)" using r(1) step pos True by simp
    ultimately show ?thesis using r(2) by (intro exI [of _ "Suc r"]) simp
  next
    case False
    then have "c (Suc m) = 0" using assms(4) by simp
    moreover have "1 \<le> nat (n - c m)" using assms(1) [of m] by linarith
    ultimately show ?thesis using False by (intro exI [of _ 1]) auto
  qed
qed

lemma div_int_less:
  fixes x :: int
  assumes "0 < ps" and "x < n * ps"
  shows "x div ps < n"
proof (rule ccontr)
  assume "\<not> x div ps < n"
  then have "n * ps \<le> x div ps * ps" using assms(1) by (simp add: mult_right_mono)
  also have "\<dots> \<le> x" using assms(1) by (simp add: minus_mod_eq_div_mult [symmetric])
  finally show False using assms(2) by simp
qed

definition stored_config :: "int \<Rightarrow> db \<Rightarrow> jdict option" where
  "stored_config sid d = map_option src_config (find (\<lambda>r. src_id r = sid) (sources d))"

lemma find_update_config:
  "find (\<lambda>r. src_id r = sid) (update_where (\<lambda>r. src_id r = sid) (\<lambda>r. r\<lparr>src_config := cfg\<rparr>) rows) = Some r
    \<Longrightarrow> src_config r = cfg"
proof (induction rows)
  case (Cons x rows)
  then show ?case by (cases "src_id x = sid") (auto simp: update_where_def)
qed (simp add: update_where_def)

lemma stored_config_update:
  assumes "sources d = update_where (\<lambda>r. src_id r = sid) (\<lambda>r. r\<lparr>src_config := cfg\<rparr>) rows"
    and "stored_config sid d = Some cfg'"
  shows "cfg' = cfg"
proof -
  obtain r where "find (\<lambda>r. src_id r = sid) (sources d) = Some r" "cfg' = src_config r"
    using assms(2) unfolding stored_config_def by blast
  with find_update_config show ?thesis unfolding assms(1) by simp
qed

lemma jget_update: "jget (AList.update k v cfg) k' = (if k' = k then v else jget cfg k')"
  by (simp add: jget_def update_conv')

lemma cursor_keeps_settings:
  "walk_settings B (AList.update (lit ''sitemap_cursor'') v cfg) = walk_settings B cfg"
  "jget (AList.update (lit ''sitemap_cursor'') v cfg) (lit ''fetch_range'') = jget cfg (lit ''fetch_range'')"
  by (simp_all add: walk_settings_def jget_default_update jget_update)

lemma resolve_stored_cursor:
  "0 \<le> x \<Longrightarrow> x < n \<Longrightarrow> resolve_sitemap_cursor (AList.update (lit ''sitemap_cursor'') (JInt x) cfg) n = Inr x"
  by (simp add: resolve_sitemap_cursor_def jget_default_update py_or_def)

lemma walk_sequence:
  assumes "\<And>m. run_over_urls L B b (nets m) (now m) (later m) sid (config m) urls force True (ss m)
      = (Inr (res m), ts m)"
    and "\<And>m. stored_config sid (working (ts m)) = Some (config (Suc m))"
    and "\<And>m. sources (committed (ss m)) = sources (working (ss m)) \<and> \<not> tx_aborted (ts m)"
    and "walk_settings B (config 0) = Inr (ps, mp, th)" "0 < ps" "0 < mp"
    and "resolve_fetch_range L (jget (config 0) (lit ''fetch_range'')) = (None, None)"
    and "urls \<noteq> []"
  shows "\<exists>c k. \<forall>m. 0 \<le> c m \<and> c m < int (length urls) \<and> 0 < k m
    \<and> (\<forall>j<k m. page_done L sid b (nets m) urls ps (ts m) j (c m + int j * ps))
    \<and> c (Suc m) = (if c m + int (k m) * ps < int (length urls) then c m + int (k m) * ps else 0)"
proof -
  let ?n = "int (length urls)"
  define next_c where "next_c x k = (if x + int k * ps < ?n then x + int k * ps else 0)" for x :: int and k :: nat
  define walk where "walk m x k \<longleftrightarrow> 0 \<le> x \<and> x < ?n \<and> resolve_sitemap_cursor (config m) ?n = Inr x \<and> 0 < k
      \<and> (\<forall>j<k. page_done L sid b (nets m) urls ps (ts m) j (x + int j * ps))
      \<and> config (Suc m) = AList.update (lit ''sitemap_cursor'') (JInt (next_c x k)) (config m)" for m x k
  have step: "\<exists>x k. walk m x k"
    if set: "walk_settings B (config m) = Inr (ps, mp, th)"
      "resolve_fetch_range L (jget (config m) (lit ''fetch_range'')) = (None, None)" for m
  proof -
    obtain x where x: "resolve_sitemap_cursor (config m) ?n = Inr x"
      using assms(1) [of m] by (auto simp: run_over_urls_def elim!: bindS_InrE)
    then have r: "0 \<le> x" "x < ?n"
      using assms(8) by (auto simp: resolve_sitemap_cursor_def bindE_Inr_iff split: if_splits)
    from walk_advances_step [OF assms(1) set(1) assms(5,6,8) set(2) x] assms(3) [of m]
    obtain k where k: "0 < k"
      "\<forall>j<k. x + int j * ps < ?n \<and> page_done L sid b (nets m) urls ps (ts m) j (x + int j * ps)"
      "sources (working (ts m)) = update_where (\<lambda>r. src_id r = sid)
        (\<lambda>r. r\<lparr>src_config := AList.update (lit ''sitemap_cursor'') (JInt (next_c x k)) (config m)\<rparr>) (sources (working (ss m)))"
      unfolding next_c_def by blast
    from stored_config_update [OF k(3) assms(2)] k(1,2) x r have "walk m x k" by (simp add: walk_def)
    then show ?thesis by blast
  qed
  have "walk_settings B (config m) = Inr (ps, mp, th)
      \<and> resolve_fetch_range L (jget (config m) (lit ''fetch_range'')) = (None, None)" for m
  proof (induction m)
    case (Suc m)
    with step [of m] show ?case by (auto simp: walk_def cursor_keeps_settings)
  qed (simp add: assms(4,7))
  with step obtain c k where ck: "\<And>m. walk m (c m) (k m)" by metis
  have "c (Suc m) = next_c (c m) (k m)" for m
  proof -
    have "0 \<le> next_c (c m) (k m)" "next_c (c m) (k m) < ?n"
      using ck [of m] assms(5,8) by (auto simp: next_c_def walk_def)
    from resolve_stored_cursor [OF this, of "config m"] ck [of "Suc m"] ck [of m] show ?thesis by (simp add: walk_def)
  qed
  then show ?thesis using ck by (intro exI [of _ c] exI [of _ k]) (auto simp: next_c_def walk_def)
qed

lemma page_of_index:
  fixes c :: int
  assumes "0 < ps" "c \<le> i" "i < c + int k * ps"
  shows "\<exists>q<k. c + int q * ps \<le> i \<and> i < c + int q * ps + ps"
proof -
  define q where "q = nat ((i - c) div ps)"
  have "0 \<le> (i - c) div ps" using assms by (simp add: pos_imp_zdiv_nonneg_iff)
  then have q: "int q = (i - c) div ps" by (simp add: q_def)
  have "int q < int k" unfolding q by (rule div_int_less) (use assms in auto)
  moreover have "c + int q * ps \<le> i" "i < c + int q * ps + ps"
    unfolding q using assms(1) by (simp_all add: minus_mod_eq_div_mult [symmetric])
  ultimately show ?thesis by (intro exI [of _ q]) simp
qed

text \<open>C34: No address is left out for good: when the runs of a source follow one another over the
  same sitemap, each with the configuration the last one stored, every address is read within
  twice as many runs as there are addresses, and its posting, when valid, is in the store.\<close>

theorem every_address_is_read:
  assumes "\<And>m. run_over_urls L B b (nets m) (now m) (later m) sid (config m) urls force True (ss m)
      = (Inr (res m), ts m)"
    and "\<And>m. stored_config sid (working (ts m)) = Some (config (Suc m))"
    and "\<And>m. sources (committed (ss m)) = sources (working (ss m)) \<and> \<not> tx_aborted (ts m)"
    and "walk_settings B (config 0) = Inr (ps, mp, th)" "0 < ps" "0 < mp"
    and "resolve_fetch_range L (jget (config 0) (lit ''fetch_range'')) = (None, None)"
    and "i < length urls"
  shows "\<exists>m < 2 * length urls. \<exists>p c. 0 \<le> c \<and> c \<le> int i \<and> int i < c + ps
    \<and> page_done L sid b (nets m) urls ps (ts m) p c"
proof -
  let ?n = "int (length urls)"
  have "urls \<noteq> []" using assms(8) by auto
  from walk_sequence [OF assms(1-7) this] obtain c k where ck: "\<And>m. 0 \<le> c m \<and> c m < ?n" "\<And>m. 0 < k m"
    "\<And>m j. j < k m \<Longrightarrow> page_done L sid b (nets m) urls ps (ts m) j (c m + int j * ps)"
    "\<And>m. c (Suc m) = (if c m + int (k m) * ps < ?n then c m + int (k m) * ps else 0)"
    by blast
  note reach = walks_reach_end [of c ?n k ps, OF ck(1,2) assms(5) ck(4)]
  obtain r0 where r0: "r0 \<le> nat (?n - c 0)" "c r0 = 0" using reach [of 0] by auto
  obtain r1 where le: "r1 \<le> nat (?n - c r0)"
    and all: "\<forall>x. c r0 \<le> x \<longrightarrow> x < ?n \<longrightarrow> (\<exists>j<r1. c (r0 + j) \<le> x \<and> x < c (r0 + j) + int (k (r0 + j)) * ps)"
    using reach [of r0] by blast
  have "c r0 \<le> int i" "int i < ?n" using r0(2) assms(8) by simp_all
  with all obtain j where r1: "j < r1" "c (r0 + j) \<le> int i" "int i < c (r0 + j) + int (k (r0 + j)) * ps"
    by blast
  from page_of_index [OF assms(5) r1(2,3)] obtain q where q: "q < k (r0 + j)"
    "c (r0 + j) + int q * ps \<le> int i" "int i < c (r0 + j) + int q * ps + ps" by blast
  have "r0 \<le> length urls" "r1 \<le> length urls" using r0 le ck(1) [of 0] by linarith+
  then have "r0 + j < 2 * length urls" using r1(1) by simp
  moreover have "0 \<le> c (r0 + j) + int q * ps" using ck(1) [of "r0 + j"] assms(5) by simp
  ultimately show ?thesis using ck(3) [OF q(1)] q(2,3) by blast
qed

section \<open>A page that cannot be mapped\<close>

lemma unmappable_page_stops_walk:
  assumes "walk_settings B config = Inr (ps, mp, th)" and "0 < mp"
    and "resolve_sitemap_cursor config (int (length urls)) = Inr c"
    and "py_slice urls c (c + ps) = u # us" and "nets 0 0 u = Inr (Some html)"
    and "db_extract b html u = Some raw" and "db_map b sid raw = Inl e"
    and "fetch_details b (nets 0) 1 us = Inr (ofs, blocked)"
  shows "run_over_urls L B b nets now later sid config urls force persist s = (Inl e, s)"
proof -
  obtain n where n: "nat mp = Suc n" using assms(2) by (metis gr0_implies_Suc zero_less_nat_eq)
  have "fetch_details b (nets 0) 0 (u # us) = Inr (raw # ofs, blocked)"
    using assms(5,6,8) by simp
  then obtain nxt where "detail_fetch_page b nets urls ps 0 (Some c) (arg_page_size A) = Inr (Some (raw # ofs, nxt))" for A :: runner_args
    using assms(4) by (auto simp: detail_fetch_page_def detail_page_def next_sitemap_cursor_def)
  then show ?thesis
    using assms(7)
    by (simp add: run_over_urls_def assms(1,3) n fetch_or_blocked_def run_item_def bindS_def liftE_def)
qed

section \<open>Invariants the connectors keep\<close>

text \<open>
  What a property of the tables has to promise so that no connector can break it: it survives the
  storing of a posting, the recording of a failure, and an assignment to a source's configuration.
\<close>

locale connector_invariant =
  fixes I :: "db \<Rightarrow> bool"
  assumes keeps_ingest: "keeps I (ingest_offer L m r t)"
    and keeps_record: "keeps I (record_ingestion_failure key k fs t)"
    and keeps_config: "I d \<Longrightarrow> I (store_config sid config d)"
begin

lemma keeps_loop: "keeps I (run_paginated_ingestion L sid fp m cursor A now)"
  unfolding run_paginated_ingestion_def by (rule keeps_run_pages [OF keeps_ingest keeps_record])

lemma keeps_board: "keeps I (board_run L b nets nows source force)"
  by (auto simp: board_run_def run_board_pages_def Let_def split: prod.splits
      intro!: keeps_intros keeps_run_terms keeps_loop)

lemma keeps_feed: "keeps I (run_we_work_remotely_ingestion L B fetch_xml now source force)"
  by (auto simp: run_we_work_remotely_ingestion_def Let_def intro!: keeps_intros keeps_loop)

lemma keeps_walk: "keeps I (run_over_urls L B b nets now later sid config urls force persist)"
proof -
  have "keeps I (assign (store_cursor sid config n))" for n
    using keeps_config by (simp add: keeps_def assign_def session_inv_def store_cursor_config)
  then show ?thesis
    by (auto simp: run_over_urls_def Let_def split: prod.splits
        intro!: keeps_intros keeps_run_pages_visited keeps_record_blocked keeps_ingest keeps_record)
qed

lemma keeps_filtered: "keeps I (run_filtered L B P b urls_for world sid config force i trms fetched created)"
  by (induction trms arbitrary: i fetched created)
    (auto simp: Let_def split: sum.splits intro!: keeps_intros keeps_walk)

lemma keeps_detail_run: "keeps I (detail_run L B P b world source force)"
  by (auto simp: detail_run_def Let_def split: sum.splits option.splits
      intro!: keeps_intros keeps_walk keeps_filtered)

lemma keeps_stored_posting:
  "keeps I (bindS (normalize_and_validate L mapped now) (\<lambda>vo.
     case vo of None \<Rightarrow> retS False | Some o1 \<Rightarrow> bindS (persist_offer L o1 parsed now) (\<lambda>_. retS True)))"
proof -
  have "bindS (normalize_and_validate L mapped now) (\<lambda>vo.
        case vo of None \<Rightarrow> retS False | Some o1 \<Rightarrow> bindS (persist_offer L o1 parsed now) (\<lambda>_. retS True))
      = bindS (ingest_offer L mapped parsed now) (\<lambda>r. retS (r \<noteq> None))"
    unfolding ingest_offer_def bindS_assoc
    by (intro arg_cong2 [where f = bindS] refl ext) (auto simp: bindS_assoc split: option.splits)
  then show ?thesis by (simp add: keeps_intros keeps_ingest)
qed

lemma keeps_retry_detail: "keeps I (retry_detail_fetch L b net now source u)"
  unfolding retry_detail_fetch_def by (intro keeps_intros keeps_stored_posting)

end

end
