(* ===== verification/DetailBoards.thy ===== *)
theory DetailBoards
  imports Sitemap
begin

text \<open>
  The two boards of the sitemap walk: \<open>rocket_jobs.py\<close> reads the JSON-LD blocks of a page and
  \<open>bulldogjob.py\<close> its \<open>__NEXT_DATA__\<close>. The patterns are matched by hand: no part of them can
  match in two ways.
\<close>

section \<open>Matching the script elements\<close>

text \<open>The text before the first occurrence of a pattern and what follows it.\<close>

fun cut_at :: "pystr \<Rightarrow> pystr \<Rightarrow> (pystr \<times> pystr) option" where
  "cut_at pat [] = (if pat = [] then Some ([], []) else None)"
| "cut_at pat (c # cs) =
     (if is_prefix pat (c # cs) then Some ([], drop (length pat) (c # cs))
      else map_option (\<lambda>(a, b). (c # a, b)) (cut_at pat cs))"

definition script_end :: pystr where
  "script_end = lit ''</script>''"

text \<open>
  An opening tag with the given beginning whose rest up to the bracket satisfies a condition, then
  the shortest text up to the closing tag: the text, and what follows the element.
\<close>

definition script_here :: "pystr \<Rightarrow> (pystr \<Rightarrow> bool) \<Rightarrow> pystr \<Rightarrow> (pystr \<times> pystr) option" where
  "script_here opening rest_ok s =
     (if \<not> is_prefix opening s then None
      else
        (case cut_at [62] (drop (length opening) s) of
           None \<Rightarrow> None
         | Some (tag, after_tag) \<Rightarrow> if rest_ok tag then cut_at script_end after_tag else None))"

fun find_script :: "pystr \<Rightarrow> (pystr \<Rightarrow> bool) \<Rightarrow> pystr \<Rightarrow> (pystr \<times> pystr) option" where
  "find_script opening rest_ok [] = None"
| "find_script opening rest_ok (c # cs) =
     (case script_here opening rest_ok (c # cs) of
        Some r \<Rightarrow> Some r
      | None \<Rightarrow> find_script opening rest_ok cs)"

lemma cut_at_length: "cut_at pat s = Some (a, b) \<Longrightarrow> length s = length a + length pat + length b"
proof (induction pat s arbitrary: a rule: cut_at.induct)
  case (2 pat c cs)
  show ?case
  proof (cases "is_prefix pat (c # cs)")
    case True
    with "2.prems" have "a = []" "b = drop (length pat) (c # cs)" by simp_all
    moreover have "length pat \<le> length (c # cs)" using True by (metis is_prefix_iff le_add1 length_append)
    ultimately show ?thesis by simp
  next
    case False
    with "2.prems" obtain a' where "cut_at pat cs = Some (a', b)" "a = c # a'" by auto
    with "2.IH" [OF False] show ?thesis by simp
  qed
qed (auto split: if_splits)

lemma script_here_shorter:
  assumes "script_here opening rest_ok s = Some (a, b)"
  shows "length b < length s"
proof -
  from assms obtain tag after_tag where "cut_at [62] (drop (length opening) s) = Some (tag, after_tag)"
    "cut_at script_end after_tag = Some (a, b)"
    by (auto simp: script_here_def split: if_splits option.splits)
  from this [THEN cut_at_length] show ?thesis by simp
qed

lemma find_script_shorter: "find_script opening rest_ok s = Some (a, b) \<Longrightarrow> length b < length s"
proof (induction s)
  case (Cons c cs)
  then show ?case
    by (cases "script_here opening rest_ok (c # cs)") (auto dest: script_here_shorter)
qed simp

section \<open>Rocket Jobs\<close>

definition ld_json_tag :: "pystr \<Rightarrow> bool" where
  "ld_json_tag tag \<longleftrightarrow> tag \<noteq> [] \<and> py_contains (lit ''type=\"application/ld+json\"'') (tl tag)"

lemma jget_size: "jget d k = JArr es \<Longrightarrow> size_list size es < size (JObj d)"
proof (induction d)
  case (Cons kv d)
  then show ?case by (cases kv) (auto simp: jget_def split: if_splits)
qed (simp add: jget_def)

function (sequential) find_job_posting :: "json \<Rightarrow> jdict option"
  and find_job_posting_in :: "json list \<Rightarrow> jdict option" where
  "find_job_posting (JObj d) =
     (if jget d (lit ''@type'') = JStr (lit ''JobPosting'') then Some d
      else (case jget d (lit ''@graph'') of JArr es \<Rightarrow> find_job_posting_in es | _ \<Rightarrow> None))"
| "find_job_posting (JArr es) = find_job_posting_in es"
| "find_job_posting _ = None"
| "find_job_posting_in [] = None"
| "find_job_posting_in (e # es) =
     (case find_job_posting e of Some d \<Rightarrow> Some d | None \<Rightarrow> find_job_posting_in es)"
  by pat_completeness auto
termination
  by (relation "measure (case_sum size (size_list size))") (auto dest: jget_size)

function extract_job_posting_json_ld :: "page_lib \<Rightarrow> pystr \<Rightarrow> jdict option" where
  "extract_job_posting_json_ld P html =
     (case find_script (lit ''<script'') ld_json_tag html of
        None \<Rightarrow> None
      | Some (body, rest) \<Rightarrow>
          (case (case json_loads P body of None \<Rightarrow> None | Some j \<Rightarrow> find_job_posting j) of
             Some d \<Rightarrow> Some d
           | None \<Rightarrow> extract_job_posting_json_ld P rest))"
  by pat_completeness auto
termination
  by (relation "measure (length \<circ> snd)") (auto dest: find_script_shorter)

declare extract_job_posting_json_ld.simps [simp del]

definition locality_of :: "json \<Rightarrow> json" where
  "locality_of e =
     (case e of JObj d \<Rightarrow> jget (dict_or_empty (jget d (lit ''address''))) (lit ''addressLocality'') | _ \<Rightarrow> JNull)"

definition extract_location :: "pylib \<Rightarrow> json \<Rightarrow> json" where
  "extract_location L v =
     joined_or_null (map (py_str L) (filter truthy (map locality_of (case v of JArr es \<Rightarrow> es | _ \<Rightarrow> [v]))))"

text \<open>\<open>urlparse\<close> cuts the parameters off the last segment of the path.\<close>

definition uses_params :: "pystr list" where
  "uses_params = [] # map lit [''ftp'', ''hdl'', ''prospero'', ''http'', ''imap'', ''https'', ''shttp'',
     ''rtsp'', ''rtsps'', ''rtspu'', ''sip'', ''sips'', ''mms'', ''sftp'', ''tel'']"

definition last_segment :: "pystr \<Rightarrow> pystr" where
  "last_segment s = rev (takeWhile (\<lambda>c. c \<noteq> 47) (rev s))"

definition cut_params :: "pystr \<Rightarrow> pystr" where
  "cut_params p =
     take (length p - length (last_segment p)) p @ takeWhile (\<lambda>c. c \<noteq> 59) (last_segment p)"

definition external_id_from_url :: "pylib \<Rightarrow> json \<Rightarrow> exn + json" where
  "external_id_from_url L v =
     (case v of
        JStr u \<Rightarrow>
          if u = [] then Inr JNull
          else
            bindE (urlsplit L u) (\<lambda>parts.
            let p = (if url_scheme parts \<in> set uses_params then cut_params (url_path parts) else url_path parts);
                slug = last_segment (rstrip_by (\<lambda>c. c = 47) p) in
            Inr (if slug = [] then JNull else JStr slug))
      | _ \<Rightarrow> Inr JNull)"

definition rocket_contract_type :: "pylib \<Rightarrow> json \<Rightarrow> json" where
  "rocket_contract_type L v =
     (case v of
        JArr ts \<Rightarrow> py_or (JStr (py_join (lit '', '') (map (py_str L) ts))) JNull
      | JStr s \<Rightarrow> py_or (JStr s) JNull
      | _ \<Rightarrow> JNull)"

definition rocket_map_offer :: "pylib \<Rightarrow> map_offer" where
  "rocket_map_offer L sid raw =
     (let org = dict_or_empty (jget raw (lit ''hiringOrganization''));
          salary = dict_or_empty (jget raw (lit ''baseSalary''));
          v = dict_or_empty (jget salary (lit ''value''));
          raw_url = py_or (jget raw (lit ''url'')) (jget raw (lit ''_source_url''));
          address = (case raw_url of JStr u \<Rightarrow> py_or (JStr u) JNull | _ \<Rightarrow> JNull) in
      bindE (external_id_from_url L address) (\<lambda>ext.
      Inr [(lit ''source_id'', JInt sid), (lit ''external_id'', ext), (lit ''canonical_url'', address),
           (lit ''title'', py_or (jget raw (lit ''title'')) (JStr [])),
           (lit ''company'', py_or (jget org (lit ''name'')) (JStr [])),
           (lit ''location'', extract_location L (jget raw (lit ''jobLocation''))),
           (lit ''remote'', JBool (normalize_remote ROCKET_JOBS (jget raw (lit ''jobLocationType'')))),
           (lit ''seniority'', opt_str (normalize_seniority ROCKET_JOBS (jget raw (lit ''experienceRequirements'')))),
           (lit ''salary_min'', opt_int (to_int (jget v (lit ''minValue'')))),
           (lit ''salary_max'', opt_int (to_int (jget v (lit ''maxValue'')))),
           (lit ''salary_currency'', currency_of L (jget salary (lit ''currency''))),
           (lit ''contract_type'', rocket_contract_type L (jget raw (lit ''employmentType''))),
           (lit ''posted_at'', jget raw (lit ''datePosted'')),
           (lit ''description'', py_or (jget raw (lit ''description'')) JNull)]))"

text \<open>
  The addresses of the sitemap, or of the sitemaps it lists: request 0 is the sitemap, request
  \<open>i + 1\<close> the \<open>i\<close>-th listed one; one that cannot be fetched is left out.
\<close>

fun fetch_sub_sitemaps :: "page_lib \<Rightarrow> text_net \<Rightarrow> nat \<Rightarrow> pystr list \<Rightarrow> exn + pystr list" where
  "fetch_sub_sitemaps P net i [] = Inr []"
| "fetch_sub_sitemaps P net i (u # us) =
     bindE (net i u) (\<lambda>answer.
     bindE (fetch_sub_sitemaps P net (i + 1) us) (\<lambda>urls.
     Inr ((case answer of None \<Rightarrow> [] | Some x \<Rightarrow> parse_sitemap_locs P x (lit ''url'')) @ urls)))"

definition rocket_sitemap_urls :: "pylib \<Rightarrow> page_lib \<Rightarrow> text_net \<Rightarrow> jdict \<Rightarrow> exn + pystr list option" where
  "rocket_sitemap_urls L P net config =
     bindE (net 0 (build_url L (lit ''https://rocketjobs.pl/sitemaps/active-jobs.xml'') config)) (\<lambda>answer.
     case answer of
       None \<Rightarrow> Inr None
     | Some x \<Rightarrow>
         (let urls = parse_sitemap_locs P x (lit ''url'');
              subs = parse_sitemap_locs P x (lit ''sitemap'') in
          if urls \<noteq> [] then Inr (Some urls)
          else if subs = [] then Inr None
          else
            bindE (fetch_sub_sitemaps P net 1 subs) (\<lambda>found.
            Inr (if found = [] then None else Some (py_dedup found)))))"

definition rocket_jobs_board :: "pylib \<Rightarrow> page_lib \<Rightarrow> detail_board" where
  "rocket_jobs_board L P =
     \<lparr>db_name = lit ''Rocket Jobs'', db_sitemap_urls = rocket_sitemap_urls L P, db_filtered_urls = None,
      db_extract = (\<lambda>html u. map_option (AList.update (lit ''_source_url'') (JStr u)) (extract_job_posting_json_ld P html)),
      db_map = rocket_map_offer L\<rparr>"

section \<open>Bulldogjob\<close>

definition extract_next_data :: "page_lib \<Rightarrow> pystr \<Rightarrow> jdict option" where
  "extract_next_data P html =
     (case find_script (lit ''<script id=\"__NEXT_DATA__\"'') (\<lambda>_. True) html of
        None \<Rightarrow> None
      | Some (body, _) \<Rightarrow> (case json_loads P body of Some (JObj d) \<Rightarrow> Some d | _ \<Rightarrow> None))"

text \<open>\<open>x.get(key, {})\<close> of what may be no dictionary.\<close>

definition get_dict :: "json \<Rightarrow> pystr \<Rightarrow> exn + json" where
  "get_dict v k =
     (case v of
        JObj d \<Rightarrow> Inr (jget_default d k (JObj []))
      | _ \<Rightarrow> Inl (AttributeError (lit ''object has no attribute get'')))"

definition city_of :: "json \<Rightarrow> json" where
  "city_of e = (case e of JObj d \<Rightarrow> jget (dict_or_empty (jget d (lit ''location''))) (lit ''cityEn'') | _ \<Rightarrow> JNull)"

definition join_locations :: "pylib \<Rightarrow> jdict \<Rightarrow> json" where
  "join_locations L job =
     (case jget job (lit ''locations'') of
        JArr es \<Rightarrow> joined_or_null (map (py_str L) (filter truthy (map city_of es)))
      | _ \<Rightarrow> JNull)"

definition pick_salary :: "jdict \<Rightarrow> jdict \<times> json" where
  "pick_salary job =
     (case jget job (lit ''employmentSalary'') of
        JObj d \<Rightarrow> (d, JStr (lit ''employment''))
      | _ \<Rightarrow>
          (case jget job (lit ''b2bSalary'') of
             JObj d \<Rightarrow> (d, JStr (lit ''b2b''))
           | _ \<Rightarrow> (case jget job (lit ''otherSalary'') of JObj d \<Rightarrow> (d, JStr (lit ''other'')) | _ \<Rightarrow> ([], JNull))))"

text \<open>\<open>join\<close> of the parts that are there: every one has to be a text.\<close>

fun all_strs :: "json list \<Rightarrow> exn + pystr list" where
  "all_strs [] = Inr []"
| "all_strs (JStr s # js) = bindE (all_strs js) (\<lambda>xs. Inr (s # xs))"
| "all_strs (_ # js) = Inl (TypeError (lit ''sequence item: expected str instance''))"

definition join_description :: "json list \<Rightarrow> exn + json" where
  "join_description parts =
     (let ps = filter truthy parts in
      if ps = [] then Inr JNull else bindE (all_strs ps) (\<lambda>xs. Inr (JStr (py_join [10, 10] xs))))"

definition bulldog_map_offer :: "pylib \<Rightarrow> map_offer" where
  "bulldog_map_offer L sid raw =
     bindE (get_dict (JObj raw) (lit ''props'')) (\<lambda>props.
     bindE (get_dict props (lit ''pageProps'')) (\<lambda>page_props.
     bindE (get_dict page_props (lit ''data'')) (\<lambda>raw_data.
     let job = dict_or_empty (jget (dict_or_empty raw_data) (lit ''job''));
         job_id = jget job (lit ''id'');
         company = dict_or_empty (jget job (lit ''company''));
         salary = fst (pick_salary job); contract_type = snd (pick_salary job) in
     bindE (join_description [jget job (lit ''offer''), jget job (lit ''requirements'')]) (\<lambda>desc.
     Inr [(lit ''source_id'', JInt sid), (lit ''external_id'', job_id),
          (lit ''canonical_url'', if truthy job_id
             then JStr (lit ''https://bulldogjob.com/companies/jobs/'' @ py_str L job_id) else JNull),
          (lit ''title'', py_or (jget job (lit ''position'')) (JStr [])),
          (lit ''company'', py_or (jget company (lit ''name'')) (JStr [])),
          (lit ''location'', join_locations L job),
          (lit ''remote'', JBool (normalize_remote BULLDOGJOB (jget_default job (lit ''remote'') (JBool False)))),
          (lit ''seniority'', opt_str (normalize_seniority BULLDOGJOB (jget job (lit ''experienceLevel'')))),
          (lit ''salary_min'', opt_int (to_int (jget salary (lit ''minValue'')))),
          (lit ''salary_max'', opt_int (to_int (jget salary (lit ''maxValue'')))),
          (lit ''salary_currency'', currency_of L (jget salary (lit ''currency''))),
          (lit ''contract_type'', contract_type),
          (lit ''posted_at'', jget job (lit ''publishedAt'')), (lit ''description'', desc)]))))"

text \<open>\<open>^https://bulldogjob\.com/companies/jobs/\d+-\<close>\<close>

definition is_job_url :: "pystr \<Rightarrow> bool" where
  "is_job_url u =
     (let start = lit ''https://bulldogjob.com/companies/jobs/''; rest = drop (length start) u in
      is_prefix start u \<and> takeWhile is_digit rest \<noteq> [] \<and> is_prefix [45] (dropWhile is_digit rest))"

text \<open>The sitemap of the jobs is the first one whose address has \<open>jobs\<close> in it, else the first.\<close>

definition bulldog_sitemap_urls :: "pylib \<Rightarrow> page_lib \<Rightarrow> text_net \<Rightarrow> jdict \<Rightarrow> exn + pystr list option" where
  "bulldog_sitemap_urls L P net config =
     bindE (net 0 (build_url L (lit ''https://bulldogjob.com/sitemap.en.xml.gz'') config)) (\<lambda>index_xml.
     case index_xml of
       None \<Rightarrow> Inr None
     | Some x \<Rightarrow>
         (case parse_sitemap_locs P x (lit ''sitemap'') of
            [] \<Rightarrow> Inr None
          | sub # subs \<Rightarrow>
              (let jobs_sitemap = (case find (py_contains (lit ''jobs'')) (sub # subs) of Some u \<Rightarrow> u | None \<Rightarrow> sub) in
               bindE (net 1 jobs_sitemap) (\<lambda>jobs_xml.
               Inr (map_option (\<lambda>y. filter is_job_url (parse_sitemap_locs P y (lit ''url''))) jobs_xml)))))"

fun listed_ids :: "pylib \<Rightarrow> json list \<Rightarrow> pystr list" where
  "listed_ids L [] = []"
| "listed_ids L (JObj d # js) =
     (if truthy (jget d (lit ''id''))
      then (lit ''https://bulldogjob.com/companies/jobs/'' @ py_str L (jget d (lit ''id''))) # listed_ids L js
      else listed_ids L js)"
| "listed_ids L (_ # js) = listed_ids L js"

definition bulldog_filtered_urls ::
    "pylib \<Rightarrow> page_lib \<Rightarrow> text_net \<Rightarrow> jdict \<Rightarrow> pystr \<Rightarrow> exn + pystr list option" where
  "bulldog_filtered_urls L P net config trm =
     bindE (net 0 (lit ''https://bulldogjob.com/companies/jobs/s/skills,'' @ quote_all P trm)) (\<lambda>answer.
     case answer of
       None \<Rightarrow> Inr None
     | Some html \<Rightarrow>
         (case extract_next_data P html of
            None \<Rightarrow> Inr None
          | Some d \<Rightarrow>
              bindE (get_dict (JObj d) (lit ''props'')) (\<lambda>props.
              bindE (get_dict props (lit ''pageProps'')) (\<lambda>page_props.
              Inr (case page_props of
                     JObj pp \<Rightarrow> (case jget pp (lit ''jobs'') of JArr js \<Rightarrow> Some (listed_ids L js) | _ \<Rightarrow> None)
                   | _ \<Rightarrow> None)))))"

definition bulldogjob_board :: "pylib \<Rightarrow> page_lib \<Rightarrow> detail_board" where
  "bulldogjob_board L P =
     \<lparr>db_name = lit ''Bulldogjob'', db_sitemap_urls = bulldog_sitemap_urls L P,
      db_filtered_urls = Some (bulldog_filtered_urls L P), db_extract = (\<lambda>html u. extract_next_data P html),
      db_map = bulldog_map_offer L\<rparr>"

section \<open>The boards as connectors\<close>

interpretation rocket: job_board "rocket_map_offer L" for L
  by unfold_locales (auto simp: rocket_map_offer_def Let_def jget_def bindE_Inr_iff)

interpretation bulldog: job_board "bulldog_map_offer L" for L
  by unfold_locales (auto simp: bulldog_map_offer_def Let_def jget_def bindE_Inr_iff)

text \<open>One page of a broken shape stops the walk of Bulldogjob for good: when the first address
  from the stored cursor on answers with a page whose \<open>props\<close> is null, the run raises and changes
  nothing, the cursor included, so that every later run starts at the same page and raises again.\<close>

theorem broken_page_stops_walk:
  assumes "walk_settings B config = Inr (ps, mp, th)" and "0 < mp"
    and "resolve_sitemap_cursor config (int (length urls)) = Inr c"
    and "py_slice urls c (c + ps) = u # us" and "nets 0 0 u = Inr (Some html)"
    and "extract_next_data P html = Some d" and "map_of d (lit ''props'') = Some JNull"
    and "fetch_details (bulldogjob_board L P) (nets 0) 1 us = Inr (ofs, blocked)"
  shows "run_over_urls L B (bulldogjob_board L P) nets now later sid config urls force True s
    = (Inl (AttributeError (lit ''object has no attribute get'')), s)"
  by (rule unmappable_page_stops_walk [where nets = nets and u = u, OF assms(1-5)])
    (use assms(6-8) in \<open>auto simp: bulldogjob_board_def bulldog_map_offer_def get_dict_def jget_default_def\<close>)

section \<open>Concrete walks\<close>

definition sample_page_lib :: page_lib where
  "sample_page_lib = \<lparr>parse_xml = (\<lambda>_. None), json_loads = (\<lambda>_. Some (JObj [(lit ''props'', JNull)])),
     quote_all = (\<lambda>s. s), repr_str = (\<lambda>s. s)\<rparr>"

definition walk_config :: jdict where
  "walk_config = [(lit ''max_pages'', JInt 1), (lit ''sitemap_cursor'', JInt 0)]"

definition walk_session :: session where
  "walk_session = open_session (empty_db\<lparr>next_id := 2, sources := [sample_source walk_config]\<rparr>)"

definition next_data_page :: pystr where
  "next_data_page = lit ''<script id=\"__NEXT_DATA__\">x</script>''"

lemma silent_walk:
  "run_over_urls sample_lib sample_board_lib (rocket_jobs_board sample_lib sample_page_lib) (\<lambda>_ _ _. Inr None)
     (\<lambda>_ _. 0) (\<lambda>_. 0) 1 walk_config [[97]] False True walk_session = (Inr (finished 0 0), walk_session)"
  by code_simp

lemma walk_config_facts:
  "walk_settings sample_board_lib walk_config = Inr (20, 1, 20)"
  "resolve_fetch_range sample_lib (jget walk_config (lit ''fetch_range'')) = (None, None)"
  "resolve_sitemap_cursor walk_config 1 = Inr 0"
  "stored_config 1 (working walk_session) = Some walk_config"
  by code_simp+

theorem every_address_is_read_witness:
  "\<exists>m < 2 :: nat. \<exists>p c. 0 \<le> c \<and> c \<le> 0 \<and> page_done sample_lib 1 (rocket_jobs_board sample_lib sample_page_lib)
     (\<lambda>_ _ _. Inr None) [[97]] 20 walk_session p c"
proof -
  have "sources (committed walk_session) = sources (working walk_session) \<and> \<not> tx_aborted walk_session"
    by (simp add: walk_session_def open_session_def)
  from every_address_is_read [of sample_lib sample_board_lib "rocket_jobs_board sample_lib sample_page_lib"
      "\<lambda>_ _ _ _. Inr None" "\<lambda>_ _ _. 0" "\<lambda>_ _. 0" 1 "\<lambda>_. walk_config" "[[97]]" False "\<lambda>_. walk_session"
      "\<lambda>_. finished 0 0" "\<lambda>_. walk_session", OF silent_walk walk_config_facts(4) this walk_config_facts(1) _ _
      walk_config_facts(2), of 0]
  show ?thesis by auto
qed

theorem broken_page_stops_walk_witness:
  "run_over_urls sample_lib sample_board_lib (bulldogjob_board sample_lib sample_page_lib)
     (\<lambda>_ _ _. Inr (Some next_data_page)) (\<lambda>_ _. 0) (\<lambda>_. 0) 1 walk_config [[97]] False True walk_session
    = (Inl (AttributeError (lit ''object has no attribute get'')), walk_session)"
proof -
  have "extract_next_data sample_page_lib next_data_page = Some [(lit ''props'', JNull)]" by code_simp
  moreover have "py_slice [[97]] 0 (0 + 20) = [97 :: nat] # []" by code_simp
  ultimately show ?thesis
    using walk_config_facts(1,3)
    by (intro broken_page_stops_walk [where c = 0 and ps = 20 and mp = 1 and th = 20]) auto
qed

end
