(* ===== verification/Http.thy ===== *)
theory Http
  imports PyStd
begin

text \<open>
  \<open>app/connectors/proxy_pool.py\<close> and \<open>app/connectors/http.py\<close>: the pool of proxies every fetch
  draws from, and the fetch with its attempts. The proxies that are found, the random choice and
  what the network answers are arguments of the definitions; several threads share the pool, each
  of whose critical sections is one step.
\<close>

section \<open>The proxy pool\<close>

text \<open>
  \<open>good\<close> is \<open>_good\<close>; the counters say how many searches and choices were made, since each one
  may give something else.
\<close>

record pool =
  good :: "pystr list"
  searches :: nat
  choices :: nat

text \<open>The critical sections that change the pool: admission of a candidate and eviction.\<close>

definition admit :: "nat \<Rightarrow> pystr \<Rightarrow> pystr list \<Rightarrow> pystr list" where
  "admit target c g = (if c \<notin> set g \<and> length g < target then g @ [c] else g)"

definition evict :: "pystr \<Rightarrow> pystr list \<Rightarrow> pystr list" where
  "evict c g = (if c \<in> set g then remove1 c g else g)"

definition report_failure :: "pystr \<Rightarrow> pool \<Rightarrow> pool" where
  "report_failure c p = p\<lparr>good := evict c (good p)\<rparr>"

text \<open>
  \<open>top_up\<close>, by recursion on the attempts left. \<open>scrape\<close> gives what \<open>_scrape_one\<close> returns: a
  verified proxy, or \<open>None\<close> when there is none.
\<close>

fun top_up_loop :: "(nat \<Rightarrow> pystr option) \<Rightarrow> nat \<Rightarrow> nat \<Rightarrow> pool \<Rightarrow> nat \<Rightarrow> nat \<times> pool" where
  "top_up_loop scrape target 0 p admitted = (admitted, p)"
| "top_up_loop scrape target (Suc n) p admitted =
     (if target \<le> length (good p) then (admitted, p)
      else
        (let p1 = p\<lparr>searches := searches p + 1\<rparr> in
         case scrape (searches p) of
           None \<Rightarrow> top_up_loop scrape target n p1 admitted
         | Some c \<Rightarrow>
             top_up_loop scrape target n (p1\<lparr>good := admit target c (good p1)\<rparr>)
               (if admit target c (good p1) = good p1 then admitted else admitted + 1)))"

definition top_up :: "(nat \<Rightarrow> pystr option) \<Rightarrow> nat \<Rightarrow> nat option \<Rightarrow> pool \<Rightarrow> nat \<times> pool" where
  "top_up scrape target max_attempts p =
     top_up_loop scrape target (case max_attempts of None \<Rightarrow> target * 4 | Some n \<Rightarrow> n) p 0"

text \<open>The periodic job; the pool was made for the size the settings name.\<close>

definition run_proxy_pool_topup_job :: "(nat \<Rightarrow> pystr option) \<Rightarrow> nat \<Rightarrow> pool \<Rightarrow> nat \<times> pool" where
  "run_proxy_pool_topup_job scrape proxy_pool_target_size p =
     top_up scrape proxy_pool_target_size (Some (proxy_pool_target_size * 4)) p"

text \<open>\<open>random.choice\<close>: some index of the list.\<close>

definition random_proxy :: "(nat \<Rightarrow> nat) \<Rightarrow> pool \<Rightarrow> pystr option \<times> pool" where
  "random_proxy rand p =
     (if good p = [] then (None, p)
      else (Some (good p ! (rand (choices p) mod length (good p))), p\<lparr>choices := choices p + 1\<rparr>))"

definition get_proxy :: "(nat \<Rightarrow> pystr option) \<Rightarrow> (nat \<Rightarrow> nat) \<Rightarrow> nat \<Rightarrow> pool \<Rightarrow> pystr option \<times> pool" where
  "get_proxy scrape rand target p =
     (if good p \<noteq> [] then random_proxy rand p else random_proxy rand (snd (top_up scrape target None p)))"

section \<open>Threads that share the pool\<close>

text \<open>A step is a critical section of some thread; the steps of the threads come in any order.\<close>

inductive pool_step :: "nat \<Rightarrow> pystr list \<Rightarrow> pystr list \<Rightarrow> bool" for target where
  Admit: "pool_step target g (admit target c g)"
| Evict: "pool_step target g (evict c g)"

inductive pool_steps :: "nat \<Rightarrow> pystr list \<Rightarrow> pystr list \<Rightarrow> bool" for target where
  Done [intro]: "pool_steps target g g"
| Step: "pool_steps target g h \<Longrightarrow> pool_step target h k \<Longrightarrow> pool_steps target g k"

lemma pool_steps_trans:
  assumes "pool_steps target g h" and "pool_steps target h k"
  shows "pool_steps target g k"
  using assms(2,1) by (induction rule: pool_steps.induct) (auto intro: pool_steps.Step)

lemma pool_steps_one:
  "pool_steps target g (admit target c g)" "pool_steps target g (evict c g)"
  by (auto intro: pool_steps.Step [OF pool_steps.Done] pool_step.intros)

definition pool_ok :: "nat \<Rightarrow> pystr list \<Rightarrow> bool" where
  "pool_ok target g \<longleftrightarrow> distinct g \<and> length g \<le> target"

lemma pool_step_ok: "pool_step target g h \<Longrightarrow> pool_ok target g \<Longrightarrow> pool_ok target h"
  by (induction rule: pool_step.induct)
    (auto simp: pool_ok_def admit_def evict_def length_remove1)

lemma pool_steps_ok: "pool_steps target g h \<Longrightarrow> pool_ok target g \<Longrightarrow> pool_ok target h"
  by (induction rule: pool_steps.induct) (auto intro: pool_step_ok)

lemma top_up_loop_steps: "pool_steps target (good p) (good (snd (top_up_loop scrape target n p admitted)))"
proof (induction n arbitrary: p admitted)
  case (Suc n)
  show ?case
  proof (cases "target \<le> length (good p)")
    case False
    show ?thesis
    proof (cases "scrape (searches p)")
      case None
      then show ?thesis using Suc.IH [of "p\<lparr>searches := searches p + 1\<rparr>"] by (auto simp: Let_def)
    next
      case (Some c)
      let ?p = "p\<lparr>searches := searches p + 1, good := admit target c (good p)\<rparr>"
      have "pool_steps target (good p) (good ?p)" by (simp add: pool_steps_one)
      from pool_steps_trans [OF this Suc.IH [of ?p]] Some False show ?thesis by (simp add: Let_def)
    qed
  qed auto
qed auto

lemma random_proxy_good [simp]: "good (snd (random_proxy rand p)) = good p"
  by (simp add: random_proxy_def)

lemma top_up_steps: "pool_steps target (good p) (good (snd (top_up scrape target m p)))"
  by (simp add: top_up_def top_up_loop_steps)

lemma get_proxy_steps: "pool_steps target (good p) (good (snd (get_proxy scrape rand target p)))"
proof -
  have "pool_steps target (good p) (good (snd (top_up scrape target None p)))" by (rule top_up_steps)
  then show ?thesis by (auto simp: get_proxy_def)
qed

lemma report_failure_steps: "pool_steps target (good p) (good (report_failure c p))"
  by (simp add: report_failure_def pool_steps_one)

section \<open>The attempts of a fetch\<close>

text \<open>
  What a request through a proxy comes to: a response, an error status, another
  \<open>httpx.HTTPError\<close>, or an exception outside that class (an \<open>httpx.InvalidURL\<close>, for one), which no
  handler catches. The loop is that of \<open>_get\<close> and of \<open>_fetch_detail_html\<close>, by recursion on the
  attempts left; it also returns the attempts it made, which are what the log shows.
\<close>

datatype 'r outcome = Responded 'r | StatusError int | TransportError | Escaped exn

fun attempt_loop ::
    "('s \<Rightarrow> pystr option \<times> 's) \<Rightarrow> (pystr \<Rightarrow> 's \<Rightarrow> 's) \<Rightarrow> (nat \<Rightarrow> pystr \<Rightarrow> 'r outcome) \<Rightarrow> nat \<Rightarrow> nat
     \<Rightarrow> int option \<Rightarrow> 's \<Rightarrow> (exn + 'r option) \<times> int option \<times> (pystr \<times> 'r outcome) list \<times> 's" where
  "attempt_loop get report send 0 k last_status s = (Inr None, last_status, [], s)"
| "attempt_loop get report send (Suc n) k last_status s =
     (case get s of
        (None, s1) \<Rightarrow> attempt_loop get report send n (k + 1) last_status s1
      | (Some proxy, s1) \<Rightarrow>
          (case send k proxy of
             Responded r \<Rightarrow> (Inr (Some r), last_status, [(proxy, Responded r)], s1)
           | Escaped e \<Rightarrow> (Inl e, last_status, [(proxy, Escaped e)], s1)
           | StatusError code \<Rightarrow>
               (case attempt_loop get report send n (k + 1) (Some code) (report proxy s1) of
                  (r, l, tr, s2) \<Rightarrow> (r, l, (proxy, StatusError code) # tr, s2))
           | TransportError \<Rightarrow>
               (case attempt_loop get report send n (k + 1) None (report proxy s1) of
                  (r, l, tr, s2) \<Rightarrow> (r, l, (proxy, TransportError) # tr, s2))))"

definition max_proxy_attempts :: nat where
  "max_proxy_attempts = 3"

definition blocked_or_none :: "int option \<Rightarrow> 'r option \<Rightarrow> exn + 'r option" where
  "blocked_or_none last_status r =
     (case r of
        Some x \<Rightarrow> Inr (Some x)
      | None \<Rightarrow>
          (case last_status of
             Some code \<Rightarrow> if code \<in> {403, 429} then Inl (BlockedFetchError code) else Inr None
           | None \<Rightarrow> Inr None))"

definition get_response ::
    "('s \<Rightarrow> pystr option \<times> 's) \<Rightarrow> (pystr \<Rightarrow> 's \<Rightarrow> 's) \<Rightarrow> (nat \<Rightarrow> pystr \<Rightarrow> 'r outcome) \<Rightarrow> 's
     \<Rightarrow> (exn + 'r option) \<times> (pystr \<times> 'r outcome) list \<times> 's" where
  "get_response get report send s =
     (case attempt_loop get report send max_proxy_attempts 1 None s of
        (r, last_status, tr, s1) \<Rightarrow> (bindE r (blocked_or_none last_status), tr, s1))"

text \<open>\<open>_get\<close>: the attempts draw from the shared pool.\<close>

definition http_get ::
    "(nat \<Rightarrow> pystr option) \<Rightarrow> (nat \<Rightarrow> nat) \<Rightarrow> nat \<Rightarrow> (nat \<Rightarrow> pystr \<Rightarrow> 'r outcome) \<Rightarrow> pool
     \<Rightarrow> (exn + 'r option) \<times> (pystr \<times> 'r outcome) list \<times> pool" where
  "http_get scrape rand target send p =
     get_response (get_proxy scrape rand target) report_failure send p"

section \<open>Reading the response\<close>

text \<open>
  The ways to read a response. The library's parser succeeds, or it raises the error the code
  catches, or one it does not: \<open>response.json()\<close> decodes the body first, and a body that is not
  text in its encoding raises \<open>UnicodeDecodeError\<close>, which is no \<open>JSONDecodeError\<close>.
\<close>

datatype 'a parse_result = Parsed 'a | Parse_error | Parse_raises exn

definition read_with :: "('r \<Rightarrow> 'a parse_result) \<Rightarrow> exn + 'r option \<Rightarrow> exn + 'a option" where
  "read_with parse res =
     bindE res (\<lambda>r.
     case r of
       None \<Rightarrow> Inr None
     | Some x \<Rightarrow>
         (case parse x of
            Parsed v \<Rightarrow> Inr (Some v)
          | Parse_error \<Rightarrow> Inr None
          | Parse_raises e \<Rightarrow> Inl e))"

definition fetch_json :: "('r \<Rightarrow> json parse_result) \<Rightarrow> exn + 'r option \<Rightarrow> exn + json option" where
  "fetch_json parse res = read_with parse res"

definition fetch_xml :: "('r \<Rightarrow> 'x parse_result) \<Rightarrow> exn + 'r option \<Rightarrow> exn + 'x option" where
  "fetch_xml parse res = read_with parse res"

definition fetch_text :: "('r \<Rightarrow> pystr) \<Rightarrow> exn + 'r option \<Rightarrow> exn + pystr option" where
  "fetch_text body res = read_with (\<lambda>x. Parsed (body x)) res"

text \<open>\<open>_fetch_detail_html\<close> of \<open>sitemap_detail.py\<close>: the same attempts, and the text of the page.\<close>

definition fetch_detail_html ::
    "('r \<Rightarrow> pystr) \<Rightarrow> (nat \<Rightarrow> pystr option) \<Rightarrow> (nat \<Rightarrow> nat) \<Rightarrow> nat \<Rightarrow> (nat \<Rightarrow> pystr \<Rightarrow> 'r outcome) \<Rightarrow> pool
     \<Rightarrow> (exn + pystr option) \<times> pool" where
  "fetch_detail_html body scrape rand target send p =
     (case get_response (get_proxy scrape rand target) report_failure send p of
        (res, _, p1) \<Rightarrow> (read_with (\<lambda>x. Parsed (body x)) res, p1))"

text \<open>
  Decompression has more ways to fail than the code catches: \<open>OSError\<close> for what is no gzip file,
  \<open>EOFError\<close> for a truncated one, \<open>zlib.error\<close> for a damaged one.
\<close>

datatype gunzip_result = Gunzipped "pystr option" | GzipOSError | GzipEOFError | ZlibError

definition fetch_gzip_xml :: "('r \<Rightarrow> gunzip_result) \<Rightarrow> exn + 'r option \<Rightarrow> exn + pystr option" where
  "fetch_gzip_xml gunzip res =
     bindE res (\<lambda>r.
     case r of
       None \<Rightarrow> Inr None
     | Some x \<Rightarrow>
         (case gunzip x of
            Gunzipped txt \<Rightarrow> Inr txt
          | GzipOSError \<Rightarrow> Inr None
          | GzipEOFError \<Rightarrow> Inl (OtherExn (lit ''EOFError''))
          | ZlibError \<Rightarrow> Inl (OtherExn (lit ''zlib.error''))))"

section \<open>What a fetch does\<close>

definition response_of :: "'r outcome \<Rightarrow> exn + 'r option" where
  "response_of x =
     (case x of
        Responded r \<Rightarrow> Inr (Some r)
      | StatusError code \<Rightarrow> if code \<in> {403, 429} then Inl (BlockedFetchError code) else Inr None
      | TransportError \<Rightarrow> Inr None
      | Escaped e \<Rightarrow> Inl e)"

fun is_failure :: "'r outcome \<Rightarrow> bool" where
  "is_failure (StatusError code) = True"
| "is_failure TransportError = True"
| "is_failure _ = False"

fun error_status :: "'r outcome \<Rightarrow> int option" where
  "error_status (StatusError code) = Some code"
| "error_status _ = None"

text \<open>The attempts of the loop, one case for each way an attempt goes.\<close>

lemma attempt_loop_induct [consumes 1, case_names Spent No_proxy Final Failed]:
  assumes "attempt_loop get report send n k l s = (r, l', tr, s')"
    and "\<And>k l s. P 0 k l s (Inr None) l [] s"
    and "\<And>n k l s s1 r l' tr s'. get s = (None, s1) \<Longrightarrow> P n (k + 1) l s1 r l' tr s' \<Longrightarrow>
       P (Suc n) k l s r l' tr s'"
    and "\<And>n k l s c s1. get s = (Some c, s1) \<Longrightarrow> \<not> is_failure (send k c) \<Longrightarrow>
       P (Suc n) k l s (response_of (send k c)) l [(c, send k c)] s1"
    and "\<And>n k l s c s1 r l' tr s'. get s = (Some c, s1) \<Longrightarrow> is_failure (send k c) \<Longrightarrow>
       P n (k + 1) (error_status (send k c)) (report c s1) r l' tr s' \<Longrightarrow>
       P (Suc n) k l s r l' ((c, send k c) # tr) s'"
  shows "P n k l s r l' tr s'"
  using assms(1)
proof (induction n arbitrary: k l s r l' tr)
  case (Suc n)
  obtain q s1 where get: "get s = (q, s1)" by fastforce
  show ?case
  proof (cases q)
    case None
    with Suc get show ?thesis by (auto intro: assms(3))
  next
    case (Some c)
    show ?thesis
    proof (cases "is_failure (send k c)")
      case True
      with Suc.prems get Some obtain tr1 where
        loop: "attempt_loop get report send n (k + 1) (error_status (send k c)) (report c s1) = (r, l', tr1, s')"
        and tr: "tr = (c, send k c) # tr1"
        by (cases "send k c") (auto split: prod.splits)
      with get Some True Suc.IH [OF loop] show ?thesis by (auto intro: assms(5))
    next
      case False
      with Suc.prems get Some show ?thesis
        using assms(4) [of s c s1 k n l] by (cases "send k c") (auto simp: response_of_def)
    qed
  qed
qed (auto intro: assms(2))

text \<open>The trace of the attempts: bounded, and only its last one can have been answered.\<close>

lemma attempt_loop_trace:
  assumes "attempt_loop get report send n k l s = (r, l', tr, s')"
  shows "length tr \<le> n \<and> (\<forall>x \<in> set (butlast tr). is_failure (snd x))
    \<and> (if tr = [] then r = Inr None \<and> l' = l
       else bindE r (blocked_or_none l') = response_of (snd (last tr)))"
  using assms
proof (induction rule: attempt_loop_induct)
  case (Final n k l s c s1)
  then show ?case
    by (cases "send k c") (auto simp: blocked_or_none_def response_of_def)
next
  case (Failed n k l s c s1 r l' tr s')
  then show ?case
    by (cases "send k c") (auto simp: blocked_or_none_def response_of_def)
qed auto

text \<open>What the attempts leave of the pool.\<close>

lemma top_up_loop_accounts:
  assumes "top_up_loop scrape target n p admitted = (m, q)"
  shows "admitted \<le> m \<and> length (good q) + admitted = length (good p) + m
    \<and> searches p \<le> searches q \<and> searches q \<le> searches p + n
    \<and> (searches q < searches p + n \<longrightarrow> target \<le> length (good q))"
  using assms
proof (induction n arbitrary: p admitted)
  case (Suc n)
  show ?case
  proof (cases "target \<le> length (good p)")
    case False
    let ?p1 = "p\<lparr>searches := searches p + 1\<rparr>"
    show ?thesis
    proof (cases "scrape (searches p)")
      case None
      with Suc.prems False have "top_up_loop scrape target n ?p1 admitted = (m, q)" by (simp add: Let_def)
      from Suc.IH [OF this] show ?thesis by auto
    next
      case (Some c)
      let ?p2 = "?p1\<lparr>good := admit target c (good p)\<rparr>"
      from Some Suc.prems False have
        "top_up_loop scrape target n ?p2 (if admit target c (good p) = good p then admitted else admitted + 1) = (m, q)"
        by (simp add: Let_def)
      from Suc.IH [OF this] show ?thesis by (auto simp: admit_def split: if_splits)
    qed
  next
    case True
    with Suc.prems show ?thesis by auto
  qed
qed simp

lemma top_up_loop_searches: "searches p \<le> searches (snd (top_up_loop scrape target n p admitted))"
  using top_up_loop_accounts [OF surjective_pairing] by blast

lemma top_up_loop_idle:
  assumes "searches (snd (top_up_loop scrape target n p admitted)) = searches p"
  shows "snd (top_up_loop scrape target n p admitted) = p"
proof (cases n)
  case (Suc m)
  show ?thesis
  proof (rule ccontr)
    assume no: "\<not> ?thesis"
    then have "\<not> target \<le> length (good p)" by (auto simp: Suc)
    then obtain p1 a where "top_up_loop scrape target n p admitted = top_up_loop scrape target m p1 a"
      and "searches p1 = searches p + 1"
      by (cases "scrape (searches p)") (fastforce simp: Suc Let_def)+
    with assms top_up_loop_searches [of p1 scrape target m a] show False by simp
  qed
qed simp

lemma get_proxy_idle:
  "searches p \<le> searches (snd (get_proxy scrape rand target p))
   \<and> (searches (snd (get_proxy scrape rand target p)) = searches p
      \<longrightarrow> good (snd (get_proxy scrape rand target p)) = good p)"
  using top_up_loop_idle [of scrape target "target * 4" p 0] top_up_loop_searches [of p scrape target]
  by (auto simp: get_proxy_def random_proxy_def top_up_def)

lemma get_proxy_drawn:
  assumes "get_proxy scrape rand target p = (q, p1)"
  shows "case q of None \<Rightarrow> good p1 = [] | Some c \<Rightarrow> c \<in> set (good p1)"
proof -
  have "rand i mod length g < length g" if "g \<noteq> []" for i and g :: "pystr list" using that by simp
  then show ?thesis using assms by (auto simp: get_proxy_def random_proxy_def split: if_splits)
qed

definition failed_proxies :: "(pystr \<times> 'r outcome) list \<Rightarrow> pystr list" where
  "failed_proxies tr = map fst (filter (\<lambda>x. is_failure (snd x)) tr)"

lemma attempts_evict:
  assumes "attempt_loop (get_proxy scrape rand target) report_failure send n k l p = (r, l', tr, p')"
  shows "searches p \<le> searches p' \<and> (searches p' = searches p \<longrightarrow> good p' = fold evict (failed_proxies tr) (good p))"
  using assms
proof (induction rule: attempt_loop_induct)
  case (No_proxy n k l s s1 r l' tr s')
  then show ?case using get_proxy_idle [of s scrape rand target] by auto
next
  case (Final n k l s c s1)
  then show ?case using get_proxy_idle [of s scrape rand target] by (auto simp: failed_proxies_def)
next
  case (Failed n k l s c s1 r l' tr s')
  then show ?case using get_proxy_idle [of s scrape rand target] by (auto simp: failed_proxies_def report_failure_def)
qed (simp add: failed_proxies_def)

section \<open>The pool under use\<close>

text \<open>
  What the attempts rely on: a proxy that failed is gone from the pool, and neither taking one nor
  reporting one breaks the invariant of the pool.
\<close>

locale proxy_source =
  fixes get :: "'s \<Rightarrow> pystr option \<times> 's" and report :: "pystr \<Rightarrow> 's \<Rightarrow> 's"
    and reach :: "'s \<Rightarrow> 's \<Rightarrow> bool" and held :: "'s \<Rightarrow> pystr set" and ok :: "'s \<Rightarrow> bool"
  assumes reach_refl: "reach s s"
    and reach_trans: "reach s t \<Longrightarrow> reach t u \<Longrightarrow> reach s u"
    and get_reach: "reach s (snd (get s))"
    and report_reach: "reach s (report c s)"
    and reach_ok: "reach s t \<Longrightarrow> ok s \<Longrightarrow> ok t"
    and report_gone: "ok s \<Longrightarrow> c \<notin> held (report c s)"
    and get_held: "get s = (Some c, s1) \<Longrightarrow> c \<in> held s1"
    and get_none: "get s = (None, s1) \<Longrightarrow> held s1 = {}"
begin

lemma attempts_reach:
  assumes "attempt_loop get report send n k l s = (r, l', tr, s')"
  shows "reach s s'"
  using assms
proof (induction rule: attempt_loop_induct)
  case (Spent k l s)
  then show ?case by (rule reach_refl)
next
  case (No_proxy n k l s s1 r l' tr s')
  then show ?case using get_reach [of s] by (auto intro: reach_trans)
next
  case (Final n k l s c s1)
  then show ?case using get_reach [of s] by auto
next
  case (Failed n k l s c s1 r l' tr s')
  then show ?case using get_reach [of s] report_reach [of s1 c] by (auto intro: reach_trans)
qed

text \<open>The proxy of the last attempt is still held exactly if it did not fail.\<close>

lemma attempts_last:
  assumes "attempt_loop get report send n k l s = (r, l', tr, s')" and "ok s"
  shows "(tr = [] \<longrightarrow> held s' \<subseteq> held s)
    \<and> (tr \<noteq> [] \<longrightarrow> (fst (last tr) \<in> held s' \<longleftrightarrow> \<not> is_failure (snd (last tr))))"
  using assms
proof (induction rule: attempt_loop_induct)
  case (No_proxy n k l s s1 r l' tr s')
  have "ok s1" using reach_ok [OF get_reach [of s] No_proxy.prems] by (simp add: No_proxy.hyps)
  from No_proxy.IH [OF this] get_none [OF No_proxy.hyps] show ?case by auto
next
  case (Final n k l s c s1)
  then show ?case using get_held [of s c s1] by auto
next
  case (Failed n k l s c s1 r l' tr s')
  have "ok s1" using reach_ok [OF get_reach [of s] Failed.prems] by (simp add: Failed.hyps)
  from report_gone [OF this] Failed.IH [OF reach_ok [OF report_reach this]] Failed.hyps show ?case by auto
qed simp

lemma get_response_reach: "reach s (snd (snd (get_response get report send s)))"
proof -
  obtain r l tr s' where loop: "attempt_loop get report send max_proxy_attempts 1 None s = (r, l, tr, s')"
    by (metis prod_cases4)
  from attempts_reach [OF loop] show ?thesis by (simp add: get_response_def loop del: One_nat_def)
qed

end

lemma evict_gone: "pool_ok target g \<Longrightarrow> set (evict c g) = set g - {c}"
  by (auto simp: pool_ok_def evict_def)

lemma admit_held: "set (admit target c g) = (if length g < target then insert c (set g) else set g)"
  by (auto simp: admit_def)

interpretation shared_pool: proxy_source "get_proxy scrape rand target" report_failure
  "\<lambda>p q. pool_steps target (good p) (good q)" "\<lambda>p. set (good p)" "\<lambda>p. pool_ok target (good p)"
  for scrape rand target
  by unfold_locales
    (auto simp: get_proxy_steps report_failure_def pool_steps_one evict_gone
      intro: pool_steps_trans pool_steps_ok dest: get_proxy_drawn)

text \<open>C31: A fetch makes at most three attempts, stops at the first one that does not fail, and what
  it returns is what the last attempt came to: the response, the error of a blocked fetch for a
  status of 403 or 429, \<open>None\<close> for any other failure and when there was no proxy to try, or the
  exception that escaped. It reports exactly the proxies that failed, in the order they did: when
  no proxy had to be searched for, the pool it leaves is the one it found with these evicted one
  after another; and always the proxy of the last attempt is in the pool it leaves if it answered,
  and is not if it failed.\<close>

theorem http_get_spec:
  assumes "pool_ok target (good p)"
  shows "case http_get scrape rand target send p of (res, tr, p') \<Rightarrow>
     length tr \<le> 3 \<and> list_all (\<lambda>x. is_failure (snd x)) (butlast tr)
     \<and> res = (if tr = [] then Inr None else response_of (snd (last tr)))
     \<and> (searches p' = searches p \<longrightarrow> good p' = fold evict (failed_proxies tr) (good p))
     \<and> (tr \<noteq> [] \<longrightarrow> (fst (last tr) \<in> set (good p') \<longleftrightarrow> \<not> is_failure (snd (last tr))))"
proof -
  let ?get = "get_proxy scrape rand target"
  obtain r l tr p' where loop: "attempt_loop ?get report_failure send max_proxy_attempts 1 None p = (r, l, tr, p')"
    by (metis prod_cases4)
  have "http_get scrape rand target send p = (bindE r (blocked_or_none l), tr, p')"
    by (simp add: http_get_def get_response_def loop del: One_nat_def)
  then show ?thesis
    using attempt_loop_trace [OF loop] attempts_evict [OF loop] shared_pool.attempts_last [OF loop assms]
    by (auto simp: max_proxy_attempts_def list_all_iff blocked_or_none_def)
qed

section \<open>The pool as a set\<close>

text \<open>What the pool promises: a set of at most \<open>target\<close> proxies that gains and loses members.\<close>

inductive set_step :: "nat \<Rightarrow> pystr set \<Rightarrow> pystr set \<Rightarrow> bool" for target where
  Gain: "card A < target \<Longrightarrow> set_step target A (insert c A)"
| Lose: "set_step target A (A - {c})"
| Stay: "set_step target A A"

lemma pool_step_refines: "pool_step target g h \<Longrightarrow> pool_ok target g \<Longrightarrow> set_step target (set g) (set h)"
proof (induction rule: pool_step.induct)
  case (Admit g c)
  then show ?case
    by (auto simp: admit_def pool_ok_def distinct_card intro: set_step.intros)
next
  case (Evict g c)
  then show ?case by (metis evict_gone set_step.Lose)
qed

lemma pool_steps_refine:
  "pool_steps target g h \<Longrightarrow> pool_ok target g \<Longrightarrow> (set_step target)\<^sup>*\<^sup>* (set g) (set h)"
  by (induction rule: pool_steps.induct) (auto intro: pool_step_refines pool_steps_ok rtranclp.rtrancl_into_rtrancl)

text \<open>C32: The pool implements a bounded set of proxies: seen as a set, what a fetch does to a pool
  of distinct proxies within the target is a sequence of gains below the target and losses,
  and so is what any threads do to it with their critical sections in any order; the pool stays
  distinct and within the target.\<close>

theorem pool_refines_bounded_set:
  assumes "pool_ok target (good p)"
    and "pool_steps target (good (snd (snd (http_get scrape rand target send p)))) h"
  shows "(set_step target)\<^sup>*\<^sup>* (set (good p)) (set h) \<and> pool_ok target h"
proof -
  have "pool_steps target (good p) (good (snd (snd (http_get scrape rand target send p))))"
    using shared_pool.get_response_reach by (simp add: http_get_def)
  from pool_steps_trans [OF this assms(2)] assms(1) show ?thesis
    by (auto intro: pool_steps_refine pool_steps_ok)
qed

text \<open>A tick of the job on a pool that is below its size searches until it is full, or for all its searches.\<close>

lemma topup_job_accounts:
  assumes "run_proxy_pool_topup_job scrape target p = (m, q)"
  shows "length (good q) = length (good p) + m
    \<and> (target \<le> length (good q) \<or> searches q = searches p + target * 4)"
  using top_up_loop_accounts [of scrape target "target * 4" p 0 m q] assms
  by (auto simp: run_proxy_pool_topup_job_def top_up_def)

lemma top_up_loop_below:
  assumes "j < searches (snd (top_up_loop scrape target n p admitted)) - searches p"
  shows "length (good (snd (top_up_loop scrape target j p a))) < target"
  using assms
proof (induction n arbitrary: p admitted j a)
  case (Suc n)
  show ?case
  proof (cases "target \<le> length (good p)")
    case False
    obtain p1 where step: "\<And>i b. \<exists>b'. top_up_loop scrape target (Suc i) p b = top_up_loop scrape target i p1 b'"
      and one: "searches p1 = searches p + 1"
      using False by (cases "scrape (searches p)") (fastforce simp: Let_def)+
    show ?thesis
    proof (cases j)
      case 0
      with False show ?thesis by simp
    next
      case (Suc i)
      obtain b where "top_up_loop scrape target (Suc n) p admitted = top_up_loop scrape target n p1 b"
        using step by blast
      then have "i < searches (snd (top_up_loop scrape target n p1 b)) - searches p1"
        using Suc.prems Suc one by simp
      from Suc.IH [OF this] step [of i a] show ?thesis by (auto simp: Suc simp del: top_up_loop.simps)
    qed
  qed (use Suc.prems in simp)
qed simp

lemma admit_within: "length g \<le> target \<Longrightarrow> length (admit target c g) \<le> target"
  by (simp add: admit_def)

lemma top_up_loop_within:
  "length (good p) \<le> target \<Longrightarrow> length (good (snd (top_up_loop scrape target n p admitted))) \<le> target"
  by (induction n arbitrary: p admitted) (auto simp: Let_def admit_within split: option.split)

text \<open>C33: A top-up ends after at most the given number of searches; the number it returns is by
  how much the pool grew, and it ends early only with a full pool. It stops at the target: every
  search it makes is made while the pool is below its target, so a full pool is left as it is
  without a search, and a pool within the target stays within it.\<close>

theorem top_up_accounts:
  assumes "top_up scrape target (Some n) p = (m, q)"
  shows "length (good q) = length (good p) + m \<and> searches q \<le> searches p + n
    \<and> (searches q < searches p + n \<longrightarrow> target \<le> length (good q))
    \<and> (\<forall>j < searches q - searches p. length (good (snd (top_up scrape target (Some j) p))) < target)
    \<and> (target \<le> length (good p) \<longrightarrow> q = p)
    \<and> (length (good p) \<le> target \<longrightarrow> length (good q) \<le> target)"
proof (intro conjI allI impI)
  have q: "q = snd (top_up_loop scrape target n p 0)" using assms by (simp add: top_up_def)
  show "length (good (snd (top_up scrape target (Some j) p))) < target" if "j < searches q - searches p" for j
    using top_up_loop_below [of j scrape target n p 0 0] that by (simp add: q top_up_def)
  show "q = p" if "target \<le> length (good p)" using that by (cases n) (simp_all add: q)
  show "length (good q) \<le> target" if "length (good p) \<le> target"
    using that by (simp add: q top_up_loop_within)
qed (use top_up_loop_accounts [of scrape target n p 0 m q] assms in \<open>auto simp: top_up_def\<close>)

definition sample_pool :: pool where
  "sample_pool = \<lparr>good = [[97], [98]], searches = 0, choices = 0\<rparr>"

theorem http_get_spec_witness:
  "good (snd (snd (http_get (\<lambda>_. None) (\<lambda>_. 0) 2
     (\<lambda>k proxy. if k = 1 then StatusError 429 else Responded ()) sample_pool))) = [[98]]"
proof -
  let ?send = "\<lambda>k proxy. if k = 1 then StatusError 429 else Responded ()"
  have run: "http_get (\<lambda>_. None) (\<lambda>_. 0) 2 ?send sample_pool
      = (Inr (Some ()), [([97], StatusError 429), ([98], Responded ())], sample_pool\<lparr>good := [[98]], choices := 2\<rparr>)"
    by code_simp
  have "pool_ok 2 (good sample_pool)" by (simp add: pool_ok_def sample_pool_def)
  from http_get_spec [OF this, of "\<lambda>_. None" "\<lambda>_. 0" ?send] show ?thesis unfolding run by simp
qed

theorem pool_refines_bounded_set_witness:
  "(set_step 2)\<^sup>*\<^sup>* {[97], [98]} (set (good (snd (snd
     (http_get (\<lambda>_. None) (\<lambda>_. 0) 2 (\<lambda>k proxy. StatusError 403 :: unit outcome) sample_pool)))))"
  using pool_refines_bounded_set [of 2 sample_pool "\<lambda>_. None" "\<lambda>_. 0" "\<lambda>k proxy. StatusError 403 :: unit outcome",
      OF _ pool_steps.Done]
  by (simp add: sample_pool_def pool_ok_def)

theorem top_up_accounts_witness:
  "length (good (snd (top_up (\<lambda>n. Some [n]) 4 (Some 5) sample_pool))) = 4"
proof -
  have "top_up (\<lambda>n. Some [n]) 4 (Some 5) sample_pool = (2, snd (top_up (\<lambda>n. Some [n]) 4 (Some 5) sample_pool))"
    by code_simp
  from top_up_accounts [OF this] show ?thesis by (simp add: sample_pool_def)
qed

end
