(* ===== verification/Pracuj.thy ===== *)
theory Pracuj
  imports DetailBoards Http
begin

text \<open>
  \<open>app/connectors/pracuj.py\<close>: the connector that drives a browser. It enumerates the pages of a
  keyword search from a stored page on, reads the page of each posting, hands what it collected to
  the pagination loop in chunks and stores where the next run starts. The browser, the parsers and
  the proxies are arguments.
\<close>

section \<open>One page through the browser\<close>

text \<open>
  What a navigation comes to: an error of Playwright, no response, or a status and a text. A page
  of the bot challenge counts as no answer.
\<close>

datatype navigation = NavigationError | NoResponse | Rendered int pystr

definition challenge_markers :: "pystr list" where
  "challenge_markers = map lit [''Just a moment'', ''cf-mitigated'', ''Enable JavaScript and cookies'']"

definition is_challenge_page :: "pystr \<Rightarrow> bool" where
  "is_challenge_page html \<longleftrightarrow> list_ex (\<lambda>marker. py_contains (py_lower marker) (py_lower html)) challenge_markers"

definition fetch_rendered_page :: "navigation \<Rightarrow> exn + pystr option" where
  "fetch_rendered_page nav =
     (case nav of
        Rendered status html \<Rightarrow>
          if 400 \<le> status then (if status \<in> {403, 429} then Inl (BlockedFetchError status) else Inr None)
          else if is_challenge_page html then Inr None
          else Inr (Some html)
      | _ \<Rightarrow> Inr None)"

text \<open>\<open>_fetch_html_with_proxy_rotation\<close>: the attempts of a fetch, each in a fresh context.\<close>

definition rendered_outcome :: "navigation \<Rightarrow> pystr outcome" where
  "rendered_outcome nav =
     (case fetch_rendered_page nav of
        Inr (Some html) \<Rightarrow> Responded html
      | Inl (BlockedFetchError code) \<Rightarrow> StatusError code
      | _ \<Rightarrow> TransportError)"

definition fetch_html_with_proxy_rotation ::
    "(nat \<Rightarrow> pystr option) \<Rightarrow> (nat \<Rightarrow> nat) \<Rightarrow> nat \<Rightarrow> (nat \<Rightarrow> pystr \<Rightarrow> navigation) \<Rightarrow> pool
     \<Rightarrow> (exn + pystr option) \<times> (pystr \<times> pystr outcome) list \<times> pool" where
  "fetch_html_with_proxy_rotation scrape rand target navigate p =
     get_response (get_proxy scrape rand target) report_failure (\<lambda>k proxy. rendered_outcome (navigate k proxy)) p"

section \<open>Reading a page\<close>

definition pracuj_next_data :: "page_lib \<Rightarrow> pystr \<Rightarrow> jdict option" where
  "pracuj_next_data P html =
     (case find_script (lit ''<script id=\"__NEXT_DATA__\"'') (\<lambda>_. True) html of
        None \<Rightarrow> None
      | Some (body, _) \<Rightarrow>
          (case json_loads P body of
             Some parsed \<Rightarrow> (case parsed of JObj d \<Rightarrow> Some d | _ \<Rightarrow> None)
           | None \<Rightarrow> None))"

definition dict_of :: "json \<Rightarrow> pystr \<Rightarrow> json \<Rightarrow> json" where
  "dict_of v k dflt = (case v of JObj d \<Rightarrow> jget_default d k dflt | _ \<Rightarrow> dflt)"

fun query_data :: "pystr \<Rightarrow> json list \<Rightarrow> json" where
  "query_data prefix [] = JNull"
| "query_data prefix (JObj q # qs) =
     (case jget q (lit ''queryKey'') of
        JArr (k # ks) \<Rightarrow>
          if k = JStr prefix
          then (case jget_default q (lit ''state'') (JObj []) of JObj st \<Rightarrow> jget st (lit ''data'') | _ \<Rightarrow> JNull)
          else query_data prefix qs
      | _ \<Rightarrow> query_data prefix qs)"
| "query_data prefix (_ # qs) = query_data prefix qs"

definition dehydrated_query_data :: "jdict \<Rightarrow> pystr \<Rightarrow> json" where
  "dehydrated_query_data next_data prefix =
     (let page_props = jget_default next_data (lit ''props'') (JObj []);
          pp = dict_of page_props (lit ''pageProps'') (JObj []);
          dehydrated = dict_of pp (lit ''dehydratedState'') (JObj []) in
      case dict_of dehydrated (lit ''queries'') (JArr []) of
        JArr qs \<Rightarrow> query_data prefix qs
      | _ \<Rightarrow> JNull)"

text \<open>\<open>_dehydrated_query_data(next_data, prefix) if next_data else None\<close>\<close>

definition page_data :: "page_lib \<Rightarrow> pystr \<Rightarrow> pystr \<Rightarrow> json" where
  "page_data P html prefix =
     (case pracuj_next_data P html of
        None \<Rightarrow> JNull
      | Some d \<Rightarrow> if d = [] then JNull else dehydrated_query_data d prefix)"

definition offer_record :: "page_lib \<Rightarrow> pystr \<Rightarrow> jdict option" where
  "offer_record P html = (case page_data P html (lit ''jobOffer'') of JObj d \<Rightarrow> Some d | _ \<Rightarrow> None)"

definition grouped_offers :: "page_lib \<Rightarrow> pystr \<Rightarrow> json list option" where
  "grouped_offers P html =
     (case page_data P html (lit ''jobOffers'') of
        JObj d \<Rightarrow> (case jget d (lit ''groupedOffers'') of JArr g \<Rightarrow> Some g | _ \<Rightarrow> None)
      | _ \<Rightarrow> None)"

definition fetch_listing_page :: "page_lib \<Rightarrow> (exn + pystr option) \<Rightarrow> exn + json list option" where
  "fetch_listing_page P answer =
     bindE answer (\<lambda>html. Inr (case html of None \<Rightarrow> None | Some h \<Rightarrow> grouped_offers P h))"

section \<open>The postings of a listing\<close>

text \<open>
  \<open>for sub_offer in (group.get("offers") or [])\<close>: iterating a string gives its characters and a
  dictionary its keys, of which none is a dictionary; a number cannot be iterated.
\<close>

definition sub_offers :: "jdict \<Rightarrow> exn + json list" where
  "sub_offers grp =
     (case py_or (jget grp (lit ''offers'')) (JArr []) of
        JArr xs \<Rightarrow> Inr xs
      | JStr _ \<Rightarrow> Inr []
      | JObj _ \<Rightarrow> Inr []
      | _ \<Rightarrow> Inl (TypeError (lit ''object is not iterable'')))"

fun addresses_of :: "json list \<Rightarrow> json list" where
  "addresses_of [] = []"
| "addresses_of (JObj d # js) =
     (if truthy (jget d (lit ''offerAbsoluteUri'')) then jget d (lit ''offerAbsoluteUri'') # addresses_of js
      else addresses_of js)"
| "addresses_of (_ # js) = addresses_of js"

fun candidate_urls :: "json list \<Rightarrow> exn + json list" where
  "candidate_urls [] = Inr []"
| "candidate_urls (JObj grp # gs) =
     bindE (sub_offers grp) (\<lambda>subs. bindE (candidate_urls gs) (\<lambda>us. Inr (addresses_of subs @ us)))"
| "candidate_urls (_ # gs) = candidate_urls gs"

text \<open>
  \<open>_fetch_offer_details\<close>: request \<open>i\<close> and on. The browser refuses an address that is no text with
  an error of its own, which is a failed fetch.
\<close>

definition fetch_address :: "text_net \<Rightarrow> nat \<Rightarrow> json \<Rightarrow> exn + pystr option" where
  "fetch_address net i address = (case address of JStr u \<Rightarrow> net i u | _ \<Rightarrow> Inr None)"

fun fetch_offer_details ::
    "pylib \<Rightarrow> page_lib \<Rightarrow> text_net \<Rightarrow> int \<Rightarrow> nat \<Rightarrow> json list \<Rightarrow> jdict list \<Rightarrow> (pystr \<times> int) list
     \<Rightarrow> exn + jdict list \<times> (pystr \<times> int) list" where
  "fetch_offer_details L P net total_cap i [] collected blocked = Inr (collected, blocked)"
| "fetch_offer_details L P net total_cap i (u # us) collected blocked =
     (if total_cap \<le> int (length collected) then Inr (collected, blocked)
      else
        (case fetch_address net i u of
           Inl (BlockedFetchError code) \<Rightarrow>
             fetch_offer_details L P net total_cap (i + 1) us collected (blocked @ [(py_str L u, code)])
         | Inl e \<Rightarrow> Inl e
         | Inr None \<Rightarrow> fetch_offer_details L P net total_cap (i + 1) us collected blocked
         | Inr (Some html) \<Rightarrow>
             (case offer_record P html of
                None \<Rightarrow> fetch_offer_details L P net total_cap (i + 1) us collected blocked
              | Some r \<Rightarrow> fetch_offer_details L P net total_cap (i + 1) us (collected @ [r]) blocked)))"

section \<open>Enumerating a search\<close>

text \<open>What an enumeration returns; \<open>en_blocked\<close> is the list the callers share.\<close>

record enumeration =
  en_offers :: "jdict list"
  en_ok :: bool
  en_mid_run_failure :: bool
  en_next_page :: "int option"
  en_blocked_status :: "int option"
  en_blocked :: "(pystr \<times> int) list"

definition listing_url :: "page_lib \<Rightarrow> pystr \<Rightarrow> int \<Rightarrow> int \<Rightarrow> pystr" where
  "listing_url P keyword page_num page_size =
     lit ''https://www.pracuj.pl/praca/'' @ quote_all P keyword @ lit '';kw?pn='' @ show_int page_num
       @ lit ''&rop='' @ show_int page_size"

text \<open>
  The loop of \<open>_collect_offers\<close>, by recursion on the pages left: \<open>k\<close> pages from \<open>start_page\<close> on
  have been read, \<open>nets k\<close> answers the requests of the next one, the listing first.
\<close>

fun collect_pages ::
    "pylib \<Rightarrow> page_lib \<Rightarrow> (nat \<Rightarrow> text_net) \<Rightarrow> pystr \<Rightarrow> int \<Rightarrow> int \<Rightarrow> int \<Rightarrow> nat \<Rightarrow> nat
     \<Rightarrow> jdict list \<Rightarrow> (pystr \<times> int) list \<Rightarrow> exn + enumeration" where
  "collect_pages L P nets keyword start_page page_size total_cap 0 k collected blocked =
     Inr \<lparr>en_offers = collected, en_ok = True, en_mid_run_failure = False,
       en_next_page = Some (start_page + int k), en_blocked_status = None, en_blocked = blocked\<rparr>"
| "collect_pages L P nets keyword start_page page_size total_cap (Suc n) k collected blocked =
     (let page_num = start_page + int k;
          stop = (\<lambda>ofs ok mid nxt code bl. \<lparr>en_offers = ofs, en_ok = ok, en_mid_run_failure = mid,
            en_next_page = Some nxt, en_blocked_status = code, en_blocked = bl\<rparr>);
          failed = (\<lambda>code. Inr (if k = 0 then stop [] False False start_page code blocked
            else stop collected True True page_num code blocked)) in
      if total_cap \<le> int (length collected) then Inr (stop collected True False page_num None blocked)
      else
        (case fetch_listing_page P (nets k 0 (listing_url P keyword page_num page_size)) of
           Inl (BlockedFetchError code) \<Rightarrow> failed (Some code)
         | Inl e \<Rightarrow> Inl e
         | Inr None \<Rightarrow> failed None
         | Inr (Some grouped) \<Rightarrow>
             if grouped = [] then Inr (stop collected True False 1 None blocked)
             else
               bindE (candidate_urls grouped) (\<lambda>urls.
               bindE (fetch_offer_details L P (nets k) total_cap 1 urls collected blocked) (\<lambda>(collected1, blocked1).
               if int (length grouped) < page_size then Inr (stop collected1 True False 1 None blocked1)
               else collect_pages L P nets keyword start_page page_size total_cap n (k + 1) collected1 blocked1))))"

definition collect_offers ::
    "pylib \<Rightarrow> page_lib \<Rightarrow> (nat \<Rightarrow> text_net) \<Rightarrow> pystr \<Rightarrow> int \<Rightarrow> int \<Rightarrow> int \<Rightarrow> (pystr \<times> int) list \<Rightarrow> exn + enumeration" where
  "collect_offers L P nets keyword start_page page_size max_pages blocked =
     collect_pages L P nets keyword start_page page_size (page_size * max_pages) (nat max_pages) 0 [] blocked"

text \<open>\<open>_enumerate_pracuj_offers\<close>: one search, or one for each term; \<open>world i\<close> answers the \<open>i\<close>-th.\<close>

fun collect_terms ::
    "pylib \<Rightarrow> page_lib \<Rightarrow> (nat \<Rightarrow> nat \<Rightarrow> text_net) \<Rightarrow> int \<Rightarrow> int \<Rightarrow> nat \<Rightarrow> pystr list \<Rightarrow> enumeration \<Rightarrow> exn + enumeration" where
  "collect_terms L P world page_size max_pages i [] acc = Inr acc"
| "collect_terms L P world page_size max_pages i (trm # trms) acc =
     bindE (collect_offers L P (world i) trm 1 page_size max_pages (en_blocked acc)) (\<lambda>r.
     collect_terms L P world page_size max_pages (i + 1) trms
       \<lparr>en_offers = en_offers acc @ en_offers r, en_ok = (en_ok acc \<or> en_ok r),
        en_mid_run_failure = (en_mid_run_failure acc \<or> en_mid_run_failure r), en_next_page = None,
        en_blocked_status = (if en_blocked_status r = None then en_blocked_status acc else en_blocked_status r),
        en_blocked = en_blocked r\<rparr>)"

definition enumerate_pracuj_offers ::
    "pylib \<Rightarrow> page_lib \<Rightarrow> (nat \<Rightarrow> nat \<Rightarrow> text_net) \<Rightarrow> pystr list \<Rightarrow> pystr \<Rightarrow> int \<Rightarrow> int \<Rightarrow> int \<Rightarrow> exn + enumeration" where
  "enumerate_pracuj_offers L P world filtered_terms category_filter start_page page_size max_pages =
     (if filtered_terms = []
      then collect_offers L P (world 0) category_filter start_page page_size max_pages []
      else collect_terms L P world page_size max_pages 0 filtered_terms
        \<lparr>en_offers = [], en_ok = False, en_mid_run_failure = False, en_next_page = None,
         en_blocked_status = None, en_blocked = []\<rparr>)"

section \<open>Mapping a posting\<close>

text \<open>\<open>x == 0\<close> holds of \<open>False\<close> and \<open>0.0\<close> too.\<close>

definition is_monthly :: "jdict \<Rightarrow> bool" where
  "is_monthly entry =
     (case jget entry (lit ''salary'') of
        JObj salary \<Rightarrow>
          (case jget salary (lit ''timeUnit'') of
             JObj unit \<Rightarrow> jget unit (lit ''id'') \<in> {JInt 0, JBool False, JFloat 0}
           | _ \<Rightarrow> False)
      | _ \<Rightarrow> False)"

definition contract_name :: "jdict \<Rightarrow> json" where
  "contract_name entry = py_or (jget entry (lit ''pracujPlName'')) (jget entry (lit ''name''))"

definition named_or_null :: "pylib \<Rightarrow> json \<Rightarrow> json" where
  "named_or_null L v = (if truthy v then JStr (py_str L v) else JNull)"

text \<open>The salary, the name of the contract type and whether the figure is gross.\<close>

definition pick_monthly_salary :: "pylib \<Rightarrow> json list \<Rightarrow> jdict \<times> json \<times> json" where
  "pick_monthly_salary L types_of_contracts =
     (let entries = dict_items types_of_contracts;
          monthly = filter is_monthly entries;
          names = filter truthy (map contract_name entries);
          is_uop = (\<lambda>e. py_contains (lit ''umowa o prac'' @ [281])
            (py_lower (py_str L (jget_default e (lit ''pracujPlName'') (JStr []))))) in
      case monthly of
        [] \<Rightarrow> ([], case names of [] \<Rightarrow> JNull | v # _ \<Rightarrow> JStr (py_str L v), JNull)
      | first # _ \<Rightarrow>
          (let preferred = (case find is_uop monthly of Some e \<Rightarrow> e | None \<Rightarrow> first);
               salary = dict_or_empty (jget preferred (lit ''salary''));
               code = jget (dict_or_empty (jget salary (lit ''salaryKind''))) (lit ''code'') in
           (salary, named_or_null L (contract_name preferred),
            if truthy code then JBool (code = JStr (lit ''gross'')) else JNull)))"

definition seniority_labels :: "pylib \<Rightarrow> json \<Rightarrow> json" where
  "seniority_labels L v =
     (case v of
        JArr levels \<Rightarrow> JArr (map (\<lambda>x. JStr (py_str L x)) (filter truthy (map contract_name (dict_items levels))))
      | _ \<Rightarrow> JNull)"

definition workplaces_text :: "pylib \<Rightarrow> json \<Rightarrow> json" where
  "workplaces_text L v =
     (case v of
        JArr (w # ws) \<Rightarrow> JStr (py_join (lit '', '') (texts_at L (lit ''displayAddress'') (w # ws)))
      | _ \<Rightarrow> JNull)"

definition pracuj_map_offer :: "pylib \<Rightarrow> map_offer" where
  "pracuj_map_offer L sid raw =
     (let attrs = dict_or_empty (jget raw (lit ''attributes''));
          employment = dict_or_empty (jget attrs (lit ''employment''));
          picked = pick_monthly_salary L (case jget employment (lit ''typesOfContracts'') of JArr ts \<Rightarrow> ts | _ \<Rightarrow> []);
          salary = fst picked;
          currency_code = jget (dict_or_empty (jget salary (lit ''currency''))) (lit ''code'');
          publication = dict_or_empty (jget raw (lit ''publicationDetails'')) in
      Inr [(lit ''source_id'', JInt sid), (lit ''external_id'', str_or_null L (jget raw (lit ''jobOfferWebId''))),
           (lit ''canonical_url'', py_or (jget attrs (lit ''offerAbsoluteUrl'')) JNull),
           (lit ''title'', py_or (jget attrs (lit ''jobTitle'')) (JStr [])),
           (lit ''company'', py_or (jget attrs (lit ''displayEmployerName'')) (JStr [])),
           (lit ''location'', workplaces_text L (jget attrs (lit ''workplaces''))),
           (lit ''remote'', JBool (normalize_remote PRACUJ (jget employment (lit ''entirelyRemoteWork'')))),
           (lit ''seniority'', opt_str (normalize_seniority PRACUJ (seniority_labels L (jget employment (lit ''positionLevels''))))),
           (lit ''salary_min'', opt_int (to_int (jget salary (lit ''from'')))),
           (lit ''salary_max'', opt_int (to_int (jget salary (lit ''to'')))),
           (lit ''salary_currency'', currency_of L currency_code),
           (lit ''contract_type'', fst (snd picked)),
           (lit ''posted_at'', jget publication (lit ''dateOfInitialPublicationUtc'')),
           (lit ''description'', py_or (jget attrs (lit ''description'')) JNull)])"

interpretation pracuj: job_board "pracuj_map_offer L" for L
  by unfold_locales (auto simp: pracuj_map_offer_def Let_def jget_def)

section \<open>A run\<close>

record pracuj_settings =
  ps_page_size :: int
  ps_max_pages :: int
  ps_threshold :: int
  ps_start_page :: int

definition pracuj_settings_of :: "board_lib \<Rightarrow> jdict \<Rightarrow> exn + pracuj_settings" where
  "pracuj_settings_of B config =
     bindE (py_int (jget_default config (lit ''page_size'') (JInt 10))) (\<lambda>ps.
     bindE (py_int (jget_default config (lit ''max_pages'') (JInt 5))) (\<lambda>mp.
     bindE (py_int (jget_default config (lit ''already_seen_stop_threshold'') (JInt 20))) (\<lambda>th.
     bindE (float_of B (jget_default config (lit ''rate_limit_delay_seconds'') (JFloat 4))) (\<lambda>_.
     bindE (py_int (py_or (jget_default config (lit ''listing_page_cursor'') (JInt 1)) (JInt 1))) (\<lambda>sp.
     Inr \<lparr>ps_page_size = ps, ps_max_pages = mp, ps_threshold = th,
       ps_start_page = (if sp < 1 then 1 else sp)\<rparr>)))))"

definition category_filter_of :: "pylib \<Rightarrow> jdict \<Rightarrow> pystr" where
  "category_filter_of L config = py_str L (py_or (jget config (lit ''category_filter'')) (JStr (lit ''it'')))"

text \<open>The inner \<open>fetch_page\<close> hands the collected postings to the loop in chunks.\<close>

definition chunk_page :: "jdict list \<Rightarrow> int \<Rightarrow> int fetch_page" where
  "chunk_page ofs page_size p cursor n =
     (let c = next_sitemap_cursor cursor in
      Inr (Some (py_slice ofs c (c + page_size),
        if c + page_size < int (length ofs) then Some (c + page_size) else None)))"

definition store_listing_cursor :: "int \<Rightarrow> jdict \<Rightarrow> int \<Rightarrow> db \<Rightarrow> db" where
  "store_listing_cursor sid config n d =
     d\<lparr>sources := update_where (\<lambda>r. src_id r = sid)
       (\<lambda>r. r\<lparr>src_config := AList.update (lit ''listing_page_cursor'') (JInt n) config\<rparr>) (sources d)\<rparr>"

record pracuj_world =
  pw_nets :: "nat \<Rightarrow> nat \<Rightarrow> text_net"
  pw_mid_run :: int
  pw_now :: "nat \<Rightarrow> nat \<Rightarrow> int"
  pw_later :: "nat \<Rightarrow> int"

definition record_mid_run_failure :: "int \<Rightarrow> int option \<Rightarrow> int \<Rightarrow> unit op" where
  "record_mid_run_failure sid code now =
     record_ingestion_failure (source_key sid) PAGE_FETCH_FAILED
       [F_source_id sid, F_error_message (lit ''failed to fetch Pracuj.pl page mid-run''),
        F_blocked_status code] now"

text \<open>What a run does with what it collected.\<close>

definition store_collected ::
    "pylib \<Rightarrow> pracuj_world \<Rightarrow> int \<Rightarrow> jdict \<Rightarrow> bool \<Rightarrow> pracuj_settings \<Rightarrow> enumeration \<Rightarrow> ingestion_result op" where
  "store_collected L w sid config force S e =
     bindS (if en_mid_run_failure e then record_mid_run_failure sid (en_blocked_status e) (pw_mid_run w) else retS ()) (\<lambda>_.
     bindS (run_paginated_ingestion L sid (chunk_page (en_offers e) (ps_page_size S)) (pracuj_map_offer L) (Some 0)
       (walk_args L (lit ''Pracuj.pl'') config force (ps_page_size S) (ps_max_pages S) (ps_threshold S)) (pw_now w)) (\<lambda>result.
     bindS (record_blocked L (lit ''Pracuj.pl'') sid (pw_later w) 0 (en_blocked e)) (\<lambda>_.
     retS result)))"

definition pracuj_run ::
    "pylib \<Rightarrow> board_lib \<Rightarrow> page_lib \<Rightarrow> pracuj_world \<Rightarrow> source_row \<Rightarrow> bool \<Rightarrow> ingestion_result op" where
  "pracuj_run L B P w source force =
     (let config = src_config source; sid = src_id source in
      bindS (liftE (pracuj_settings_of B config)) (\<lambda>S.
      bindS (resolve_fetch_scope_terms config) (\<lambda>scope.
      if scope_blocked_reason scope \<noteq> None then retS (failed_run 0 0 (scope_blocked_reason scope))
      else
        bindS (liftE (enumerate_pracuj_offers L P (pw_nets w) (scope_terms scope) (category_filter_of L config)
          (ps_start_page S) (ps_page_size S) (ps_max_pages S))) (\<lambda>e.
        if \<not> en_ok e then
          retS (list_failed 0 0 (lit ''failed to fetch Pracuj.pl offers'') (en_blocked_status e))
        else
          bindS (store_collected L w sid config force S e) (\<lambda>result.
          bindS (case en_next_page e of
              Some n \<Rightarrow> if scope_terms scope = [] then assign (store_listing_cursor sid config n) else retS ()
            | None \<Rightarrow> retS ()) (\<lambda>_.
          retS result))))))"

definition pracuj_retry_detail_fetch ::
    "pylib \<Rightarrow> page_lib \<Rightarrow> text_net \<Rightarrow> int \<Rightarrow> source_row \<Rightarrow> pystr \<Rightarrow> bool op" where
  "pracuj_retry_detail_fetch L P net now source u =
     bindS (liftE (net 0 u)) (\<lambda>answer.
     case answer of
       None \<Rightarrow> retS False
     | Some html \<Rightarrow>
         (case offer_record P html of
            None \<Rightarrow> retS False
          | Some r \<Rightarrow>
              bindS (liftE (pracuj_map_offer L (src_id source) r)) (\<lambda>mapped.
              bindS (normalize_and_validate L mapped now) (\<lambda>vo.
              case vo of
                None \<Rightarrow> retS False
              | Some o1 \<Rightarrow> bindS (persist_offer L o1 r now) (\<lambda>_. retS True)))))"

section \<open>What an enumeration collects\<close>

text \<open>
  The listing of the \<open>j\<close>-th page of a search, and the postings behind it, in the order of the page:
  what can be read of the addresses it lists.
\<close>

definition listing_at :: "page_lib \<Rightarrow> (nat \<Rightarrow> text_net) \<Rightarrow> pystr \<Rightarrow> int \<Rightarrow> int \<Rightarrow> nat \<Rightarrow> exn + json list option" where
  "listing_at P nets keyword start_page page_size j =
     fetch_listing_page P (nets j 0 (listing_url P keyword (start_page + int j) page_size))"

fun records_from :: "page_lib \<Rightarrow> text_net \<Rightarrow> nat \<Rightarrow> json list \<Rightarrow> jdict list" where
  "records_from P net i [] = []"
| "records_from P net i (u # us) =
     (case fetch_address net i u of
        Inr (Some html) \<Rightarrow> (case offer_record P html of None \<Rightarrow> [] | Some r \<Rightarrow> [r])
      | _ \<Rightarrow> []) @ records_from P net (i + 1) us"

definition page_records :: "page_lib \<Rightarrow> (nat \<Rightarrow> text_net) \<Rightarrow> pystr \<Rightarrow> int \<Rightarrow> int \<Rightarrow> nat \<Rightarrow> jdict list" where
  "page_records P nets keyword start_page page_size j =
     (case listing_at P nets keyword start_page page_size j of
        Inr (Some grouped) \<Rightarrow> (case candidate_urls grouped of Inr us \<Rightarrow> records_from P (nets j) 1 us | _ \<Rightarrow> [])
      | _ \<Rightarrow> [])"

lemma fetch_offer_details_records:
  assumes "fetch_offer_details L P net cap i us collected blocked = Inr (collected1, blocked1)"
    and "int (length collected) \<le> cap"
  shows "collected1 = take (nat cap) (collected @ records_from P net i us)"
  using assms
proof (induction us arbitrary: i collected blocked)
  case (Cons u us)
  show ?case
  proof (cases "cap \<le> int (length collected)")
    case True
    with Cons.prems show ?thesis by simp
  next
    case False
    let ?here = "case fetch_address net i u of
        Inr (Some html) \<Rightarrow> (case offer_record P html of None \<Rightarrow> [] | Some r \<Rightarrow> [r]) | _ \<Rightarrow> []"
    have "\<exists>b. fetch_offer_details L P net cap (i + 1) us (collected @ ?here) b = Inr (collected1, blocked1)"
      using Cons.prems(1) False
      by (auto split: sum.splits exn.splits option.splits)
    moreover have "int (length (collected @ ?here)) \<le> cap"
      using False by (auto split: sum.splits option.splits)
    ultimately show ?thesis using Cons.IH by fastforce
  qed
qed simp

text \<open>
  How the pages \<open>start_page + j\<close> with \<open>j < m\<close> were read and why the loop ended there: the listing
  was exhausted, the next one could not be fetched, or there was no page or no room left.
\<close>

definition read_listing :: "page_lib \<Rightarrow> (nat \<Rightarrow> text_net) \<Rightarrow> pystr \<Rightarrow> int \<Rightarrow> int \<Rightarrow> nat \<Rightarrow> bool" where
  "read_listing P nets keyword start_page page_size j \<longleftrightarrow>
     (case listing_at P nets keyword start_page page_size j of Inr (Some (g # gs)) \<Rightarrow> True | _ \<Rightarrow> False)"

definition exhausted_at :: "page_lib \<Rightarrow> (nat \<Rightarrow> text_net) \<Rightarrow> pystr \<Rightarrow> int \<Rightarrow> int \<Rightarrow> nat \<Rightarrow> bool" where
  "exhausted_at P nets keyword start_page page_size m \<longleftrightarrow>
     listing_at P nets keyword start_page page_size m = Inr (Some [])
     \<or> (0 < m \<and> (case listing_at P nets keyword start_page page_size (m - 1) of
          Inr (Some g) \<Rightarrow> int (length g) < page_size | _ \<Rightarrow> False))"

definition failed_at :: "page_lib \<Rightarrow> (nat \<Rightarrow> text_net) \<Rightarrow> pystr \<Rightarrow> int \<Rightarrow> int \<Rightarrow> nat \<Rightarrow> int option \<Rightarrow> bool" where
  "failed_at P nets keyword start_page page_size m code \<longleftrightarrow>
     (case listing_at P nets keyword start_page page_size m of
        Inr None \<Rightarrow> code = None | Inl (BlockedFetchError c) \<Rightarrow> code = Some c | _ \<Rightarrow> False)"

definition ended_well :: "page_lib \<Rightarrow> (nat \<Rightarrow> text_net) \<Rightarrow> pystr \<Rightarrow> int \<Rightarrow> int \<Rightarrow> int \<Rightarrow> nat \<Rightarrow> nat \<Rightarrow> enumeration \<Rightarrow> bool" where
  "ended_well P nets keyword start_page page_size cap pages m e \<longleftrightarrow>
     (en_ok e \<and> \<not> en_mid_run_failure e \<and> en_next_page e = Some 1
       \<and> exhausted_at P nets keyword start_page page_size m)
     \<or> (en_ok e \<and> \<not> en_mid_run_failure e \<and> en_next_page e = Some (start_page + int m)
       \<and> (m = pages \<or> cap \<le> int (length (en_offers e))))
     \<or> (en_ok e = (0 < m) \<and> en_mid_run_failure e = (0 < m) \<and> en_next_page e = Some (start_page + int m)
       \<and> failed_at P nets keyword start_page page_size m (en_blocked_status e))"

lemma collect_pages_failed:
  assumes "collect_pages L P nets keyword start_page page_size cap (Suc n) k collected blocked = Inr e"
    and "\<not> cap \<le> int (length collected)" and "k = 0 \<Longrightarrow> collected = []"
    and "\<nexists>g. listing_at P nets keyword start_page page_size k = Inr (Some g)"
  shows "en_offers e = collected" and "ended_well P nets keyword start_page page_size cap pages k e"
proof -
  note at = listing_at_def [of P nets keyword start_page page_size k, symmetric]
  obtain code where code: "failed_at P nets keyword start_page page_size k code"
    "e = (if k = 0 then \<lparr>en_offers = [], en_ok = False, en_mid_run_failure = False,
        en_next_page = Some start_page, en_blocked_status = code, en_blocked = blocked\<rparr>
      else \<lparr>en_offers = collected, en_ok = True, en_mid_run_failure = True,
        en_next_page = Some (start_page + int k), en_blocked_status = code, en_blocked = blocked\<rparr>)"
  proof (cases "listing_at P nets keyword start_page page_size k")
    case (Inl x)
    with assms(1,2) that show ?thesis
      by (cases x) (simp_all add: Let_def at failed_at_def)
  next
    case (Inr answer)
    with assms(1,2,4) that [of None] show ?thesis
      by (cases answer) (simp_all add: Let_def at failed_at_def)
  qed
  then show "en_offers e = collected" "ended_well P nets keyword start_page page_size cap pages k e"
    using assms(3) by (auto simp: ended_well_def)
qed

text \<open>A page that lists something: the loop takes what can be read of it, and ends or goes on.\<close>

lemma collect_pages_page:
  assumes "collect_pages L P nets keyword start_page page_size cap (Suc n) k collected blocked = Inr e"
    and "int (length collected) < cap"
    and "listing_at P nets keyword start_page page_size k = Inr (Some grouped)" and "grouped \<noteq> []"
  obtains c1 b1 where "c1 = take (nat cap) (collected @ page_records P nets keyword start_page page_size k)"
    and "if int (length grouped) < page_size
      then e = \<lparr>en_offers = c1, en_ok = True, en_mid_run_failure = False, en_next_page = Some 1,
        en_blocked_status = None, en_blocked = b1\<rparr>
      else collect_pages L P nets keyword start_page page_size cap n (k + 1) c1 b1 = Inr e"
proof -
  note at = listing_at_def [of P nets keyword start_page page_size k, symmetric]
  from assms obtain us c1 b1 where us: "candidate_urls grouped = Inr us"
    and c1: "fetch_offer_details L P (nets k) cap 1 us collected blocked = Inr (c1, b1)"
    and rest: "if int (length grouped) < page_size
      then e = \<lparr>en_offers = c1, en_ok = True, en_mid_run_failure = False, en_next_page = Some 1,
        en_blocked_status = None, en_blocked = b1\<rparr>
      else collect_pages L P nets keyword start_page page_size cap n (k + 1) c1 b1 = Inr e"
    by (auto simp: Let_def at bindE_Inr_iff split: if_splits)
  have "page_records P nets keyword start_page page_size k = records_from P (nets k) 1 us"
    using assms(3) us by (simp add: page_records_def)
  with fetch_offer_details_records [OF c1] assms(2) that rest show ?thesis by simp
qed

lemma take_take_append: "take c (take c xs @ ys) = take c (xs @ ys)"
  by (cases "length xs \<le> c") auto

lemma collect_pages_spec:
  assumes "collect_pages L P nets keyword start_page page_size cap n k collected blocked = Inr e"
    and "int (length collected) \<le> cap" and "k = 0 \<Longrightarrow> collected = []"
  shows "\<exists>m. k \<le> m \<and> m \<le> k + n
    \<and> en_offers e = take (nat cap) (collected @ concat (map (page_records P nets keyword start_page page_size) [k..<m]))
    \<and> list_all (read_listing P nets keyword start_page page_size) [k..<m]
    \<and> ended_well P nets keyword start_page page_size cap (k + n) m e"
  using assms
proof (induction n arbitrary: k collected blocked)
  case 0
  then show ?case by (intro exI [of _ k]) (auto simp: ended_well_def)
next
  case (Suc n)
  let ?at = "listing_at P nets keyword start_page page_size"
  consider (full) "cap \<le> int (length collected)"
    | (failed) "\<not> cap \<le> int (length collected)" "\<nexists>g. ?at k = Inr (Some g)"
    | (exhausted) "\<not> cap \<le> int (length collected)" "?at k = Inr (Some [])"
    | (listed) grouped where "int (length collected) < cap" "?at k = Inr (Some grouped)" "grouped \<noteq> []"
    by force
  then show ?case
  proof cases
    case full
    with Suc.prems show ?thesis by (intro exI [of _ k]) (auto simp: ended_well_def)
  next
    case failed
    from collect_pages_failed [OF Suc.prems(1) failed(1) Suc.prems(3) failed(2)] Suc.prems(2)
    show ?thesis by (intro exI [of _ k]) simp
  next
    case exhausted
    with Suc.prems(1) have "e = \<lparr>en_offers = collected, en_ok = True, en_mid_run_failure = False,
        en_next_page = Some 1, en_blocked_status = None, en_blocked = blocked\<rparr>"
      by (simp add: Let_def listing_at_def)
    with exhausted Suc.prems(2) show ?thesis
      by (intro exI [of _ k]) (simp add: exhausted_at_def ended_well_def)
  next
    case (listed grouped)
    from listed(2,3) have read: "read_listing P nets keyword start_page page_size k"
      by (cases grouped) (simp_all add: read_listing_def)
    from collect_pages_page [OF Suc.prems(1) listed] obtain c1 b1
      where c1: "c1 = take (nat cap) (collected @ page_records P nets keyword start_page page_size k)"
        and rest: "if int (length grouped) < page_size
          then e = \<lparr>en_offers = c1, en_ok = True, en_mid_run_failure = False, en_next_page = Some 1,
            en_blocked_status = None, en_blocked = b1\<rparr>
          else collect_pages L P nets keyword start_page page_size cap n (k + 1) c1 b1 = Inr e" .
    have le: "int (length c1) \<le> cap" using listed(1) unfolding c1 by (simp only: length_take)
    show ?thesis
    proof (cases "int (length grouped) < page_size")
      case True
      with rest listed(2) read show ?thesis
        by (intro exI [of _ "Suc k"]) (simp add: exhausted_at_def ended_well_def c1)
    next
      case False
      with rest have "collect_pages L P nets keyword start_page page_size cap n (k + 1) c1 b1 = Inr e" by simp
      from Suc.IH [OF this] le obtain m where "k + 1 \<le> m" "m \<le> k + 1 + n"
        "en_offers e = take (nat cap) (c1 @ concat (map (page_records P nets keyword start_page page_size) [k + 1..<m]))"
        "list_all (read_listing P nets keyword start_page page_size) [k + 1..<m]"
        "ended_well P nets keyword start_page page_size cap (k + 1 + n) m e"
        by auto
      then show ?thesis
        using read by (intro exI [of _ m]) (simp add: c1 take_take_append upt_conv_Cons del: take_append take_take)
    qed
  qed
qed

text \<open>C35: What the enumeration of Pracuj.pl collects is what the search lists: the postings behind the
  first pages it read, in order, up to the cap, each page having listed something; and it stops for a
  reason the next run can rely on: it starts over at page 1 only when the listing was exhausted, at
  the page that could not be fetched after a failure, and behind the last page read otherwise, when
  there was no page or no room left.\<close>

theorem collects_what_is_listed:
  assumes "collect_offers L P nets keyword start_page page_size max_pages blocked = Inr e"
    and "0 \<le> page_size * max_pages"
  shows "\<exists>m. m \<le> nat max_pages
    \<and> en_offers e = take (nat (page_size * max_pages))
        (concat (map (page_records P nets keyword start_page page_size) [0..<m]))
    \<and> list_all (read_listing P nets keyword start_page page_size) [0..<m]
    \<and> ended_well P nets keyword start_page page_size (page_size * max_pages) (nat max_pages) m e"
proof -
  from collect_pages_spec [OF assms(1) [unfolded collect_offers_def]] assms(2)
  obtain m where "m \<le> nat max_pages"
    "en_offers e = take (nat (page_size * max_pages))
        (concat (map (page_records P nets keyword start_page page_size) [0..<m]))"
    "list_all (read_listing P nets keyword start_page page_size) [0..<m]"
    "ended_well P nets keyword start_page page_size (page_size * max_pages) (nat max_pages) m e"
    by auto
  then show ?thesis by blast
qed

text \<open>
  A page that fills the cap is left for good: the postings beyond it are not collected, and the
  next run starts behind the page.
\<close>

lemma full_page_drops_postings:
  assumes "listing_at P nets keyword start_page page_size 0 = Inr (Some grouped)"
    and "candidate_urls grouped = Inr us" and "page_size \<le> int (length grouped)" and "0 < page_size"
    and "fetch_offer_details L P (nets 0) page_size 1 us [] blocked = Inr (c1, b1)"
  shows "collect_offers L P nets keyword start_page page_size 1 blocked
    = Inr \<lparr>en_offers = take (nat page_size) (page_records P nets keyword start_page page_size 0), en_ok = True,
        en_mid_run_failure = False, en_next_page = Some (start_page + 1), en_blocked_status = None, en_blocked = b1\<rparr>"
proof -
  have "c1 = take (nat page_size) (page_records P nets keyword start_page page_size 0)"
    using fetch_offer_details_records [OF assms(5)] assms(1,2,4) by (simp add: page_records_def)
  moreover have "nat 1 = Suc 0" by simp
  moreover have "grouped \<noteq> []" using assms(3,4) by auto
  ultimately show ?thesis
    using assms by (simp add: collect_offers_def listing_at_def Let_def)
qed

section \<open>Postings that are fetched and dropped\<close>

definition seen_raw :: "pylib \<Rightarrow> int \<Rightarrow> db \<Rightarrow> jdict \<Rightarrow> bool" where
  "seen_raw L sid d raw \<longleftrightarrow>
     (case pracuj_map_offer L sid raw of
        Inr mapped \<Rightarrow> (case offer_model_validate L mapped of Inr o1 \<Rightarrow> find_content_duplicate o1 d \<noteq> None | _ \<Rightarrow> False)
      | _ \<Rightarrow> False)"

lemma run_items_seen:
  assumes "list_all (seen_raw L sid (working s)) raws" and "\<not> tx_aborted s"
    and "arg_since A = None" and "arg_until A = None"
  shows "run_items L (pracuj_map_offer L) sid A now i raws c s
    = (Inr (c\<lparr>consecutive_already_seen := consecutive_already_seen c + length raws\<rparr>), s)"
  using assms(1)
proof (induction raws arbitrary: i c)
  case (Cons raw raws)
  then obtain mapped o1 r where "pracuj_map_offer L sid raw = Inr mapped" "offer_model_validate L mapped = Inr o1"
    "find_content_duplicate o1 (working s) = Some r"
    by (auto simp: seen_raw_def split: sum.splits)
  then have "run_item L (pracuj_map_offer L) sid A (now i) raw c s
      = (Inr (c\<lparr>consecutive_already_seen := consecutive_already_seen c + 1\<rparr>), s)"
    using assms(2-4) persist_duplicate
    by (simp add: run_item_def range_check_def ingest_offer_def normalize_and_validate_def run_simps)
  with Cons show ?case by (simp add: bindS_def)
qed simp

lemma seen_chunk_ends_loop:
  assumes "0 < ps" and "ps < int (length ofs)" and "0 < arg_max_pages A" and "int (arg_threshold A) \<le> ps"
    and "\<not> arg_force_refresh A" and "arg_since A = None" and "arg_until A = None"
    and "list_all (seen_raw L sid (working s)) (take (nat ps) ofs)" and "\<not> tx_aborted s"
  shows "run_paginated_ingestion L sid (chunk_page ofs ps) (pracuj_map_offer L) (Some 0) A now s
    = (Inr (finished (nat ps) 0), s)"
proof -
  from assms(3) obtain n where n: "arg_max_pages A = Suc n" by (cases "arg_max_pages A") auto
  have "py_slice ofs 0 ps = take (nat ps) ofs" using assms(1,2) by (simp add: py_slice_def slice_index_def)
  then have "chunk_page ofs ps 0 (Some 0) k = Inr (Some (take (nat ps) ofs, Some ps))" for k
    using assms(2) by (simp add: chunk_page_def next_sitemap_cursor_def)
  moreover have "length (take (nat ps) ofs) = nat ps" "arg_threshold A \<le> nat ps" using assms(1,2,4) by auto
  ultimately show ?thesis
    using run_items_seen [OF assms(8,9,6,7)] assms(5-7)
    by (simp add: run_paginated_ingestion_def n fetch_or_blocked_def bindS_def liftE_def retS_def Let_def)
qed

text \<open>A run that has seen the first chunk of what it fetched throws the rest away: with nothing new in
  the first \<open>page_size\<close> postings and a threshold no larger, the loop stops after them, so that none of
  the other postings fetched through the browser is stored, yet the stored page moves on behind all
  the pages they were listed on.\<close>

theorem seen_chunk_drops_the_rest:
  assumes "pracuj_settings_of B (src_config source) = Inr S" and "0 < ps_page_size S" and "0 < ps_max_pages S"
    and "ps_threshold S \<le> ps_page_size S"
    and "resolve_fetch_range L (jget (src_config source) (lit ''fetch_range'')) = (None, None)"
    and "resolve_fetch_scope_mode (jget (src_config source) (lit ''fetch_scope'')) = ScopeAll"
    and "collect_offers L P (pw_nets w 0) (category_filter_of L (src_config source)) (ps_start_page S)
      (ps_page_size S) (ps_max_pages S) [] = Inr e"
    and "en_ok e" and "\<not> en_mid_run_failure e" and "en_blocked e = []" and "en_next_page e = Some n"
    and "ps_page_size S < int (length (en_offers e))"
    and "list_all (seen_raw L (src_id source) (working s)) (take (nat (ps_page_size S)) (en_offers e))"
    and "\<not> tx_aborted s"
  shows "pracuj_run L B P w source False s
    = (Inr (finished (nat (ps_page_size S)) 0),
       s\<lparr>working := store_listing_cursor (src_id source) (src_config source) n (working s)\<rparr>)"
proof -
  let ?A = "walk_args L (lit ''Pracuj.pl'') (src_config source) False (ps_page_size S) (ps_max_pages S) (ps_threshold S)"
  have A: "0 < arg_max_pages ?A" "int (arg_threshold ?A) \<le> ps_page_size S" "\<not> arg_force_refresh ?A"
    "arg_since ?A = None" "arg_until ?A = None"
    using assms(2-5) by (simp_all add: walk_args_def config_args_def)
  have "store_collected L w (src_id source) (src_config source) False S e s
      = (Inr (finished (nat (ps_page_size S)) 0), s)"
    using seen_chunk_ends_loop [OF assms(2,12) A assms(13,14)] assms(9,10)
    by (simp add: store_collected_def bindS_def retS_def)
  moreover have "resolve_fetch_scope_terms (src_config source) s
      = (Inr \<lparr>scope_mode = ScopeAll, scope_terms = [], scope_blocked_reason = None\<rparr>, s)"
    using assms(6) by (simp add: resolve_fetch_scope_terms_def retS_def)
  ultimately show ?thesis
    using assms(1,7,8,11,14)
    by (simp add: pracuj_run_def enumerate_pracuj_offers_def bindS_def liftE_def retS_def assign_def Let_def)
qed

section \<open>What the connector keeps\<close>

lemma store_listing_cursor_config:
  "store_listing_cursor sid config n d = store_config sid (AList.update (lit ''listing_page_cursor'') (JInt n) config) d"
  by (simp add: store_listing_cursor_def store_config_def)

context connector_invariant
begin

lemma keeps_pracuj_run: "keeps I (pracuj_run L B P w source force)"
proof -
  have "keeps I (assign (store_listing_cursor sid config n))" for sid config n
    using keeps_config by (simp add: keeps_def assign_def session_inv_def store_listing_cursor_config)
  then show ?thesis
    by (auto simp: pracuj_run_def store_collected_def record_mid_run_failure_def Let_def split: option.splits
        intro!: keeps_intros keeps_loop keeps_record keeps_record_blocked)
qed

lemma keeps_pracuj_retry: "keeps I (pracuj_retry_detail_fetch L P net now source u)"
  unfolding pracuj_retry_detail_fetch_def by (intro keeps_intros keeps_stored_posting)

end

section \<open>Concrete runs\<close>

text \<open>Every listing page lists one posting, and every posting is the same.\<close>

definition search_lib :: page_lib where
  "search_lib = \<lparr>parse_xml = (\<lambda>_. None),
     json_loads = (\<lambda>s. Some (JObj [(lit ''props'', JObj [(lit ''pageProps'', JObj [(lit ''dehydratedState'',
       JObj [(lit ''queries'', JArr [
         JObj [(lit ''queryKey'', JArr [JStr (lit ''jobOffers'')]), (lit ''state'', JObj [(lit ''data'',
           JObj [(lit ''groupedOffers'', JArr [JObj [(lit ''offers'',
             JArr [JObj [(lit ''offerAbsoluteUri'', JStr (lit ''u''))]])]])])])],
         JObj [(lit ''queryKey'', JArr [JStr (lit ''jobOffer'')]), (lit ''state'', JObj [(lit ''data'',
           JObj [(lit ''attributes'', JObj [(lit ''jobTitle'', JStr (lit ''D'')),
             (lit ''displayEmployerName'', JStr (lit ''A''))])])])]])])])])])),
     quote_all = (\<lambda>s. s), repr_str = (\<lambda>s. s)\<rparr>"

definition search_net :: text_net where
  "search_net i u = Inr (Some next_data_page)"

definition search_config :: jdict where
  "search_config = [(lit ''page_size'', JInt 1), (lit ''max_pages'', JInt 2),
     (lit ''already_seen_stop_threshold'', JInt 1)]"

definition search_record :: jdict where
  "search_record = [(lit ''attributes'', JObj [(lit ''jobTitle'', JStr (lit ''D'')),
     (lit ''displayEmployerName'', JStr (lit ''A''))])]"

definition search_result :: enumeration where
  "search_result = \<lparr>en_offers = [search_record, search_record], en_ok = True, en_mid_run_failure = False,
     en_next_page = Some 3, en_blocked_status = None, en_blocked = []\<rparr>"

lemma search_run: "collect_offers sample_lib search_lib (\<lambda>_. search_net) (lit ''it'') 1 1 2 [] = Inr search_result"
  by code_simp

theorem collects_what_is_listed_witness:
  "\<exists>m \<le> 2. [search_record, search_record] = take 2
        (concat (map (page_records search_lib (\<lambda>_. search_net) (lit ''it'') 1 1) [0..<m]))
     \<and> ended_well search_lib (\<lambda>_. search_net) (lit ''it'') 1 1 2 2 m search_result"
  using collects_what_is_listed [OF search_run] by (auto simp: search_result_def)

definition searched_db :: db where
  "searched_db = empty_db\<lparr>next_id := 5, sources := [sample_source search_config],
     offers := (case offer_model_validate sample_lib
         (case pracuj_map_offer sample_lib 1 search_record of Inr m \<Rightarrow> m | Inl _ \<Rightarrow> []) of
       Inr o1 \<Rightarrow> [new_offer_row sample_lib 2 [] search_record 0 o1] | Inl _ \<Rightarrow> [])\<rparr>"

definition search_world :: pracuj_world where
  "search_world = \<lparr>pw_nets = (\<lambda>_ _. search_net), pw_mid_run = 0, pw_now = (\<lambda>_ _. 0), pw_later = (\<lambda>_. 0)\<rparr>"

definition search_settings :: pracuj_settings where
  "search_settings = \<lparr>ps_page_size = 1, ps_max_pages = 2, ps_threshold = 1, ps_start_page = 1\<rparr>"

lemma search_facts:
  "pracuj_settings_of sample_board_lib search_config = Inr search_settings"
  "resolve_fetch_range sample_lib (jget search_config (lit ''fetch_range'')) = (None, None)"
  "resolve_fetch_scope_mode (jget search_config (lit ''fetch_scope'')) = ScopeAll"
  "category_filter_of sample_lib search_config = lit ''it''"
  "seen_raw sample_lib 1 searched_db search_record"
  by code_simp+

theorem seen_chunk_drops_the_rest_witness:
  "pracuj_run sample_lib sample_board_lib search_lib search_world (sample_source search_config) False
     (open_session searched_db)
    = (Inr (finished 1 0), (open_session searched_db)\<lparr>working := store_listing_cursor 1 search_config 3 searched_db\<rparr>)"
proof -
  have "src_config (sample_source search_config) = search_config" "src_id (sample_source search_config) = 1"
    by (simp_all add: sample_source_def)
  moreover have "working (open_session searched_db) = searched_db" "\<not> tx_aborted (open_session searched_db)"
    by (simp_all add: open_session_def)
  ultimately show ?thesis
    using seen_chunk_drops_the_rest [of sample_board_lib "sample_source search_config" search_settings sample_lib
        search_lib search_world search_result 3 "open_session searched_db"] search_facts search_run
    by (simp add: search_settings_def search_world_def search_result_def)
qed

end
