(* ===== verification/Dispatch.thy ===== *)
theory Dispatch
  imports Retry Pracuj
begin

text \<open>
  The \<open>dispatch\<close> and \<open>detail_retry\<close> fields of the registry: the connectors put together, and what
  the scheduler and the retries keep when they run them.
\<close>

section \<open>The dispatch table\<close>

text \<open>What a run of a connector meets: the answers to its requests and the times it reads.\<close>

record connector_world =
  cw_nets :: "nat \<Rightarrow> net"
  cw_nows :: "nat \<Rightarrow> nat \<Rightarrow> nat \<Rightarrow> int"
  cw_feed :: "nat \<Rightarrow> exn + xml option"
  cw_walk :: "nat \<Rightarrow> walk_world"
  cw_search :: pracuj_world

record app_env =
  app_lib :: pylib
  app_board_lib :: board_lib
  app_page_lib :: page_lib
  app_campaign :: pystr
  app_world :: "pystr \<Rightarrow> connector_world"
  app_retry_net :: text_net
  app_retry_now :: int

definition connector_dispatch :: "app_env \<Rightarrow> connector_runner" where
  "connector_dispatch E c source force =
     (let L = app_lib E; B = app_board_lib E; P = app_page_lib E; w = app_world E c;
          api = (\<lambda>b. board_run L b (cw_nets w) (cw_nows w) source force);
          walk = (\<lambda>b. detail_run L B P b (cw_walk w) source force) in
      if c = SOLID_JOBS then api (solid_jobs_board L (app_campaign E))
      else if c = JUSTJOINIT then api (justjoinit_board L B)
      else if c = NOFLUFFJOBS then api (nofluffjobs_board L)
      else if c = BULLDOGJOB then walk (bulldogjob_board L P)
      else if c = ROCKET_JOBS then walk (rocket_jobs_board L P)
      else if c = PRACUJ then pracuj_run L B P (cw_search w) source force
      else if c = REMOTEOK then api (remoteok_board L)
      else if c = REMOTIVE then api (remotive_board L B)
      else if c = WE_WORK_REMOTELY
        then run_we_work_remotely_ingestion L B (cw_feed w) (cw_nows w 0) source force
      else raiseS (KeyError c))"

definition detail_retry :: "app_env \<Rightarrow> pystr \<Rightarrow> source_row \<Rightarrow> pystr \<Rightarrow> bool op" where
  "detail_retry E c source u =
     (let retry = (\<lambda>b. retry_detail_fetch (app_lib E) b (app_retry_net E) (app_retry_now E) source u) in
      if c = BULLDOGJOB then retry (bulldogjob_board (app_lib E) (app_page_lib E))
      else if c = ROCKET_JOBS then retry (rocket_jobs_board (app_lib E) (app_page_lib E))
      else if c = PRACUJ then pracuj_retry_detail_fetch (app_lib E) (app_page_lib E) (app_retry_net E) (app_retry_now E) source u
      else raiseS (TypeError (lit ''NoneType object is not callable'')))"

definition app_retry_env :: "app_env \<Rightarrow> chain \<Rightarrow> retry_env" where
  "app_retry_env E ch = \<lparr>env_lib = app_lib E, env_runner = connector_dispatch E, env_chain = ch,
     env_detail_retry = detail_retry E\<rparr>"

section \<open>What the connectors keep\<close>

context connector_invariant
begin

lemma keeps_dispatch_table: "keeps I (connector_dispatch E c source force)"
  unfolding connector_dispatch_def Let_def
  by (intro keeps_if keeps_board keeps_detail_run keeps_feed keeps_pracuj_run keeps_intros)

lemma keeps_detail_table: "keeps I (detail_retry E c source u)"
  unfolding detail_retry_def Let_def
  by (intro keeps_if keeps_retry_detail keeps_pracuj_retry keeps_intros)

end

lemma store_config_ok: "db_ok d \<Longrightarrow> db_ok (store_config sid config d)"
  by (simp add: store_config_def db_ok_def keys_ok_def ids_below_def refs_simps map_update_where
      image_update_where)

lemma keeps_ingest_by_parts:
  assumes "\<And>key k fs t. keeps I (record_ingestion_failure key k fs t)"
    and "\<And>o1 r t. keeps I (persist_offer L o1 r t)"
  shows "keeps I (ingest_offer L m r t)"
  unfolding ingest_offer_def normalize_and_validate_def
  by (intro keeps_intros keeps_json_int assms)

lemma keeps_runs_ingest: "keeps runs_ok (ingest_offer L m r t)"
proof -
  have "keeps (\<lambda>d. list_all run_row_ok (scheduler_runs d)) (ingest_offer L m r t)"
  proof (rule keeps_ingest_by_parts)
    show "keeps (\<lambda>d. list_all run_row_ok (scheduler_runs d)) (record_ingestion_failure key k fs t)" for key k fs t
      unfolding record_ingestion_failure_def
      by (intro keeps_swallow keeps_upsert_stmt) (simp add: upsert_ingestion_def)
    show "keeps (\<lambda>d. list_all run_row_ok (scheduler_runs d)) (persist_offer L o1 r t)" for o1 r t
      unfolding persist_offer_def by (intro keeps_intros) (simp add: insert_offer_def)
  qed
  from keeps_conj [OF keeps_ingest_offer this] show ?thesis by (simp add: runs_ok_def [abs_def])
qed

interpretation tables: connector_invariant db_ok
  by unfold_locales (auto intro: keeps_ingest_offer keeps_record_ingestion_failure store_config_ok)

interpretation store: connector_invariant store_ok
  by unfold_locales (auto intro: keeps_store_ingest keeps_store_record
      simp: store_ok_def store_config_ok, simp add: content_unique_def store_config_def)

interpretation runs: connector_invariant runs_ok
  by unfold_locales (auto intro: keeps_runs_ingest keeps_runs_record simp: runs_ok_def store_config_ok,
      simp add: store_config_def)

interpretation attempts: connector_invariant "attempts_within (int n)" for n
  by (unfold_locales, rule keeps_ingest_by_parts)
    (simp_all add: keeps_attempts_record keeps_attempts_persist, simp add: attempts_within_def store_config_def)

section \<open>The scheduler and the retries with the connectors\<close>

text \<open>C25: A scheduler run of any connector keeps the run records consistent, whatever the boards send
  and however the run ends: a record is running exactly while it has no end time, an \<open>ok\<close> record
  has its counts, an \<open>error\<close> record has its message; and so does the sweep at boot.\<close>

theorem connectors_keep_run_records:
  assumes "session_inv runs_ok s"
  shows "session_inv runs_ok (snd (run_source (connector_dispatch E) connector trigger now s))
    \<and> session_inv runs_ok (snd (reconcile_stale_running_runs now s))"
  by (rule run_source_keeps_runs [OF runs.keeps_dispatch_table assms])

text \<open>C24: Retrying keeps the tables: whatever the language model answers and the boards send, a manual
  retry and a batch keep keys and references valid, and a batch that allows \<open>n\<close> attempts never
  brings the attempts of a row above \<open>n\<close>.\<close>

theorem retries_with_connectors_keep_tables:
  assumes "session_inv db_ok s" and "session_inv (attempts_within (int n)) s"
  shows "session_inv db_ok (snd (perform_retry (app_retry_env E ch) None row now s))
     \<and> session_inv db_ok (snd (run_detail_retry_batch (app_retry_env E ch) min_age (int n) now s))
     \<and> session_inv (attempts_within (int n)) (snd (run_detail_retry_batch (app_retry_env E ch) min_age (int n) now s))"
proof -
  have env: "env_runner (app_retry_env E ch) = connector_dispatch E"
    "env_detail_retry (app_retry_env E ch) = detail_retry E"
    by (simp_all add: app_retry_env_def)
  show ?thesis
    using retries_keep_tables [of "app_retry_env E ch" "int n" s, unfolded env, OF
        tables.keeps_dispatch_table tables.keeps_detail_table
        attempts.keeps_dispatch_table attempts.keeps_detail_table assms]
    by simp
qed

section \<open>A concrete application\<close>

definition sample_world :: connector_world where
  "sample_world = \<lparr>cw_nets = (\<lambda>_. remoteok_net), cw_nows = (\<lambda>_ _ _. 0), cw_feed = (\<lambda>_. Inr None),
     cw_walk = (\<lambda>_. \<lparr>ww_lists = (\<lambda>_ _. Inr None), ww_details = (\<lambda>_ _ _. Inr None), ww_now = (\<lambda>_ _. 0),
       ww_later = (\<lambda>_. 0)\<rparr>), cw_search = search_world\<rparr>"

definition sample_app :: app_env where
  "sample_app = \<lparr>app_lib = sample_lib, app_board_lib = sample_board_lib, app_page_lib = sample_page_lib,
     app_campaign = [], app_world = (\<lambda>_. sample_world), app_retry_net = (\<lambda>_ _. Inr None), app_retry_now = 0\<rparr>"

theorem connectors_keep_run_records_witness:
  "session_inv runs_ok (snd (run_source (connector_dispatch sample_app) SOLID_JOBS (lit ''manual'') 5
     (open_session (lifecycle_db True))))"
  using connectors_keep_run_records by (simp add: session_inv_def open_session_def)

theorem retries_with_connectors_keep_tables_witness:
  "session_inv db_ok (snd (run_detail_retry_batch (app_retry_env sample_app (\<lambda>_ _. Inr perfect_output)) 1 (int 3) 2000000
     (open_session (retry_db True RUN_FETCH_FAILED None))))"
proof -
  have "session_inv db_ok (open_session (retry_db True RUN_FETCH_FAILED None))"
    "session_inv (attempts_within (int 3)) (open_session (retry_db True RUN_FETCH_FAILED None))"
    by (simp_all add: session_own retry_db_facts(1)) (simp add: session_inv_def attempts_within_def retry_db_def)
  from retries_with_connectors_keep_tables [OF this] show ?thesis by blast
qed

end
