(* ===== verification/CvText.thy ===== *)
theory CvText
  imports Schemas
begin

text \<open>
  \<open>app/cv/text_extraction.py\<close>: the text of an uploaded CV. A page of a PDF is the list of its words
  with their boxes; the code groups them into rows, looks for gaps that recur at the same place and,
  when it finds any, reads the page column by column. Coordinates are rationals. The readers of PDF
  and DOCX files are arguments.
\<close>

section \<open>Rows\<close>

record cv_word =
  w_text :: pystr
  w_x0 :: rat
  w_x1 :: rat
  w_top :: rat

definition column_gap_threshold :: rat where "column_gap_threshold = 10"
definition row_top_tolerance :: rat where "row_top_tolerance = 3"
definition column_cluster_tolerance :: rat where "column_cluster_tolerance = 12"
definition min_rows_for_column :: nat where "min_rows_for_column = 3"

text \<open>The loop of \<open>_group_into_rows\<close>: \<open>tp\<close> is the height of the first word of the row being filled.\<close>

fun fill_rows :: "cv_word list \<Rightarrow> rat option \<Rightarrow> cv_word list \<Rightarrow> cv_word list list" where
  "fill_rows cur tp [] = (if cur = [] then [] else [sort_key w_x0 cur])"
| "fill_rows cur tp (w # ws) =
     (case tp of
        None \<Rightarrow> fill_rows (cur @ [w]) (Some (w_top w)) ws
      | Some t \<Rightarrow>
          if \<bar>w_top w - t\<bar> \<le> row_top_tolerance then fill_rows (cur @ [w]) (Some t) ws
          else sort_key w_x0 cur # fill_rows [w] (Some (w_top w)) ws)"

definition group_into_rows :: "cv_word list \<Rightarrow> cv_word list list" where
  "group_into_rows words = fill_rows [] None (sort_key w_top words)"

section \<open>Columns\<close>

definition wide_gap :: "cv_word \<Rightarrow> cv_word \<Rightarrow> bool" where
  "wide_gap previous w \<longleftrightarrow> column_gap_threshold \<le> w_x0 w - w_x1 previous"

fun cut_at_gaps :: "cv_word list \<Rightarrow> cv_word \<Rightarrow> cv_word list \<Rightarrow> cv_word list list" where
  "cut_at_gaps seg previous [] = [seg]"
| "cut_at_gaps seg previous (w # ws) =
     (if wide_gap previous w then seg # cut_at_gaps [w] w ws else cut_at_gaps (seg @ [w]) w ws)"

definition row_segments :: "cv_word list \<Rightarrow> exn + cv_word list list" where
  "row_segments row =
     (case row of [] \<Rightarrow> Inl (OtherExn (lit ''list index out of range'')) | w # ws \<Rightarrow> Inr (cut_at_gaps [w] w ws))"

definition starts_after_gap :: "cv_word list \<Rightarrow> rat list" where
  "starts_after_gap row = map (w_x0 \<circ> snd) (filter (\<lambda>(previous, w). wide_gap previous w) (zip row (tl row)))"

fun cluster_starts :: "rat list \<Rightarrow> rat list \<Rightarrow> rat list list" where
  "cluster_starts cur [] = (if cur = [] then [] else [cur])"
| "cluster_starts cur (x # xs) =
     (if cur = [] then cluster_starts [x] xs
      else if x - last cur \<le> column_cluster_tolerance then cluster_starts (cur @ [x]) xs
      else cur # cluster_starts [x] xs)"

definition find_column_boundaries :: "cv_word list list \<Rightarrow> rat list" where
  "find_column_boundaries rows =
     (let column_starts = sort (concat (map starts_after_gap rows));
          clusters = filter (\<lambda>c. min_rows_for_column \<le> length c) (cluster_starts [] column_starts) in
      sort (map (\<lambda>c. sum_list c / of_nat (length c)) clusters))"

fun column_index :: "rat \<Rightarrow> rat list \<Rightarrow> nat" where
  "column_index x [] = 0"
| "column_index x (b # bs) = (if x < b then 0 else Suc (column_index x bs))"

section \<open>The text of a page\<close>

definition line_text :: "cv_word list \<Rightarrow> pystr" where
  "line_text ws = py_join (lit '' '') (map w_text ws)"

definition join_rows_in_reading_order :: "cv_word list list \<Rightarrow> pystr" where
  "join_rows_in_reading_order rows = py_join [10] (map line_text rows)"

text \<open>
  \<open>columns.setdefault(column, []).append(...)\<close> for every segment, then the columns by their number:
  the lines of a column are those of its segments, in the order of the rows.
\<close>

definition all_segments :: "cv_word list list \<Rightarrow> exn + cv_word list list" where
  "all_segments rows = bindE (gather row_segments rows) (\<lambda>ss. Inr (concat ss))"

definition segment_column :: "rat list \<Rightarrow> cv_word list \<Rightarrow> nat" where
  "segment_column boundaries seg = column_index (w_x0 (hd seg)) boundaries"

fun add_to_columns :: "rat list \<Rightarrow> cv_word list list \<Rightarrow> (nat \<times> pystr list) list \<Rightarrow> (nat \<times> pystr list) list" where
  "add_to_columns boundaries [] columns = columns"
| "add_to_columns boundaries (seg # segs) columns =
     (let c = segment_column boundaries seg;
          lines = (case map_of columns c of None \<Rightarrow> [] | Some ls \<Rightarrow> ls) in
      add_to_columns boundaries segs (AList.update c (lines @ [line_text seg]) columns))"

definition join_rows_by_column :: "cv_word list list \<Rightarrow> rat list \<Rightarrow> exn + pystr" where
  "join_rows_by_column rows boundaries =
     bindE (all_segments rows) (\<lambda>segs.
     let columns = add_to_columns boundaries segs [] in
     Inr (py_join [10, 10] (map (\<lambda>i. py_join [10] (the (map_of columns i))) (sort (map fst columns)))))"

definition extract_page_text :: "cv_word list \<Rightarrow> exn + pystr" where
  "extract_page_text words =
     (let rows = group_into_rows words; boundaries = find_column_boundaries rows in
      if rows = [] then Inr []
      else if boundaries = [] then Inr (join_rows_in_reading_order rows)
      else join_rows_by_column rows boundaries)"

section \<open>The text of a file\<close>

definition extract_pdf_text :: "('content \<Rightarrow> exn + cv_word list list) \<Rightarrow> 'content \<Rightarrow> exn + pystr" where
  "extract_pdf_text open_pdf content =
     bindE (open_pdf content) (\<lambda>pages.
     bindE (gather extract_page_text pages) (\<lambda>texts. Inr (py_join [10] texts)))"

definition extract_docx_text :: "('content \<Rightarrow> exn + pystr list) \<Rightarrow> 'content \<Rightarrow> exn + pystr" where
  "extract_docx_text open_docx content = bindE (open_docx content) (\<lambda>paragraphs. Inr (py_join [10] paragraphs))"

text \<open>\<open>Path(filename).suffix\<close>: of the last component, unless its last dot is its first or last letter.\<close>

fun path_parts :: "pystr \<Rightarrow> pystr \<Rightarrow> pystr list" where
  "path_parts cur [] = [cur]"
| "path_parts cur (c # cs) = (if c = 47 then cur # path_parts [] cs else path_parts (cur @ [c]) cs)"

definition path_name :: "pystr \<Rightarrow> pystr" where
  "path_name p = (case rev (filter (\<lambda>q. q \<noteq> [] \<and> q \<noteq> [46]) (path_parts [] p)) of [] \<Rightarrow> [] | q # _ \<Rightarrow> q)"

definition path_suffix :: "pystr \<Rightarrow> pystr" where
  "path_suffix p =
     (let nm = path_name p; after = rev (takeWhile (\<lambda>c. c \<noteq> 46) (rev nm)) in
      if 46 \<in> set nm \<and> after \<noteq> [] \<and> length after + 1 < length nm then 46 # after else [])"

definition extract_cv_text ::
    "('content \<Rightarrow> exn + cv_word list list) \<Rightarrow> ('content \<Rightarrow> exn + pystr list) \<Rightarrow> pystr \<Rightarrow> 'content \<Rightarrow> exn + pystr" where
  "extract_cv_text open_pdf open_docx filename content =
     (let suffix = py_lower (path_suffix filename) in
      if suffix = lit ''.pdf'' then extract_pdf_text open_pdf content
      else if suffix = lit ''.docx'' then extract_docx_text open_docx content
      else Inl (UnsupportedFileTypeError (lit ''unsupported file type: '' @ (if suffix = [] then lit ''unknown'' else suffix))))"

section \<open>No word is lost\<close>

text \<open>
  What the text of a page is made of: blocks of lines of words. A line holds words of one height from
  left to right; the lines of a block go down the page, each above the next one, or beside it at the
  same height and to its left; when there are several blocks they stand from left to right, and no
  line reaches across a gap.
\<close>

definition line_ok :: "cv_word list \<Rightarrow> bool" where
  "line_ok l \<longleftrightarrow> l \<noteq> [] \<and> sorted (map w_x0 l)
     \<and> list_all (\<lambda>v. list_all (\<lambda>w. \<bar>w_top v - w_top w\<bar> \<le> row_top_tolerance) l) l"

definition no_wide_gap :: "cv_word list \<Rightarrow> bool" where
  "no_wide_gap = successively (\<lambda>v w. \<not> wide_gap v w)"

definition stands_above :: "cv_word list \<Rightarrow> cv_word list \<Rightarrow> bool" where
  "stands_above l m = list_all (\<lambda>v. list_all (\<lambda>w. w_top v < w_top w) m) l"

definition stands_beside :: "cv_word list \<Rightarrow> cv_word list \<Rightarrow> bool" where
  "stands_beside l m = list_all (\<lambda>v. list_all (\<lambda>w. w_x0 v \<le> w_x0 w \<and> \<bar>w_top v - w_top w\<bar> \<le> row_top_tolerance) m) l"

definition read_before :: "cv_word list \<Rightarrow> cv_word list \<Rightarrow> bool" where
  "read_before l m \<longleftrightarrow> stands_above l m \<or> stands_beside l m"

definition left_of :: "cv_word list list \<Rightarrow> cv_word list list \<Rightarrow> bool" where
  "left_of b c = list_all (\<lambda>l. list_all (\<lambda>m. w_x0 (hd l) < w_x0 (hd m)) c) b"

definition reading :: "cv_word list \<Rightarrow> cv_word list list list \<Rightarrow> bool" where
  "reading words blocks \<longleftrightarrow> mset (concat (concat blocks)) = mset words
     \<and> list_all (list_all line_ok) blocks \<and> list_all (sorted_wrt read_before) blocks
     \<and> sorted_wrt left_of blocks
     \<and> (length blocks \<le> 1 \<or> list_all (list_all no_wide_gap) blocks)"

definition block_text :: "cv_word list list \<Rightarrow> pystr" where
  "block_text b = py_join [10] (map line_text b)"

subsection \<open>Rows\<close>

lemma mset_fill_rows: "mset (concat (fill_rows cur tp ws)) = mset cur + mset ws"
  by (induction cur tp ws rule: fill_rows.induct) (auto split: option.splits)

lemma filled_row_ok:
  assumes "cur \<noteq> []" and "list_all (\<lambda>w. t \<le> w_top w \<and> w_top w \<le> t + row_top_tolerance) cur"
  shows "line_ok (sort_key w_x0 cur)"
proof -
  have "sort_key w_x0 cur \<noteq> []" using assms(1) by (metis length_0_conv length_sort)
  moreover have "\<bar>w_top v - w_top w\<bar> \<le> row_top_tolerance" if "v \<in> set cur" "w \<in> set cur" for v w
  proof -
    have "t \<le> w_top v" "w_top v \<le> t + row_top_tolerance" "t \<le> w_top w" "w_top w \<le> t + row_top_tolerance"
      using assms(2) that by (auto simp: list_all_iff)
    then show ?thesis by linarith
  qed
  ultimately show ?thesis by (simp add: line_ok_def list_all_iff)
qed

lemma set_fill_rows: "set (concat (fill_rows cur tp ws)) = set cur \<union> set ws"
  using mset_fill_rows [of cur tp ws] by (metis set_mset_mset set_mset_union)

lemma fill_rows_ok:
  assumes "sorted (map w_top ws)" and "(tp = None) = (cur = [])"
    and "\<And>t. tp = Some t \<Longrightarrow> list_all (\<lambda>w. t \<le> w_top w \<and> w_top w \<le> t + row_top_tolerance) cur
      \<and> list_all (\<lambda>w. t \<le> w_top w) ws"
  shows "list_all line_ok (fill_rows cur tp ws) \<and> sorted_wrt stands_above (fill_rows cur tp ws)"
  using assms
proof (induction cur tp ws rule: fill_rows.induct)
  case (1 cur tp)
  then show ?case using filled_row_ok by (cases tp) auto
next
  case (2 cur tp w ws)
  show ?case
  proof (cases tp)
    case None
    with 2 show ?thesis by (auto simp: list_all_iff row_top_tolerance_def)
  next
    case (Some t)
    show ?thesis
    proof (cases "\<bar>w_top w - t\<bar> \<le> row_top_tolerance")
      case True
      with 2 Some show ?thesis by (auto simp: list_all_iff abs_le_iff row_top_tolerance_def)
    next
      case False
      let ?rest = "fill_rows [w] (Some (w_top w)) ws"
      have rest: "list_all line_ok ?rest \<and> sorted_wrt stands_above ?rest"
        using 2(3) [OF Some False] "2.prems" by (auto simp: list_all_iff row_top_tolerance_def)
      have cur: "w_top v \<le> t + row_top_tolerance" if "v \<in> set cur" for v
        using 2(6) [OF Some] that by (auto simp: list_all_iff)
      have low: "t + row_top_tolerance < w_top u" if "u \<in> set m" "m \<in> set ?rest" for u m
      proof -
        have "u \<in> set (w # ws)" using that set_fill_rows [of "[w]" "Some (w_top w)" ws] by auto
        then have "w_top w \<le> w_top u" using "2.prems"(1) by auto
        with False 2(6) [OF Some] show ?thesis by (auto simp: list_all_iff)
      qed
      have "stands_above (sort_key w_x0 cur) m" if "m \<in> set ?rest" for m
        using order.strict_trans1 [OF cur low] that by (auto simp: stands_above_def list_all_iff)
      with rest filled_row_ok [of cur t] 2(5,6) Some False show ?thesis by (auto simp: list_all_iff)
    qed
  qed
qed

lemma group_into_rows_ok:
  "mset (concat (group_into_rows words)) = mset words" "list_all line_ok (group_into_rows words)"
  "sorted_wrt stands_above (group_into_rows words)"
  using fill_rows_ok [of "sort_key w_top words" None "[]"]
  unfolding group_into_rows_def by (simp_all add: mset_fill_rows)

subsection \<open>Segments\<close>

lemma cut_at_gaps_concat: "concat (cut_at_gaps seg p ws) = seg @ ws"
  by (induction seg p ws rule: cut_at_gaps.induct) auto

lemma line_ok_part:
  assumes "line_ok (l @ r)"
  shows "l \<noteq> [] \<Longrightarrow> line_ok l" "r \<noteq> [] \<Longrightarrow> line_ok r"
  using assms by (auto simp: line_ok_def sorted_append list_all_iff)

lemma no_wide_gap_snoc: "l \<noteq> [] \<Longrightarrow> no_wide_gap (l @ [w]) = (no_wide_gap l \<and> \<not> wide_gap (last l) w)"
  by (simp add: no_wide_gap_def successively_append_iff)

lemma cut_at_gaps_ok:
  assumes "line_ok (seg @ ws)" and "seg \<noteq> []" and "last seg = p" and "no_wide_gap seg"
  shows "list_all (\<lambda>s. line_ok s \<and> no_wide_gap s) (cut_at_gaps seg p ws)"
  using assms
proof (induction seg p ws rule: cut_at_gaps.induct)
  case (2 seg p w ws)
  then show ?case
    using line_ok_part [of seg "w # ws"] by (auto simp: no_wide_gap_snoc) (simp_all add: no_wide_gap_def)
qed simp

lemma parts_beside:
  assumes "sorted (map w_x0 (concat ls))"
    and "\<And>v w. v \<in> set (concat ls) \<Longrightarrow> w \<in> set (concat ls) \<Longrightarrow> \<bar>w_top v - w_top w\<bar> \<le> row_top_tolerance"
  shows "sorted_wrt stands_beside ls"
  using assms
proof (induction ls)
  case (Cons l ls)
  have "sorted_wrt stands_beside ls"
    using Cons.prems by (intro Cons.IH) (auto simp: sorted_append)
  moreover have "stands_beside l m" if "m \<in> set ls" for m
    using Cons.prems that by (fastforce simp: stands_beside_def list_all_iff sorted_append)
  ultimately show ?case by simp
qed simp

lemma line_parts_beside: "line_ok (concat ls) \<Longrightarrow> sorted_wrt stands_beside ls"
  by (rule parts_beside) (auto simp: line_ok_def list_all_iff)

lemma above_parts: "stands_above (concat ls) (concat ms) \<Longrightarrow> l \<in> set ls \<Longrightarrow> m \<in> set ms \<Longrightarrow> stands_above l m"
  by (auto simp: stands_above_def list_all_iff)

lemma all_segments_ok:
  assumes "list_all line_ok rows" and "sorted_wrt stands_above rows"
  obtains segs where "all_segments rows = Inr segs" "concat segs = concat rows"
    "list_all (\<lambda>s. line_ok s \<and> no_wide_gap s) segs" "sorted_wrt read_before segs"
proof -
  have "\<exists>ss. gather row_segments rows = Inr ss \<and> concat (concat ss) = concat rows
      \<and> list_all (\<lambda>s. line_ok s \<and> no_wide_gap s) (concat ss) \<and> sorted_wrt read_before (concat ss)"
    using assms
  proof (induction rows)
    case (Cons row rows)
    then obtain w ws where row: "row = w # ws" by (cases row) (auto simp: line_ok_def)
    with Cons.prems have "list_all (\<lambda>s. line_ok s \<and> no_wide_gap s) (cut_at_gaps [w] w ws)"
      by (intro cut_at_gaps_ok) (auto simp: no_wide_gap_def)
    moreover have "row_segments row = Inr (cut_at_gaps [w] w ws)" by (simp add: row_segments_def row)
    moreover have parts: "concat (cut_at_gaps [w] w ws) = row" by (simp add: row cut_at_gaps_concat)
    moreover have "sorted_wrt read_before (cut_at_gaps [w] w ws)"
      using line_parts_beside [of "cut_at_gaps [w] w ws"] Cons.prems(1) parts
      by (auto simp: read_before_def elim: sorted_wrt_mono_rel [rotated])
    moreover obtain ss where ss: "gather row_segments rows = Inr ss" "concat (concat ss) = concat rows"
      "list_all (\<lambda>s. line_ok s \<and> no_wide_gap s) (concat ss)" "sorted_wrt read_before (concat ss)"
      using Cons by auto
    moreover have "stands_above row (concat rows)"
      using Cons.prems(2) by (auto simp: stands_above_def list_all_iff)
    then have "read_before l m" if "l \<in> set (cut_at_gaps [w] w ws)" "m \<in> set (concat ss)" for l m
      using above_parts [of "cut_at_gaps [w] w ws" "concat ss" l m] that parts ss(2) by (simp add: read_before_def)
    ultimately show ?case
      by (intro exI [of _ "cut_at_gaps [w] w ws # ss"]) (auto simp: sorted_wrt_append)
  qed simp
  then show thesis using that by (auto simp: all_segments_def)
qed

subsection \<open>Columns\<close>

lemma column_index_less: "column_index x bs < column_index y bs \<Longrightarrow> x < y"
  by (induction bs) (auto split: if_splits)

definition columns_of :: "rat list \<Rightarrow> cv_word list list \<Rightarrow> (nat \<times> pystr list) list \<Rightarrow> bool" where
  "columns_of boundaries segs columns \<longleftrightarrow> distinct (map fst columns)
     \<and> fst ` set columns = segment_column boundaries ` set segs
     \<and> (\<forall>c ls. map_of columns c = Some ls \<longrightarrow>
          ls = map line_text (filter (\<lambda>s. segment_column boundaries s = c) segs))"

lemma add_to_columns_columns:
  "columns_of boundaries done columns \<Longrightarrow> columns_of boundaries (done @ segs) (add_to_columns boundaries segs columns)"
proof (induction segs arbitrary: "done" columns)
  case (Cons seg segs)
  let ?c = "segment_column boundaries seg"
  define ls where "ls = (case map_of columns ?c of None \<Rightarrow> [] | Some ls \<Rightarrow> ls)"
  have ls: "ls = map line_text (filter (\<lambda>s. segment_column boundaries s = ?c) done)"
  proof (cases "map_of columns ?c")
    case None
    then have "?c \<notin> segment_column boundaries ` set done"
      using Cons.prems by (simp add: columns_of_def map_of_eq_None_iff)
    then show ?thesis using None by (auto simp: ls_def filter_empty_conv image_iff)
  next
    case (Some x)
    then show ?thesis using Cons.prems by (simp add: columns_of_def ls_def)
  qed
  have "columns_of boundaries (done @ [seg]) (AList.update ?c (ls @ [line_text seg]) columns)"
    using Cons.prems ls by (auto simp: columns_of_def distinct_update dom_update update_conv')
  from Cons.IH [OF this] show ?case by (simp add: ls_def Let_def)
qed simp

lemma mset_by_column:
  "distinct ks \<Longrightarrow> f ` set xs \<subseteq> set ks \<Longrightarrow> mset (concat (map (\<lambda>k. filter (\<lambda>x. f x = k) xs) ks)) = mset xs"
proof (induction ks arbitrary: xs)
  case (Cons k ks)
  have split: "map (\<lambda>k'. filter (\<lambda>x. f x = k') xs) ks = map (\<lambda>k'. filter (\<lambda>x. f x = k') (filter (\<lambda>x. f x \<noteq> k) xs)) ks"
    using Cons.prems(1) by (auto simp: filter_filter intro!: filter_cong)
  have "f ` set (filter (\<lambda>x. f x \<noteq> k) xs) \<subseteq> set ks" using Cons.prems(2) by auto
  with Cons.IH [of "filter (\<lambda>x. f x \<noteq> k) xs"] Cons.prems(1)
  have "mset (concat (map (\<lambda>k'. filter (\<lambda>x. f x = k') xs) ks)) = mset (filter (\<lambda>x. f x \<noteq> k) xs)"
    unfolding split by simp
  then show ?case by (simp add: multiset_partition [of "mset xs" "\<lambda>x. f x = k", symmetric])
qed simp

lemma mset_concat_cong: "mset xs = mset ys \<Longrightarrow> mset (concat xs) = mset (concat ys)"
  by (metis mset_concat mset_map sum_mset_sum_list)

lemma join_columns:
  assumes "join_rows_by_column rows boundaries = Inr txt" and "all_segments rows = Inr segs"
  shows "\<exists>ks. sorted_wrt (<) ks \<and> set ks = segment_column boundaries ` set segs
    \<and> txt = py_join [10, 10] (map (\<lambda>k. block_text (filter (\<lambda>s. segment_column boundaries s = k) segs)) ks)"
proof -
  let ?cols = "add_to_columns boundaries segs []"
  have cols: "columns_of boundaries segs ?cols"
    using add_to_columns_columns [of boundaries "[]" "[]" segs] by (simp add: columns_of_def)
  let ?ks = "sort (map fst ?cols)"
  have "the (map_of ?cols k) = map line_text (filter (\<lambda>s. segment_column boundaries s = k) segs)" if "k \<in> set ?ks" for k
  proof -
    from that obtain ls where "map_of ?cols k = Some ls" by (metis image_set map_of_eq_None_iff option.exhaust set_sort)
    with cols show ?thesis by (simp add: columns_of_def)
  qed
  then have same: "map (\<lambda>k. py_join [10] (the (map_of ?cols k))) ?ks
      = map (\<lambda>k. block_text (filter (\<lambda>s. segment_column boundaries s = k) segs)) ?ks"
    unfolding block_text_def by (intro map_cong refl) simp
  have "txt = py_join [10, 10] (map (\<lambda>k. py_join [10] (the (map_of ?cols k))) ?ks)"
    using assms by (simp add: join_rows_by_column_def Let_def)
  then have "txt = py_join [10, 10] (map (\<lambda>k. block_text (filter (\<lambda>s. segment_column boundaries s = k) segs)) ?ks)"
    unfolding same .
  moreover have "sorted_wrt (<) ?ks" "set ?ks = segment_column boundaries ` set segs"
    using cols by (simp_all add: columns_of_def strict_sorted_iff)
  ultimately show ?thesis by blast
qed

lemma columns_reading:
  assumes "concat segs = concat rows" and "mset (concat rows) = mset words"
    and "list_all (\<lambda>s. line_ok s \<and> no_wide_gap s) segs" and "sorted_wrt read_before segs"
    and "sorted_wrt (<) ks" and "set ks = segment_column boundaries ` set segs"
  shows "reading words (map (\<lambda>k. filter (\<lambda>s. segment_column boundaries s = k) segs) ks)"
proof -
  have "mset (concat (map (\<lambda>k. filter (\<lambda>s. segment_column boundaries s = k) segs) ks)) = mset segs"
    using assms(5,6) strict_sorted_iff by (intro mset_by_column) auto
  from mset_concat_cong [OF this] assms(1,2) show ?thesis
    using assms(3-5) column_index_less
    by (auto simp: reading_def sorted_wrt_filter list_all_iff left_of_def segment_column_def sorted_wrt_map elim!: sorted_wrt_mono_rel [rotated])
qed

text \<open>C37: The text of a page keeps every word: it is made of blocks of lines that hold each word of the page
  exactly once; the words of a line stand at one height, from left to right; the lines of a block go
  down the page, each with all its words above those of the later ones, or at the same height to the
  left of them; and where the page is read column by column, the columns follow each other from left
  to right and no line reaches across a gap between columns.\<close>

theorem page_text_keeps_every_word:
  "\<exists>blocks. extract_page_text words = Inr (py_join [10, 10] (map block_text blocks)) \<and> reading words blocks"
proof -
  let ?rows = "group_into_rows words" and ?bs = "find_column_boundaries (group_into_rows words)"
  note rows = group_into_rows_ok [of words]
  consider (empty) "?rows = []" | (plain) "?rows \<noteq> []" "?bs = []" | (cols) "?rows \<noteq> []" "?bs \<noteq> []" by blast
  then show ?thesis
  proof cases
    case empty
    then show ?thesis using rows by (intro exI [of _ "[]"]) (simp add: extract_page_text_def reading_def)
  next
    case plain
    then show ?thesis
      using rows by (intro exI [of _ "[?rows]"])
        (auto simp: extract_page_text_def reading_def join_rows_in_reading_order_def block_text_def
          read_before_def elim: sorted_wrt_mono_rel [rotated])
  next
    case cols
    from all_segments_ok [OF rows(2,3)] obtain segs where segs: "all_segments ?rows = Inr segs"
      "concat segs = concat ?rows" "list_all (\<lambda>s. line_ok s \<and> no_wide_gap s) segs"
      "sorted_wrt read_before segs"
      by blast
    then obtain page_text where page_text: "join_rows_by_column ?rows ?bs = Inr page_text"
      by (simp add: join_rows_by_column_def Let_def)
    from join_columns [OF this segs(1)] obtain ks where ks: "sorted_wrt (<) ks"
      "set ks = segment_column ?bs ` set segs"
      "page_text = py_join [10, 10] (map (\<lambda>k. block_text (filter (\<lambda>s. segment_column ?bs s = k) segs)) ks)" by blast
    with columns_reading [OF segs(2) rows(1) segs(3,4) ks(1,2)] page_text cols show ?thesis
      by (intro exI conjI) (simp_all add: extract_page_text_def Let_def comp_def)
  qed
qed

end
