(* ===== verification/CvExtract.thy ===== *)
theory CvExtract
  imports ProfileApi CvText
begin

text \<open>
  \<open>app/llm/cv_extraction.py\<close>: the profile behind the text of a CV, by three structured calls to the
  language model, and what an upload comes to when text and profile are read this way. The answers
  of the model, as validated by their schemas, are arguments; prompts are not modelled.
\<close>

section \<open>The three calls\<close>

record core_extraction =
  core_skills :: "skill list"
  core_past_roles :: "past_role list"
  core_education :: "education list"
  core_certifications :: "certification list"
  core_languages :: "language list"

record contact_extraction =
  contact_headline :: "pystr option"
  contact_summary :: "pystr option"
  contact_email :: "pystr option"
  contact_phone :: "pystr option"
  contact_location :: "pystr option"
  contact_links :: "pystr list"

record projects_extraction =
  extracted_projects :: "project list"
  extracted_industry_tags :: "pystr list"

record llm_chains =
  core_chain :: "pystr \<Rightarrow> exn + core_extraction"
  contact_chain :: "pystr \<Rightarrow> exn + contact_extraction"
  projects_chain :: "pystr \<Rightarrow> exn + projects_extraction"

text \<open>What the schemas of the calls check.\<close>

definition core_ok :: "core_extraction \<Rightarrow> bool" where
  "core_ok c \<longleftrightarrow>
     list_all (\<lambda>s. skill_name s \<noteq> []) (core_skills c)
     \<and> list_all (\<lambda>r. role_title r \<noteq> [] \<and> role_company r \<noteq> []) (core_past_roles c)
     \<and> list_all (\<lambda>e. edu_institution e \<noteq> []) (core_education c)
     \<and> list_all (\<lambda>x. cert_name x \<noteq> []) (core_certifications c)
     \<and> list_all (\<lambda>l. language_name l \<noteq> []) (core_languages c)"

definition projects_ok :: "projects_extraction \<Rightarrow> bool" where
  "projects_ok p \<longleftrightarrow> list_all (\<lambda>j. project_name j \<noteq> [] \<and> opt_ge0 (project_team_size j)) (extracted_projects p)"

definition cv_describe :: "exn \<Rightarrow> pystr" where
  "cv_describe e = (if exn_text e = [] then lit ''Exception'' else exn_text e)"

text \<open>\<open>CVExtraction(**core.model_dump(), ...)\<close>, outside the \<open>try\<close>.\<close>

definition merge_extractions :: "core_extraction \<Rightarrow> contact_extraction \<Rightarrow> projects_extraction \<Rightarrow> exn + cv_extraction" where
  "merge_extractions a b c =
     (let x = \<lparr>skills = core_skills a, past_roles = core_past_roles a, educations = core_education a,
          certifications = core_certifications a, languages = core_languages a,
          projects = extracted_projects c, profile_industry_tags = extracted_industry_tags c,
          headline = contact_headline b, summary = contact_summary b, email = contact_email b,
          phone = contact_phone b, profile_location = contact_location b, links = contact_links b\<rparr> in
      bindE (check (extraction_ok x) ''CVExtraction'') (\<lambda>_. Inr x))"

definition call_chains :: "llm_chains \<Rightarrow> pystr \<Rightarrow> exn + core_extraction \<times> contact_extraction \<times> projects_extraction" where
  "call_chains C cv_text =
     bindE (core_chain C cv_text) (\<lambda>a.
     bindE (contact_chain C cv_text) (\<lambda>b.
     bindE (projects_chain C cv_text) (\<lambda>c. Inr (a, b, c))))"

definition call_llm :: "llm_chains \<Rightarrow> pystr \<Rightarrow> exn + cv_extraction" where
  "call_llm C cv_text =
     (case call_chains C cv_text of
        Inl e \<Rightarrow> Inl (CVExtractionError (lit ''CV extraction failed: '' @ cv_describe e))
      | Inr (a, b, c) \<Rightarrow> merge_extractions a b c)"

text \<open>The preferences of the profile have their defaults, and no skill is a hard requirement.\<close>

definition profile_of_extraction :: "cv_extraction \<Rightarrow> profile" where
  "profile_of_extraction x =
     cv_extraction.extend (x\<lparr>skills := map (\<lambda>s. s\<lparr>skill_hard := False\<rparr>) (skills x)\<rparr>)
       \<lparr>contract_type_preference = None, pref_salary_min = None, pref_salary_target = None,
        location_preference = None, remote_preference = None, deal_breakers = []\<rparr>"

definition extract_profile_from_cv_text :: "llm_chains \<Rightarrow> pystr \<Rightarrow> exn + profile" where
  "extract_profile_from_cv_text C cv_text =
     bindE (call_llm C cv_text) (\<lambda>x.
     let p = profile_of_extraction x in
     bindE (check (profile_ok p) ''Profile'') (\<lambda>_. Inr p))"

section \<open>What an extraction comes to\<close>

definition chains_validated :: "llm_chains \<Rightarrow> pystr \<Rightarrow> bool" where
  "chains_validated C cv_text \<longleftrightarrow>
     (case core_chain C cv_text of Inr c \<Rightarrow> core_ok c | Inl _ \<Rightarrow> True)
     \<and> (case projects_chain C cv_text of Inr c \<Rightarrow> projects_ok c | Inl _ \<Rightarrow> True)"

lemma profile_of_extraction_simps [simp]:
  "skills (profile_of_extraction x) = map (\<lambda>s. s\<lparr>skill_hard := False\<rparr>) (skills x)"
  "cv_extraction.truncate (profile_of_extraction x) = x\<lparr>skills := map (\<lambda>s. s\<lparr>skill_hard := False\<rparr>) (skills x)\<rparr>"
  "hard_skill_names (profile_of_extraction x) = []"
  by (simp_all add: profile_of_extraction_def cv_extraction.defs hard_skill_names_def filter_empty_conv)

lemma profile_of_extraction_ok: "profile_ok (profile_of_extraction x) = extraction_ok x"
  by (simp add: profile_ok_def extraction_ok_def profile_of_extraction_def cv_extraction.defs
      check_salary_target_not_below_min_def list.pred_map comp_def opt_ge0_def)

lemma extraction_outcome:
  assumes "chains_validated C cv_text"
  shows "extract_profile_from_cv_text C cv_text =
    (case call_chains C cv_text of
       Inl e \<Rightarrow> Inl (CVExtractionError (lit ''CV extraction failed: '' @ cv_describe e))
     | Inr (a, b, c) \<Rightarrow>
         (case merge_extractions a b c of Inr x \<Rightarrow> Inr (profile_of_extraction x) | Inl e \<Rightarrow> Inl e))"
    and "call_chains C cv_text = Inr (a, b, c) \<Longrightarrow> \<exists>x. merge_extractions a b c = Inr x \<and> extraction_ok x"
proof -
  have merged: "\<exists>x. merge_extractions a b c = Inr x \<and> extraction_ok x"
    if "call_chains C cv_text = Inr (a, b, c)" for a b c
    using assms that
    by (auto simp: call_chains_def chains_validated_def core_ok_def projects_ok_def merge_extractions_def
        extraction_ok_def check_def bindE_Inr_iff Let_def)
  then show "call_chains C cv_text = Inr (a, b, c) \<Longrightarrow> \<exists>x. merge_extractions a b c = Inr x \<and> extraction_ok x" .
  show "extract_profile_from_cv_text C cv_text =
    (case call_chains C cv_text of
       Inl e \<Rightarrow> Inl (CVExtractionError (lit ''CV extraction failed: '' @ cv_describe e))
     | Inr (a, b, c) \<Rightarrow>
         (case merge_extractions a b c of Inr x \<Rightarrow> Inr (profile_of_extraction x) | Inl e \<Rightarrow> Inl e))"
    using merged
    by (auto simp: extract_profile_from_cv_text_def call_llm_def profile_of_extraction_ok check_def Let_def
        split: sum.splits)
qed

text \<open>C36: What an upload comes to, whatever the file and the language model do: a file of another type
  answers 415, a file its reader cannot read raises the reader's error, a call to the model that
  fails answers 503, and none of them changes anything; otherwise one inactive draft is stored and
  committed, its profile is well formed and holds what the three calls returned, except that no skill
  is a hard requirement.\<close>

theorem upload_cv_outcomes:
  assumes "\<not> tx_aborted s" and "profiles_ok (working s)"
    and "lit ''draft-'' @ uuid \<notin> profile_name ` set (profiles (working s))"
    and "\<And>cv_text. chains_validated C cv_text"
  shows "case upload_cv (extract_cv_text open_pdf open_docx) (extract_profile_from_cv_text C) uuid filename content s of
     (answer, t) \<Rightarrow>
       (case extract_cv_text open_pdf open_docx (case filename of None \<Rightarrow> [] | Some n \<Rightarrow> n) content of
          Inl e \<Rightarrow> answer = Inl (unsupported_file e) \<and> t = s
        | Inr cv_text \<Rightarrow>
            (case call_chains C cv_text of
               Inl e \<Rightarrow> answer = Inl (HTTPException 503) \<and> t = s
             | Inr (a, b, c) \<Rightarrow>
                 \<exists>x r. merge_extractions a b c = Inr x \<and> answer = Inr r
                   \<and> pr_profile r = profile_of_extraction x \<and> profile_ok (pr_profile r)
                   \<and> hard_skill_names (pr_profile r) = [] \<and> \<not> pr_is_active r
                   \<and> t = s\<lparr>working := add_draft uuid (pr_profile r) (working s),
                           committed := add_draft uuid (pr_profile r) (working s)\<rparr>))"
proof (cases "extract_cv_text open_pdf open_docx (case filename of None \<Rightarrow> [] | Some n \<Rightarrow> n) content")
  case (Inl e)
  then show ?thesis by (simp add: upload_cv_def run_simps)
next
  case (Inr cv_text)
  note read = this
  show ?thesis
  proof (cases "call_chains C cv_text")
    case (Inl e)
    with read show ?thesis by (simp add: upload_cv_def extraction_outcome(1) [OF assms(4)] run_simps)
  next
    case (Inr parts)
    obtain a b c where parts: "parts = (a, b, c)" by (cases parts)
    with extraction_outcome(2) [OF assms(4)] Inr obtain x where x: "merge_extractions a b c = Inr x" "extraction_ok x"
      by blast
    then have prof: "extract_profile_from_cv_text C cv_text = Inr (profile_of_extraction x)"
      using Inr parts by (simp add: extraction_outcome(1) [OF assms(4)])
    have ok: "profile_ok (profile_of_extraction x)" using x(2) by (simp add: profile_of_extraction_ok)
    then obtain r where r: "profile_response_of (draft_row uuid (profile_of_extraction x) (working s)) = Inr r"
      "pr_profile r = profile_of_extraction x" "\<not> pr_is_active r"
      by (simp add: profile_response_of_def profile_of_row_def draft_row_def check_def)
    show ?thesis
      using read Inr parts prof x(1) ok r draft_run(1) [OF assms(1-3)] assms(1)
      by (simp add: upload_cv_def run_simps)
  qed
qed

section \<open>A concrete upload\<close>

definition sample_word :: "pystr \<Rightarrow> rat \<Rightarrow> cv_word" where
  "sample_word t x = \<lparr>w_text = t, w_x0 = x, w_x1 = x + 5, w_top = 0\<rparr>"

definition sample_chains :: llm_chains where
  "sample_chains = \<lparr>core_chain = (\<lambda>_. Inr \<lparr>core_skills = [\<lparr>skill_name = lit ''python'', skill_category = None, skill_hard = True\<rparr>],
       core_past_roles = [], core_education = [], core_certifications = [], core_languages = []\<rparr>),
     contact_chain = (\<lambda>_. Inr \<lparr>contact_headline = None, contact_summary = None, contact_email = None,
       contact_phone = None, contact_location = None, contact_links = []\<rparr>),
     projects_chain = (\<lambda>_. Inr \<lparr>extracted_projects = [], extracted_industry_tags = []\<rparr>)\<rparr>"

definition sample_pages :: "unit \<Rightarrow> exn + cv_word list list" where
  "sample_pages content = Inr [[sample_word (lit ''ab'') 6, sample_word (lit ''cd'') 0]]"

theorem upload_cv_outcomes_witness:
  "\<exists>r t. upload_cv (extract_cv_text sample_pages (\<lambda>_. Inr [])) (extract_profile_from_cv_text sample_chains) (lit ''7'')
       (Some (lit ''cv.PDF'')) () (open_session two_profiles) = (Inr r, t)
     \<and> hard_skill_names (pr_profile r) = [] \<and> committed t = working t"
proof -
  have "lit ''draft-'' @ lit ''7'' \<notin> profile_name ` set (profiles (working (open_session two_profiles)))"
    "extract_cv_text sample_pages (\<lambda>_. Inr []) (lit ''cv.PDF'') () = Inr (lit ''cd ab'')" by code_simp+
  moreover have "chains_validated sample_chains t" for t
    by (simp add: chains_validated_def sample_chains_def core_ok_def projects_ok_def)
  ultimately show ?thesis
    using upload_cv_outcomes [of "open_session two_profiles" "lit ''7''" sample_chains sample_pages "\<lambda>_. Inr []"
        "Some (lit ''cv.PDF'')" "()"]
    by (auto simp: call_chains_def sample_chains_def split: prod.splits)
qed

end
