(* ===== verification/Fingerprint.thy ===== *)
theory Fingerprint
  imports PyStd
begin

text \<open>
  \<open>app/connectors/fingerprint.py\<close>: the pool of browser fingerprints the fetches take their headers
  from. A combination is drawn from a shuffled bag that is refilled when it is empty. The random
  choices are arguments.
\<close>

section \<open>The combinations\<close>

datatype version = VInt nat | VStr pystr

fun version_text :: "version \<Rightarrow> pystr" where
  "version_text (VInt n) = show_int (int n)"
| "version_text (VStr s) = s"

type_synonym combo = "pystr \<times> pystr \<times> version \<times> pystr"

record browser_profile =
  bp_family :: pystr
  bp_os_tokens :: "pystr list"
  bp_versions :: "version list"

definition windows_tokens :: "pystr list" where
  "windows_tokens = [lit ''Windows NT 10.0; Win64; x64'', lit ''Windows NT 11.0; Win64; x64'']"

definition macos_tokens :: "pystr list" where
  "macos_tokens = [lit ''Macintosh; Intel Mac OS X 10_15_7'', lit ''Macintosh; Intel Mac OS X 13_6'',
     lit ''Macintosh; Intel Mac OS X 14_5'']"

definition linux_tokens :: "pystr list" where
  "linux_tokens = [lit ''X11; Linux x86_64'', lit ''X11; Ubuntu; Linux x86_64'']"

definition languages_accepted :: "pystr list" where
  "languages_accepted = map lit [''en-US,en;q=0.9'', ''en-GB,en;q=0.9'', ''en-US,en;q=0.8,de;q=0.6'',
     ''en-CA,en;q=0.9,fr;q=0.6'', ''en-US,en;q=0.9,es;q=0.5'', ''en-US,en;q=0.5'']"

definition browser_profiles :: "browser_profile list" where
  "browser_profiles =
     [\<lparr>bp_family = lit ''chrome'', bp_os_tokens = windows_tokens @ macos_tokens @ linux_tokens,
       bp_versions = map VInt [118..<128]\<rparr>,
      \<lparr>bp_family = lit ''edge'', bp_os_tokens = windows_tokens @ macos_tokens, bp_versions = map VInt [118..<128]\<rparr>,
      \<lparr>bp_family = lit ''firefox'', bp_os_tokens = windows_tokens @ macos_tokens @ linux_tokens,
       bp_versions = map VInt [115..<129]\<rparr>,
      \<lparr>bp_family = lit ''safari'', bp_os_tokens = macos_tokens,
       bp_versions = map (VStr \<circ> lit) [''16.4'', ''16.6'', ''17.0'', ''17.4'', ''17.5'']\<rparr>]"

definition combos_of :: "browser_profile \<Rightarrow> combo list" where
  "combos_of p =
     concat (map (\<lambda>os. concat (map (\<lambda>v. map (\<lambda>l. (bp_family p, os, v, l)) languages_accepted) (bp_versions p))) (bp_os_tokens p))"

definition all_combos :: "combo list" where
  "all_combos = concat (map combos_of browser_profiles)"

section \<open>Drawing\<close>

record fingerprint_pool =
  combo_bag :: "combo list"
  last_combo :: "combo option"

definition fresh_fingerprints :: fingerprint_pool where
  "fresh_fingerprints = \<lparr>combo_bag = [], last_combo = None\<rparr>"

text \<open>\<open>xs[0], xs[-1] = xs[-1], xs[0]\<close>\<close>

definition swap_ends :: "'a list \<Rightarrow> 'a list" where
  "swap_ends xs = xs[0 := last xs, length xs - 1 := hd xs]"

definition refill :: "(combo list \<Rightarrow> combo list) \<Rightarrow> combo option \<Rightarrow> combo list" where
  "refill shuffle previous =
     (let bag = shuffle all_combos in if Some (last bag) = previous then swap_ends bag else bag)"

definition next_combo :: "(combo list \<Rightarrow> combo list) \<Rightarrow> fingerprint_pool \<Rightarrow> combo \<times> fingerprint_pool" where
  "next_combo shuffle fp =
     (let bag = (if combo_bag fp = [] then refill shuffle (last_combo fp) else combo_bag fp) in
      (last bag, \<lparr>combo_bag = butlast bag, last_combo = Some (last bag)\<rparr>))"

text \<open>A sequence of draws; \<open>shuffle i\<close> is what \<open>random.shuffle\<close> would do at the \<open>i\<close>-th.\<close>

fun draws :: "(nat \<Rightarrow> combo list \<Rightarrow> combo list) \<Rightarrow> nat \<Rightarrow> nat \<Rightarrow> fingerprint_pool \<Rightarrow> combo list \<times> fingerprint_pool" where
  "draws shuffle i 0 fp = ([], fp)"
| "draws shuffle i (Suc n) fp =
     (case next_combo (shuffle i) fp of
        (c, fp1) \<Rightarrow> (case draws shuffle (i + 1) n fp1 of (cs, fp2) \<Rightarrow> (c # cs, fp2)))"

section \<open>Headers\<close>

text \<open>What the random generator gives a call of \<open>_build_headers\<close>.\<close>

record header_choices =
  rnd_build :: nat
  rnd_patch :: nat
  rnd_grease :: pystr
  rnd_shuffle :: "pystr list \<Rightarrow> pystr list"

definition chromium_version :: "header_choices \<Rightarrow> version \<Rightarrow> pystr" where
  "chromium_version R v =
     version_text v @ lit ''.0.'' @ show_int (int (rnd_build R)) @ [46] @ show_int (int (rnd_patch R))"

definition platform_of :: "pystr \<Rightarrow> pystr" where
  "platform_of os =
     (if py_contains (lit ''Windows'') os then lit ''Windows''
      else if py_contains (lit ''Mac'') os then lit ''macOS'' else lit ''Linux'')"

definition quoted :: "pystr \<Rightarrow> pystr" where
  "quoted s = 34 # s @ [34]"

definition brand_text :: "pystr \<Rightarrow> pystr \<Rightarrow> pystr" where
  "brand_text brand v = quoted brand @ lit '';v='' @ quoted v"

definition chromium_client_hints :: "header_choices \<Rightarrow> pystr \<Rightarrow> version \<Rightarrow> pystr \<Rightarrow> pystr pydict" where
  "chromium_client_hints R brand v os =
     (let brands = [brand_text (lit ''Chromium'') (version_text v), brand_text brand (version_text v),
        brand_text (lit ''Not.A/Brand'') (rnd_grease R)] in
      [(lit ''sec-ch-ua'', py_join (lit '', '') (rnd_shuffle R brands)), (lit ''sec-ch-ua-mobile'', lit ''?0''),
       (lit ''sec-ch-ua-platform'', quoted (platform_of os))])"

definition mozilla :: "pystr \<Rightarrow> pystr" where
  "mozilla inside = lit ''Mozilla/5.0 ('' @ inside"

definition build_headers :: "header_choices \<Rightarrow> combo \<Rightarrow> pystr pydict" where
  "build_headers R c =
     (case c of (family, os, v, language) \<Rightarrow>
       let headers =
         [(lit ''Accept'', lit ''text/html,application/xhtml+xml,application/xml;q=0.9,image/webp,*/*;q=0.8''),
          (lit ''Accept-Language'', language), (lit ''Sec-Fetch-Dest'', lit ''document''),
          (lit ''Sec-Fetch-Mode'', lit ''navigate''), (lit ''Sec-Fetch-Site'', lit ''none'')];
         chrome = mozilla (os @ lit '') AppleWebKit/537.36 (KHTML, like Gecko) Chrome/'' @ chromium_version R v
           @ lit '' Safari/537.36'') in
       if family = lit ''chrome'' then
         dict_merge (AList.update (lit ''User-Agent'') chrome headers)
           (chromium_client_hints R (lit ''Google Chrome'') v os)
       else if family = lit ''edge'' then
         dict_merge (AList.update (lit ''User-Agent'') (chrome @ lit '' Edg/'' @ chromium_version R v) headers)
           (chromium_client_hints R (lit ''Microsoft Edge'') v os)
       else if family = lit ''firefox'' then
         AList.update (lit ''User-Agent'')
           (mozilla (os @ lit ''; rv:'' @ version_text v @ lit ''.0) Gecko/20100101 Firefox/'' @ version_text v @ lit ''.0''))
           (AList.update (lit ''Accept'') (lit ''text/html,application/xhtml+xml,application/xml;q=0.9,*/*;q=0.8'') headers)
       else if family = lit ''safari'' then
         AList.update (lit ''User-Agent'')
           (mozilla (os @ lit '') AppleWebKit/605.1.15 (KHTML, like Gecko) Version/'' @ version_text v
             @ lit '' Safari/605.1.15'')) headers
       else headers)"

section \<open>No repetition\<close>

lemma combos_of_product:
  "combos_of p = map (\<lambda>(os, v, l). (bp_family p, os, v, l)) (List.product (bp_os_tokens p) (List.product (bp_versions p) languages_accepted))"
proof -
  have inner: "concat (map (\<lambda>v. map (\<lambda>l. (f, os, v, l)) ls) vs) = map (\<lambda>(v, l). (f, os, v, l)) (List.product vs ls)"
    for f os :: pystr and vs :: "version list" and ls :: "pystr list"
    by (induction vs) (simp_all add: comp_def)
  have "concat (map (\<lambda>os. map (\<lambda>(v, l). (f, os, v, l)) vl) os') = map (\<lambda>(os, v, l). (f, os, v, l)) (List.product os' vl)"
    for f :: pystr and os' and vl :: "(version \<times> pystr) list"
    by (induction os') (simp_all add: comp_def case_prod_unfold)
  then show ?thesis by (simp add: combos_of_def inner)
qed

lemma profiles_distinct:
  "distinct (map bp_family browser_profiles)" "distinct languages_accepted"
  "list_all (\<lambda>p. distinct (bp_os_tokens p) \<and> distinct (bp_versions p)) browser_profiles"
  by code_simp+

lemma distinct_combos_of: "p \<in> set browser_profiles \<Longrightarrow> distinct (combos_of p)"
  using profiles_distinct(2,3)
  by (auto simp: combos_of_product distinct_map list_all_iff distinct_product inj_on_def)

lemma distinct_all_combos: "distinct all_combos"
proof -
  have fam: "fst c = bp_family p" if "c \<in> set (combos_of p)" for c p
    using that by (auto simp: combos_of_product)
  have "distinct (concat (map combos_of ps))" if "set ps \<subseteq> set browser_profiles" "distinct (map bp_family ps)" for ps
    using that
  proof (induction ps)
    case (Cons p ps)
    have "set (combos_of p) \<inter> set (concat (map combos_of ps)) = {}"
      using Cons.prems(2) fam by fastforce
    with Cons show ?case by (simp add: distinct_combos_of)
  qed simp
  from this [of browser_profiles] profiles_distinct(1) show ?thesis by (simp add: all_combos_def)
qed

lemma length_all_combos: "length all_combos = 1398"
proof -
  have "length (combos_of p) = length (bp_os_tokens p) * length (bp_versions p) * length languages_accepted" for p
    by (simp add: combos_of_product)
  then show ?thesis
    by (simp add: all_combos_def length_concat comp_def browser_profiles_def languages_accepted_def windows_tokens_def
        macos_tokens_def linux_tokens_def)
qed

lemma swap_ends_facts:
  assumes "distinct xs" and "2 \<le> length xs"
  shows "mset (swap_ends xs) = mset xs" "last (swap_ends xs) \<noteq> last xs"
proof -
  from assms(2) obtain a ys where xs1: "xs = a # ys" "ys \<noteq> []" by (cases xs) (auto simp: Suc_le_eq)
  then obtain zs b where "ys = zs @ [b]" by (metis append_butlast_last_id)
  with xs1 have xs: "xs = a # zs @ [b]" by simp
  have "swap_ends xs = b # zs @ [a]" by (simp add: swap_ends_def xs)
  then show "mset (swap_ends xs) = mset xs" "last (swap_ends xs) \<noteq> last xs"
    using assms(1) by (auto simp: xs)
qed

lemma refill_facts:
  assumes "\<And>xs. mset (shuffle xs) = mset xs"
  shows "mset (refill shuffle previous) = mset all_combos" "Some (last (refill shuffle previous)) \<noteq> previous"
proof -
  have "distinct (shuffle all_combos)"
    using distinct_all_combos assms [of all_combos] by (metis mset_eq_imp_distinct_iff)
  moreover have "2 \<le> length (shuffle all_combos)"
    using length_all_combos assms [of all_combos] by (metis numeral_le_iff semiring_norm(68,71,79) size_mset)
  note swap_ends_facts [OF calculation this]
  then show "mset (refill shuffle previous) = mset all_combos" "Some (last (refill shuffle previous)) \<noteq> previous"
    using assms [of all_combos] by (auto simp: refill_def Let_def)
qed

lemma draws_bag:
  "n \<le> length (combo_bag fp) \<Longrightarrow> 0 < n \<Longrightarrow> draws shuffle i n fp =
     (take n (rev (combo_bag fp)),
      \<lparr>combo_bag = take (length (combo_bag fp) - n) (combo_bag fp),
       last_combo = Some (combo_bag fp ! (length (combo_bag fp) - n))\<rparr>)"
proof (induction n arbitrary: i fp)
  case (Suc n)
  then obtain bs b where bag: "combo_bag fp = bs @ [b]" by (cases "combo_bag fp" rule: rev_cases) auto
  then have step: "next_combo (shuffle i) fp = (b, \<lparr>combo_bag = bs, last_combo = Some b\<rparr>)"
    by (simp add: next_combo_def)
  show ?case
  proof (cases n)
    case 0
    then show ?thesis by (simp add: step bag)
  next
    case (Suc k)
    with Suc.IH [of "\<lparr>combo_bag = bs, last_combo = Some b\<rparr>" "i + 1"] Suc.prems bag step
    show ?thesis by (auto simp: nth_append)
  qed
qed simp

lemma draws_append:
  "draws shuffle i (m + n) fp =
     (case draws shuffle i m fp of (cs, fp1) \<Rightarrow> (case draws shuffle (i + m) n fp1 of (ds, fp2) \<Rightarrow> (cs @ ds, fp2)))"
  by (induction m arbitrary: i fp) (auto split: prod.splits)

lemma draws_prefix: "\<exists>ds. fst (draws shuffle i (m + n) fp) = fst (draws shuffle i m fp) @ ds"
  by (simp add: draws_append split: prod.splits)

lemma cycle_of_draws:
  assumes "\<And>i xs. mset (shuffle i xs) = mset xs" and "combo_bag fp = []"
  shows "\<exists>p fp1. draws shuffle i (length all_combos) fp = (p, fp1) \<and> mset p = mset all_combos \<and> combo_bag fp1 = []
    \<and> Some (hd p) \<noteq> last_combo fp \<and> last_combo fp1 = Some (last p)"
proof -
  let ?bag = "refill (shuffle i) (last_combo fp)" and ?n = "length all_combos"
  note bag = refill_facts [of "shuffle i" "last_combo fp", OF assms(1)]
  then have len: "length ?bag = ?n" by (metis size_mset)
  have pos: "0 < ?n" by (simp add: length_all_combos)
  then obtain m where m: "?n = Suc m" by (cases ?n) auto
  have "next_combo (shuffle i) fp = next_combo (shuffle i) (fp\<lparr>combo_bag := ?bag\<rparr>)"
    using assms(2) len pos by (auto simp: next_combo_def)
  then have "draws shuffle i ?n fp = draws shuffle i ?n (fp\<lparr>combo_bag := ?bag\<rparr>)" by (simp add: m)
  then have "draws shuffle i ?n fp = (rev ?bag, \<lparr>combo_bag = [], last_combo = Some (?bag ! 0)\<rparr>)"
    using draws_bag [of ?n "fp\<lparr>combo_bag := ?bag\<rparr>" shuffle i] len pos by simp
  moreover have "?bag \<noteq> []" using len pos by auto
  ultimately show ?thesis using bag by (auto simp: hd_rev last_rev hd_conv_nth)
qed

lemma cycles_of_draws:
  assumes "\<And>i xs. mset (shuffle i xs) = mset xs" and "combo_bag fp = []"
  shows "\<exists>ps. length ps = k \<and> fst (draws shuffle i (k * length all_combos) fp) = concat ps
    \<and> list_all (\<lambda>p. mset p = mset all_combos) ps \<and> distinct_adj (concat ps)
    \<and> (concat ps \<noteq> [] \<longrightarrow> Some (hd (concat ps)) \<noteq> last_combo fp)"
  using assms(2)
proof (induction k arbitrary: i fp)
  case (Suc k)
  let ?n = "length all_combos"
  from cycle_of_draws [where shuffle = shuffle, OF assms(1) Suc.prems] obtain p fp1 where p: "draws shuffle i ?n fp = (p, fp1)"
    "mset p = mset all_combos" "combo_bag fp1 = []" "Some (hd p) \<noteq> last_combo fp" "last_combo fp1 = Some (last p)"
    by blast
  from Suc.IH [OF p(3), of "i + ?n"] obtain ps where ps: "length ps = k"
    "fst (draws shuffle (i + ?n) (k * ?n) fp1) = concat ps" "list_all (\<lambda>p. mset p = mset all_combos) ps"
    "distinct_adj (concat ps)" "concat ps \<noteq> [] \<longrightarrow> Some (hd (concat ps)) \<noteq> last_combo fp1" by blast
  have "fst (draws shuffle i (Suc k * ?n) fp) = p @ concat ps"
    using draws_append [of shuffle i ?n "k * ?n" fp] p(1) ps(2) by (simp split: prod.splits)
  moreover have "p \<noteq> []" using p(2) length_all_combos by auto
  moreover have "distinct_adj p"
    using p(2) distinct_all_combos distinct_adj_altdef remdups_adj_distinct by (metis mset_eq_imp_distinct_iff)
  ultimately show ?case
    using ps p(2,4,5) by (intro exI [of _ "p # ps"]) (auto simp: distinct_adj_append_iff)
qed (intro exI [of _ "[]"], simp)

text \<open>C38: Fingerprints do not repeat: whatever the random shuffles, the combinations drawn from a new pool
  come in rounds, each of which uses every one of the 1398 combinations exactly once, and no two
  draws in a row are the same, across the rounds too.\<close>

theorem fingerprints_do_not_repeat:
  assumes "\<And>i xs. mset (shuffle i xs) = mset xs"
  shows "(\<exists>rounds. length rounds = k \<and> fst (draws shuffle 0 (k * 1398) fresh_fingerprints) = concat rounds
      \<and> list_all (\<lambda>r. length r = 1398 \<and> distinct r \<and> set r = set all_combos) rounds)
    \<and> distinct_adj (fst (draws shuffle 0 n fresh_fingerprints))"
proof (intro conjI)
  have fresh: "combo_bag fresh_fingerprints = []" by (simp add: fresh_fingerprints_def)
  from cycles_of_draws [where shuffle = shuffle, OF assms fresh, of k 0] obtain rounds where rounds: "length rounds = k"
    "fst (draws shuffle 0 (k * 1398) fresh_fingerprints) = concat rounds"
    "list_all (\<lambda>p. mset p = mset all_combos) rounds"
    unfolding length_all_combos by blast
  have round: "length r = 1398 \<and> distinct r \<and> set r = set all_combos" if "mset r = mset all_combos" for r
    using that distinct_all_combos length_all_combos
    by (metis mset_eq_imp_distinct_iff mset_eq_length mset_eq_setD)
  have "list_all (\<lambda>r. length r = 1398 \<and> distinct r \<and> set r = set all_combos) rounds"
    by (rule list.pred_mono_strong [OF rounds(3)]) (rule round)
  with rounds(1,2) show "\<exists>rounds. length rounds = k \<and> fst (draws shuffle 0 (k * 1398) fresh_fingerprints) = concat rounds
      \<and> list_all (\<lambda>r. length r = 1398 \<and> distinct r \<and> set r = set all_combos) rounds"
    by blast
  from cycles_of_draws [where shuffle = shuffle, OF assms fresh, of n 0] obtain ps where
    "fst (draws shuffle 0 (n * length all_combos) fresh_fingerprints) = concat ps" "distinct_adj (concat ps)" by blast
  then have adj: "distinct_adj (fst (draws shuffle 0 (n * length all_combos) fresh_fingerprints))" by simp
  have sum: "n * length all_combos = n + n * (length all_combos - 1)" by (simp add: length_all_combos)
  obtain ds where "fst (draws shuffle 0 (n + n * (length all_combos - 1)) fresh_fingerprints)
      = fst (draws shuffle 0 n fresh_fingerprints) @ ds"
    using draws_prefix by blast
  with adj show "distinct_adj (fst (draws shuffle 0 n fresh_fingerprints))"
    unfolding sum by (simp only: distinct_adj_append_iff)
qed

theorem fingerprints_do_not_repeat_witness:
  "distinct_adj (fst (draws (\<lambda>_. rev) 0 3000 fresh_fingerprints))"
  using fingerprints_do_not_repeat [of "\<lambda>_. rev"] by simp

section \<open>Headers that fit together\<close>

lemma combo_parts:
  assumes "(family, os, v, language) \<in> set all_combos"
  shows "family \<in> {lit ''chrome'', lit ''edge'', lit ''firefox'', lit ''safari''}"
    and "os \<in> set (windows_tokens @ macos_tokens @ linux_tokens)"
    and "family = lit ''safari'' \<Longrightarrow> os \<in> set macos_tokens"
    and "language \<in> set languages_accepted"
  using assms by (auto simp: all_combos_def combos_of_def browser_profiles_def)

lemma platform_of_tokens:
  "list_all (\<lambda>os. platform_of os = lit ''Windows'') windows_tokens"
  "list_all (\<lambda>os. platform_of os = lit ''macOS'') macos_tokens"
  "list_all (\<lambda>os. platform_of os = lit ''Linux'') linux_tokens"
  by code_simp+

lemma mozilla_append [simp]: "mozilla x @ y = mozilla (x @ y)"
  by (simp add: mozilla_def)

lemma mozilla_contains: "py_contains (mozilla os) (mozilla (os @ r))"
  unfolding py_contains_iff mozilla_append [symmetric] by (metis append.assoc append_Nil)

text \<open>
  The headers of a combination belong together: the language is its language, the user agent names
  its system, the client hints are those of a Chromium browser and name the platform of the system.
\<close>

lemma headers_fit_the_browser:
  assumes "(family, os, v, language) \<in> set all_combos" and "build_headers R (family, os, v, language) = H"
  shows "map_of H (lit ''Accept-Language'') = Some language"
    and "\<exists>ua. map_of H (lit ''User-Agent'') = Some ua \<and> py_contains (mozilla os) ua"
    and "map_of H (lit ''sec-ch-ua-platform'') =
      (if family = lit ''chrome'' \<or> family = lit ''edge'' then Some (quoted (platform_of os)) else None)"
  using combo_parts(1) [OF assms(1)] assms(2) mozilla_contains
  by (auto simp: build_headers_def Let_def map_of_dict_merge chromium_client_hints_def update_conv' map_add_def)

end
