(* ===== verification/Migrations.thy ===== *)
theory Migrations
  imports PyStd
begin

text \<open>
  The migrations of \<open>alembic/versions\<close> as operations on a schema, the chain their revisions form,
  and the schema the mapped classes of \<open>app/db/models.py\<close> declare. The two statements that change
  data are functions on the rows they touch.
\<close>

section \<open>Schemas\<close>

datatype col_type = T_Integer | T_String nat | T_Text | T_Boolean | T_DateTime | T_JSONB | T_Float

record column =
  col_name :: string
  col_type :: col_type
  col_nullable :: bool
  col_default :: "string option"

datatype constraint =
    Primary_key "string list"
  | Unique "string list"
  | Foreign_key string string string

record db_index =
  ix_name :: string
  ix_columns :: "string list"
  ix_unique :: bool

record db_table =
  tb_name :: string
  tb_columns :: "column list"
  tb_constraints :: "constraint list"
  tb_indexes :: "db_index list"

type_synonym schema = "db_table list"

definition find_table :: "string \<Rightarrow> schema \<Rightarrow> db_table option" where
  "find_table t s = find (\<lambda>x. tb_name x = t) s"

definition has_column :: "db_table \<Rightarrow> string \<Rightarrow> bool" where
  "has_column t c \<longleftrightarrow> c \<in> set (map col_name (tb_columns t))"

text \<open>A foreign key of a table refers to a column there is.\<close>

fun constraint_ok :: "schema \<Rightarrow> db_table \<Rightarrow> constraint \<Rightarrow> bool" where
  "constraint_ok s t (Primary_key cs) = list_all (has_column t) cs"
| "constraint_ok s t (Unique cs) = list_all (has_column t) cs"
| "constraint_ok s t (Foreign_key c rt rc) =
     (has_column t c \<and> (case find_table rt (t # s) of None \<Rightarrow> False | Some r \<Rightarrow> has_column r rc))"

fun refers_to :: "string \<Rightarrow> constraint \<Rightarrow> bool" where
  "refers_to t (Foreign_key c rt rc) = (rt = t)"
| "refers_to t _ = False"

fun uses_column :: "string \<Rightarrow> constraint \<Rightarrow> bool" where
  "uses_column c (Primary_key cs) = (c \<in> set cs)"
| "uses_column c (Unique cs) = (c \<in> set cs)"
| "uses_column c (Foreign_key c' rt rc) = (c = c')"

section \<open>Operations\<close>

text \<open>The statements on the rows of \<open>match_scores\<close> the migrations hand to \<open>op.execute\<close>.\<close>

datatype score_statement = Grade_to_percent | Percent_to_grade | Delete_older_scores

text \<open>\<open>alembic.op\<close>. A statement the database refuses gives \<open>None\<close>; \<open>op.execute\<close> changes no table.\<close>

datatype migration_op =
    Create_table db_table
  | Drop_table string
  | Add_column string column
  | Drop_column string string
  | Alter_type string string col_type
  | Alter_nullable string string bool
  | Create_index string db_index
  | Drop_index string string
  | Execute score_statement

definition change_table :: "string \<Rightarrow> (db_table \<Rightarrow> db_table option) \<Rightarrow> schema \<Rightarrow> schema option" where
  "change_table t f s =
     (case find_table t s of
        None \<Rightarrow> None
      | Some x \<Rightarrow> map_option (\<lambda>y. map (\<lambda>z. if tb_name z = t then y else z) s) (f x))"

definition change_column :: "string \<Rightarrow> (column \<Rightarrow> column) \<Rightarrow> db_table \<Rightarrow> db_table option" where
  "change_column c f t =
     (if has_column t c
      then Some (t\<lparr>tb_columns := map (\<lambda>x. if col_name x = c then f x else x) (tb_columns t)\<rparr>) else None)"

definition index_names :: "schema \<Rightarrow> string list" where
  "index_names s = concat (map (map ix_name \<circ> tb_indexes) s)"

fun apply_op :: "migration_op \<Rightarrow> schema \<Rightarrow> schema option" where
  "apply_op (Create_table t) s =
     (if find_table (tb_name t) s = None \<and> distinct (map col_name (tb_columns t))
       \<and> list_all (constraint_ok s t) (tb_constraints t)
      then Some (s @ [t]) else None)"
| "apply_op (Drop_table t) s =
     (if find_table t s \<noteq> None
       \<and> list_all (\<lambda>x. tb_name x = t \<or> \<not> list_ex (refers_to t) (tb_constraints x)) s
      then Some (filter (\<lambda>x. tb_name x \<noteq> t) s) else None)"
| "apply_op (Add_column t c) s =
     change_table t (\<lambda>x. if has_column x (col_name c) then None
       else Some (x\<lparr>tb_columns := tb_columns x @ [c]\<rparr>)) s"
| "apply_op (Drop_column t c) s =
     change_table t (\<lambda>x. if has_column x c
       then Some (x\<lparr>tb_columns := filter (\<lambda>y. col_name y \<noteq> c) (tb_columns x),
         tb_constraints := filter (\<lambda>k. \<not> uses_column c k) (tb_constraints x),
         tb_indexes := filter (\<lambda>i. c \<notin> set (ix_columns i)) (tb_indexes x)\<rparr>)
       else None) s"
| "apply_op (Alter_type t c ty) s = change_table t (change_column c (\<lambda>x. x\<lparr>col_type := ty\<rparr>)) s"
| "apply_op (Alter_nullable t c b) s = change_table t (change_column c (\<lambda>x. x\<lparr>col_nullable := b\<rparr>)) s"
| "apply_op (Create_index t i) s =
     (if ix_name i \<in> set (index_names s) then None
      else change_table t (\<lambda>x. if list_all (has_column x) (ix_columns i)
        then Some (x\<lparr>tb_indexes := tb_indexes x @ [i]\<rparr>) else None) s)"
| "apply_op (Drop_index n t) s =
     change_table t (\<lambda>x. if n \<in> set (map ix_name (tb_indexes x))
       then Some (x\<lparr>tb_indexes := filter (\<lambda>i. ix_name i \<noteq> n) (tb_indexes x)\<rparr>) else None) s"
| "apply_op (Execute q) s = Some s"

fun apply_ops :: "migration_op list \<Rightarrow> schema \<Rightarrow> schema option" where
  "apply_ops [] s = Some s"
| "apply_ops (m # ms) s = (case apply_op m s of None \<Rightarrow> None | Some s1 \<Rightarrow> apply_ops ms s1)"

text \<open>Schemas with the same tables, the order of tables, columns and constraints aside.\<close>

definition same_items :: "'a list \<Rightarrow> 'a list \<Rightarrow> bool" where
  "same_items xs ys \<longleftrightarrow>
     xs = ys \<or> (length xs = length ys \<and> list_all (\<lambda>x. x \<in> set ys) xs \<and> list_all (\<lambda>y. y \<in> set xs) ys)"

definition same_table :: "db_table \<Rightarrow> db_table \<Rightarrow> bool" where
  "same_table t u \<longleftrightarrow> tb_name t = tb_name u \<and> same_items (tb_columns t) (tb_columns u)
     \<and> same_items (tb_constraints t) (tb_constraints u) \<and> same_items (tb_indexes t) (tb_indexes u)"

definition same_schema :: "schema \<Rightarrow> schema \<Rightarrow> bool" where
  "same_schema s u \<longleftrightarrow> length s = length u \<and> list_all (\<lambda>t. list_ex (same_table t) u) s
     \<and> list_all (\<lambda>t. list_ex (same_table t) s) u"

section \<open>The migrations\<close>

abbreviation col :: "string \<Rightarrow> col_type \<Rightarrow> bool \<Rightarrow> string option \<Rightarrow> column" where
  "col n t nullable d \<equiv> \<lparr>col_name = n, col_type = t, col_nullable = nullable, col_default = d\<rparr>"

abbreviation plain_table :: "string \<Rightarrow> column list \<Rightarrow> constraint list \<Rightarrow> db_table" where
  "plain_table n cs ks \<equiv> \<lparr>tb_name = n, tb_columns = cs, tb_constraints = ks, tb_indexes = []\<rparr>"

abbreviation index_on :: "string \<Rightarrow> string list \<Rightarrow> bool \<Rightarrow> db_index" where
  "index_on n cs u \<equiv> \<lparr>ix_name = n, ix_columns = cs, ix_unique = u\<rparr>"

definition v1_upgrade :: "migration_op list" where
  "v1_upgrade =
     [Create_table (plain_table ''profiles''
        [col ''id'' T_Integer False None, col ''name'' (T_String 100) False None,
         col ''status'' (T_String 20) False (Some ''draft''), col ''is_active'' T_Boolean False (Some ''false''),
         col ''data'' T_JSONB False (Some ''{}''), col ''created_at'' T_DateTime False (Some ''now()''),
         col ''updated_at'' T_DateTime False (Some ''now()'')]
        [Primary_key [''id''], Unique [''name'']]),
      Create_table (plain_table ''sources''
        [col ''id'' T_Integer False None, col ''name'' (T_String 100) False None,
         col ''config_json'' T_JSONB False (Some ''{}''), col ''created_at'' T_DateTime False (Some ''now()''),
         col ''updated_at'' T_DateTime False (Some ''now()'')]
        [Primary_key [''id''], Unique [''name'']]),
      Create_table (plain_table ''offers''
        [col ''id'' T_Integer False None, col ''source_id'' T_Integer False None,
         col ''external_id'' (T_String 255) True None, col ''canonical_url'' T_Text False None,
         col ''dedup_hash'' (T_String 64) False None, col ''title'' (T_String 500) False None,
         col ''company'' (T_String 255) False None, col ''location'' (T_String 255) True None,
         col ''remote'' T_Boolean False (Some ''false''), col ''seniority'' (T_String 50) True None,
         col ''salary_min'' T_Integer True None, col ''salary_max'' T_Integer True None,
         col ''salary_currency'' (T_String 3) True (Some ''PLN''), col ''contract_type'' (T_String 50) True None,
         col ''posted_at'' T_DateTime True None, col ''raw_payload'' T_JSONB False None,
         col ''created_at'' T_DateTime False (Some ''now()''), col ''updated_at'' T_DateTime False (Some ''now()'')]
        [Foreign_key ''source_id'' ''sources'' ''id'', Primary_key [''id'']]),
      Create_index ''offers'' (index_on ''ix_offers_dedup_hash'' [''dedup_hash''] True),
      Create_index ''offers'' (index_on ''ix_offers_source_id'' [''source_id''] False),
      Create_table (plain_table ''cv_versions''
        [col ''id'' T_Integer False None, col ''offer_id'' T_Integer False None, col ''profile_id'' T_Integer False None,
         col ''cv_markdown'' T_Text False None, col ''cover_letter_markdown'' T_Text True None,
         col ''tone'' (T_String 50) True None, col ''status'' (T_String 20) False (Some ''drafted''),
         col ''created_at'' T_DateTime False (Some ''now()'')]
        [Foreign_key ''offer_id'' ''offers'' ''id'', Foreign_key ''profile_id'' ''profiles'' ''id'', Primary_key [''id'']]),
      Create_index ''cv_versions'' (index_on ''ix_cv_versions_offer_id_profile_id'' [''offer_id'', ''profile_id''] False),
      Create_table (plain_table ''match_scores''
        [col ''id'' T_Integer False None, col ''offer_id'' T_Integer False None, col ''profile_id'' T_Integer False None,
         col ''engine'' (T_String 20) False None, col ''grade'' (T_String 1) False None,
         col ''dimensions'' T_JSONB False None, col ''rationale'' T_Text True None,
         col ''created_at'' T_DateTime False (Some ''now()'')]
        [Foreign_key ''offer_id'' ''offers'' ''id'', Foreign_key ''profile_id'' ''profiles'' ''id'', Primary_key [''id'']]),
      Create_index ''match_scores'' (index_on ''ix_match_scores_offer_id_profile_id'' [''offer_id'', ''profile_id''] False),
      Create_table (plain_table ''applications''
        [col ''id'' T_Integer False None, col ''offer_id'' T_Integer False None, col ''profile_id'' T_Integer False None,
         col ''cv_version_id'' T_Integer True None, col ''status'' (T_String 20) False (Some ''drafted''),
         col ''send_method'' (T_String 20) True None, col ''error_message'' T_Text True None,
         col ''sent_at'' T_DateTime True None, col ''created_at'' T_DateTime False (Some ''now()''),
         col ''updated_at'' T_DateTime False (Some ''now()'')]
        [Foreign_key ''cv_version_id'' ''cv_versions'' ''id'', Foreign_key ''offer_id'' ''offers'' ''id'',
         Foreign_key ''profile_id'' ''profiles'' ''id'', Primary_key [''id'']])]"

definition v1_downgrade :: "migration_op list" where
  "v1_downgrade =
     [Drop_table ''applications'', Drop_index ''ix_match_scores_offer_id_profile_id'' ''match_scores'',
      Drop_table ''match_scores'', Drop_index ''ix_cv_versions_offer_id_profile_id'' ''cv_versions'',
      Drop_table ''cv_versions'', Drop_index ''ix_offers_source_id'' ''offers'',
      Drop_index ''ix_offers_dedup_hash'' ''offers'', Drop_table ''offers'', Drop_table ''sources'', Drop_table ''profiles'']"

definition description_upgrade :: "migration_op list" where
  "description_upgrade =
     [Add_column ''offers'' (col ''description'' T_Text True None), Alter_nullable ''offers'' ''canonical_url'' True]"

definition description_downgrade :: "migration_op list" where
  "description_downgrade =
     [Alter_nullable ''offers'' ''canonical_url'' False, Drop_column ''offers'' ''description'']"

definition scheduler_runs_upgrade :: "migration_op list" where
  "scheduler_runs_upgrade =
     [Add_column ''sources'' (col ''connector'' (T_String 50) True None),
      Create_table (plain_table ''scheduler_runs''
        [col ''id'' T_Integer False None, col ''source_id'' T_Integer False None,
         col ''trigger_type'' (T_String 20) False None, col ''status'' (T_String 20) False (Some ''running''),
         col ''fetched_count'' T_Integer True None, col ''created_count'' T_Integer True None,
         col ''warning'' T_Boolean False (Some ''false''), col ''error_message'' T_Text True None,
         col ''started_at'' T_DateTime False (Some ''now()''), col ''finished_at'' T_DateTime True None]
        [Foreign_key ''source_id'' ''sources'' ''id'', Primary_key [''id'']]),
      Create_index ''scheduler_runs''
        (index_on ''ix_scheduler_runs_source_id_started_at'' [''source_id'', ''started_at''] False)]"

definition scheduler_runs_downgrade :: "migration_op list" where
  "scheduler_runs_downgrade =
     [Drop_index ''ix_scheduler_runs_source_id_started_at'' ''scheduler_runs'', Drop_table ''scheduler_runs'',
      Drop_column ''sources'' ''connector'']"

definition last_fetched_upgrade :: "migration_op list" where
  "last_fetched_upgrade = [Add_column ''sources'' (col ''last_fetched_at'' T_DateTime True None)]"

definition last_fetched_downgrade :: "migration_op list" where
  "last_fetched_downgrade = [Drop_column ''sources'' ''last_fetched_at'']"

definition industry_tags_upgrade :: "migration_op list" where
  "industry_tags_upgrade = [Add_column ''offers'' (col ''industry_tags'' T_JSONB False (Some ''[]''))]"

definition industry_tags_downgrade :: "migration_op list" where
  "industry_tags_downgrade = [Drop_column ''offers'' ''industry_tags'']"

definition scoring_config_upgrade :: "migration_op list" where
  "scoring_config_upgrade =
     [Create_table (plain_table ''scoring_config''
        [col ''id'' T_Integer False None, col ''grade_a'' T_Float False (Some ''0.85''),
         col ''grade_b'' T_Float False (Some ''0.70''), col ''grade_c'' T_Float False (Some ''0.55''),
         col ''grade_d'' T_Float False (Some ''0.40''), col ''created_at'' T_DateTime False (Some ''now()''),
         col ''updated_at'' T_DateTime False (Some ''now()'')]
        [Primary_key [''id'']])]"

definition scoring_config_downgrade :: "migration_op list" where
  "scoring_config_downgrade = [Drop_table ''scoring_config'']"

definition score_percent_upgrade :: "migration_op list" where
  "score_percent_upgrade =
     [Add_column ''match_scores'' (col ''score_percent'' T_Integer True None), Execute Grade_to_percent,
      Alter_nullable ''match_scores'' ''score_percent'' False, Drop_column ''match_scores'' ''grade'']"

definition score_percent_downgrade :: "migration_op list" where
  "score_percent_downgrade =
     [Add_column ''match_scores'' (col ''grade'' (T_String 1) True None), Execute Percent_to_grade,
      Alter_nullable ''match_scores'' ''grade'' False, Drop_column ''match_scores'' ''score_percent'']"

definition drop_config_upgrade :: "migration_op list" where
  "drop_config_upgrade = [Drop_table ''scoring_config'']"

definition drop_config_downgrade :: "migration_op list" where
  "drop_config_downgrade =
     [Create_table (plain_table ''scoring_config''
        [col ''id'' T_Integer False None, col ''grade_a'' T_Float False (Some ''0.85''),
         col ''grade_b'' T_Float False (Some ''0.70''), col ''grade_c'' T_Float False (Some ''0.55''),
         col ''grade_d'' T_Float False (Some ''0.40''), col ''created_at'' T_DateTime False (Some ''now()''),
         col ''updated_at'' T_DateTime False (Some ''now()'')]
        [Primary_key [''id'']])]"

definition unique_scores_upgrade :: "migration_op list" where
  "unique_scores_upgrade = [Execute Delete_older_scores]"

definition unique_scores_downgrade :: "migration_op list" where
  "unique_scores_downgrade = []"

definition hide_notes_upgrade :: "migration_op list" where
  "hide_notes_upgrade =
     [Add_column ''offers'' (col ''applied'' T_Boolean False (Some ''false'')),
      Add_column ''offers'' (col ''hide'' T_Boolean False (Some ''false'')),
      Add_column ''offers'' (col ''notes'' T_Text True None)]"

definition hide_notes_downgrade :: "migration_op list" where
  "hide_notes_downgrade =
     [Drop_column ''offers'' ''notes'', Drop_column ''offers'' ''hide'', Drop_column ''offers'' ''applied'']"

definition dead_letter_upgrade :: "migration_op list" where
  "dead_letter_upgrade =
     [Create_table (plain_table ''ingestion_failures''
        [col ''id'' T_Integer False None, col ''dedup_key'' (T_String 255) False None,
         col ''failure_type'' (T_String 30) False None, col ''error_message'' T_Text False None,
         col ''raw_payload'' T_JSONB True None, col ''status'' (T_String 20) False (Some ''open''),
         col ''occurred_at'' T_DateTime False (Some ''now()''), col ''resolved_at'' T_DateTime True None,
         col ''source_id'' T_Integer False None, col ''scheduler_run_id'' T_Integer True None,
         col ''page'' T_Integer True None]
        [Foreign_key ''source_id'' ''sources'' ''id'', Foreign_key ''scheduler_run_id'' ''scheduler_runs'' ''id'',
         Primary_key [''id''], Unique [''dedup_key'']]),
      Create_index ''ingestion_failures''
        (index_on ''ix_ingestion_failures_source_id_occurred_at'' [''source_id'', ''occurred_at''] False),
      Create_table (plain_table ''scoring_failures''
        [col ''id'' T_Integer False None, col ''dedup_key'' (T_String 255) False None,
         col ''failure_type'' (T_String 30) False None, col ''error_message'' T_Text False None,
         col ''raw_payload'' T_JSONB True None, col ''status'' (T_String 20) False (Some ''open''),
         col ''occurred_at'' T_DateTime False (Some ''now()''), col ''resolved_at'' T_DateTime True None,
         col ''offer_id'' T_Integer False None, col ''profile_id'' T_Integer False None]
        [Foreign_key ''offer_id'' ''offers'' ''id'', Foreign_key ''profile_id'' ''profiles'' ''id'',
         Primary_key [''id''], Unique [''dedup_key'']]),
      Create_index ''scoring_failures''
        (index_on ''ix_scoring_failures_offer_id_occurred_at'' [''offer_id'', ''occurred_at''] False)]"

definition dead_letter_downgrade :: "migration_op list" where
  "dead_letter_downgrade =
     [Drop_index ''ix_scoring_failures_offer_id_occurred_at'' ''scoring_failures'', Drop_table ''scoring_failures'',
      Drop_index ''ix_ingestion_failures_source_id_occurred_at'' ''ingestion_failures'',
      Drop_table ''ingestion_failures'']"

definition link_opened_upgrade :: "migration_op list" where
  "link_opened_upgrade = [Add_column ''offers'' (col ''link_opened_at'' T_DateTime True None)]"

definition link_opened_downgrade :: "migration_op list" where
  "link_opened_downgrade = [Drop_column ''offers'' ''link_opened_at'']"

definition location_upgrade :: "migration_op list" where
  "location_upgrade = [Alter_type ''offers'' ''location'' T_Text]"

definition location_downgrade :: "migration_op list" where
  "location_downgrade = [Alter_type ''offers'' ''location'' (T_String 255)]"

definition blocked_dlq_upgrade :: "migration_op list" where
  "blocked_dlq_upgrade =
     [Add_column ''ingestion_failures'' (col ''url'' T_Text True None),
      Add_column ''ingestion_failures'' (col ''blocked_status'' T_Integer True None),
      Add_column ''ingestion_failures'' (col ''retry_count'' T_Integer False (Some ''0'')),
      Create_index ''ingestion_failures''
        (index_on ''ix_ingestion_failures_status_blocked_status'' [''status'', ''blocked_status''] False)]"

definition blocked_dlq_downgrade :: "migration_op list" where
  "blocked_dlq_downgrade =
     [Drop_index ''ix_ingestion_failures_status_blocked_status'' ''ingestion_failures'',
      Drop_column ''ingestion_failures'' ''retry_count'', Drop_column ''ingestion_failures'' ''blocked_status'',
      Drop_column ''ingestion_failures'' ''url'']"

text \<open>The files of the directory, in the order of their names, and the chain their links give.\<close>

record migration =
  revision :: string
  down_revision :: "string option"
  upgrade :: "migration_op list"
  downgrade :: "migration_op list"

abbreviation mig :: "string \<Rightarrow> string option \<Rightarrow> migration_op list \<Rightarrow> migration_op list \<Rightarrow> migration" where
  "mig r d u w \<equiv> \<lparr>revision = r, down_revision = d, upgrade = u, downgrade = w\<rparr>"

definition versions :: "migration list" where
  "versions =
     [mig ''12bc4e296410'' (Some ''aa3fa339111b'') scheduler_runs_upgrade scheduler_runs_downgrade,
      mig ''134e4fa8b06d'' (Some ''ae9db2ab1e4a'') unique_scores_upgrade unique_scores_downgrade,
      mig ''306f60011cef'' (Some ''95644bfde2a0'') location_upgrade location_downgrade,
      mig ''4798e6262fcd'' (Some ''12bc4e296410'') last_fetched_upgrade last_fetched_downgrade,
      mig ''4d99f6acbb29'' (Some ''4798e6262fcd'') industry_tags_upgrade industry_tags_downgrade,
      mig ''7130773ba67b'' (Some ''bef7908f5330'') dead_letter_upgrade dead_letter_downgrade,
      mig ''8e2c1a6f9d3b'' (Some ''4d99f6acbb29'') scoring_config_upgrade scoring_config_downgrade,
      mig ''95644bfde2a0'' (Some ''7130773ba67b'') link_opened_upgrade link_opened_downgrade,
      mig ''a1c2d4e6f8b0'' (Some ''306f60011cef'') blocked_dlq_upgrade blocked_dlq_downgrade,
      mig ''aa3fa339111b'' (Some ''df5297add8cb'') description_upgrade description_downgrade,
      mig ''ae533f38f5b2'' (Some ''8e2c1a6f9d3b'') score_percent_upgrade score_percent_downgrade,
      mig ''ae9db2ab1e4a'' (Some ''ae533f38f5b2'') drop_config_upgrade drop_config_downgrade,
      mig ''bef7908f5330'' (Some ''134e4fa8b06d'') hide_notes_upgrade hide_notes_downgrade,
      mig ''df5297add8cb'' None v1_upgrade v1_downgrade]"

text \<open>
  \<open>alembic upgrade head\<close> walks from the revision that has none below it to the one nothing is above;
  the fuel is the number of files. \<open>alembic downgrade base\<close> walks back.
\<close>

fun chain :: "nat \<Rightarrow> string option \<Rightarrow> migration list \<Rightarrow> migration list" where
  "chain 0 r ms = []"
| "chain (Suc n) r ms =
     (case find (\<lambda>m. down_revision m = r) ms of None \<Rightarrow> [] | Some m \<Rightarrow> m # chain n (Some (revision m)) ms)"

definition revision_chain :: "migration list" where
  "revision_chain = chain (length versions) None versions"

definition upgrade_head :: "schema \<Rightarrow> schema option" where
  "upgrade_head s = apply_ops (concat (map upgrade revision_chain)) s"

definition downgrade_base :: "schema \<Rightarrow> schema option" where
  "downgrade_base s = apply_ops (concat (map downgrade (rev revision_chain))) s"

text \<open>Every downgrade along a chain brings back the schema its upgrade was given.\<close>

fun downgrades_undo :: "migration list \<Rightarrow> schema \<Rightarrow> bool" where
  "downgrades_undo [] s = True"
| "downgrades_undo (m # ms) s =
     (case apply_ops (upgrade m) s of
        None \<Rightarrow> False
      | Some s1 \<Rightarrow>
          (case apply_ops (downgrade m) s1 of None \<Rightarrow> False | Some s0 \<Rightarrow> same_schema s0 s)
          \<and> downgrades_undo ms s1)"

section \<open>The schema of the mapped classes\<close>

text \<open>
  A \<open>mapped_column\<close> with its options, and the table SQLAlchemy makes of a class: a unique column that
  is indexed gets a unique index, one that is not a constraint.
\<close>

record mapped_column = column +
  mc_primary_key :: bool
  mc_unique :: bool
  mc_index :: bool
  mc_foreign_key :: "(string \<times> string) option"

abbreviation mc :: "string \<Rightarrow> col_type \<Rightarrow> bool \<Rightarrow> string option \<Rightarrow> mapped_column" where
  "mc n t nullable d \<equiv> \<lparr>col_name = n, col_type = t, col_nullable = nullable, col_default = d,
     mc_primary_key = False, mc_unique = False, mc_index = False, mc_foreign_key = None\<rparr>"

abbreviation mc_id :: mapped_column where
  "mc_id \<equiv> (mc ''id'' T_Integer False None)\<lparr>mc_primary_key := True\<rparr>"

abbreviation mc_ref :: "string \<Rightarrow> string \<Rightarrow> bool \<Rightarrow> mapped_column" where
  "mc_ref n t nullable \<equiv> (mc n T_Integer nullable None)\<lparr>mc_foreign_key := Some (t, ''id'')\<rparr>"

definition class_constraints :: "mapped_column list \<Rightarrow> constraint list" where
  "class_constraints cs =
     Primary_key (map col_name (filter mc_primary_key cs))
     # map (\<lambda>c. Unique [col_name c]) (filter (\<lambda>c. mc_unique c \<and> \<not> mc_index c) cs)
     @ List.map_filter (\<lambda>c. map_option (\<lambda>(t, r). Foreign_key (col_name c) t r) (mc_foreign_key c)) cs"

definition class_indexes :: "string \<Rightarrow> mapped_column list \<Rightarrow> db_index list" where
  "class_indexes t cs =
     map (\<lambda>c. index_on (''ix_'' @ t @ ''_'' @ col_name c) [col_name c] (mc_unique c)) (filter mc_index cs)"

definition class_table :: "string \<Rightarrow> db_index list \<Rightarrow> mapped_column list \<Rightarrow> db_table" where
  "class_table t ixs cs =
     \<lparr>tb_name = t, tb_columns = map column.truncate cs, tb_constraints = class_constraints cs,
      tb_indexes = ixs @ class_indexes t cs\<rparr>"
abbreviation mc_created :: mapped_column where "mc_created \<equiv> mc ''created_at'' T_DateTime False (Some ''now()'')"
abbreviation mc_updated :: mapped_column where "mc_updated \<equiv> mc ''updated_at'' T_DateTime False (Some ''now()'')"

definition Source_table :: db_table where
  "Source_table = class_table ''sources'' []
     [mc_id, (mc ''name'' (T_String 100) False None)\<lparr>mc_unique := True\<rparr>, mc ''connector'' (T_String 50) True None,
      mc ''config_json'' T_JSONB False (Some ''{}''), mc ''last_fetched_at'' T_DateTime True None,
      mc_created, mc_updated]"

definition Offer_table :: db_table where
  "Offer_table = class_table ''offers'' [index_on ''ix_offers_source_id'' [''source_id''] False]
     [mc_id, mc_ref ''source_id'' ''sources'' False, mc ''external_id'' (T_String 255) True None,
      mc ''canonical_url'' T_Text True None,
      (mc ''dedup_hash'' (T_String 64) False None)\<lparr>mc_unique := True, mc_index := True\<rparr>,
      mc ''title'' (T_String 500) False None, mc ''company'' (T_String 255) False None,
      mc ''location'' T_Text True None, mc ''remote'' T_Boolean False (Some ''false''),
      mc ''seniority'' (T_String 50) True None, mc ''salary_min'' T_Integer True None,
      mc ''salary_max'' T_Integer True None, mc ''salary_currency'' (T_String 3) True (Some ''PLN''),
      mc ''contract_type'' (T_String 50) True None, mc ''description'' T_Text True None,
      mc ''posted_at'' T_DateTime True None, mc ''industry_tags'' T_JSONB False (Some ''[]''),
      mc ''applied'' T_Boolean False (Some ''false''), mc ''hide'' T_Boolean False (Some ''false''),
      mc ''notes'' T_Text True None, mc ''link_opened_at'' T_DateTime True None,
      mc ''raw_payload'' T_JSONB False None, mc_created, mc_updated]"

definition Profile_table :: db_table where
  "Profile_table = class_table ''profiles'' []
     [mc_id, (mc ''name'' (T_String 100) False None)\<lparr>mc_unique := True\<rparr>,
      mc ''status'' (T_String 20) False (Some ''draft''), mc ''is_active'' T_Boolean False (Some ''false''),
      mc ''data'' T_JSONB False (Some ''{}''), mc_created, mc_updated]"

definition CVVersion_table :: db_table where
  "CVVersion_table = class_table ''cv_versions''
     [index_on ''ix_cv_versions_offer_id_profile_id'' [''offer_id'', ''profile_id''] False]
     [mc_id, mc_ref ''offer_id'' ''offers'' False, mc_ref ''profile_id'' ''profiles'' False,
      mc ''cv_markdown'' T_Text False None, mc ''cover_letter_markdown'' T_Text True None,
      mc ''tone'' (T_String 50) True None, mc ''status'' (T_String 20) False (Some ''drafted''), mc_created]"

definition MatchScore_table :: db_table where
  "MatchScore_table = class_table ''match_scores''
     [index_on ''ix_match_scores_offer_id_profile_id'' [''offer_id'', ''profile_id''] False]
     [mc_id, mc_ref ''offer_id'' ''offers'' False, mc_ref ''profile_id'' ''profiles'' False,
      mc ''engine'' (T_String 20) False None, mc ''score_percent'' T_Integer False None,
      mc ''dimensions'' T_JSONB False None, mc ''rationale'' T_Text True None, mc_created]"

definition Application_table :: db_table where
  "Application_table = class_table ''applications'' []
     [mc_id, mc_ref ''offer_id'' ''offers'' False, mc_ref ''profile_id'' ''profiles'' False,
      mc_ref ''cv_version_id'' ''cv_versions'' True, mc ''status'' (T_String 20) False (Some ''drafted''),
      mc ''send_method'' (T_String 20) True None, mc ''error_message'' T_Text True None,
      mc ''sent_at'' T_DateTime True None, mc_created, mc_updated]"

definition SchedulerRun_table :: db_table where
  "SchedulerRun_table = class_table ''scheduler_runs''
     [index_on ''ix_scheduler_runs_source_id_started_at'' [''source_id'', ''started_at''] False]
     [mc_id, mc_ref ''source_id'' ''sources'' False, mc ''trigger_type'' (T_String 20) False None,
      mc ''status'' (T_String 20) False (Some ''running''), mc ''fetched_count'' T_Integer True None,
      mc ''created_count'' T_Integer True None, mc ''warning'' T_Boolean False (Some ''false''),
      mc ''error_message'' T_Text True None, mc ''started_at'' T_DateTime False (Some ''now()''),
      mc ''finished_at'' T_DateTime True None]"

definition DeadLetterMixin_columns :: "mapped_column list" where
  "DeadLetterMixin_columns =
     [mc_id, (mc ''dedup_key'' (T_String 255) False None)\<lparr>mc_unique := True\<rparr>,
      mc ''failure_type'' (T_String 30) False None, mc ''error_message'' T_Text False None,
      mc ''raw_payload'' T_JSONB True None, mc ''status'' (T_String 20) False (Some ''open''),
      mc ''occurred_at'' T_DateTime False (Some ''now()''), mc ''resolved_at'' T_DateTime True None]"

definition IngestionFailure_table :: db_table where
  "IngestionFailure_table = class_table ''ingestion_failures''
     [index_on ''ix_ingestion_failures_source_id_occurred_at'' [''source_id'', ''occurred_at''] False,
      index_on ''ix_ingestion_failures_status_blocked_status'' [''status'', ''blocked_status''] False]
     (DeadLetterMixin_columns @
      [mc_ref ''source_id'' ''sources'' False, mc_ref ''scheduler_run_id'' ''scheduler_runs'' True,
       mc ''page'' T_Integer True None, mc ''url'' T_Text True None,
       mc ''blocked_status'' T_Integer True None, mc ''retry_count'' T_Integer False (Some ''0'')])"

definition ScoringFailure_table :: db_table where
  "ScoringFailure_table = class_table ''scoring_failures''
     [index_on ''ix_scoring_failures_offer_id_occurred_at'' [''offer_id'', ''occurred_at''] False]
     (DeadLetterMixin_columns @ [mc_ref ''offer_id'' ''offers'' False, mc_ref ''profile_id'' ''profiles'' False])"

definition models_schema :: schema where
  "models_schema =
     [Source_table, Offer_table, Profile_table, CVVersion_table, MatchScore_table, Application_table,
      SchedulerRun_table, IngestionFailure_table, ScoringFailure_table]"

section \<open>The rows the migrations change\<close>

record score_row =
  row_id :: int
  row_offer :: int
  row_profile :: int
  row_grade :: "string option"
  row_percent :: "int option"

definition grade_to_percent :: "string option \<Rightarrow> int" where
  "grade_to_percent g =
     (if g = Some ''A'' then 92 else if g = Some ''B'' then 77 else if g = Some ''C'' then 62
      else if g = Some ''D'' then 47 else 20)"

definition percent_to_grade :: "int option \<Rightarrow> string" where
  "percent_to_grade p =
     (case p of None \<Rightarrow> ''F''
      | Some n \<Rightarrow> if n \<ge> 85 then ''A'' else if n \<ge> 70 then ''B'' else if n \<ge> 55 then ''C''
          else if n \<ge> 40 then ''D'' else ''F'')"

definition superseded :: "score_row list \<Rightarrow> score_row \<Rightarrow> bool" where
  "superseded rows a \<longleftrightarrow>
     list_ex (\<lambda>b. row_offer a = row_offer b \<and> row_profile a = row_profile b \<and> row_id a < row_id b) rows"

fun run_statement :: "score_statement \<Rightarrow> score_row list \<Rightarrow> score_row list" where
  "run_statement Grade_to_percent rows = map (\<lambda>r. r\<lparr>row_percent := Some (grade_to_percent (row_grade r))\<rparr>) rows"
| "run_statement Percent_to_grade rows = map (\<lambda>r. r\<lparr>row_grade := Some (percent_to_grade (row_percent r))\<rparr>) rows"
| "run_statement Delete_older_scores rows = filter (\<lambda>r. \<not> superseded rows r) rows"

text \<open>
  What the statements and the added and dropped columns of one migration do to the rows: a column that is
  added is empty, one that is dropped loses its values.
\<close>

fun run_rows :: "migration_op \<Rightarrow> score_row list \<Rightarrow> score_row list" where
  "run_rows (Execute q) rows = run_statement q rows"
| "run_rows (Add_column t c) rows =
     (if t = ''match_scores'' \<and> col_name c = ''grade'' then map (\<lambda>r. r\<lparr>row_grade := None\<rparr>) rows
      else if t = ''match_scores'' \<and> col_name c = ''score_percent'' then map (\<lambda>r. r\<lparr>row_percent := None\<rparr>) rows
      else rows)"
| "run_rows (Drop_column t c) rows =
     (if t = ''match_scores'' \<and> c = ''grade'' then map (\<lambda>r. r\<lparr>row_grade := None\<rparr>) rows
      else if t = ''match_scores'' \<and> c = ''score_percent'' then map (\<lambda>r. r\<lparr>row_percent := None\<rparr>) rows
      else rows)"
| "run_rows _ rows = rows"

definition migrate_rows :: "migration_op list \<Rightarrow> score_row list \<Rightarrow> score_row list" where
  "migrate_rows ms rows = fold run_rows ms rows"

section \<open>Theorems\<close>

lemma equal_list_stepwise [code]:
  "HOL.equal ((x :: 'a :: equal) # xs) (y # ys) \<longleftrightarrow> (if HOL.equal x y then HOL.equal xs ys else False)"
  "HOL.equal [] (y # ys) = False" "HOL.equal (x # xs) [] = False" "HOL.equal ([] :: 'a list) [] = True"
  by (simp_all add: equal_eq)

lemma equal_char_stepwise [code]:
  "HOL.equal (Char a0 a1 a2 a3 a4 a5 a6 a7) (Char b0 b1 b2 b3 b4 b5 b6 b7) \<longleftrightarrow>
     (if a0 = b0 then if a1 = b1 then if a2 = b2 then if a3 = b3 then if a4 = b4 then
        if a5 = b5 then if a6 = b6 then a7 = b7 else False else False else False else False
        else False else False else False)"
  by (simp add: equal_eq)



lemma revision_chain_covers:
  "map revision revision_chain =
     [''df5297add8cb'', ''aa3fa339111b'', ''12bc4e296410'', ''4798e6262fcd'', ''4d99f6acbb29'', ''8e2c1a6f9d3b'',
      ''ae533f38f5b2'', ''ae9db2ab1e4a'', ''134e4fa8b06d'', ''bef7908f5330'', ''7130773ba67b'', ''95644bfde2a0'',
      ''306f60011cef'', ''a1c2d4e6f8b0'']"
  by code_simp

lemma upgrade_head_builds:
  "(case upgrade_head [] of None \<Rightarrow> False | Some s \<Rightarrow> same_schema s models_schema)"
  by code_simp

lemma downgrade_base_clears:
  "(case upgrade_head [] of None \<Rightarrow> False | Some s \<Rightarrow> downgrade_base s = Some [])"
  by code_simp

lemma apply_ops_append: "apply_ops (xs @ ys) s = Option.bind (apply_ops xs s) (apply_ops ys)"
  by (induction xs arbitrary: s) (simp_all split: option.split)

text \<open>A chain is undone when its two halves are, so that each half is evaluated on its own.\<close>

lemma downgrades_undo_append:
  "downgrades_undo (xs @ ys) s \<longleftrightarrow>
     downgrades_undo xs s
     \<and> (case apply_ops (concat (map upgrade xs)) s of None \<Rightarrow> False | Some s1 \<Rightarrow> downgrades_undo ys s1)"
proof (induction xs arbitrary: s)
  case Nil
  then show ?case by simp
next
  case (Cons m ms)
  show ?case
    by (cases "apply_ops (upgrade m) s") (auto simp: Cons.IH apply_ops_append split: option.split)
qed

lemma older_half_undone: "downgrades_undo (take 8 revision_chain) []"
  by code_simp

lemma newer_half_undone:
  "(case apply_ops (concat (map upgrade (take 8 revision_chain))) [] of None \<Rightarrow> False
    | Some s \<Rightarrow> downgrades_undo (drop 8 revision_chain) s)"
  by code_simp

text \<open>C39: The files of \<open>alembic/versions\<close> form one chain that reaches all of them; upgrading an empty
  database along it builds the tables, columns, constraints and indexes of the mapped classes, and
  downgrading from there leaves an empty database.
\<close>

theorem migrations_build_the_models:
  "length revision_chain = length versions \<and> distinct (map revision revision_chain)
   \<and> (case upgrade_head [] of None \<Rightarrow> False
      | Some s \<Rightarrow> same_schema s models_schema \<and> downgrade_base s = Some [])"
proof (intro conjI)
  show "length revision_chain = length versions"
    using arg_cong [OF revision_chain_covers, of length] by (simp add: versions_def)
  show "distinct (map revision revision_chain)"
    by (simp add: revision_chain_covers)
  show "case upgrade_head [] of None \<Rightarrow> False
      | Some s \<Rightarrow> same_schema s models_schema \<and> downgrade_base s = Some []"
    using upgrade_head_builds downgrade_base_clears by (simp split: option.splits)
qed

text \<open>C40: Along the chain from an empty database every upgrade succeeds, and the downgrade of the same file brings
  back the schema the upgrade was given.
\<close>

theorem every_downgrade_undoes_its_upgrade: "downgrades_undo revision_chain []"
  using older_half_undone newer_half_undone downgrades_undo_append [of "take 8 revision_chain" "drop 8 revision_chain"]
  by (simp only: append_take_drop_id simp_thms)

lemma migrate_rows_upgrade:
  "migrate_rows score_percent_upgrade rows =
     map (\<lambda>r. r\<lparr>row_percent := Some (grade_to_percent (row_grade r)), row_grade := None\<rparr>) rows"
  by (simp add: migrate_rows_def score_percent_upgrade_def comp_def)

lemma migrate_rows_downgrade:
  "migrate_rows score_percent_downgrade rows =
     map (\<lambda>r. r\<lparr>row_grade := Some (percent_to_grade (row_percent r)), row_percent := None\<rparr>) rows"
  by (simp add: migrate_rows_def score_percent_downgrade_def comp_def)

lemma grade_of_percent_of_grade:
  "percent_to_grade (Some (grade_to_percent g)) =
     (if g \<in> {Some ''A'', Some ''B'', Some ''C'', Some ''D''} then the g else ''F'')"
  by (auto simp: percent_to_grade_def grade_to_percent_def)

text \<open>
  Replacing the grades by percents and going back keeps every row with its id, offer and profile, keeps
  the grades A to D and reads every other one as F.
\<close>

lemma grades_survive_the_migration:
  "migrate_rows score_percent_downgrade (migrate_rows score_percent_upgrade rows) =
     map (\<lambda>r. r\<lparr>row_grade := Some (if row_grade r \<in> {Some ''A'', Some ''B'', Some ''C'', Some ''D''}
       then the (row_grade r) else ''F''), row_percent := None\<rparr>) rows"
  by (simp add: migrate_rows_upgrade migrate_rows_downgrade grade_of_percent_of_grade)

definition same_pair :: "score_row \<Rightarrow> score_row \<Rightarrow> bool" where
  "same_pair a b \<longleftrightarrow> row_offer a = row_offer b \<and> row_profile a = row_profile b"

lemma superseded_iff: "superseded rows a \<longleftrightarrow> (\<exists>b\<in>set rows. same_pair a b \<and> row_id a < row_id b)"
  by (auto simp: superseded_def same_pair_def list_ex_iff)

text \<open>
  Deleting the older scores leaves, for an offer and a profile that have scores, exactly the one with
  the highest id.
\<close>

lemma newest_scores_stay:
  assumes "distinct (map row_id rows)" and "r \<in> set rows"
  shows "filter (same_pair r) (migrate_rows unique_scores_upgrade rows) =
    filter (\<lambda>x. same_pair r x \<and> row_id x = Max (row_id ` set (filter (same_pair r) rows))) rows
    \<and> length (filter (same_pair r) (migrate_rows unique_scores_upgrade rows)) = 1"
proof -
  let ?P = "filter (same_pair r) rows" and ?m = "Max (row_id ` set (filter (same_pair r) rows))"
  let ?new = "\<lambda>x. same_pair r x \<and> row_id x = ?m"
  have stays: "same_pair r x \<and> \<not> superseded rows x \<longleftrightarrow> ?new x" if "x \<in> set rows" for x
  proof (cases "same_pair r x")
    case True
    then have "row_id x = ?m \<longleftrightarrow> (\<forall>y\<in>set ?P. row_id y \<le> row_id x)"
      using that by (subst eq_Max_iff) auto
    with True show ?thesis
      by (auto simp: superseded_iff same_pair_def not_less)
  qed simp
  have kept: "filter (same_pair r) (migrate_rows unique_scores_upgrade rows) = filter ?new rows"
    by (simp add: migrate_rows_def unique_scores_upgrade_def conj_commute stays cong: filter_cong)
  have "?m \<in> row_id ` set ?P"
    using assms(2) by (intro Max_in) (auto simp: same_pair_def)
  then obtain x where x: "x \<in> set rows" "same_pair r x" "row_id x = ?m" by auto
  have inj: "y = x" if "y \<in> set rows" "row_id y = row_id x" for y
    using assms(1) that x(1) by (auto simp: distinct_map dest: inj_onD)
  have "filter ?new rows = filter (\<lambda>y. y = x) rows"
    using x inj by (intro filter_cong refl) metis
  also have "length \<dots> = 1"
    using assms(1) x(1) by (simp add: distinct_map distinct_length_filter Int_absorb2)
  finally show ?thesis using kept by simp
qed

end
