(* ===== verification/Seed.thy ===== *)
theory Seed
  imports Boot Persist
begin

text \<open>
  \<open>app/db/seed.py\<close>: the development data, one source and three offers. Seeding may be run again:
  both statements leave what is there alone.
\<close>

section \<open>Seeding\<close>

definition SEED_SOURCE_NAME :: pystr where "SEED_SOURCE_NAME = lit ''seed''"

definition SEED_OFFERS :: "jdict list" where
  "SEED_OFFERS =
     [[(lit ''canonical_url'', JStr (lit ''https://example.com/jobs/backend-engineer'')),
       (lit ''title'', JStr (lit ''Backend Engineer'')), (lit ''company'', JStr (lit ''Example Sp. z o.o.'')),
       (lit ''location'', JStr (lit ''Warsaw'')), (lit ''remote'', JBool True), (lit ''seniority'', JStr (lit ''mid''))],
      [(lit ''canonical_url'', JStr (lit ''https://example.com/jobs/data-engineer'')),
       (lit ''title'', JStr (lit ''Data Engineer'')), (lit ''company'', JStr (lit ''Example Sp. z o.o.'')),
       (lit ''location'', JStr (lit ''Krakow'')), (lit ''remote'', JBool False), (lit ''seniority'', JStr (lit ''senior''))],
      [(lit ''canonical_url'', JStr (lit ''https://example.com/jobs/frontend-engineer'')),
       (lit ''title'', JStr (lit ''Frontend Engineer'')), (lit ''company'', JStr (lit ''Example Sp. z o.o.'')),
       (lit ''location'', JStr (lit ''Wroclaw'')), (lit ''remote'', JBool True), (lit ''seniority'', JStr (lit ''junior''))]]"

definition insert_seed_source :: "db \<Rightarrow> db" where
  "insert_seed_source d =
     d\<lparr>sources := (if SEED_SOURCE_NAME \<in> src_name ` set (sources d) then sources d
                   else sources d @ [\<lparr>src_id = next_id d, src_name = SEED_SOURCE_NAME, src_connector = None,
                     src_config = [], src_last_fetched_at = None\<rparr>]),
       next_id := next_id d + 1\<rparr>"

definition seed_source :: "int op" where
  "seed_source =
     bindS (exec insert_seed_source) (\<lambda>_.
     bindS (query (\<lambda>d. find (\<lambda>r. src_name r = SEED_SOURCE_NAME) (sources d))) (\<lambda>row.
     case row of
       None \<Rightarrow> raiseS (AssertionError (lit ''source_id is not None''))
     | Some r \<Rightarrow> retS (src_id r)))"

definition seed_offer :: "pylib \<Rightarrow> int \<Rightarrow> int \<Rightarrow> jdict \<Rightarrow> unit op" where
  "seed_offer L now sid offer_data =
     bindS (liftE (offer_model_validate L ((lit ''source_id'', JInt sid) # offer_data))) (\<lambda>o1.
     bindS (persist_offer L o1 [] now) (\<lambda>_. retS ()))"

definition seed_offers :: "pylib \<Rightarrow> int \<Rightarrow> int \<Rightarrow> unit op" where
  "seed_offers L now sid = forS SEED_OFFERS (seed_offer L now sid)"

definition run_seed :: "pylib \<Rightarrow> int \<Rightarrow> unit op" where
  "run_seed L now = bindS seed_source (seed_offers L now)"

section \<open>What seeding keeps\<close>

lemma insert_seed_source_ok:
  assumes "db_ok d"
  shows "db_ok (insert_seed_source d)"
proof -
  have "next_id d \<notin> src_id ` set (sources d)"
    using assms ids_in_fresh by (fastforce simp: db_ok_def ids_below_def)
  then show ?thesis
    using assms
    by (auto simp: db_ok_def keys_ok_def ids_below_def refs_simps insert_seed_source_def table_simps list_all_iff)
qed

lemma keeps_run_seed:
  assumes "\<And>d. I d \<Longrightarrow> I (insert_seed_source d)" and "\<And>o1. keeps I (persist_offer L o1 [] now)"
  shows "keeps I (run_seed L now)"
  unfolding run_seed_def seed_source_def seed_offers_def seed_offer_def
  by (intro keeps_intros assms) auto

lemma keeps_seed_store: "keeps (\<lambda>d. store_ok d \<and> named_after_connector d) (run_seed L now)"
proof (rule keeps_run_seed)
  show "store_ok (insert_seed_source d) \<and> named_after_connector (insert_seed_source d)"
    if "store_ok d \<and> named_after_connector d" for d
    using that insert_seed_source_ok [of d]
    by (simp add: store_ok_def content_unique_def named_after_connector_def) (simp add: insert_seed_source_def)
next
  fix o1
  have "keeps named_after_connector (persist_offer L o1 [] now)"
    unfolding persist_offer_def
    by (intro keeps_intros) (simp add: named_after_connector_def insert_offer_def)
  then show "keeps (\<lambda>d. store_ok d \<and> named_after_connector d) (persist_offer L o1 [] now)"
    using keeps_conj [OF keeps_conj [OF keeps_persist_offer keeps_content_persist]]
    by (simp add: store_ok_def [abs_def])
qed

section \<open>Offers that are stored already\<close>

text \<open>An offer \<open>persist_offer\<close> would find: by its content, or by its hash.\<close>

definition settled :: "pylib \<Rightarrow> offer_row list \<Rightarrow> offer \<Rightarrow> bool" where
  "settled L rows o1 \<longleftrightarrow>
     list_ex (\<lambda>r. same_content r o1) rows
     \<or> (offer_sendable [] o1 \<and>
        (case compute_dedup_hash L o1 of Inl e \<Rightarrow> False | Inr h \<Rightarrow> h \<in> dedup_hash ` set rows))"

lemma settled_mono: "settled L rows o1 \<Longrightarrow> set rows \<subseteq> set rows' \<Longrightarrow> settled L rows' o1"
  by (auto simp: settled_def list_ex_iff split: sum.splits)

lemma persist_settles:
  assumes "persist_offer L o1 [] now s = (Inr (r, created), t)"
  shows "settled L (offers (working t)) o1 \<and> set (offers (working s)) \<subseteq> set (offers (working t))
    \<and> sources (working t) = sources (working s) \<and> \<not> tx_aborted t"
  using assms
proof (cases rule: persist_cases)
  case duplicate
  then show ?thesis
    by (auto simp: settled_def find_content_duplicate_def find_Some_iff list_ex_length)
next
  case (conflict h)
  then show ?thesis by (auto simp: settled_def insert_offer_def)
next
  case (inserted h)
  then show ?thesis by (auto simp: settled_def insert_offer_def)
qed

lemma persist_settled:
  assumes "settled L (offers (working s)) o1" and "\<not> tx_aborted s" and "offer_refs (working s)"
  shows "\<exists>r u. persist_offer L o1 [] now s = (Inr (r, False), u)
    \<and> offers (working u) = offers (working s) \<and> sources (working u) = sources (working s) \<and> \<not> tx_aborted u"
proof (cases "find_content_duplicate o1 (working s)")
  case (Some r)
  then show ?thesis using assms(2) by (auto simp: persist_duplicate)
next
  case None
  then have "\<not> list_ex (\<lambda>r. same_content r o1) (offers (working s))"
    by (auto simp: find_content_duplicate_def find_None_iff list_ex_iff)
  with assms(1) obtain h where h: "compute_dedup_hash L o1 = Inr h" "offer_sendable [] o1"
      "h \<in> dedup_hash ` set (offers (working s))"
    by (auto simp: settled_def split: sum.splits)
  then obtain r where r: "find_by_hash h (working s) = Some r"
    by (cases "find_by_hash h (working s)") (auto simp: find_by_hash_def find_None_iff)
  let ?d = "insert_offer L h [] now o1 (working s)"
  have "find_by_hash h ?d = Some r" using r h(3) by (simp add: find_by_hash_def insert_offer_conflict)
  then have "persist_offer L o1 [] now s = (Inr (r, False), s\<lparr>working := ?d\<rparr>)"
    using None h assms(2,3) by (simp add: persist_offer_def run_simps offer_refs_conflict)
  then show ?thesis using h(3) assms(2) by (auto simp: insert_offer_def)
qed

text \<open>What a posting of the list is once it is stored.\<close>

definition seeded :: "pylib \<Rightarrow> int \<Rightarrow> offer_row list \<Rightarrow> jdict \<Rightarrow> bool" where
  "seeded L sid rows offer_data =
     (case offer_model_validate L ((lit ''source_id'', JInt sid) # offer_data) of
        Inl e \<Rightarrow> False | Inr o1 \<Rightarrow> settled L rows o1)"

lemma seed_offer_settles:
  assumes "seed_offer L now sid x s = (Inr (), t)"
  shows "seeded L sid (offers (working t)) x \<and> set (offers (working s)) \<subseteq> set (offers (working t))
    \<and> sources (working t) = sources (working s) \<and> \<not> tx_aborted t"
proof -
  obtain o1 r created where v: "offer_model_validate L ((lit ''source_id'', JInt sid) # x) = Inr o1"
    and "persist_offer L o1 [] now s = (Inr (r, created), t)"
    using assms by (auto simp: seed_offer_def bindS_def liftE_def retS_def split: sum.splits prod.splits)
  from persist_settles [OF this(2)] v show ?thesis by (simp add: seeded_def)
qed

lemma seed_loop_settles:
  assumes "forS xs (seed_offer L now sid) s = (Inr (), t)" and "\<not> tx_aborted s"
  shows "list_all (seeded L sid (offers (working t))) xs \<and> set (offers (working s)) \<subseteq> set (offers (working t))
    \<and> sources (working t) = sources (working s) \<and> \<not> tx_aborted t"
  using assms
proof (induction xs arbitrary: s)
  case Nil
  then show ?case by (simp add: retS_def)
next
  case (Cons x xs)
  then obtain u where one: "seed_offer L now sid x s = (Inr (), u)"
    and rest: "forS xs (seed_offer L now sid) u = (Inr (), t)"
    by (auto simp: bindS_def split: sum.splits prod.splits)
  note u = seed_offer_settles [OF one]
  note t = Cons.IH [OF rest conjunct2 [OF conjunct2 [OF conjunct2 [OF u]]]]
  have "seeded L sid (offers (working t)) x"
    using u t by (auto simp: seeded_def intro: settled_mono split: sum.splits)
  with u t show ?case by auto
qed

lemma seed_loop_settled:
  assumes "list_all (seeded L sid (offers (working s))) xs" and "\<not> tx_aborted s" and "offer_refs (working s)"
  shows "\<exists>u. forS xs (seed_offer L now sid) s = (Inr (), u) \<and> offers (working u) = offers (working s)
    \<and> sources (working u) = sources (working s)"
  using assms
proof (induction xs arbitrary: s)
  case Nil
  then show ?case by (simp add: retS_def)
next
  case (Cons x xs)
  then obtain o1 where v: "offer_model_validate L ((lit ''source_id'', JInt sid) # x) = Inr o1"
    and "settled L (offers (working s)) o1"
    by (auto simp: seeded_def split: sum.splits)
  from persist_settled [OF this(2) Cons.prems(2,3), of now] obtain r u
    where "persist_offer L o1 [] now s = (Inr (r, False), u)"
      and u: "offers (working u) = offers (working s)" "sources (working u) = sources (working s)" "\<not> tx_aborted u"
    by blast
  with v have "forS (x # xs) (seed_offer L now sid) s = forS xs (seed_offer L now sid) u"
    by (simp add: seed_offer_def bindS_def liftE_def retS_def)
  moreover have "offer_refs (working u)" using u Cons.prems(3) by (simp add: offer_refs_def)
  ultimately show ?case using Cons.IH [of u] Cons.prems(1) u by auto
qed

lemma seed_source_run:
  assumes "\<not> tx_aborted s"
  shows "\<exists>r. find (\<lambda>r. src_name r = SEED_SOURCE_NAME) (sources (insert_seed_source (working s))) = Some r
    \<and> seed_source s = (Inr (src_id r), s\<lparr>working := insert_seed_source (working s)\<rparr>)"
proof -
  have "SEED_SOURCE_NAME \<in> src_name ` set (sources (insert_seed_source (working s)))"
    by (simp add: insert_seed_source_def)
  then obtain r where "find (\<lambda>r. src_name r = SEED_SOURCE_NAME) (sources (insert_seed_source (working s))) = Some r"
    by (cases "find (\<lambda>r. src_name r = SEED_SOURCE_NAME) (sources (insert_seed_source (working s)))")
      (auto simp: find_None_iff)
  then show ?thesis using assms by (simp add: seed_source_def run_simps)
qed

lemma seed_source_present:
  "SEED_SOURCE_NAME \<in> src_name ` set (sources d) \<Longrightarrow>
   sources (insert_seed_source d) = sources d \<and> offers (insert_seed_source d) = offers d"
  by (simp add: insert_seed_source_def)

text \<open>Seeding keeps the tables sound and the sources named after their connectors; once it has succeeded,
  seeding again succeeds and changes neither the sources nor the offers, whatever was stored before.
\<close>

theorem seeding_again_changes_nothing:
  assumes "run_seed L now s = (Inr (), t)" and "session_inv (\<lambda>d. store_ok d \<and> named_after_connector d) s"
  shows "session_inv (\<lambda>d. store_ok d \<and> named_after_connector d) t
    \<and> (\<exists>u. run_seed L now' t = (Inr (), u) \<and> offers (working u) = offers (working t)
        \<and> sources (working u) = sources (working t))"
proof -
  have inv: "session_inv (\<lambda>d. store_ok d \<and> named_after_connector d) t"
    using keeps_seed_store [of L now] assms unfolding keeps_def by (metis snd_conv)
  have tx: "\<not> tx_aborted s"
    using assms(1) by (auto simp: run_seed_def seed_source_def run_simps)
  obtain r where r: "find (\<lambda>r. src_name r = SEED_SOURCE_NAME) (sources (insert_seed_source (working s))) = Some r"
    and "seed_source s = (Inr (src_id r), s\<lparr>working := insert_seed_source (working s)\<rparr>)"
    using seed_source_run [OF tx] by blast
  then have loop: "forS SEED_OFFERS (seed_offer L now (src_id r)) (s\<lparr>working := insert_seed_source (working s)\<rparr>) = (Inr (), t)"
    using assms(1) by (simp add: run_seed_def seed_offers_def bindS_def)
  note t = seed_loop_settles [OF loop, simplified, OF tx]
  have here: "sources (insert_seed_source (working t)) = sources (working t) \<and> offers (insert_seed_source (working t)) = offers (working t)"
    using t by (intro seed_source_present) (simp add: insert_seed_source_def)
  let ?t = "t\<lparr>working := insert_seed_source (working t)\<rparr>"
  have source: "seed_source t = (Inr (src_id r), ?t)"
    using seed_source_run [of t] t r here by auto
  have "offer_refs (working ?t)"
    using inv here by (simp add: session_inv_def store_ok_def db_ok_def refs_ok_def offer_refs_def)
  then obtain u where "forS SEED_OFFERS (seed_offer L now' (src_id r)) ?t = (Inr (), u)"
    and "offers (working u) = offers (working ?t)" "sources (working u) = sources (working ?t)"
    using seed_loop_settled [of L "src_id r" ?t SEED_OFFERS now'] t here by auto
  with source here inv show ?thesis by (simp add: run_seed_def seed_offers_def bindS_def)
qed

theorem seeding_again_changes_nothing_witness:
  "\<exists>t u. run_seed sample_lib 5 (open_session empty_db) = (Inr (), t) \<and> length (offers (working t)) = 3
     \<and> run_seed sample_lib 9 t = (Inr (), u) \<and> offers (working u) = offers (working t)
     \<and> sources (working u) = sources (working t)"
proof -
  have "case run_seed sample_lib 5 (open_session empty_db) of
      (res, t) \<Rightarrow> res = Inr () \<and> length (offers (working t)) = 3"
    by code_simp
  then obtain t where run: "run_seed sample_lib 5 (open_session empty_db) = (Inr (), t)"
    and len: "length (offers (working t)) = 3"
    by (auto split: prod.splits)
  have "session_inv (\<lambda>d. store_ok d \<and> named_after_connector d) (open_session empty_db)" by code_simp
  from seeding_again_changes_nothing [OF run this, of 9] run len show ?thesis by blast
qed

end
