(* ===== verification/ScoringLock.thy ===== *)
theory ScoringLock
  imports ScoringApi
begin

text \<open>
  Several scoring doors at once, the route and the job: \<open>_scoring_lock\<close> of \<open>app/scoring/batch.py\<close>
  keeps their batches apart, but each door commits after its batch has released the lock. A step is what
  one door does between two points where the others can run; \<open>None\<close> is a step that has to wait.
\<close>

section \<open>Doors as a transition system\<close>

text \<open>
  A door is outside the batch, inside it with its outcome, back from it with rows nobody else sees yet,
  or at its end. The batch reads the committed tables when it gets the lock; what it writes is its own
  until it commits, except that ids come from a sequence all transactions share. A transaction
  that a failed statement has aborted commits nothing.
\<close>

record batch_writes =
  written_scores :: "match_score_row list"
  written_failures :: "scoring_failure list"

datatype door =
    Door_idle
  | Door_running "exn + batch_summary" batch_writes
  | Door_returned batch_summary batch_writes
  | Door_done "exn + batch_summary"

record scoring_doors =
  lock_holder :: "nat option"
  stored :: db
  doors_progress :: scoring_progress
  doors :: "door list"
  published_events :: "score_event list"

datatype door_action =
    Enter nat
  | Leave nat
  | Commit_and_publish nat
  | Other_commit db

definition writes_of :: "db \<Rightarrow> session \<Rightarrow> batch_writes" where
  "writes_of before t =
     (if tx_aborted t then \<lparr>written_scores = [], written_failures = []\<rparr>
      else \<lparr>written_scores = drop (length (match_scores before)) (match_scores (working t)),
        written_failures = filter (\<lambda>f. f \<notin> set (scoring_failures before)) (scoring_failures (working t))\<rparr>)"

text \<open>What a commit makes of the rows stored meanwhile: a scoring failure replaces the row of its key.\<close>

definition merge_failures :: "scoring_failure list \<Rightarrow> scoring_failure list \<Rightarrow> scoring_failure list" where
  "merge_failures new fs =
     map (\<lambda>f. case find (\<lambda>g. dedup_key g = dedup_key f) new of None \<Rightarrow> f | Some g \<Rightarrow> g) fs
     @ filter (\<lambda>g. dedup_key g \<notin> dedup_key ` set fs) new"

definition commit_writes :: "batch_writes \<Rightarrow> db \<Rightarrow> db" where
  "commit_writes w d = d\<lparr>match_scores := match_scores d @ written_scores w,
     scoring_failures := merge_failures (written_failures w) (scoring_failures d)\<rparr>"

fun door_act ::
    "pylib \<Rightarrow> chain \<Rightarrow> int \<Rightarrow> nat \<Rightarrow> nat \<Rightarrow> door_action \<Rightarrow> scoring_doors \<Rightarrow> scoring_doors option" where
  "door_act L chain now default_limit ended (Enter c) s =
     (if c < length (doors s) \<and> doors s ! c = Door_idle \<and> lock_holder s = None
      then case run_batch_scoring L chain now default_limit None None ended
                  (doors_progress s, open_session (stored s)) of
             (r, (p, t)) \<Rightarrow>
               Some (s\<lparr>lock_holder := Some c, doors_progress := p,
                 stored := (stored s)\<lparr>next_id := next_id (working t)\<rparr>,
                 doors := (doors s)[c := Door_running r (writes_of (stored s) t)]\<rparr>)
      else None)"
| "door_act L chain now default_limit ended (Leave c) s =
     (if c < length (doors s)
      then case doors s ! c of
             Door_running (Inl e) w \<Rightarrow>
               Some (s\<lparr>lock_holder := None, doors := (doors s)[c := Door_done (Inl e)]\<rparr>)
           | Door_running (Inr sm) w \<Rightarrow>
               Some (s\<lparr>lock_holder := None, doors := (doors s)[c := Door_returned sm w]\<rparr>)
           | _ \<Rightarrow> None
      else None)"
| "door_act L chain now default_limit ended (Commit_and_publish c) s =
     (if c < length (doors s)
      then case doors s ! c of
             Door_returned sm w \<Rightarrow>
               Some (s\<lparr>stored := commit_writes w (stored s),
                 doors := (doors s)[c := Door_done (Inr sm)],
                 published_events := published_events s @ sum_events sm\<rparr>)
           | _ \<Rightarrow> None
      else None)"
| "door_act L chain now default_limit ended (Other_commit d) s =
     Some (s\<lparr>stored := d\<rparr>)"

fun door_acts ::
    "pylib \<Rightarrow> chain \<Rightarrow> int \<Rightarrow> nat \<Rightarrow> nat \<Rightarrow> door_action list \<Rightarrow> scoring_doors \<Rightarrow> scoring_doors option" where
  "door_acts L chain now default_limit ended [] s = Some s"
| "door_acts L chain now default_limit ended (a # as) s =
     (case door_act L chain now default_limit ended a s of
        None \<Rightarrow> None
      | Some t \<Rightarrow> door_acts L chain now default_limit ended as t)"

definition doors_open :: "nat \<Rightarrow> db \<Rightarrow> scoring_doors" where
  "doors_open n d =
     \<lparr>lock_holder = None, stored = d, doors_progress = initial_progress, doors = replicate n Door_idle,
      published_events = []\<rparr>"

section \<open>The lock\<close>

fun is_running :: "door \<Rightarrow> bool" where
  "is_running (Door_running r w) = True"
| "is_running _ = False"

definition lock_ok :: "scoring_doors \<Rightarrow> bool" where
  "lock_ok s \<longleftrightarrow> (\<forall>c<length (doors s). is_running (doors s ! c) \<longleftrightarrow> lock_holder s = Some c)
     \<and> (case lock_holder s of None \<Rightarrow> True | Some c \<Rightarrow> c < length (doors s))"

lemma lock_ok_act:
  assumes "door_act L chain now dl ended a s = Some t" and "lock_ok s"
  shows "lock_ok t"
proof (cases a)
  case (Enter c)
  then show ?thesis
    using assms by (auto simp: lock_ok_def nth_list_update split: if_splits prod.splits)
next
  case (Leave c)
  then have "c < length (doors s)" and "is_running (doors s ! c)"
    using assms(1) by (auto split: if_splits door.splits)
  then have "lock_holder s = Some c" using assms(2) by (simp add: lock_ok_def)
  then show ?thesis
    using assms Leave by (auto simp: lock_ok_def nth_list_update split: if_splits door.splits sum.splits)
next
  case (Commit_and_publish c)
  then show ?thesis
    using assms by (force simp: lock_ok_def nth_list_update split: if_splits door.splits option.splits)
next
  case (Other_commit d)
  then show ?thesis using assms by (auto simp: lock_ok_def split: if_splits option.splits)
qed

lemma door_acts_keep:
  assumes "\<And>a s t. door_act L chain now dl ended a s = Some t \<Longrightarrow> I s \<Longrightarrow> I t"
  shows "door_acts L chain now dl ended as s = Some t \<Longrightarrow> I s \<Longrightarrow> I t"
  by (induction as arbitrary: s) (auto split: option.splits dest: assms)


lemma lock_ok_open: "lock_ok (doors_open n d)"
  by (simp add: lock_ok_def doors_open_def)

lemma lock_ok_one_running: "lock_ok s \<Longrightarrow> length (filter is_running (doors s)) \<le> 1"
  by (rule length_filter_le_1) (auto simp: lock_ok_def)

section \<open>Scores stay unique when commits keep up\<close>

text \<open>The rows a door has written and not committed.\<close>

fun pending_rows :: "door \<Rightarrow> match_score_row list" where
  "pending_rows (Door_running (Inr sm) w) = written_scores w"
| "pending_rows (Door_returned sm w) = written_scores w"
| "pending_rows _ = []"

definition score_pairs :: "match_score_row list \<Rightarrow> (int \<times> int) list" where
  "score_pairs ms = map (\<lambda>m. (ms_offer_id m, ms_profile_id m)) ms"

definition all_scores :: "scoring_doors \<Rightarrow> match_score_row list" where
  "all_scores s = match_scores (stored s) @ concat (map pending_rows (doors s))"

text \<open>
  Nobody enters while a door is back from its batch with rows it has not committed, and every other
  transaction at most takes scores away. An edit of the profile and a deletion of offers do; the manual
  retry of a scoring failure, which adds a score without asking for the lock, does not.
\<close>

fun is_returned :: "door \<Rightarrow> bool" where
  "is_returned (Door_returned sm w) = True"
| "is_returned _ = False"

definition only_removes_scores :: "db \<Rightarrow> db \<Rightarrow> bool" where
  "only_removes_scores d e \<longleftrightarrow>
     distinct (map offer_id (offers e))
     \<and> match_scores e = filter (\<lambda>m. m \<in> set (match_scores e)) (match_scores d)"

fun commits_keep_up ::
    "pylib \<Rightarrow> chain \<Rightarrow> int \<Rightarrow> nat \<Rightarrow> nat \<Rightarrow> door_action list \<Rightarrow> scoring_doors \<Rightarrow> bool" where
  "commits_keep_up L chain now default_limit ended [] s = True"
| "commits_keep_up L chain now default_limit ended (a # as) s =
     ((case a of
         Enter c \<Rightarrow> \<not> list_ex is_returned (doors s)
       | Other_commit d \<Rightarrow> only_removes_scores (stored s) d
       | _ \<Rightarrow> True)
      \<and> (case door_act L chain now default_limit ended a s of
           None \<Rightarrow> True
         | Some t \<Rightarrow> commits_keep_up L chain now default_limit ended as t))"

lemma batch_appends:
  assumes "run_batch_scoring L chain now dl lmt connectors ended (p, s) = (Inr sm, (p', t))"
  shows "\<exists>rows. match_scores (working t) = match_scores (working s) @ rows"
proof (cases "get_active_profile (working s)")
  case None
  then show ?thesis using assms by (auto simp: run_batch_scoring_def run_simps split: if_splits)
next
  case (Some row)
  from assms Some show ?thesis
  proof (cases rule: run_batch_parts)
    case (1 sel prof outs rs)
    then show ?thesis using store_outcomes_rows [of "profile_id row" now outs s "Inr rs" t] by auto
  qed
qed

definition doors_ok :: "scoring_doors \<Rightarrow> bool" where
  "doors_ok s \<longleftrightarrow> lock_ok s \<and> distinct (map offer_id (offers (stored s))) \<and> distinct (score_pairs (all_scores s))"

lemma pending_update:
  "c < length ds \<Longrightarrow> pending_rows d = pending_rows (ds ! c) \<Longrightarrow>
   concat (map pending_rows (ds[c := d])) = concat (map pending_rows ds)"
  by (metis list_update_id map_update)

lemma doors_ok_enter:
  assumes "door_act L chain now dl ended (Enter c) s = Some t" and "doors_ok s"
    and "\<not> list_ex is_returned (doors s)"
  shows "doors_ok t"
proof -
  have free: "c < length (doors s)" "doors s ! c = Door_idle" "lock_holder s = None"
    using assms(1) by (auto split: if_splits)
  have lock: "lock_ok t" using lock_ok_act [OF assms(1)] assms(2) by (simp add: doors_ok_def)
  obtain r p u where run: "run_batch_scoring L chain now dl None None ended
      (doors_progress s, open_session (stored s)) = (r, (p, u))" by (metis prod.collapse)
  let ?w = "writes_of (stored s) u"
  have t: "t = s\<lparr>lock_holder := Some c, doors_progress := p, stored := (stored s)\<lparr>next_id := next_id (working u)\<rparr>,
      doors := (doors s)[c := Door_running r ?w]\<rparr>"
    using assms(1) free run by simp
  have "pending_rows x = []" if "x \<in> set (doors s)" for x
  proof -
    obtain i where "i < length (doors s)" "x = doors s ! i" using \<open>x \<in> set (doors s)\<close> by (auto simp: in_set_conv_nth)
    then have "\<not> is_running x" using assms(2) free(3) by (simp add: doors_ok_def lock_ok_def)
    moreover have "\<not> is_returned x" using assms(3) that by (simp add: list_ex_iff)
    ultimately show ?thesis by (cases x) auto
  qed
  then have none: "concat (map pending_rows (doors s)) = []" by simp
  then have mine: "mset (concat (map pending_rows (doors t))) = mset (pending_rows (Door_running r ?w))"
    using mset_concat_update [OF free(1), of pending_rows "Door_running r ?w"] free(2) by (simp add: t)
  have old: "distinct (score_pairs (match_scores (stored s)))" "distinct (map offer_id (offers (stored s)))"
    using assms(2) none by (simp_all add: doors_ok_def all_scores_def)
  have "distinct (score_pairs (match_scores (stored s) @ pending_rows (Door_running r ?w)))"
  proof (cases r)
    case (Inr sm)
    obtain rows where app: "match_scores (working u) = match_scores (stored s) @ rows"
      using batch_appends [OF run [unfolded Inr]] by (auto simp: open_session_def)
    have "score_unique (working u)"
      using batch_scores_unique [of "open_session (stored s)" L chain now dl None None ended "doors_progress s"]
        old run by (simp add: open_session_def score_unique_def score_pairs_def)
    then show ?thesis using app Inr by (simp add: writes_of_def score_unique_def score_pairs_def)
  qed (use old in simp)
  moreover have "mset (score_pairs (all_scores t)) = mset (score_pairs (match_scores (stored s) @ pending_rows (Door_running r ?w)))"
    using mine by (simp add: all_scores_def score_pairs_def t)
  ultimately have "distinct (score_pairs (all_scores t))" by (metis mset_eq_imp_distinct_iff)
  with lock old(2) show ?thesis by (simp add: doors_ok_def t)
qed

lemma doors_ok_leave:
  assumes "door_act L chain now dl ended (Leave c) s = Some t" and "doors_ok s"
  shows "doors_ok t"
proof -
  have c: "c < length (doors s)" and run: "is_running (doors s ! c)"
    using assms(1) by (auto split: if_splits door.splits)
  have lock: "lock_ok t" using lock_ok_act [OF assms(1)] assms(2) by (simp add: doors_ok_def)
  obtain r w where d: "doors s ! c = Door_running r w" using run by (cases "doors s ! c") auto
  have "concat (map pending_rows (doors t)) = concat (map pending_rows (doors s))"
    using assms(1) c d pending_update [OF c] by (cases r) auto
  moreover have "stored t = stored s" using assms(1) c d by (cases r) auto
  ultimately show ?thesis using assms(2) lock by (simp add: doors_ok_def all_scores_def)
qed

lemma doors_ok_commit:
  assumes "door_act L chain now dl ended (Commit_and_publish c) s = Some t" and "doors_ok s"
  shows "doors_ok t"
proof -
  have lock: "lock_ok t" using lock_ok_act [OF assms(1)] assms(2) by (simp add: doors_ok_def)
  obtain sm w where c: "c < length (doors s)" and d: "doors s ! c = Door_returned sm w"
    and t: "match_scores (stored t) = match_scores (stored s) @ written_scores w" "offers (stored t) = offers (stored s)"
      "doors t = (doors s)[c := Door_done (Inr sm)]"
    using assms(1) by (auto simp: commit_writes_def split: if_splits door.splits)
  have "mset (concat (map pending_rows (doors t))) + mset (written_scores w) = mset (concat (map pending_rows (doors s)))"
    using mset_concat_update [OF c, of pending_rows "Door_done (Inr sm)"] d by (simp add: t)
  then have "mset (all_scores t) = mset (all_scores s)" by (simp add: all_scores_def t ac_simps)
  then have "mset (score_pairs (all_scores t)) = mset (score_pairs (all_scores s))" by (simp add: score_pairs_def)
  then have "distinct (score_pairs (all_scores t))"
    using assms(2) by (metis doors_ok_def mset_eq_imp_distinct_iff)
  with lock t(2) assms(2) show ?thesis by (simp add: doors_ok_def)
qed

lemma doors_ok_other:
  assumes "door_act L chain now dl ended (Other_commit d) s = Some t" and "doors_ok s"
    and "only_removes_scores (stored s) d"
  shows "doors_ok t"
proof -
  have lock: "lock_ok t" using lock_ok_act [OF assms(1)] assms(2) by (simp add: doors_ok_def)
  have t: "t = s\<lparr>stored := d\<rparr>" and d: "distinct (map offer_id (offers d))"
    and ms: "match_scores d = filter (\<lambda>m. m \<in> set (match_scores d)) (match_scores (stored s))"
    using assms(1,3) by (auto simp: only_removes_scores_def)
  have "distinct (score_pairs (filter P xs @ ys))" if "distinct (score_pairs (xs @ ys))" for P xs ys
    using that by (auto simp: score_pairs_def distinct_map_filter)
  then have "distinct (score_pairs (match_scores d @ concat (map pending_rows (doors s))))"
    using assms(2) unfolding doors_ok_def all_scores_def by (subst ms) blast
  with lock d show ?thesis by (simp add: doors_ok_def all_scores_def t)
qed

lemma doors_ok_acts:
  assumes "door_acts L chain now dl ended as s = Some t" and "doors_ok s"
    and "commits_keep_up L chain now dl ended as s"
  shows "doors_ok t"
  using assms
proof (induction as arbitrary: s)
  case (Cons a as)
  then obtain u where step: "door_act L chain now dl ended a s = Some u"
    and rest: "door_acts L chain now dl ended as u = Some t" by (auto split: option.splits)
  have "doors_ok u"
    using step Cons.prems(2,3)
    by (cases a) (auto intro: doors_ok_enter doors_ok_leave doors_ok_commit doors_ok_other simp del: door_act.simps)
  with Cons.IH [OF rest] Cons.prems(3) step show ?case by simp
qed simp

text \<open>C9: The lock keeps batches apart: whatever the doors and other transactions do, at most one door is inside
  a batch. If besides no door starts a batch between another's batch and its commit, and no other
  transaction adds scores, no offer is ever stored with two scores for a profile.
\<close>

theorem scoring_doors_safe:
  assumes "door_acts L chain now dl ended as (doors_open n d) = Some s"
    and "distinct (map offer_id (offers d))" and "score_unique d"
  shows "length (filter is_running (doors s)) \<le> 1
    \<and> (commits_keep_up L chain now dl ended as (doors_open n d) \<longrightarrow> score_unique (stored s))"
proof -
  have "lock_ok s"
    by (rule door_acts_keep [where I = lock_ok, OF lock_ok_act assms(1) lock_ok_open])
  moreover have "doors_ok (doors_open n d)"
    using assms(2,3) lock_ok_open
    by (simp add: doors_ok_def all_scores_def doors_open_def score_unique_def score_pairs_def)
  moreover have "score_unique (stored s)" if "doors_ok s"
    using that by (simp add: doors_ok_def all_scores_def score_pairs_def score_unique_def)
  ultimately show ?thesis using doors_ok_acts [OF assms(1)] lock_ok_one_running by blast
qed

section \<open>A door alone\<close>

lemma merge_failures_own:
  assumes "distinct (map dedup_key fs)" and "distinct (map dedup_key gs)" and "map dedup_key gs = map dedup_key fs @ ks"
  shows "merge_failures (filter (\<lambda>f. f \<notin> set fs) gs) fs = gs"
proof -
  let ?new = "filter (\<lambda>f. f \<notin> set fs) gs"
  obtain hs ns where gs: "gs = hs @ ns" and keys: "map dedup_key hs = map dedup_key fs" "map dedup_key ns = ks"
    using assms(3) by (auto simp: map_eq_append_conv)
  have hit: "(case find (\<lambda>g. dedup_key g = dedup_key f) ?new of None \<Rightarrow> f | Some g \<Rightarrow> g) = h"
    if "f \<in> set fs" "h \<in> set hs" "dedup_key h = dedup_key f" for f h
  proof (cases "find (\<lambda>g. dedup_key g = dedup_key f) ?new")
    case None
    then have "h \<in> set fs" using that(2,3) gs by (auto simp: find_None_iff)
    then show ?thesis using None distinct_map_inj [OF assms(1) that(1)] that(3) by simp
  next
    case (Some g)
    then have "g \<in> set gs" "dedup_key g = dedup_key f" using find_Some_in_set [of _ ?new g] by auto
    then show ?thesis using Some distinct_map_inj [OF assms(2), of g h] that gs by simp
  qed
  have "map (\<lambda>f. case find (\<lambda>g. dedup_key g = dedup_key f) ?new of None \<Rightarrow> f | Some g \<Rightarrow> g) fs = hs"
  proof (rule nth_equalityI)
    show "length (map (\<lambda>f. case find (\<lambda>g. dedup_key g = dedup_key f) ?new of None \<Rightarrow> f | Some g \<Rightarrow> g) fs) = length hs"
      using keys(1) by (metis length_map)
  qed (use keys(1) hit in \<open>metis (no_types, lifting) length_map nth_map nth_mem\<close>)
  moreover have "filter (\<lambda>g. dedup_key g \<notin> dedup_key ` set fs) ?new = ns"
  proof -
    have old: "dedup_key h \<in> dedup_key ` set fs" if "h \<in> set hs" for h
      using that keys(1) by (metis image_eqI image_set)
    have new: "dedup_key i \<notin> dedup_key ` set fs" if "i \<in> set ns" for i
    proof -
      have "set (map dedup_key hs) \<inter> set (map dedup_key ns) = {}" using assms(2) by (simp add: gs)
      then show ?thesis using that keys(1) by (metis disjoint_iff image_eqI image_set)
    qed
    have "filter (\<lambda>g. dedup_key g \<notin> dedup_key ` set fs) ?new = filter (\<lambda>g. dedup_key g \<notin> dedup_key ` set fs) gs"
      by (auto intro!: filter_cong)
    also have "\<dots> = ns" using old new by (simp add: gs)
    finally show ?thesis .
  qed
  ultimately show ?thesis by (simp add: merge_failures_def gs)
qed

text \<open>The keys of the scoring failures of a table are kept, in their order, with more behind them.\<close>

definition keys_extend :: "pystr list \<Rightarrow> db \<Rightarrow> bool" where
  "keys_extend ks d \<longleftrightarrow> (\<exists>more. map dedup_key (scoring_failures d) = ks @ more)"

lemma keys_extend_upsert: "keys_extend ks d \<Longrightarrow> keys_extend ks (upsert_scoring key k fs now d)"
  by (auto simp: keys_extend_def upsert_scoring_def upsert_keys)

lemma keeps_keys_extend: "keeps (keys_extend ks) (score_offers_with_langchain chain now row ofs scope)"
proof -
  have one: "keeps (keys_extend ks) (record_scoring_failure key k fs now)" for key k fs now
    unfolding record_scoring_failure_def by (intro keeps_swallow keeps_upsert_stmt keys_extend_upsert)
  have score: "keeps (keys_extend ks) (insert_score now m)" for m now
    unfolding insert_score_def by (intro keeps_intros) (simp add: keys_extend_def add_score_def)
  have "keeps (keys_extend ks) (store_outcomes pid now outs)" for pid now outs
    by (induction pid now outs rule: store_outcomes.induct) (auto intro!: keeps_intros one score)
  then show ?thesis unfolding score_offers_with_langchain_def Let_def by (intro keeps_intros)
qed

lemma batch_keeps:
  assumes "\<And>row ofs scope. keeps I (score_offers_with_langchain chain now row ofs scope)" and "session_inv I s"
  shows "session_inv I (snd (snd (run_batch_scoring L chain now dl lmt connectors ended (p, s))))"
  using run_batch_session [of L chain now dl lmt connectors ended p s] assms unfolding keeps_def by metis

text \<open>The failures a batch has written, merged into the table it started from, are the table it ended with.\<close>

lemma batch_failures_merge:
  assumes "run_batch_scoring L chain now dl lmt connectors ended (p, open_session d) = (r, (q, u))"
    and "db_ok d" and "\<not> tx_aborted u"
  shows "merge_failures (written_failures (writes_of d u)) (scoring_failures d) = scoring_failures (working u)"
proof -
  let ?K = "keys_extend (map dedup_key (scoring_failures d))"
  have "db_ok (working u)"
    using batch_keeps [OF keeps_score_offers, of "open_session d" L chain now dl lmt connectors ended p] assms(1,2)
    by (simp add: session_inv_def)
  moreover have "?K (working u)"
    using batch_keeps [OF keeps_keys_extend, of "map dedup_key (scoring_failures d)" "open_session d"
        L chain now dl lmt connectors ended p] assms(1)
    by (simp add: session_inv_def) (simp add: keys_extend_def)
  ultimately show ?thesis
    using assms(2,3) merge_failures_own [of "scoring_failures d" "scoring_failures (working u)"]
    by (auto simp: writes_of_def keys_extend_def db_ok_def keys_ok_def)
qed

text \<open>The three steps of a door nobody interferes with store and publish what the job does.\<close>

lemma door_alone_is_the_job:
  assumes "run_scoring_job L chain now dl ended ((initial_progress, d), h) = (Inr sm, ((p', d'), h'))"
    and "db_ok d" and "scoring_keys_ok d" and "ids_fit d"
  shows "\<exists>s. door_acts L chain now dl ended [Enter 0, Leave 0, Commit_and_publish 0] (doors_open 1 d) = Some s
    \<and> match_scores (stored s) = match_scores d' \<and> scoring_failures (stored s) = scoring_failures d' \<and> h' = fold publish_score (published_events s) h
    \<and> doors s = [Door_done (Inr sm)]"
proof -
  obtain res q u where batch: "run_batch_scoring L chain now dl None None ended (initial_progress, open_session d)
      = (res, (q, u))" by (metis prod.collapse)
  obtain sm' where res: "res = Inr sm'"
    using assms(1) batch
    by (cases res) (auto simp: run_scoring_job_def rolling_back_def batch_commit_publish_def run_simps)
  from batch_rows [OF batch [unfolded res]] assms(2-4) obtain rows
    where rows: "match_scores (working u) = match_scores d @ rows" and tx: "\<not> tx_aborted u"
    by (auto simp: open_session_def)
  have job: "sm' = sm \<and> d' = working u \<and> h' = fold publish_score (sum_events sm) h"
    using assms(1) batch res tx
    by (auto simp: run_scoring_job_def rolling_back_def batch_commit_publish_def publish_all_run commit_def
        bindS_def retS_def on_batch_def in_session_def)
  have "scoring_failures (commit_writes (writes_of d u) (d\<lparr>next_id := next_id (working u)\<rparr>)) = scoring_failures (working u)"
    using batch_failures_merge [OF batch assms(2) tx] by (simp add: commit_writes_def)
  moreover have "match_scores (commit_writes (writes_of d u) (d\<lparr>next_id := next_id (working u)\<rparr>)) = match_scores (working u)"
    using rows tx by (simp add: commit_writes_def writes_of_def)
  ultimately show ?thesis using job batch res by (simp add: doors_open_def)
qed

section \<open>A door that overtakes a commit\<close>

text \<open>On tables that hold the offers and the profile, storing the outcomes of a batch succeeds.\<close>

lemma insert_score_succeeds:
  assumes "scoring_ready pid s" and "outcome_ok pid (working s) (row, Scored m)"
  shows "insert_score now m s =
     (Inr (score_row (next_id (working s)) now m), s\<lparr>working := add_score now m (working s)\<rparr>)"
proof -
  have "match_score_refs (add_score now m (working s))"
    using assms by (auto simp: scoring_ready_def outcome_ok_def refs_simps list_all_iff add_score_def score_row_def)
  then show ?thesis using assms(1) by (simp add: insert_score_def run_simps add_score_def scoring_ready_def)
qed

lemma store_outcomes_total:
  assumes "scoring_ready pid s" and "list_all (outcome_ok pid (working s)) outs"
  shows "\<exists>rs t. store_outcomes pid now outs s = (Inr rs, t) \<and> list_all (\<lambda>m. ms_profile_id m = pid) rs"
  using assms
proof (induction pid now outs arbitrary: s rule: store_outcomes.induct)
  case (2 pid now row e rest)
  let ?d = "upsert_scoring (scoring_key (offer_id row) pid) SCORING_FAILED
             (failure_fields (offer_id row) pid (exn_text e)) now (working s)"
  have ok: "outcome_ok pid (working s) (row, Failed e)" using 2(3) by simp
  note step = failed_step [OF 2(2) ok refl, of now]
  have "list_all (outcome_ok pid (working (s\<lparr>working := ?d\<rparr>))) rest"
    using 2(3) outcome_ok_same [of ?d "working s"] by simp
  from 2(1) [OF step(2) this] step(1) show ?case by (simp add: bindS_def)
next
  case (3 pid now row m rest)
  have ok: "outcome_ok pid (working s) (row, Scored m)" using 3(3) by simp
  note ins = insert_score_succeeds [OF 3(2) ok, of now]
  note step = scored_step [OF 3(2) ok ins]
  let ?t = "s\<lparr>working := add_score now m (working s)\<rparr>"
  have "list_all (outcome_ok pid (working ?t)) rest"
    using 3(3) step(5) outcome_ok_same [of "working ?t" "working s"] by (simp add: same_offers_def)
  from 3(1) [OF step(4) this] obtain rs u where "store_outcomes pid now rest ?t = (Inr rs, u)"
    "list_all (\<lambda>m. ms_profile_id m = pid) rs" by blast
  moreover have "score_profile_id m = pid" using ok by (simp add: outcome_ok_def)
  ultimately show ?case by (simp add: bindS_def ins retS_def score_row_def)
qed (simp_all add: retS_def outcome_ok_def)

text \<open>A batch does not look at the sequence its rows take their ids from.\<close>

lemma select_next_id [simp]:
  "select_candidates L now pid scope n (d\<lparr>next_id := k\<rparr>) = select_candidates L now pid scope n d"
proof -
  have 1: "source_of r (d\<lparr>next_id := k\<rparr>) = source_of r d" for r by (simp add: source_of_def)
  have 2: "source_connector r (d\<lparr>next_id := k\<rparr>) = source_connector r d" for r by (simp add: source_connector_def 1)
  have "eligible pid scope (d\<lparr>next_id := k\<rparr>) = eligible pid scope d"
    by (simp add: fun_eq_iff eligible_def 2 already_scored_def open_scoring_failures_def)
  then have 3: "candidate_scan pid scope (d\<lparr>next_id := k\<rparr>) = candidate_scan pid scope d"
    by (simp add: candidate_scan_def)
  have 4: "row_in_range L now (d\<lparr>next_id := k\<rparr>) = row_in_range L now d" by (simp add: fun_eq_iff row_in_range_def 1)
  have 5: "hydrate (d\<lparr>next_id := k\<rparr>) = hydrate d" by (simp add: fun_eq_iff hydrate_def 2)
  show ?thesis by (simp add: select_candidates_def 3 4 5)
qed

lemma active_next_id [simp]: "get_active_profile (d\<lparr>next_id := k\<rparr>) = get_active_profile d"
  by (simp add: get_active_profile_def)

lemma events_again:
  assumes "gather (event_of ofs) rs = Inr evs" and "map ms_offer_id rs' = map ms_offer_id rs"
  shows "\<exists>evs'. gather (event_of ofs) rs' = Inr evs' \<and> map ev_offer_id evs' = map ev_offer_id evs"
  using assms
proof (induction rs arbitrary: rs' evs)
  case (Cons m rs)
  then obtain m' ms where rs': "rs' = m' # ms" "ms_offer_id m' = ms_offer_id m" "map ms_offer_id ms = map ms_offer_id rs"
    by (auto simp: Cons_eq_map_conv)
  from Cons.prems(1) obtain e es where e: "event_of ofs m = Inr e" "gather (event_of ofs) rs = Inr es" "evs = e # es"
    by (auto simp: bindE_Inr_iff)
  have "\<exists>e'. event_of ofs m' = Inr e' \<and> ev_offer_id e' = ev_offer_id e"
    using e(1) rs'(2) by (auto simp: event_of_def split: option.splits)
  with Cons.IH [OF e(2) rs'(3)] rs'(1) e(3) show ?case by auto
qed simp

lemma scoring_again:
  assumes "score_offers_with_langchain chain now row ofs (Some scope) (open_session d) = (Inr rs, u)"
    and ready: "scoring_ready (profile_id row) (open_session d)"
    and "list_all (\<lambda>(r, c). c \<in> set scope \<and> 0 \<le> offer_id r \<and> offer_id r < 2 ^ 31 \<and> r \<in> set (offers d)) ofs"
  shows "\<exists>rs' u'. score_offers_with_langchain chain now row ofs (Some scope) (open_session (d\<lparr>next_id := k\<rparr>)) = (Inr rs', u')
    \<and> match_scores (working u) = match_scores d @ rs
    \<and> map ms_offer_id rs' = map ms_offer_id rs \<and> match_scores (working u') = match_scores d @ rs' \<and> \<not> tx_aborted u'
    \<and> list_all (\<lambda>m. ms_profile_id m = profile_id row) (rs @ rs')"
proof (cases "ofs = []")
  case True
  then show ?thesis using assms(1) by (auto simp: score_offers_with_langchain_def retS_def)
next
  case False
  let ?d = "d\<lparr>next_id := k\<rparr>"
  obtain prof outs where parts: "profile_of_row row = Inr prof"
    "gather (process_offer chain scope (profile_id row) prof) ofs = Inr outs"
    "store_outcomes (profile_id row) now outs (open_session d) = (Inr rs, u)"
    using assms(1) False by (auto simp: score_offers_with_langchain_def Let_def run_simps split: sum.splits)
  have ok: "list_all (outcome_ok (profile_id row) (working (open_session d))) outs"
    using gather_process [OF parts(2) assms(3)] by simp
  then have ok': "list_all (outcome_ok (profile_id row) (working (open_session ?d))) outs"
    using outcome_ok_same [of ?d d] by simp
  have ready': "scoring_ready (profile_id row) (open_session ?d)"
    using ready by (simp add: scoring_ready_def refs_simps scoring_keys_ok_def)
  from store_outcomes_total [OF ready' ok'] obtain rs' u' where
    run: "store_outcomes (profile_id row) now outs (open_session ?d) = (Inr rs', u')"
    and pid': "list_all (\<lambda>m. ms_profile_id m = profile_id row) rs'" by blast
  have "list_all (\<lambda>m. ms_profile_id m = profile_id row) rs"
    using store_outcomes_total [OF ready ok, of now] parts(3) by simp
  moreover have "map ms_offer_id rs' = map ms_offer_id rs" "\<not> tx_aborted u'"
    using store_outcomes_effect [OF parts(3) ready ok] store_outcomes_effect [OF run ready' ok']
    by (simp_all add: scoring_ready_def)
  moreover have "match_scores (working u') = match_scores d @ rs'" "match_scores (working u) = match_scores d @ rs"
    using store_outcomes_rows [OF run] store_outcomes_rows [OF parts(3)] by simp_all
  ultimately show ?thesis
    using False parts(1,2) run pid' by (simp add: score_offers_with_langchain_def run_simps)
qed

lemma batch_again:
  assumes run: "run_batch_scoring L chain now dl None None ended (p, open_session d) = (Inr sm, (q, u))"
    and some: "0 < sum_scored sm" and ok: "db_ok d" "scoring_keys_ok d" "ids_fit d"
  obtains sm' q' u' rows rows' pid where
    "run_batch_scoring L chain now dl None None ended (p', open_session (d\<lparr>next_id := k\<rparr>)) = (Inr sm', (q', u'))"
    "match_scores (working u) = match_scores d @ rows" "match_scores (working u') = match_scores d @ rows'"
    "\<not> tx_aborted u" "\<not> tx_aborted u'" "map ms_offer_id rows' = map ms_offer_id rows" "length rows = sum_scored sm"
    "map ev_offer_id (sum_events sm) = map ms_offer_id rows" "map ev_offer_id (sum_events sm') = map ms_offer_id rows"
    "list_all (\<lambda>m. ms_profile_id m = pid) (rows @ rows')"
proof -
  obtain row where row: "get_active_profile d = Some row"
    using run some by (cases "get_active_profile d") (auto simp: run_batch_scoring_def run_simps)
  obtain sel where sel: "select_candidates L now (profile_id row) langchain_sources dl d = Inr sel"
    using run row by (auto simp: run_batch_scoring_def run_simps Let_def select_scoring_candidates_def split: sum.splits)
  obtain rs where sc: "score_offers_with_langchain chain now row (sel_selected sel) (Some langchain_sources) (open_session d) = (Inr rs, u)"
    and ev: "gather (event_of (sel_selected sel)) rs = Inr (sum_events sm)"
    using run row sel
    by (cases "score_offers_with_langchain chain now row (sel_selected sel) (Some langchain_sources) (open_session d)")
      (auto simp: run_batch_scoring_def run_simps Let_def select_scoring_candidates_def scoring_step_def split: sum.splits)
  have in_d: "row \<in> set (profiles d)" using row by (auto simp: get_active_profile_def dest: find_Some_in_set)
  have pos: "0 < i" if "i \<in> offer_id ` set (offers d) \<or> i \<in> profile_id ` set (profiles d)" for i
    using ok(1) that by (auto simp: db_ok_def ids_below_def ids_in_def list_all_iff)
  have ready: "scoring_ready (profile_id row) (open_session d)"
    using ok in_d pos [of "profile_id row"] by (simp add: scoring_ready_def db_ok_def ids_fit_def list_all_iff)
  have keys: "keys_ok d" using ok(1) by (simp add: db_ok_def)
  have facts: "list_all (\<lambda>(r, c). c \<in> set langchain_sources \<and> 0 \<le> offer_id r \<and> offer_id r < 2 ^ 31 \<and> r \<in> set (offers d)) (sel_selected sel)"
    using conjunct1 [OF conjunct2 [OF conjunct2 [OF conjunct2 [OF selection_facts [OF sel keys]]]]] pos ok(3)
    by (fastforce simp: list_all_iff ids_fit_def)
  from scoring_again [OF sc ready facts, of k] obtain rs' u' where
    sc': "score_offers_with_langchain chain now row (sel_selected sel) (Some langchain_sources) (open_session (d\<lparr>next_id := k\<rparr>)) = (Inr rs', u')"
    and new: "map ms_offer_id rs' = map ms_offer_id rs" "match_scores (working u') = match_scores d @ rs'" "\<not> tx_aborted u'"
      "list_all (\<lambda>m. ms_profile_id m = profile_id row) (rs @ rs')"
    and old: "match_scores (working u) = match_scores d @ rs" by blast
  from events_again [OF ev new(1)] obtain evs' where ev': "gather (event_of (sel_selected sel)) rs' = Inr evs'"
    "map ev_offer_id evs' = map ev_offer_id (sum_events sm)" by blast
  obtain sm' q' where run': "run_batch_scoring L chain now dl None None ended (p', open_session (d\<lparr>next_id := k\<rparr>)) = (Inr sm', (q', u'))"
    and sm': "sum_events sm' = evs'"
    using row sel sc' ev'(1)
    by (simp add: run_batch_scoring_def run_simps Let_def select_scoring_candidates_def scoring_step_def)
  obtain rows where rows: "match_scores (working u) = match_scores d @ rows" "\<not> tx_aborted u"
      "map event_key (sum_events sm) = map score_key rows" "length (sum_events sm) = sum_scored sm"
    using batch_rows [OF run] ok by auto
  have "rows = rs"
    using rows(1) old by simp
  have "map ev_offer_id (sum_events sm) = map (fst \<circ> snd) (map event_key (sum_events sm))" by (simp add: event_key_def)
  also have "\<dots> = map ms_offer_id rows" unfolding rows(3) by (simp add: score_key_def)
  finally have ids: "map ev_offer_id (sum_events sm) = map ms_offer_id rows" .
  show thesis
    by (rule that [OF run' rows(1) new(2) rows(2) new(3)]) (use \<open>rows = rs\<close> new rows(4) ids ev'(2) sm' in \<open>auto dest: map_eq_imp_length_eq\<close>)
qed

text \<open>C10: The lock is released before the commit, so a door that starts in the gap scores the same offers again.
  Whenever a batch on some tables would score at least one offer, and a second door enters after the
  first one has left the lock and before it has committed, both run through, both store a score for
  each of these offers, so the offers end up with two scores for the profile, and each of them is
  published twice.\<close>

theorem commit_outside_lock_scores_twice:
  assumes "run_batch_scoring L chain now dl None None ended (initial_progress, open_session d) = (Inr sm, (p, u))"
    and "0 < sum_scored sm" and "db_ok d" and "scoring_keys_ok d" and "ids_fit d"
    and "a < n" and "b < n" and "a \<noteq> b"
  shows "\<exists>s rows rows'. door_acts L chain now dl ended
        [Enter a, Leave a, Enter b, Leave b, Commit_and_publish a, Commit_and_publish b] (doors_open n d) = Some s
     \<and> \<not> score_unique (stored s)
     \<and> match_scores (stored s) = match_scores d @ rows @ rows' \<and> length rows = sum_scored sm
     \<and> map ms_offer_id rows = map ev_offer_id (sum_events sm)
     \<and> map ms_offer_id rows' = map ev_offer_id (sum_events sm)
     \<and> map ev_offer_id (published_events s) = map ev_offer_id (sum_events sm) @ map ev_offer_id (sum_events sm)"
proof -
  let ?d = "d\<lparr>next_id := next_id (working u)\<rparr>"
  from batch_again [OF assms(1-5), of p "next_id (working u)"] obtain sm' q' u' rows rows' pid where
    run: "run_batch_scoring L chain now dl None None ended (p, open_session ?d) = (Inr sm', (q', u'))"
    and rows: "match_scores (working u) = match_scores d @ rows" "match_scores (working u') = match_scores d @ rows'"
      "\<not> tx_aborted u" "\<not> tx_aborted u'" "map ms_offer_id rows' = map ms_offer_id rows" "length rows = sum_scored sm"
    and evs: "map ev_offer_id (sum_events sm) = map ms_offer_id rows" "map ev_offer_id (sum_events sm') = map ms_offer_id rows"
    and pid: "list_all (\<lambda>m. ms_profile_id m = pid) (rows @ rows')" by blast
  obtain s where s: "door_acts L chain now dl ended
      [Enter a, Leave a, Enter b, Leave b, Commit_and_publish a, Commit_and_publish b] (doors_open n d) = Some s"
    and ms: "match_scores (stored s) = match_scores d @ rows @ rows'"
    and pub: "published_events s = sum_events sm @ sum_events sm'"
    using assms(1,6-8) run rows(1-4) by (simp add: doors_open_def nth_list_update commit_writes_def writes_of_def)
  obtain m ms1 where m: "rows = m # ms1" using rows(6) assms(2) by (cases rows) auto
  then obtain m' ms2 where m': "rows' = m' # ms2" "ms_offer_id m' = ms_offer_id m"
    using rows(5) by (auto simp: map_eq_Cons_conv)
  have "\<not> score_unique (stored s)"
    using m m' pid by (simp add: score_unique_def ms)
  with s ms pub rows(5,6) evs show ?thesis by (intro exI [of _ s] exI [of _ rows] exI [of _ rows']) simp
qed

lemma commit_outside_lock_scores_twice_witness:
  "\<exists>s. door_acts sample_lib (\<lambda>_ _. Inr perfect_output) 100 1 0
        [Enter 0, Leave 0, Enter 1, Leave 1, Commit_and_publish 0, Commit_and_publish 1]
        (doors_open 2 (scoring_db all_range)) = Some s
     \<and> score_unique (scoring_db all_range) \<and> \<not> score_unique (stored s) \<and> length (published_events s) = 2"
proof -
  obtain sm q u where batch: "batch_run = (Inr sm, (q, u))" and one: "sum_scored sm = 1"
    using batch_run_counts by (auto split: prod.splits sum.splits)
  have run: "run_batch_scoring sample_lib (\<lambda>_ _. Inr perfect_output) 100 1 None None 0
      (initial_progress, open_session (scoring_db all_range)) = (Inr sm, (q, u))"
    unfolding batch [symmetric] unfolding batch_run_def run_batch_scoring_def option.case ..
  have fit: "ids_fit (scoring_db all_range)" and fresh: "score_unique (scoring_db all_range)" by code_simp+
  have pre: "0 < sum_scored sm" "db_ok (scoring_db all_range)" "scoring_keys_ok (scoring_db all_range)"
    "(0 :: nat) < 2" "(1 :: nat) < 2" "(0 :: nat) \<noteq> 1" using one scoring_db_ok by simp_all
  from commit_outside_lock_scores_twice [OF run pre(1-3) fit pre(4-6)] obtain s
    and rows :: "match_score_row list" where s: "door_acts sample_lib (\<lambda>_ _. Inr perfect_output) 100 1 0
        [Enter 0, Leave 0, Enter 1, Leave 1, Commit_and_publish 0, Commit_and_publish 1]
        (doors_open 2 (scoring_db all_range)) = Some s" "\<not> score_unique (stored s)"
    "length rows = sum_scored sm" "map ms_offer_id rows = map ev_offer_id (sum_events sm)"
    "map ev_offer_id (published_events s) = map ev_offer_id (sum_events sm) @ map ev_offer_id (sum_events sm)" by blast
  then have "length (published_events s) = 2" using one by (metis length_append length_map one_add_one)
  with s(1,2) fresh show ?thesis by blast
qed

lemma scoring_doors_safe_witness:
  "(case door_acts sample_lib (\<lambda>_ _. Inr perfect_output) 100 1 0 [Enter 1, Leave 1, Commit_and_publish 1]
      (doors_open 2 (scoring_db all_range)) of
      None \<Rightarrow> False
    | Some s \<Rightarrow> score_unique (stored s) \<and> map ev_offer_id (published_events s) = [3])"
proof -
  let ?run = "door_acts sample_lib (\<lambda>_ _. Inr perfect_output) 100 1 0 [Enter 1, Leave 1, Commit_and_publish 1]
    (doors_open 2 (scoring_db all_range))"
  have "case ?run of None \<Rightarrow> False | Some s \<Rightarrow> map ev_offer_id (published_events s) = [3]"
    by code_simp
  then obtain s where run: "?run = Some s" and evs: "map ev_offer_id (published_events s) = [3]"
    by (auto simp del: door_acts.simps split: option.splits)
  have up: "commits_keep_up sample_lib (\<lambda>_ _. Inr perfect_output) 100 1 0 [Enter 1, Leave 1, Commit_and_publish 1]
      (doors_open 2 (scoring_db all_range))"
    by (simp add: doors_open_def numeral_2_eq_2 del: door_act.simps split: option.split)
  have ids: "distinct (map offer_id (offers (scoring_db all_range)))" by code_simp
  have fresh: "score_unique (scoring_db all_range)" by code_simp
  from scoring_doors_safe [OF run ids fresh] up run evs show ?thesis by (simp del: door_acts.simps)
qed

end
