(* ===== verification/ParallelRuns.thy ===== *)
theory ParallelRuns
  imports Persist "HOL-Library.Sublist"
begin

text \<open>
  Connector runs that store offers at the same time. A run is one transaction
  (\<open>run_with_lifecycle\<close> commits at its end), and each call of \<open>persist_offer\<close>
  (\<open>app/ingestion/persist.py\<close>) is two steps, the query for a content duplicate and the insert, with any
  steps of other runs between them.
\<close>

section \<open>Runs as a transition system\<close>

text \<open>
  Under \<open>READ COMMITTED\<close> a statement sees what is committed and what its own transaction wrote. A run
  holds its uncommitted rows, the offer whose check for a content duplicate found nothing, and what its
  calls of \<open>persist_offer\<close> returned.
\<close>

record ingest_run =
  own_rows :: "offer_row list"
  to_insert :: "(offer \<times> jdict \<times> int) option"
  run_results :: "(offer_row \<times> bool) list"

record ingest_runs =
  shared :: db
  runs :: "ingest_run list"

text \<open>What makes an offer the same as another: its hash, and its content.\<close>

type_synonym content = "pystr \<times> pystr \<times> int option \<times> int option \<times> pystr"

definition offer_content :: "'a offer_scheme \<Rightarrow> content" where
  "offer_content o1 = (company o1, title o1, salary_min o1, salary_max o1, salary_currency o1)"

definition offer_identity :: "offer_row \<Rightarrow> pystr \<times> content" where
  "offer_identity r = (dedup_hash r, offer_content r)"

text \<open>
  Any other transaction may delete or edit offers; none of them adds one or changes what makes it the
  same as another.
\<close>

datatype run_action =
    Check_content nat offer jdict int
  | Insert_offer nat
  | Commit_run nat
  | Rollback_run nat
  | Other_transaction db

definition seen_by :: "ingest_run \<Rightarrow> db \<Rightarrow> db" where
  "seen_by r d = d\<lparr>offers := offers d @ own_rows r\<rparr>"

text \<open>The hashes other transactions have inserted and not committed: an insert of one has to wait.\<close>

definition held_hashes :: "nat \<Rightarrow> ingest_run list \<Rightarrow> pystr list" where
  "held_hashes c rs = map dedup_hash (concat (map own_rows (rs[c := (rs ! c)\<lparr>own_rows := []\<rparr>])))"

text \<open>
  The insert of \<open>persist_offer\<close>. An offer whose hash cannot be computed or that cannot be sent raises
  before the statement; a statement the server refuses ends the transaction, and its rows are gone.
\<close>

definition insert_step :: "pylib \<Rightarrow> nat \<Rightarrow> offer \<times> jdict \<times> int \<Rightarrow> ingest_runs \<Rightarrow> ingest_runs option" where
  "insert_step L c posting s =
     (case posting of (o1, raw, now) \<Rightarrow>
       let r = (runs s ! c)\<lparr>to_insert := None\<rparr>; d = seen_by r (shared s) in
       case compute_dedup_hash L o1 of
         Inl e \<Rightarrow> Some (s\<lparr>runs := (runs s)[c := r]\<rparr>)
       | Inr h \<Rightarrow>
           if \<not> offer_sendable raw o1 then Some (s\<lparr>runs := (runs s)[c := r]\<rparr>)
           else if h \<in> set (held_hashes c (runs s)) then None
           else if \<not> offer_refs (insert_offer L h raw now o1 d)
             then Some (s\<lparr>runs := (runs s)[c := r\<lparr>own_rows := []\<rparr>]\<rparr>)
           else
             let e = insert_offer L h raw now o1 d in
             Some (s\<lparr>shared := (shared s)\<lparr>next_id := next_id e\<rparr>,
               runs := (runs s)[c := r\<lparr>own_rows := drop (length (offers (shared s))) (offers e),
                 run_results := run_results r
                   @ (case find_by_hash h e of None \<Rightarrow> [] | Some row \<Rightarrow> [(row, h \<notin> dedup_hash ` set (offers d))])\<rparr>]\<rparr>))"

fun run_act :: "pylib \<Rightarrow> run_action \<Rightarrow> ingest_runs \<Rightarrow> ingest_runs option" where
  "run_act L (Check_content c o1 raw now) s =
     (if c < length (runs s) \<and> to_insert (runs s ! c) = None
      then case find_content_duplicate o1 (seen_by (runs s ! c) (shared s)) of
             Some row \<Rightarrow>
               Some (s\<lparr>runs := (runs s)[c := (runs s ! c)\<lparr>run_results := run_results (runs s ! c) @ [(row, False)]\<rparr>]\<rparr>)
           | None \<Rightarrow> Some (s\<lparr>runs := (runs s)[c := (runs s ! c)\<lparr>to_insert := Some (o1, raw, now)\<rparr>]\<rparr>)
      else None)"
| "run_act L (Insert_offer c) s =
     (if c < length (runs s)
      then case to_insert (runs s ! c) of None \<Rightarrow> None | Some posting \<Rightarrow> insert_step L c posting s
      else None)"
| "run_act L (Commit_run c) s =
     (if c < length (runs s) \<and> to_insert (runs s ! c) = None
      then Some (s\<lparr>shared := seen_by (runs s ! c) (shared s), runs := (runs s)[c := (runs s ! c)\<lparr>own_rows := []\<rparr>]\<rparr>)
      else None)"
| "run_act L (Rollback_run c) s =
     (if c < length (runs s)
      then Some (s\<lparr>runs := (runs s)[c := (runs s ! c)\<lparr>own_rows := [], to_insert := None\<rparr>]\<rparr>) else None)"
| "run_act L (Other_transaction d) s =
     (if subseq (map offer_identity (offers d)) (map offer_identity (offers (shared s))) then Some (s\<lparr>shared := d\<rparr>) else None)"

fun run_acts :: "pylib \<Rightarrow> run_action list \<Rightarrow> ingest_runs \<Rightarrow> ingest_runs option" where
  "run_acts L [] s = Some s"
| "run_acts L (a # as) s = (case run_act L a s of None \<Rightarrow> None | Some t \<Rightarrow> run_acts L as t)"

definition no_run :: ingest_run where
  "no_run = \<lparr>own_rows = [], to_insert = None, run_results = []\<rparr>"

definition runs_open :: "nat \<Rightarrow> db \<Rightarrow> ingest_runs" where
  "runs_open n d = \<lparr>shared = d, runs = replicate n no_run\<rparr>"

section \<open>The rows of all transactions\<close>

definition all_rows :: "ingest_runs \<Rightarrow> offer_row list" where
  "all_rows s = offers (shared s) @ concat (map own_rows (runs s))"

definition hashes_unique :: "ingest_runs \<Rightarrow> bool" where
  "hashes_unique s \<longleftrightarrow> distinct (map dedup_hash (all_rows s))"

definition contents_unique :: "ingest_runs \<Rightarrow> bool" where
  "contents_unique s \<longleftrightarrow> distinct (map offer_content (all_rows s))"

lemma same_content_eq: "same_content a b \<longleftrightarrow> offer_content a = offer_content b"
  by (simp add: same_content_def offer_content_def)

lemma content_unique_eq: "content_unique d \<longleftrightarrow> distinct (map offer_content (offers d))"
proof -
  have "sorted_wrt (\<lambda>a b. offer_content a \<noteq> offer_content b) rows = distinct (map offer_content rows)" for rows :: "offer_row list"
    by (induction rows) auto
  then show ?thesis by (simp add: content_unique_def same_content_eq)
qed

lemma identities_decide:
  assumes "mset (map offer_identity (all_rows t)) \<subseteq># mset (map offer_identity (all_rows s))"
  shows "hashes_unique s \<Longrightarrow> hashes_unique t" and "contents_unique s \<Longrightarrow> contents_unique t"
proof -
  have hash: "mset (map dedup_hash xs) = image_mset fst (mset (map offer_identity xs))"
    and content: "mset (map offer_content xs) = image_mset snd (mset (map offer_identity xs))" for xs
    by (simp_all add: offer_identity_def multiset.map_comp comp_def)
  show "hashes_unique t" if "hashes_unique s"
    using that image_mset_subseteq_mono [OF assms, of fst] unfolding hashes_unique_def hash [symmetric]
    by (rule distinct_mset_le [rotated])
  show "contents_unique t" if "contents_unique s"
    using that image_mset_subseteq_mono [OF assms, of snd] unfolding contents_unique_def content [symmetric]
    by (rule distinct_mset_le [rotated])
qed

lemma run_replaced:
  assumes "c < length (runs s)" and "mset (own_rows r) \<subseteq># mset (own_rows (runs s ! c))"
  shows "mset (map offer_identity (all_rows (s\<lparr>runs := (runs s)[c := r]\<rparr>))) \<subseteq># mset (map offer_identity (all_rows s))"
proof -
  have "mset (concat (map own_rows ((runs s)[c := r]))) + mset (own_rows (runs s ! c))
      \<subseteq># mset (concat (map own_rows (runs s))) + mset (own_rows (runs s ! c))"
    using mset_concat_update [OF assms(1), of own_rows r] assms(2) by (simp add: subset_mset.add_left_mono)
  then have "mset (concat (map own_rows ((runs s)[c := r]))) \<subseteq># mset (concat (map own_rows (runs s)))" by simp
  then show ?thesis by (simp add: all_rows_def image_mset_subseteq_mono)
qed

text \<open>An insert that succeeds adds one row nobody has the hash of; no other step adds a row.\<close>

lemma insert_step_rows:
  assumes "insert_step L c (o1, raw, now) s = Some t" and "c < length (runs s)"
  shows "mset (map offer_identity (all_rows t)) \<subseteq># mset (map offer_identity (all_rows s))
    \<or> (\<exists>h row. dedup_hash row = h \<and> offer_content row = offer_content o1
        \<and> h \<notin> dedup_hash ` set (all_rows s) \<and> mset (all_rows t) = add_mset row (mset (all_rows s))
        \<and> runs t = (runs s)[c := runs t ! c] \<and> own_rows (runs t ! c) = own_rows (runs s ! c) @ [row]
        \<and> offers (shared t) = offers (shared s))"
proof -
  let ?r = "(runs s ! c)\<lparr>to_insert := None\<rparr>"
  let ?d = "seen_by ?r (shared s)"
  have keep: ?thesis if "t = s\<lparr>runs := (runs s)[c := r]\<rparr>" "mset (own_rows r) \<subseteq># mset (own_rows (runs s ! c))" for r
    using run_replaced [OF assms(2) that(2)] that(1) by blast
  show ?thesis
  proof (cases "compute_dedup_hash L o1")
    case (Inl e)
    then show ?thesis using assms(1) by (intro keep [of ?r]) (auto simp: insert_step_def Let_def)
  next
    case (Inr h)
    let ?e = "insert_offer L h raw now o1 ?d"
    consider "\<not> offer_sendable raw o1 \<or> \<not> offer_refs ?e"
      | "offer_sendable raw o1" "offer_refs ?e" "h \<notin> set (held_hashes c (runs s))"
      using assms(1) Inr by (auto simp: insert_step_def Let_def split: if_splits)
    then show ?thesis
    proof cases
      case 1
      then show ?thesis
        using assms(1) Inr
        by (cases "offer_sendable raw o1"; intro keep [of "if offer_sendable raw o1 then ?r\<lparr>own_rows := []\<rparr> else ?r"])
          (auto simp: insert_step_def Let_def split: if_splits)
    next
      case 2
      let ?own = "drop (length (offers (shared s))) (offers ?e)"
      have t: "offers (shared t) = offers (shared s)" "runs t = (runs s)[c := runs t ! c]" "own_rows (runs t ! c) = ?own"
        using assms Inr 2 by (auto simp: insert_step_def Let_def)
      show ?thesis
      proof (cases "h \<in> dedup_hash ` set (offers ?d)")
        case True
        then have "?own = own_rows (runs s ! c)" by (simp add: insert_offer_conflict seen_by_def)
        moreover have "mset (concat (map own_rows ((runs s)[c := runs t ! c]))) = mset (concat (map own_rows (runs s)))"
          using mset_concat_update [OF assms(2), of own_rows "runs t ! c"] t(3) calculation by simp
        ultimately have "mset (all_rows t) = mset (all_rows s)" using t(1,2) by (simp add: all_rows_def)
        then show ?thesis by simp
      next
        case False
        let ?row = "new_offer_row L (next_id ?d) h raw now o1"
        have own: "?own = own_rows (runs s ! c) @ [?row]" using False by (simp add: insert_offer_def seen_by_def)
        have "mset (concat (map own_rows ((runs s)[c := runs t ! c])))
            = add_mset ?row (mset (concat (map own_rows (runs s))))"
          using mset_concat_update [OF assms(2), of own_rows "runs t ! c"] t(3) own by simp
        then have "mset (all_rows t) = add_mset ?row (mset (all_rows s))" using t(1,2) by (simp add: all_rows_def)
        moreover have "h \<notin> dedup_hash ` set (all_rows s)"
        proof -
          have "mset (concat (map own_rows ((runs s)[c := (runs s ! c)\<lparr>own_rows := []\<rparr>]))) + mset (own_rows (runs s ! c))
              = mset (concat (map own_rows (runs s)))"
            using mset_concat_update [OF assms(2), of own_rows "(runs s ! c)\<lparr>own_rows := []\<rparr>"] by simp
          then have "set (concat (map own_rows (runs s)))
              = set (concat (map own_rows ((runs s)[c := (runs s ! c)\<lparr>own_rows := []\<rparr>]))) \<union> set (own_rows (runs s ! c))"
            by (metis set_mset_mset set_mset_union)
          then show ?thesis using False 2(3) by (auto simp: all_rows_def held_hashes_def seen_by_def)
        qed
        moreover have "offer_content ?row = offer_content o1" by (simp add: same_content_eq [symmetric])
        ultimately show ?thesis using t own by (intro disjI2 exI [of _ h] exI [of _ ?row]) auto
      qed
    qed
  qed
qed

section \<open>Hashes stay unique\<close>

lemma subseq_mset: "subseq xs ys \<Longrightarrow> mset xs \<subseteq># mset ys"
proof (induction rule: list_emb.induct)
  case (list_emb_Cons xs ys y)
  then show ?case by (metis add_mset_add_single mset.simps(2) mset_subset_eq_add_left subset_mset.order_trans)
qed auto

text \<open>A step other than an insert adds no row.\<close>

lemma run_act_rows:
  assumes "run_act L a s = Some t" and "\<And>c. a \<noteq> Insert_offer c"
  shows "mset (map offer_identity (all_rows t)) \<subseteq># mset (map offer_identity (all_rows s))"
proof (cases a)
  case (Check_content c o1 raw now)
  then have c: "c < length (runs s)" using assms(1) by (auto split: if_splits)
  then show ?thesis
    using assms(1) Check_content run_replaced [OF c, of "(runs s ! c)\<lparr>to_insert := Some (o1, raw, now)\<rparr>"]
      run_replaced [OF c, of "(runs s ! c)\<lparr>run_results := rr\<rparr>" for rr]
    by (auto split: if_splits option.splits)
next
  case (Commit_run c)
  then have c: "c < length (runs s)"
    and t: "t = s\<lparr>shared := seen_by (runs s ! c) (shared s), runs := (runs s)[c := (runs s ! c)\<lparr>own_rows := []\<rparr>]\<rparr>"
    using assms(1) by (auto split: if_splits)
  have "mset (all_rows t) = mset (all_rows s)"
    using mset_concat_update [OF c, of own_rows "(runs s ! c)\<lparr>own_rows := []\<rparr>"]
    by (simp add: all_rows_def t seen_by_def ac_simps)
  then show ?thesis by simp
next
  case (Rollback_run c)
  then show ?thesis
    using assms(1) run_replaced [of c s "(runs s ! c)\<lparr>own_rows := [], to_insert := None\<rparr>"]
    by (auto split: if_splits)
next
  case (Other_transaction d)
  then have "mset (map offer_identity (offers d)) \<subseteq># mset (map offer_identity (offers (shared s)))" "t = s\<lparr>shared := d\<rparr>"
    using assms(1) subseq_mset by (fastforce split: if_splits)+
  then show ?thesis by (simp add: all_rows_def)
qed (use assms(2) in simp)

lemma insert_offer_cases:
  assumes "run_act L (Insert_offer c) s = Some t"
  obtains o1 raw now where "c < length (runs s)" "to_insert (runs s ! c) = Some (o1, raw, now)"
    "insert_step L c (o1, raw, now) s = Some t"
  using assms by (auto split: if_splits option.splits)

lemma hashes_unique_act:
  assumes "run_act L a s = Some t" and "hashes_unique s"
  shows "hashes_unique t"
proof (cases "\<exists>c. a = Insert_offer c")
  case True
  then obtain c o1 raw now where "c < length (runs s)" "insert_step L c (o1, raw, now) s = Some t"
    using assms(1) by (auto elim: insert_offer_cases)
  from insert_step_rows [OF this(2,1)] show ?thesis
  proof (elim disjE exE conjE)
    fix h row
    assume "dedup_hash row = h" "h \<notin> dedup_hash ` set (all_rows s)" "mset (all_rows t) = add_mset row (mset (all_rows s))"
    then have "mset (map dedup_hash (all_rows t)) = mset (h # map dedup_hash (all_rows s))"
      and "distinct (h # map dedup_hash (all_rows s))"
      using assms(2) by (simp_all add: hashes_unique_def)
    then show ?thesis unfolding hashes_unique_def by (metis mset_eq_imp_distinct_iff)
  qed (rule identities_decide(1) [OF _ assms(2)])
next
  case False
  then show ?thesis using identities_decide(1) [OF run_act_rows [OF assms(1)] assms(2)] by blast
qed

lemma run_acts_keep:
  assumes "\<And>a s t. run_act L a s = Some t \<Longrightarrow> I s \<Longrightarrow> I t"
  shows "run_acts L as s = Some t \<Longrightarrow> I s \<Longrightarrow> I t"
  by (induction as arbitrary: s) (auto simp del: run_act.simps split: option.splits dest: assms)

section \<open>Contents stay unique when runs take turns\<close>

definition at_rest :: "ingest_run \<Rightarrow> bool" where
  "at_rest r \<longleftrightarrow> own_rows r = [] \<and> to_insert r = None"

text \<open>A run looks for duplicates only while every other one has nothing it has not committed.\<close>

fun take_turns :: "pylib \<Rightarrow> run_action list \<Rightarrow> ingest_runs \<Rightarrow> bool" where
  "take_turns L [] s = True"
| "take_turns L (a # as) s =
     ((case a of Check_content c o1 raw now \<Rightarrow> list_all at_rest ((runs s)[c := no_run]) | _ \<Rightarrow> True)
      \<and> (case run_act L a s of None \<Rightarrow> True | Some t \<Rightarrow> take_turns L as t))"

definition one_busy :: "ingest_run list \<Rightarrow> bool" where
  "one_busy rs \<longleftrightarrow> (\<forall>i<length rs. \<forall>j<length rs. \<not> at_rest (rs ! i) \<longrightarrow> \<not> at_rest (rs ! j) \<longrightarrow> i = j)"

definition contents_ok :: "ingest_runs \<Rightarrow> bool" where
  "contents_ok s \<longleftrightarrow> contents_unique s \<and> one_busy (runs s)
     \<and> (\<forall>c<length (runs s). case to_insert (runs s ! c) of None \<Rightarrow> True
         | Some (o1, raw, now) \<Rightarrow> offer_content o1 \<notin> offer_content ` set (all_rows s))"

lemma one_busy_update:
  assumes "one_busy rs" and "c < length rs" and "at_rest r \<or> \<not> at_rest (rs ! c) \<or> list_all at_rest (rs[c := no_run])"
  shows "one_busy (rs[c := r])"
proof -
  have "at_rest (rs ! i)" if "list_all at_rest (rs[c := no_run])" "i < length rs" "i \<noteq> c" for i
    using that by (metis length_list_update list_all_length nth_list_update_neq)
  then show ?thesis
    using assms unfolding one_busy_def by (auto simp: nth_list_update split: if_splits)
qed

lemma content_seen:
  "find_content_duplicate o1 d = None \<longleftrightarrow> offer_content o1 \<notin> offer_content ` set (offers d)"
  unfolding find_content_duplicate_def find_None_iff same_content_eq by force

lemma all_rows_at_rest:
  assumes "list_all at_rest (rs[c := no_run])" and "c < length rs"
  shows "concat (map own_rows rs) = own_rows (rs ! c)"
proof -
  have "concat (map own_rows (rs[c := no_run])) = []"
    using assms(1) by (induction "rs[c := no_run]") (auto simp: list_all_iff at_rest_def)
  then have none: "concat (map own_rows (take c rs)) = []" "concat (map own_rows (drop (Suc c) rs)) = []"
    using assms(2) by (auto simp: upd_conv_take_nth_drop)
  have "concat (map own_rows rs) = concat (map own_rows (take c rs @ rs ! c # drop (Suc c) rs))"
    using assms(2) by (simp add: id_take_nth_drop [symmetric])
  then show ?thesis using none by simp
qed

lemma contents_shrink:
  assumes "mset (map offer_identity (all_rows t)) \<subseteq># mset (map offer_identity (all_rows s))"
  shows "offer_content ` set (all_rows t) \<subseteq> offer_content ` set (all_rows s)"
proof -
  have "offer_content ` set xs = snd ` set (map offer_identity xs)" for xs
    by (force simp: offer_identity_def)
  then show ?thesis using set_mset_mono [OF assms] by (metis image_mono set_mset_mset)
qed

text \<open>A step of a run that adds no row and starts no insert.\<close>

lemma contents_ok_quiet:
  assumes "contents_ok s" and "mset (map offer_identity (all_rows t)) \<subseteq># mset (map offer_identity (all_rows s))"
    and "runs t = (runs s)[c := r]" and "c < length (runs s)"
    and "at_rest r \<or> \<not> at_rest (runs s ! c) \<or> list_all at_rest ((runs s)[c := no_run])"
    and "to_insert r = None \<or> to_insert r = to_insert (runs s ! c)"
  shows "contents_ok t"
proof -
  have "contents_unique t" "one_busy (runs t)"
    using assms identities_decide(2) [OF assms(2)] one_busy_update [OF _ assms(4,5)]
    by (simp_all add: contents_ok_def)
  moreover have "case to_insert (runs t ! i) of None \<Rightarrow> True
     | Some (o1, raw, now) \<Rightarrow> offer_content o1 \<notin> offer_content ` set (all_rows t)" if "i < length (runs t)" for i
  proof -
    have old: "case to_insert (runs s ! i) of None \<Rightarrow> True
       | Some (o1, raw, now) \<Rightarrow> offer_content o1 \<notin> offer_content ` set (all_rows s)"
      using assms(1,3) that by (simp add: contents_ok_def)
    have "to_insert (runs t ! i) = None \<or> to_insert (runs t ! i) = to_insert (runs s ! i)"
      using assms(3,4,6) that by (cases "i = c") auto
    then show ?thesis using old contents_shrink [OF assms(2)] by (auto split: option.splits)
  qed
  ultimately show ?thesis by (simp add: contents_ok_def)
qed

lemma contents_ok_check:
  assumes "run_act L (Check_content c o1 raw now) s = Some t" and "contents_ok s"
    and "list_all at_rest ((runs s)[c := no_run])"
  shows "contents_ok t"
proof -
  have c: "c < length (runs s)" using assms(1) by (auto split: if_splits)
  have shrink: "mset (map offer_identity (all_rows t)) \<subseteq># mset (map offer_identity (all_rows s))"
    using run_act_rows [OF assms(1)] by simp
  show ?thesis
  proof (cases "find_content_duplicate o1 (seen_by (runs s ! c) (shared s))")
    case (Some row)
    then have "runs t = (runs s)[c := (runs s ! c)\<lparr>run_results := run_results (runs s ! c) @ [(row, False)]\<rparr>]"
      using assms(1) by (auto split: if_splits)
    then show ?thesis using assms(3) c by (intro contents_ok_quiet [OF assms(2) shrink]) auto
  next
    case None
    then have t: "t = s\<lparr>runs := (runs s)[c := (runs s ! c)\<lparr>to_insert := Some (o1, raw, now)\<rparr>]\<rparr>"
      using assms(1) by (auto split: if_splits)
    have "offer_content o1 \<notin> offer_content ` set (all_rows s)"
      using None all_rows_at_rest [OF assms(3) c] by (simp add: content_seen all_rows_def seen_by_def)
    then have new: "offer_content o1 \<notin> offer_content ` set (all_rows t)" using contents_shrink [OF shrink] by blast
    have rest: "to_insert (runs s ! i) = None" if "i < length (runs s)" "i \<noteq> c" for i
      using assms(3) that by (metis at_rest_def length_list_update list_all_length nth_list_update_neq)
    have "contents_unique t" "one_busy (runs t)"
      using assms(2,3) identities_decide(2) [OF shrink] one_busy_update [OF _ c] by (simp_all add: contents_ok_def t)
    then show ?thesis
      using new rest c by (auto simp: contents_ok_def t nth_list_update)
  qed
qed

lemma contents_ok_insert:
  assumes "run_act L (Insert_offer c) s = Some t" and "contents_ok s"
  shows "contents_ok t"
proof -
  obtain o1 raw now where c: "c < length (runs s)" and wait: "to_insert (runs s ! c) = Some (o1, raw, now)"
    and step: "insert_step L c (o1, raw, now) s = Some t"
    using assms(1) by (rule insert_offer_cases)
  have runs: "runs t = (runs s)[c := runs t ! c]" "to_insert (runs t ! c) = None"
    using step c by (auto simp: insert_step_def Let_def split: sum.splits if_splits)
  have active: "\<not> at_rest (runs s ! c)" using wait by (simp add: at_rest_def)
  from insert_step_rows [OF step c] show ?thesis
  proof (elim disjE exE conjE)
    fix h row
    assume row: "offer_content row = offer_content o1" "mset (all_rows t) = add_mset row (mset (all_rows s))"
    have new: "offer_content o1 \<notin> offer_content ` set (all_rows s)"
      using assms(2) c wait unfolding contents_ok_def by fastforce
    have "mset (map offer_content (all_rows t)) = mset (offer_content o1 # map offer_content (all_rows s))"
      using row by simp
    then have "contents_unique t"
      using new assms(2) unfolding contents_unique_def contents_ok_def
      by (metis distinct.simps(2) image_set mset_eq_imp_distinct_iff)
    moreover have "one_busy (runs t)"
      using one_busy_update [OF _ c, of "runs t ! c"] assms(2) active runs(1) by (simp add: contents_ok_def)
    moreover have "to_insert (runs t ! i) = None" if "i < length (runs t)" for i
    proof (cases "i = c")
      case False
      then have "at_rest (runs s ! i)"
        using assms(2) c active that runs(1) unfolding contents_ok_def one_busy_def by (metis length_list_update)
      with False runs(1) show ?thesis by (metis at_rest_def nth_list_update_neq)
    qed (use runs(2) in simp)
    ultimately show ?thesis by (simp add: contents_ok_def)
  next
    assume "mset (map offer_identity (all_rows t)) \<subseteq># mset (map offer_identity (all_rows s))"
    then show ?thesis using runs active c by (intro contents_ok_quiet [OF assms(2) _ runs(1) c]) auto
  qed
qed

lemma contents_ok_act:
  assumes "run_act L a s = Some t" and "contents_ok s"
    and "case a of Check_content c o1 raw now \<Rightarrow> list_all at_rest ((runs s)[c := no_run]) | _ \<Rightarrow> True"
  shows "contents_ok t"
proof (cases a)
  case (Check_content c o1 raw now)
  then show ?thesis using contents_ok_check assms by (simp del: run_act.simps)
next
  case (Insert_offer c)
  then show ?thesis using contents_ok_insert assms by (simp del: run_act.simps)
next
  case (Other_transaction d)
  then have shrink: "mset (map offer_identity (all_rows t)) \<subseteq># mset (map offer_identity (all_rows s))"
    using run_act_rows [OF assms(1)] by simp
  have "runs t = runs s" using assms(1) Other_transaction by (auto split: if_splits)
  then show ?thesis
    using assms(2) identities_decide(2) [OF shrink] contents_shrink [OF shrink]
    by (force simp: contents_ok_def split: option.splits)
next
  case (Commit_run c)
  then have "c < length (runs s)" "runs t = (runs s)[c := (runs s ! c)\<lparr>own_rows := []\<rparr>]" "to_insert (runs s ! c) = None"
    using assms(1) by (auto split: if_splits)
  then show ?thesis
    using run_act_rows [OF assms(1)] Commit_run by (intro contents_ok_quiet [OF assms(2)]) (auto simp: at_rest_def)
next
  case (Rollback_run c)
  then have "c < length (runs s)" "runs t = (runs s)[c := (runs s ! c)\<lparr>own_rows := [], to_insert := None\<rparr>]"
    using assms(1) by (auto split: if_splits)
  then show ?thesis
    using run_act_rows [OF assms(1)] Rollback_run by (intro contents_ok_quiet [OF assms(2)]) (auto simp: at_rest_def)
qed

lemma contents_ok_acts:
  "run_acts L as s = Some t \<Longrightarrow> contents_ok s \<Longrightarrow> take_turns L as s \<Longrightarrow> contents_ok t"
  by (induction as arbitrary: s) (auto simp del: run_act.simps split: option.splits dest: contents_ok_act)

lemma runs_open_ok:
  "contents_ok (runs_open n d) \<longleftrightarrow> content_unique d" "hashes_unique (runs_open n d) \<longleftrightarrow> distinct (map dedup_hash (offers d))"
  by (auto simp: contents_ok_def contents_unique_def hashes_unique_def one_busy_def all_rows_def runs_open_def
      no_run_def at_rest_def content_unique_eq)

text \<open>C4: However the steps of several runs mix, no two stored offers have the same hash. Offers of the same
  content are kept apart as well if a run checks for duplicates only while no other run holds rows it
  has not committed.
\<close>

theorem parallel_runs_safe:
  assumes "run_acts L as (runs_open n d) = Some s"
    and "distinct (map dedup_hash (offers d))" and "content_unique d"
  shows "distinct (map dedup_hash (offers (shared s)))
    \<and> (take_turns L as (runs_open n d) \<longrightarrow> content_unique (shared s))"
proof -
  have "hashes_unique s"
    by (rule run_acts_keep [where I = hashes_unique, OF hashes_unique_act assms(1)]) (use assms(2) in \<open>simp_all add: runs_open_ok\<close>)
  then have hashes: "distinct (map dedup_hash (offers (shared s)))" by (simp add: hashes_unique_def all_rows_def)
  have "content_unique (shared s)" if "take_turns L as (runs_open n d)"
  proof -
    have "contents_ok s" using contents_ok_acts [OF assms(1)] that assms(3) runs_open_ok(1) by blast
    then show ?thesis by (simp add: contents_ok_def contents_unique_def all_rows_def content_unique_eq)
  qed
  with hashes show ?thesis by blast
qed

section \<open>A run alone\<close>

lemma held_hashes_update: "own_rows r = own_rows (rs ! c) \<Longrightarrow> held_hashes c (rs[c := r]) = held_hashes c rs"
  by (cases "c < length rs") (simp_all add: held_hashes_def map_update)

text \<open>With nothing in its way, a run's two steps are one call of \<open>persist_offer\<close>.\<close>

lemma persist_is_check_and_insert:
  assumes "persist_offer L o1 raw now x = (Inr (r, created), t)"
    and "working x = seen_by (runs s ! c) (shared s)" and "c < length (runs s)" and "to_insert (runs s ! c) = None"
    and "\<And>h. compute_dedup_hash L o1 = Inr h \<Longrightarrow> h \<notin> set (held_hashes c (runs s))"
  shows "\<exists>as u. set as \<subseteq> {Check_content c o1 raw now, Insert_offer c} \<and> run_acts L as s = Some u
    \<and> offers (seen_by (runs u ! c) (shared u)) = offers (working t)
    \<and> run_results (runs u ! c) = run_results (runs s ! c) @ [(r, created)]"
  using assms(1)
proof (cases rule: persist_cases)
  case duplicate
  let ?u = "s\<lparr>runs := (runs s)[c := (runs s ! c)\<lparr>run_results := run_results (runs s ! c) @ [(r, False)]\<rparr>]\<rparr>"
  have "run_acts L [Check_content c o1 raw now] s = Some ?u"
    using assms(2-4) duplicate by simp
  moreover have "offers (seen_by (runs ?u ! c) (shared ?u)) = offers (working t)"
    using assms(2,3) duplicate by (simp add: seen_by_def)
  ultimately show ?thesis using assms(3) duplicate
    by (intro exI [of _ "[Check_content c o1 raw now]"] exI [of _ ?u]) simp
next
  case (conflict h)
  let ?as = "[Check_content c o1 raw now, Insert_offer c]"
  have "\<exists>u. run_acts L ?as s = Some u \<and> offers (seen_by (runs u ! c) (shared u)) = offers (working t)
    \<and> run_results (runs u ! c) = run_results (runs s ! c) @ [(r, created)]"
    using assms(2-5) conflict
    by (simp add: insert_step_def Let_def seen_by_def held_hashes_update find_by_hash_def insert_offer_conflict)
  then show ?thesis by (intro exI [of _ ?as]) auto
next
  case (inserted h)
  let ?as = "[Check_content c o1 raw now, Insert_offer c]"
  have refs: "offer_refs (insert_offer L h raw now o1 (working x))"
    using assms(1) inserted by (auto simp: persist_offer_def run_simps split: if_splits)
  have "\<exists>u. run_acts L ?as s = Some u \<and> offers (seen_by (runs u ! c) (shared u)) = offers (working t)
    \<and> run_results (runs u ! c) = run_results (runs s ! c) @ [(r, created)]"
    using assms(2-5) inserted refs find_hash_after_insert [OF inserted(3), of L raw now o1]
    by (simp add: insert_step_def Let_def seen_by_def held_hashes_update insert_offer_def)
  then show ?thesis by (intro exI [of _ ?as]) auto
qed

section \<open>Two runs at once\<close>

text \<open>One posting as two boards list it, and the other posting of each of two runs.\<close>

definition listed_at :: "string \<Rightarrow> string \<Rightarrow> offer" where
  "listed_at address name = sample_offer\<lparr>canonical_url := Some (lit address), title := lit name\<rparr>"

definition same_posting_twice :: "run_action list" where
  "same_posting_twice =
     [Check_content 0 (listed_at ''https://a.pl/j/1'' ''Dev'') [] 5, Check_content 1 (listed_at ''https://b.pl/j/7'' ''Dev'') [] 5,
      Insert_offer 0, Insert_offer 1, Commit_run 0, Commit_run 1]"

definition crossed_postings :: "run_action list" where
  "crossed_postings =
     [Check_content 0 (listed_at ''https://a.pl/j/1'' ''Dev'') [] 5, Insert_offer 0,
      Check_content 1 (listed_at ''https://a.pl/j/2'' ''Ops'') [] 5, Insert_offer 1,
      Check_content 0 (listed_at ''https://a.pl/j/2'' ''DevOps'') [] 5,
      Check_content 1 (listed_at ''https://a.pl/j/1'' ''DevOps'') [] 5]"

text \<open>Two runs that hold the same posting under different addresses store it twice: the check for a content
  duplicate does not see the rows another run has not committed, and no constraint stands behind it.
  Two runs that meet each other's postings in opposite order wait for each other.
\<close>

theorem parallel_runs_duplicate_and_block:
  "(case run_acts sample_lib same_posting_twice (runs_open 2 sample_db) of
      None \<Rightarrow> False
    | Some s \<Rightarrow> content_unique sample_db \<and> \<not> content_unique (shared s) \<and> length (offers (shared s)) = 2)
   \<and> (case run_acts sample_lib crossed_postings (runs_open 2 sample_db) of
      None \<Rightarrow> False
    | Some s \<Rightarrow> run_act sample_lib (Insert_offer 0) s = None \<and> run_act sample_lib (Insert_offer 1) s = None)"
  by code_simp

theorem parallel_runs_safe_witness:
  "(case run_acts sample_lib (take 2 crossed_postings @ Commit_run 0 # take 2 (drop 2 crossed_postings) @ [Commit_run 1])
      (runs_open 2 sample_db) of
      None \<Rightarrow> False
    | Some s \<Rightarrow> length (offers (shared s)) = 2 \<and> content_unique (shared s))"
proof -
  let ?as = "take 2 crossed_postings @ Commit_run 0 # take 2 (drop 2 crossed_postings) @ [Commit_run 1]"
  have "case run_acts sample_lib ?as (runs_open 2 sample_db) of None \<Rightarrow> False | Some s \<Rightarrow> length (offers (shared s)) = 2"
    by code_simp
  then obtain s where run: "run_acts sample_lib ?as (runs_open 2 sample_db) = Some s" and two: "length (offers (shared s)) = 2"
    by (auto simp del: run_acts.simps split: option.splits)
  have turns: "take_turns sample_lib ?as (runs_open 2 sample_db)" by code_simp
  have "distinct (map dedup_hash (offers sample_db))" "content_unique sample_db"
    by (simp_all add: sample_db_def empty_db_def content_unique_def)
  from parallel_runs_safe [OF run this] turns two run show ?thesis by (simp del: run_acts.simps)
qed

end
