(* ===== verification/Columns.thy ===== *)
theory Columns
  imports Migrations ScoringApi Lifecycle
begin

text \<open>
  The columns of the mapped classes and the values the code writes into them: what validation lets
  through and what scoring produces fits its table, and a dead letter fits it unless its key is too long.
\<close>

section \<open>Values and columns\<close>

datatype cell = C_null | C_int int | C_text pystr | C_bool bool | C_time | C_json

definition int4 :: "int \<Rightarrow> bool" where
  "int4 n \<longleftrightarrow> - (2 ^ 31) \<le> n \<and> n < 2 ^ 31"

fun type_fits :: "col_type \<Rightarrow> cell \<Rightarrow> bool" where
  "type_fits T_Integer (C_int n) = int4 n"
| "type_fits (T_String w) (C_text s) = (length s \<le> w)"
| "type_fits T_Text (C_text s) = True"
| "type_fits T_Boolean (C_bool b) = True"
| "type_fits T_DateTime C_time = True"
| "type_fits T_JSONB C_json = True"
| "type_fits _ _ = False"

definition cell_fits :: "column \<Rightarrow> cell \<Rightarrow> bool" where
  "cell_fits c v \<longleftrightarrow> (if v = C_null then col_nullable c else type_fits (col_type c) v)"

text \<open>A statement names columns in their order; one it leaves out is null or has a default.\<close>

definition omittable :: "column \<Rightarrow> bool" where
  "omittable c \<longleftrightarrow> col_nullable c \<or> col_default c \<noteq> None"

fun cells_fit :: "column list \<Rightarrow> (string \<times> cell) list \<Rightarrow> bool" where
  "cells_fit [] vs = (vs = [])"
| "cells_fit (c # cs) [] = (omittable c \<and> cells_fit cs [])"
| "cells_fit (c # cs) ((n, v) # vs) =
     (if col_name c = n then cell_fits c v \<and> cells_fit cs vs else omittable c \<and> cells_fit cs ((n, v) # vs))"

definition row_fits :: "db_table \<Rightarrow> (string \<times> cell) list \<Rightarrow> bool" where
  "row_fits t vs = cells_fit (tb_columns t) vs"

definition nullable_cell :: "('a \<Rightarrow> cell) \<Rightarrow> 'a option \<Rightarrow> cell" where
  "nullable_cell f v = (case v of None \<Rightarrow> C_null | Some x \<Rightarrow> f x)"

section \<open>Rows as statements\<close>

definition offer_cells :: "offer_row \<Rightarrow> (string \<times> cell) list" where
  "offer_cells r =
     [(''id'', C_int (offer_id r)), (''source_id'', C_int (source_id r)),
      (''external_id'', nullable_cell C_text (external_id r)), (''canonical_url'', nullable_cell C_text (canonical_url r)),
      (''dedup_hash'', C_text (dedup_hash r)), (''title'', C_text (title r)), (''company'', C_text (company r)),
      (''location'', nullable_cell C_text (location r)), (''remote'', C_bool (remote r)),
      (''seniority'', nullable_cell C_text (seniority r)), (''salary_min'', nullable_cell C_int (salary_min r)),
      (''salary_max'', nullable_cell C_int (salary_max r)), (''salary_currency'', C_text (salary_currency r)),
      (''contract_type'', nullable_cell C_text (contract_type r)), (''description'', nullable_cell C_text (description r)),
      (''posted_at'', nullable_cell (\<lambda>_. C_time) (posted_at r)), (''industry_tags'', C_json),
      (''applied'', C_bool (applied r)), (''hide'', C_bool (hide r)), (''notes'', nullable_cell C_text (offer_notes r)),
      (''link_opened_at'', nullable_cell (\<lambda>_. C_time) (link_opened_at r)), (''raw_payload'', C_json),
      (''created_at'', C_time)]"

definition match_score_cells :: "match_score_row \<Rightarrow> (string \<times> cell) list" where
  "match_score_cells r =
     [(''id'', C_int (ms_id r)), (''offer_id'', C_int (ms_offer_id r)), (''profile_id'', C_int (ms_profile_id r)),
      (''engine'', C_text (ms_engine r)), (''score_percent'', C_int (ms_score_percent r)), (''dimensions'', C_json),
      (''rationale'', nullable_cell C_text (ms_rationale r)), (''created_at'', C_time)]"

definition run_cells :: "run_row \<Rightarrow> (string \<times> cell) list" where
  "run_cells r =
     [(''id'', C_int (run_id r)), (''source_id'', C_int (run_source_id r)), (''trigger_type'', C_text (run_trigger_type r)),
      (''status'', C_text (run_status r)), (''fetched_count'', nullable_cell C_int (fetched_count r)),
      (''created_count'', nullable_cell C_int (created_count r)), (''warning'', C_bool (run_warning r)),
      (''error_message'', nullable_cell C_text (run_error_message r)), (''started_at'', C_time),
      (''finished_at'', nullable_cell (\<lambda>_. C_time) (run_finished_at r))]"

definition ingestion_failure_cells :: "ingestion_failure \<Rightarrow> (string \<times> cell) list" where
  "ingestion_failure_cells r =
     [(''id'', C_int (dl_id r)), (''dedup_key'', C_text (dedup_key r)), (''failure_type'', C_text (failure_type r)),
      (''error_message'', C_text (error_message r)), (''raw_payload'', nullable_cell (\<lambda>_. C_json) (dl_raw_payload r)),
      (''status'', C_text (dl_status r)), (''occurred_at'', C_time),
      (''resolved_at'', nullable_cell (\<lambda>_. C_time) (resolved_at r)), (''source_id'', C_int (if_source_id r)),
      (''scheduler_run_id'', nullable_cell C_int (scheduler_run_id r)), (''page'', nullable_cell C_int (page r)),
      (''url'', nullable_cell C_text (url r)), (''blocked_status'', nullable_cell C_int (blocked_status r)),
      (''retry_count'', C_int (retry_count r))]"

section \<open>What fits\<close>

named_theorems fits_simps \<open>when a value fits a column\<close>

declare row_fits_def [fits_simps] class_table_def [fits_simps] column.truncate_def [fits_simps] omittable_def [fits_simps]

lemma cell_fits_plain [fits_simps]:
  "cell_fits c (C_int n) = type_fits (col_type c) (C_int n)" "cell_fits c (C_text s) = type_fits (col_type c) (C_text s)"
  "cell_fits c (C_bool b) = type_fits (col_type c) (C_bool b)" "cell_fits c C_time = type_fits (col_type c) C_time"
  "cell_fits c C_json = type_fits (col_type c) C_json"
  by (simp_all add: cell_fits_def)

lemma cell_fits_nullable [fits_simps]:
  "cell_fits (col n (T_String w) True d) (nullable_cell C_text v) = max_len w v"
  "cell_fits (col n T_Text True d) (nullable_cell C_text v)"
  "cell_fits (col n T_Integer True d) (nullable_cell C_int i) = fits_int4 i"
  "cell_fits (col n T_DateTime True d) (nullable_cell (\<lambda>_. C_time) t)"
  "cell_fits (col n T_JSONB True d) (nullable_cell (\<lambda>_. C_json) j)"
  by (cases v; cases i; cases t; cases j; simp add: cell_fits_def nullable_cell_def max_len_def int4_def)+

lemma offer_row_fits:
  "row_fits Offer_table (offer_cells r) \<longleftrightarrow>
     int4 (offer_id r) \<and> int4 (source_id r) \<and> max_len 255 (external_id r) \<and> length (dedup_hash r) \<le> 64
     \<and> length (title r) \<le> 500 \<and> length (company r) \<le> 255 \<and> max_len 50 (seniority r)
     \<and> fits_int4 (salary_min r) \<and> fits_int4 (salary_max r) \<and> length (salary_currency r) \<le> 3
     \<and> max_len 50 (contract_type r)"
  by (simp add: fits_simps Offer_table_def offer_cells_def)

lemma match_score_row_fits:
  "row_fits MatchScore_table (match_score_cells r) \<longleftrightarrow>
     int4 (ms_id r) \<and> int4 (ms_offer_id r) \<and> int4 (ms_profile_id r) \<and> length (ms_engine r) \<le> 20
     \<and> int4 (ms_score_percent r)"
  by (simp add: fits_simps MatchScore_table_def match_score_cells_def)

lemma run_row_fits:
  "row_fits SchedulerRun_table (run_cells r) \<longleftrightarrow>
     int4 (run_id r) \<and> int4 (run_source_id r) \<and> length (run_trigger_type r) \<le> 20 \<and> length (run_status r) \<le> 20
     \<and> fits_int4 (fetched_count r) \<and> fits_int4 (created_count r)"
  by (simp add: fits_simps SchedulerRun_table_def run_cells_def)

lemma ingestion_failure_row_fits:
  "row_fits IngestionFailure_table (ingestion_failure_cells r) \<longleftrightarrow>
     int4 (dl_id r) \<and> length (dedup_key r) \<le> 255 \<and> length (failure_type r) \<le> 30 \<and> length (dl_status r) \<le> 20
     \<and> int4 (if_source_id r) \<and> fits_int4 (scheduler_run_id r) \<and> fits_int4 (page r)
     \<and> fits_int4 (blocked_status r) \<and> int4 (retry_count r)"
  by (simp add: fits_simps IngestionFailure_table_def DeadLetterMixin_columns_def ingestion_failure_cells_def)

section \<open>What the code writes\<close>

lemma hash_is_a_digest: "compute_dedup_hash L o1 = Inr h \<Longrightarrow> \<exists>x. h = sha256_hex L x"
  by (auto simp: compute_dedup_hash_def bindE_Inr_iff split: option.splits if_splits)

lemma new_offer_row_fields:
  "external_id (new_offer_row L n h raw now o1) = external_id o1" "title (new_offer_row L n h raw now o1) = title o1"
  "company (new_offer_row L n h raw now o1) = company o1" "seniority (new_offer_row L n h raw now o1) = seniority o1"
  "salary_min (new_offer_row L n h raw now o1) = salary_min o1" "salary_max (new_offer_row L n h raw now o1) = salary_max o1"
  "salary_currency (new_offer_row L n h raw now o1) = salary_currency o1"
  "contract_type (new_offer_row L n h raw now o1) = contract_type o1"
  by (simp_all add: new_offer_row_def offer.defs)

text \<open>C6: An offer that passed validation and that \<open>persist_offer\<close> stored fits the columns of its table: no
  string is longer than its column, no column that may not be null is, and every number has four bytes.
\<close>

theorem stored_offers_fit_their_columns:
  assumes "offer_model_validate L d = Inr o1" and "persist_offer L o1 raw now s = (Inr (r, True), t)"
    and "\<And>x. length (sha256_hex L x) = 64" and "int4 (source_id o1)" and "int4 (next_id (working s))"
  shows "row_fits Offer_table (offer_cells r)"
  using assms(2)
proof (cases rule: persist_cases)
  case (inserted h)
  have "offer_ok o1" using offer_model_validate_ok [OF assms(1)] by simp
  moreover have "length h = 64" using hash_is_a_digest [OF inserted(2)] assms(3) by blast
  ultimately show ?thesis
    using inserted(5,8) assms(4,5) by (simp add: offer_row_fits new_offer_row_fields offer_ok_def offer_sendable_def)
qed simp_all

lemma scores_fit_their_columns:
  assumes "score_offer ch oid pid p o1 = Inr m" and "int4 oid" "int4 pid" "int4 n"
  shows "row_fits MatchScore_table (match_score_cells (score_row n now m))"
proof -
  have "match_score_ok m" "score_engine m = lit ''langchain''"
    using assms(1) by (auto simp: score_offer_def Let_def bindE_Inr_iff match_score_model_def check_def split: if_splits)
  then show ?thesis
    using assms score_offer_ids [OF assms(1)] by (simp add: match_score_row_fits score_row_def match_score_ok_def int4_def)
qed

lemma run_status_lengths: "length st_running \<le> 20" "length st_ok \<le> 20" "length st_error \<le> 20"
  by (simp_all add: st_running_def st_ok_def st_error_def)

lemma failure_value_length: "length (failure_value k) \<le> 30"
  by (cases k) simp_all

text \<open>The numbers among the fields of a dead letter.\<close>

fun field_int4 :: "ingestion_field \<Rightarrow> bool" where
  "field_int4 (F_source_id n) = int4 n"
| "field_int4 (F_page n) = int4 n"
| "field_int4 (F_blocked_status b) = fits_int4 b"
| "field_int4 (F_scheduler_run_id n) = int4 n"
| "field_int4 _ = True"

definition numbers_int4 :: "ingestion_failure \<Rightarrow> bool" where
  "numbers_int4 r \<longleftrightarrow> int4 (dl_id r) \<and> int4 (if_source_id r) \<and> fits_int4 (scheduler_run_id r) \<and> fits_int4 (page r)
     \<and> fits_int4 (blocked_status r) \<and> int4 (retry_count r)"

lemma assign_keeps_numbers:
  "list_all field_int4 fs \<Longrightarrow> numbers_int4 r \<Longrightarrow>
   numbers_int4 (fold assign_ingestion_field fs r) \<and> dedup_key (fold assign_ingestion_field fs r) = dedup_key r"
proof (induction fs arbitrary: r)
  case (Cons f fs)
  have "numbers_int4 (assign_ingestion_field f r) \<and> dedup_key (assign_ingestion_field f r) = dedup_key r"
    using Cons.prems by (cases f) (auto simp: numbers_int4_def int4_def)
  then show ?case using Cons.IH [of "assign_ingestion_field f r"] Cons.prems(1) by simp
qed simp

text \<open>
  A new dead letter fits its table exactly when its key does; the keys of validation failures are built
  from the posting and have no bound.
\<close>

lemma dead_letters_fit_by_their_key:
  assumes "list_all field_int4 fs" and "int4 n"
  shows "row_fits IngestionFailure_table
      (ingestion_failure_cells ((touch_open k now \<circ> fold assign_ingestion_field fs) (blank_ingestion_failure n key)))
    \<longleftrightarrow> length key \<le> dedup_key_width"
proof -
  let ?b = "blank_ingestion_failure n key"
  have b: "numbers_int4 ?b" "dedup_key ?b = key"
    using assms(2) by (simp_all add: numbers_int4_def blank_ingestion_failure_def blank_dead_letter_def dead_letter.defs int4_def)
  then show ?thesis
    using assign_keeps_numbers [OF assms(1) b(1)] failure_value_length [of k]
    by (simp add: ingestion_failure_row_fits numbers_int4_def touch_open_def dedup_key_width_def status_open_def)
qed

definition digest_lib :: pylib where
  "digest_lib = sample_lib\<lparr>sha256_hex := \<lambda>_. replicate 64 48\<rparr>"

lemma stored_offers_fit_their_columns_witness:
  "\<exists>r t. persist_offer digest_lib sample_offer [] 5 (open_session sample_db) = (Inr (r, True), t)
     \<and> row_fits Offer_table (offer_cells r)"
proof -
  have "(case persist_offer digest_lib sample_offer [] 5 (open_session sample_db) of
      (Inr (r, c), t) \<Rightarrow> c | _ \<Rightarrow> False)" by code_simp
  then obtain r t where run: "persist_offer digest_lib sample_offer [] 5 (open_session sample_db) = (Inr (r, True), t)"
    by (auto split: prod.splits sum.splits)
  have "offer_model_validate digest_lib sample_posting = Inr sample_offer" by code_simp
  from stored_offers_fit_their_columns [OF this run] run show ?thesis
    by (simp add: digest_lib_def int4_def sample_offer_def sample_db_def open_session_def)
qed

end
