(* ===== verification/Application.thy ===== *)
theory Application
  imports Boot
begin

text \<open>
  The process around the application: the settings of \<open>app/config.py\<close>, the database URL of
  \<open>app/db/session.py\<close>, the health probes of \<open>app/api/routes/health.py\<close>, and \<open>lifespan\<close> of
  \<open>app/main.py\<close> from the first statement to the last. How a string is read as an integer, and what the
  scheduler does when it starts and stops, are arguments.
\<close>

section \<open>Settings\<close>

record settings =
  database_url :: pystr
  ollama_base_url :: pystr
  ollama_model :: pystr
  matcher_ollama_model :: pystr
  smtp_host :: pystr
  smtp_port :: int
  smtp_username :: pystr
  smtp_password :: pystr
  smtp_from_email :: pystr
  solid_jobs_campaign :: pystr
  batch_scoring_limit :: int
  scoring_max_concurrency :: int
  scoring_interval :: int
  detail_retry_interval :: int
  detail_retry_min_age_seconds :: int
  detail_retry_max_attempts :: int
  proxy_pool_target_size :: int
  proxy_pool_topup_interval :: int
  app_env :: pystr
  log_level :: pystr
  api_host :: pystr
  api_port :: int
  cors_allow_origin :: pystr

text \<open>Variables are found whatever the case of their names; the environment goes before the file.\<close>

type_synonym environment = "(pystr \<times> pystr) list"

definition env_lookup :: "environment \<Rightarrow> environment \<Rightarrow> string \<Rightarrow> pystr option" where
  "env_lookup environ dotenv name =
     (let lower = (\<lambda>env. map_of (rev (map (\<lambda>(k, v). (py_lower k, v)) env)) (lit name)) in
      case lower environ of Some v \<Rightarrow> Some v | None \<Rightarrow> lower dotenv)"

definition env_required :: "(string \<Rightarrow> pystr option) \<Rightarrow> string \<Rightarrow> exn + pystr" where
  "env_required get name = (case get name of None \<Rightarrow> Inl (ValidationError (lit name)) | Some v \<Rightarrow> Inr v)"

definition env_str :: "(string \<Rightarrow> pystr option) \<Rightarrow> string \<Rightarrow> string \<Rightarrow> pystr" where
  "env_str get name dflt = (case get name of None \<Rightarrow> lit dflt | Some v \<Rightarrow> v)"

definition env_int :: "(pystr \<Rightarrow> int option) \<Rightarrow> (string \<Rightarrow> pystr option) \<Rightarrow> string \<Rightarrow> int \<Rightarrow> exn + int" where
  "env_int int_of get name dflt =
     (case get name of
        None \<Rightarrow> Inr dflt
      | Some v \<Rightarrow> (case int_of v of None \<Rightarrow> Inl (ValidationError (lit name)) | Some n \<Rightarrow> Inr n))"

definition Settings :: "(pystr \<Rightarrow> int option) \<Rightarrow> environment \<Rightarrow> environment \<Rightarrow> exn + settings" where
  "Settings int_of environ dotenv =
     (let get = env_lookup environ dotenv in
      bindE (env_required get ''database_url'') (\<lambda>u.
      bindE (env_required get ''ollama_base_url'') (\<lambda>base.
      bindE (env_required get ''ollama_model'') (\<lambda>model.
      bindE (env_required get ''matcher_ollama_model'') (\<lambda>matcher.
      bindE (env_int int_of get ''smtp_port'' 587) (\<lambda>smtp.
      bindE (env_int int_of get ''batch_scoring_limit'' 50) (\<lambda>lmt.
      bindE (env_int int_of get ''scoring_max_concurrency'' 5) (\<lambda>concurrency.
      bindE (env_int int_of get ''scoring_job_interval_seconds'' 60) (\<lambda>scoring.
      bindE (env_int int_of get ''detail_retry_job_interval_seconds'' 300) (\<lambda>retry.
      bindE (env_int int_of get ''detail_retry_min_age_seconds'' 1800) (\<lambda>min_age.
      bindE (env_int int_of get ''detail_retry_max_attempts'' 5) (\<lambda>attempts.
      bindE (env_int int_of get ''proxy_pool_target_size'' 5) (\<lambda>target.
      bindE (env_int int_of get ''proxy_pool_topup_interval_seconds'' 120) (\<lambda>topup.
      bindE (env_int int_of get ''api_port'' 8000) (\<lambda>port.
      Inr \<lparr>database_url = u, ollama_base_url = base, ollama_model = model, matcher_ollama_model = matcher,
        smtp_host = env_str get ''smtp_host'' '''', smtp_port = smtp,
        smtp_username = env_str get ''smtp_username'' '''', smtp_password = env_str get ''smtp_password'' '''',
        smtp_from_email = env_str get ''smtp_from_email'' '''',
        solid_jobs_campaign = env_str get ''solid_jobs_campaign'' ''recruflow'',
        batch_scoring_limit = lmt, scoring_max_concurrency = concurrency, scoring_interval = scoring,
        detail_retry_interval = retry, detail_retry_min_age_seconds = min_age, detail_retry_max_attempts = attempts,
        proxy_pool_target_size = target, proxy_pool_topup_interval = topup,
        app_env = env_str get ''app_env'' ''development'', log_level = env_str get ''log_level'' ''INFO'',
        api_host = env_str get ''api_host'' ''0.0.0.0'', api_port = port,
        cors_allow_origin = env_str get ''cors_allow_origin'' ''http://localhost:5173''\<rparr>)))))))))))))))"

text \<open>\<open>get_settings\<close> is cached: the first settings that could be read stay. An exception is not cached.\<close>

definition get_settings ::
    "(pystr \<Rightarrow> int option) \<Rightarrow> environment \<Rightarrow> environment \<Rightarrow> (settings option, settings) prog" where
  "get_settings int_of environ dotenv cached =
     (case cached of
        Some cfg \<Rightarrow> (Inr cfg, cached)
      | None \<Rightarrow> (case Settings int_of environ dotenv of Inl e \<Rightarrow> (Inl e, None) | Inr cfg \<Rightarrow> (Inr cfg, Some cfg)))"

definition get_database_url :: "environment \<Rightarrow> exn + pystr" where
  "get_database_url environ =
     (case map_of environ (lit ''DATABASE_URL'') of
        None \<Rightarrow> Inl (OtherExn (lit ''RuntimeError''))
      | Some u \<Rightarrow> if u = [] then Inl (OtherExn (lit ''RuntimeError'')) else Inr u)"

section \<open>The life of the application\<close>

definition job_settings_of :: "settings \<Rightarrow> job_settings" where
  "job_settings_of cfg =
     \<lparr>scoring_job_interval_seconds = scoring_interval cfg,
      detail_retry_job_interval_seconds = detail_retry_interval cfg,
      proxy_pool_topup_interval_seconds = proxy_pool_topup_interval cfg\<rparr>"

text \<open>
  \<open>lifespan\<close>: what fails before the scheduler runs ends the start; once it runs it is shut down whichever
  way serving ends. \<open>serve\<close> is what the requests and the jobs do meanwhile.
\<close>

definition lifespan ::
    "'j job_api \<Rightarrow> ('j \<Rightarrow> 'j) \<Rightarrow> ('j \<Rightarrow> 'j) \<Rightarrow> (pystr \<Rightarrow> bool) \<Rightarrow> (int \<Rightarrow> pystr) \<Rightarrow> environment \<Rightarrow> settings \<Rightarrow> int
     \<Rightarrow> (db \<Rightarrow> 'j \<Rightarrow> (exn + unit) \<times> db \<times> 'j) \<Rightarrow> db \<Rightarrow> 'j \<Rightarrow> (exn + unit) \<times> db \<times> 'j" where
  "lifespan A start shutdown crontab_ok isoformat environ cfg now serve d j =
     (case get_database_url environ of
        Inl e \<Rightarrow> (Inl e, d, j)
      | Inr u \<Rightarrow>
          (case lifespan_start A crontab_ok isoformat (job_settings_of cfg) now d j of
             (Inl e, d1, j1) \<Rightarrow> (Inl e, d1, j1)
           | (Inr counts, d1, j1) \<Rightarrow>
               (case serve d1 (start j1) of (r, d2, j2) \<Rightarrow> (r, d2, shutdown j2))))"

text \<open>The module reads the settings when it is imported, then the server runs the application.\<close>

definition run_application ::
    "(pystr \<Rightarrow> int option) \<Rightarrow> 'j job_api \<Rightarrow> ('j \<Rightarrow> 'j) \<Rightarrow> ('j \<Rightarrow> 'j) \<Rightarrow> (pystr \<Rightarrow> bool) \<Rightarrow> (int \<Rightarrow> pystr)
     \<Rightarrow> environment \<Rightarrow> environment \<Rightarrow> int \<Rightarrow> (db \<Rightarrow> 'j \<Rightarrow> (exn + unit) \<times> db \<times> 'j) \<Rightarrow> db \<Rightarrow> 'j
     \<Rightarrow> (exn + unit) \<times> db \<times> 'j" where
  "run_application int_of A start shutdown crontab_ok isoformat environ dotenv now serve d j =
     (case get_settings int_of environ dotenv None of
        (Inl e, c) \<Rightarrow> (Inl e, d, j)
      | (Inr cfg, c) \<Rightarrow> lifespan A start shutdown crontab_ok isoformat environ cfg now serve d j)"

section \<open>Health\<close>

definition health :: pystr where "health = lit ''ok''"

text \<open>The probe of the database: errors of the database and of the connection are answered with 503.\<close>

definition health_db :: "(exn \<Rightarrow> bool) \<Rightarrow> unit op \<Rightarrow> pystr op" where
  "health_db is_db_error select_1 s =
     (case select_1 s of
        (Inl e, t) \<Rightarrow> (Inl (if is_db_error e then HTTPException 503 else e), t)
      | (Inr u, t) \<Rightarrow> (Inr (lit ''ok''), t))"

section \<open>Facts\<close>

lemma settings_are_read_once:
  "get_settings int_of environ dotenv None = (Inr cfg, c) \<Longrightarrow> get_settings int_of' environ' dotenv' c = (Inr cfg, c)"
  by (auto simp: get_settings_def split: sum.splits)

text \<open>The engine takes the URL from the environment of the process alone: one that is only in the file
  passes the settings, and then ends the start before anything is read or registered.\<close>

lemma url_must_be_exported:
  assumes "get_settings int_of environ dotenv None = (Inr cfg, c)" and "map_of environ (lit ''DATABASE_URL'') = None"
  shows "run_application int_of A start shutdown crontab_ok isoformat environ dotenv now serve d j
    = (Inl (OtherExn (lit ''RuntimeError'')), d, j)"
  using assms by (simp add: run_application_def lifespan_def get_database_url_def)

definition example_dotenv :: environment where
  "example_dotenv =
     [(lit ''DATABASE_URL'', lit ''postgresql+asyncpg://db/recruflow''), (lit ''OLLAMA_BASE_URL'', lit ''http://ollama:11434''),
      (lit ''OLLAMA_MODEL'', lit ''llama3.1:8b''), (lit ''MATCHER_OLLAMA_MODEL'', lit ''llama3.1:8b'')]"

lemma url_must_be_exported_example:
  "(case get_settings (\<lambda>_. None) [] example_dotenv None of
      (Inr cfg, c) \<Rightarrow> batch_scoring_limit cfg = 50 \<and> scoring_interval cfg = 60 | _ \<Rightarrow> False)
   \<and> get_database_url [] = Inl (OtherExn (lit ''RuntimeError''))"
  by code_simp

text \<open>However serving ends, a scheduler that was started is shut down; a start that fails starts none.\<close>

lemma lifespan_outcomes:
  assumes "lifespan A start shutdown crontab_ok isoformat environ cfg now serve d j = (r, d', j')"
  shows "(\<exists>e. r = Inl e \<and> get_database_url environ = Inl e \<and> d' = d \<and> j' = j)
    \<or> (\<exists>e. r = Inl e \<and> lifespan_start A crontab_ok isoformat (job_settings_of cfg) now d j = (Inl e, d', j'))
    \<or> (\<exists>counts d1 j1 j2. lifespan_start A crontab_ok isoformat (job_settings_of cfg) now d j = (Inr counts, d1, j1)
         \<and> serve d1 (start j1) = (r, d', j2) \<and> j' = shutdown j2)"
  using assms by (auto simp: lifespan_def split: sum.splits prod.splits)

end
