(* ===== verification/Intervals.thy ===== *)
theory Intervals
  imports Boot
begin

text \<open>
  The interval routes of \<open>app/api/routes/scheduler.py\<close> behind their request model
  (\<open>IntervalUpdateRequest\<close> of \<open>app/schemas/scheduler.py\<close>), which bounds the interval from below only:
  what an interval no trigger can be built of does to the route and to every later start.
\<close>

section \<open>The request\<close>

definition interval_update_request :: "int \<Rightarrow> exn + int" where
  "interval_update_request seconds = (if 60 \<le> seconds then Inr seconds else Inl (HTTPException 422))"

definition put_interval :: "pylib \<Rightarrow> 'j job_api \<Rightarrow> pystr \<Rightarrow> int \<Rightarrow> ('j, source_status) app_op" where
  "put_interval L A source seconds =
     bindS (liftE (interval_update_request seconds)) (\<lambda>n. update_source_interval L A source n)"

definition put_all_intervals :: "pylib \<Rightarrow> 'j job_api \<Rightarrow> int \<Rightarrow> ('j, source_status list) app_op" where
  "put_all_intervals L A seconds =
     bindS (liftE (interval_update_request seconds)) (\<lambda>n. update_all_source_intervals L A n)"

section \<open>A schedule without a trigger ends the start\<close>

lemma registered_schedules_fit:
  "forS rows (register_job A ok) (s, j) = (Inr (), t) \<Longrightarrow> list_all (schedule_fits A ok) rows"
proof (induction rows arbitrary: s j)
  case (Cons r rows)
  obtain u s1 j1 where one: "register_job A ok r (s, j) = (u, (s1, j1))" by (metis prod.collapse)
  then obtain x where x: "u = Inr x" "forS rows (register_job A ok) (s1, j1) = (Inr (), t)"
    using Cons.prems by (cases u) (auto simp: run_simps)
  have "schedule_fits A ok r"
    using one x(1) by (auto simp: register_job_def run_simps add_job_def make_trigger_fits split: option.splits if_splits)
  with Cons.IH [OF x(2)] show ?case by simp
qed simp

lemma start_needs_schedules:
  assumes "r \<in> set (sources d)" and "src_connector r \<noteq> None" and "\<not> schedule_fits A ok r"
    and "db_ok d" and "named_after_connector d"
  shows "\<exists>e d' j'. lifespan_start A ok fmt cfg now d j = (Inl e, d', j')"
proof -
  let ?d = "prepared fmt now d"
  have "r \<in> set (sources_with_connector ?d)"
    using prepared_facts(2) [OF assms(4,5), of fmt now] assms(1,2) by (auto simp: sources_with_connector_def)
  then have bad: "\<not> list_all (schedule_fits A ok) (sources_with_connector ?d)"
    using assms(3) by (auto simp: list_all_iff)
  obtain u t where run: "register_jobs A ok (open_session ?d, j) = (u, t)" by (metis prod.collapse)
  have "\<exists>e. u = Inl e"
  proof (cases u)
    case (Inr n)
    obtain v w where each: "forS (sources_with_connector ?d) (register_job A ok) (open_session ?d, j) = (v, w)"
      by (metis prod.collapse)
    then have "v = Inr ()" using run Inr by (cases v) (auto simp: register_jobs_def run_simps)
    then have "list_all (schedule_fits A ok) (sources_with_connector ?d)"
      using registered_schedules_fit [of "sources_with_connector ?d" A ok "open_session ?d" j w] each by simp
    with bad show ?thesis by simp
  qed simp
  then show ?thesis using run by (cases t) (auto simp: lifespan_start_def prepare_run)
qed

lemma stored_interval_is_read:
  "0 < n \<Longrightarrow> schedule_fits A ok (src\<lparr>src_config := AList.update (lit ''schedule'') (interval_schedule n) cfg\<rparr>)
     = api_interval_ok A (of_int n)"
  using parse_schedule_runs [of ok JNull n cfg] by (simp add: schedule_fits_def)

lemma db_ok_update_config:
  assumes "db_ok d"
  shows "db_ok (update_source sid (write_config src) d)"
proof -
  have "src_id (write_config src r) = src_id r" "src_name (write_config src r) = src_name r" for r
    by (simp_all add: write_config_def)
  then show ?thesis
    using assms by (simp add: db_ok_def keys_ok_def ids_below_def refs_simps update_source_def map_update_where image_update_where)
qed

lemma named_update_config: "named_after_connector d \<Longrightarrow> named_after_connector (update_source sid (write_config src) d)"
  by (auto simp: named_after_connector_def update_source_def update_where_def write_config_def list_all_iff
      split: option.splits)

text \<open>C15: The request accepts every interval of a minute or more, and the route stores it before it builds the
  trigger. When no trigger of that many seconds can be built, the request ends with a server error, the
  interval stays stored, and from then on no start of the application succeeds, whatever its settings,
  until the database is changed by hand.
\<close>

theorem stored_interval_stops_every_start:
  assumes "60 \<le> n" and "\<not> api_interval_ok A (of_int n)"
    and "c \<in> set registry_names" and "find_source c (working s) = Some src" and "\<not> tx_aborted s"
    and "db_ok (working s)" and "named_after_connector (working s)"
  shows "\<exists>t. put_interval L A c n (s, j) = (Inl (OtherExn (lit ''OverflowError'')), (t, j))
    \<and> committed t = working t \<and> offers (committed t) = offers (working s)
    \<and> (\<forall>ok fmt cfg now j'. \<exists>e d'' j''. lifespan_start A ok fmt cfg now (committed t) j' = (Inl e, d'', j''))"
proof -
  let ?cfg = "AList.update (lit ''schedule'') (interval_schedule n) (src_config src)"
  let ?row = "src\<lparr>src_config := ?cfg\<rparr>"
  let ?d = "update_source (src_id src) (write_config ?row) (working s)"
  let ?t = "s\<lparr>working := ?d, committed := ?d\<rparr>"
  have src: "src \<in> set (sources (working s))" "src_connector src = Some c" using find_source_in [OF assms(4)] by auto
  have "put_interval L A c n (s, j) = (Inl (OtherExn (lit ''OverflowError'')), (?t, j))"
    using assms(1,2,5)
    by (simp add: put_interval_def interval_update_request_def update_source_interval_def set_source_interval_def
        run_simps set_source_key_run [OF assms(3-5)] reschedule_job_def make_trigger_def)
  moreover have "?row \<in> set (sources ?d)"
    using src(1) by (auto simp: sources_update update_where_def write_config_def intro!: image_eqI [of _ _ src])
  moreover have "\<not> schedule_fits A ok ?row" for ok using stored_interval_is_read [of n A ok] assms(1,2) by simp
  ultimately show ?thesis
    using start_needs_schedules [of ?row ?d A] src(2) db_ok_update_config [OF assms(6)] named_update_config [OF assms(7)]
    by (intro exI [of _ ?t]) (simp add: update_source_def)
qed

lemma stored_interval_stops_every_start_witness:
  "\<exists>t. put_interval sample_lib map_scheduler SOLID_JOBS (10 ^ 15) (open_session paused_db, paused_jobs)
      = (Inl (OtherExn (lit ''OverflowError'')), (t, paused_jobs))
    \<and> (\<exists>e d' j'. lifespan_start map_scheduler (\<lambda>_. True) (\<lambda>_. []) \<lparr>scoring_job_interval_seconds = 60,
         detail_retry_job_interval_seconds = 300, proxy_pool_topup_interval_seconds = 120\<rparr> 9 (committed t) Map.empty
        = (Inl e, d', j'))"
proof -
  have "keys_ok paused_db" "ids_below paused_db" "refs_ok paused_db" "named_after_connector paused_db" by code_simp+
  then have "db_ok (working (open_session paused_db))" "named_after_connector (working (open_session paused_db))"
    by (simp_all add: db_ok_def)
  moreover have "\<not> api_interval_ok map_scheduler (of_int (10 ^ 15))" by (simp add: map_scheduler_def)
  ultimately show ?thesis
    using stored_interval_stops_every_start [OF _ _ paused_facts(1-3), where n = "10 ^ 15" and A = map_scheduler
        and j = paused_jobs and L = sample_lib] by auto
qed

end
