(* ===== verification/ManualRun.thy ===== *)
theory ManualRun
  imports BulkSettings
begin

text \<open>
  What a manual run answers: \<open>SchedulerRunRecord\<close> of \<open>app/scheduler/service.py\<close>, which the route
  \<open>POST /scheduler/run/{source}\<close> returns as a \<open>ManualRunResponse\<close> of the same fields.
\<close>

section \<open>The answer\<close>

record scheduler_run_record =
  srr_id :: int
  srr_source_id :: int
  srr_connector :: pystr
  srr_trigger_type :: pystr
  srr_status :: pystr
  srr_fetched :: "int option"
  srr_created :: "int option"
  srr_warning :: bool
  srr_error_message :: "pystr option"
  srr_started_at :: int
  srr_finished_at :: "int option"

definition run_record_of :: "pystr \<Rightarrow> run_row \<Rightarrow> scheduler_run_record" where
  "run_record_of connector r =
     \<lparr>srr_id = run_id r, srr_source_id = run_source_id r, srr_connector = connector,
      srr_trigger_type = run_trigger_type r, srr_status = run_status r, srr_fetched = fetched_count r,
      srr_created = created_count r, srr_warning = run_warning r, srr_error_message = run_error_message r,
      srr_started_at = run_started_at r, srr_finished_at = run_finished_at r\<rparr>"

text \<open>The fields are those of the run as its session holds it, which is what the session has committed.\<close>

definition manual_run :: "connector_runner \<Rightarrow> pystr \<Rightarrow> int \<Rightarrow> db \<Rightarrow> (exn + scheduler_run_record) \<times> db" where
  "manual_run run_connector source now d =
     (case trigger_run run_connector source now d of
        (Inl e, d1) \<Rightarrow> (Inl e, d1)
      | (Inr rid, d1) \<Rightarrow>
          (case run_with_id rid d1 of
             None \<Rightarrow> (Inl (AssertionError (lit ''run is not None'')), d1)
           | Some r \<Rightarrow> (Inr (run_record_of source r), d1)))"

section \<open>The answer tells how the run went\<close>

lemma run_with_id_added:
  assumes "ids_below d"
  shows "run_with_id (next_id d) (add_run sid trigger now d) =
    Some \<lparr>run_id = next_id d, run_source_id = sid, run_trigger_type = trigger, run_status = st_running,
      fetched_count = None, created_count = None, run_warning = False, run_error_message = None,
      run_started_at = now, run_finished_at = None\<rparr>"
proof -
  have "next_id d \<notin> run_id ` set (scheduler_runs d)"
    using assms ids_in_fresh by (fastforce simp: ids_below_def)
  then have "find (\<lambda>r. run_id r = next_id d) (scheduler_runs d) = None"
    by (auto simp: find_None_iff) (metis image_eqI)
  then show ?thesis by (simp add: run_with_id_def add_run_def find_append)
qed

lemma run_failure_refs:
  assumes "ingestion_failure_refs d" and "sid \<in> src_id ` set (sources d)" and "rid \<in> run_id ` set (scheduler_runs d)"
  shows "ingestion_failure_refs (upsert_ingestion key k
    ([F_source_id sid, F_error_message m, F_scheduler_run_id rid]
      @ (case b of None \<Rightarrow> [] | Some n \<Rightarrow> [F_blocked_status (Some n)])) now d)"
  using assms
  by (cases b) (auto simp: ingestion_failure_refs_def upsert_ingestion_def upsert_failure_def
      update_where_def list_all_iff touch_open_def blank_ingestion_failure_def
      blank_dead_letter_def dead_letter.defs)

text \<open>The failure of a run leaves its record alone, and the transaction intact.\<close>

lemma record_run_fetch_failure_run:
  assumes "\<not> tx_aborted s" and "ingestion_failure_refs (working s)" and "src_id src \<in> src_id ` set (sources (working s))"
    and "rid \<in> run_id ` set (scheduler_runs (working s))" and "0 \<le> src_id src" "src_id src < 2 ^ 31"
  shows "\<exists>u. record_run_fetch_failure src res (Some rid) now s = (Inr (), u) \<and> \<not> tx_aborted u
    \<and> scheduler_runs (working u) = scheduler_runs (working s) \<and> offers (working u) = offers (working s)"
proof (cases "res_ok res")
  case False
  let ?m = "case res_error_message res of None \<Rightarrow> lit ''ingestion failed''
    | Some m \<Rightarrow> if m = [] then lit ''ingestion failed'' else m"
  let ?fs = "[F_source_id (src_id src), F_error_message ?m, F_scheduler_run_id rid]
    @ (case res_blocked_status res of None \<Rightarrow> [] | Some b \<Rightarrow> [F_blocked_status (Some b)])"
  have "record_ingestion_failure (source_key (src_id src)) RUN_FETCH_FAILED ?fs now s
      = (Inr (), s\<lparr>working := upsert_ingestion (source_key (src_id src)) RUN_FETCH_FAILED ?fs now (working s)\<rparr>)"
    using assms by (intro record_ingestion_failure_ok source_key_length run_failure_refs) (auto split: option.split)
  then show ?thesis
    using False assms(1) by (simp add: record_run_fetch_failure_def upsert_ingestion_def)
qed (use assms(1) in \<open>simp add: record_run_fetch_failure_def run_simps\<close>)

text \<open>
  A manual run that gets past the connector answers with the closed record of that run. Whatever the
  connector returned, also a fetch that failed, is answered as \<open>ok\<close> with its counts, and with the warning
  when nothing was fetched; an exception is answered as \<open>error\<close> with its text and without counts. What
  the connector stored is committed in both cases.
\<close>

theorem manual_run_answers_with_its_record:
  assumes "c \<in> set registry_names" and "find_source c d = Some src" and "connector_enabled (src_config src)"
    and "db_ok d" and "0 \<le> src_id src" "src_id src < 2 ^ 31"
    and "run_connector c src False (open_session (add_run (src_id src) (lit ''manual'') now d)) = (r, s2)"
    and "\<not> tx_aborted s2" and "db_ok (working s2)" and "src_id src \<in> src_id ` set (sources (working s2))"
    and "scheduler_runs (working s2) = scheduler_runs (add_run (src_id src) (lit ''manual'') now d)"
  shows "\<exists>rec d'. manual_run run_connector c now d = (Inr rec, d')
    \<and> srr_id rec = next_id d \<and> srr_source_id rec = src_id src \<and> srr_connector rec = c
    \<and> srr_started_at rec = now \<and> srr_finished_at rec = Some now \<and> offers d' = offers (working s2)
    \<and> (case r of
         Inl e \<Rightarrow> srr_status rec = st_error \<and> srr_error_message rec = Some (exn_text e)
           \<and> srr_fetched rec = None \<and> srr_created rec = None
       | Inr res \<Rightarrow> srr_status rec = st_ok \<and> srr_error_message rec = None
           \<and> srr_fetched rec = Some (int (res_fetched res)) \<and> srr_created rec = Some (int (res_created res))
           \<and> srr_warning rec = (res_fetched res = 0))"
proof -
  let ?rid = "next_id d"
  have refs: "refs_ok d" and ids: "ids_below d" using assms(4) by (simp_all add: db_ok_def)
  note start = run_source_start [OF assms(1-3) refs, where run_connector = run_connector
    and trigger = "lit ''manual''" and now = now, OF assms(7)]
  have row: "run_with_id ?rid e = run_with_id ?rid (add_run (src_id src) (lit ''manual'') now d)"
    if "scheduler_runs e = scheduler_runs (working s2)" for e
    using that assms(11) by (simp add: run_with_id_def)
  show ?thesis
  proof (cases r)
    case (Inl e)
    then show ?thesis
      using assms(8) run_with_id_update [OF row [OF refl, unfolded run_with_id_added [OF ids]], of "mark_error (exn_text e) now"]
      by (simp add: manual_run_def trigger_run_def translated_def start Let_def finish_run_error_def run_simps
          mark_error_def run_record_of_def update_run_def)
  next
    case (Inr res)
    let ?s = "if res_ok res then s2\<lparr>working := stamp_fetched (src_id src) now (working s2)\<rparr> else s2"
    have "refs_ok (working s2)" using assms(9) by (simp add: db_ok_def)
    then have "ingestion_failure_refs (working ?s)" "src_id src \<in> src_id ` set (sources (working ?s))"
      using assms(10) by (auto simp: refs_simps stamp_fetched_def image_update_where)
    moreover have "?rid \<in> run_id ` set (scheduler_runs (working ?s))"
      using assms(11) by (auto simp: stamp_fetched_def add_run_def)
    moreover have "\<not> tx_aborted ?s" using assms(8) by simp
    ultimately obtain u where u: "record_run_fetch_failure src res (Some ?rid) now ?s = (Inr (), u)" "\<not> tx_aborted u"
      "scheduler_runs (working u) = scheduler_runs (working ?s)" "offers (working u) = offers (working ?s)"
      using record_run_fetch_failure_run [of ?s src ?rid res now] assms(5,6) by blast
    have same: "scheduler_runs (working u) = scheduler_runs (working s2)" "offers (working u) = offers (working s2)"
      using u(3,4) by (simp_all add: stamp_fetched_def split: if_splits)
    note marked = run_with_id_update [OF row [OF same(1), unfolded run_with_id_added [OF ids]],
        of "mark_ok (res_fetched res) (res_created res) (res_fetched res = 0) now"]
    have "(if res_ok res then exec (stamp_fetched (src_id src) now) else retS ()) s2 = (Inr (), ?s)"
      using assms(8) by (simp add: run_simps)
    then show ?thesis
      using Inr u(1,2) same(2) marked
      by (simp add: manual_run_def trigger_run_def translated_def start Let_def finish_run_ok_def bindS_def exec_def
          commit_def mark_ok_def run_record_of_def update_run_def)
  qed
qed

lemma manual_run_answers_with_its_record_witness:
  "\<exists>rec d'. manual_run (\<lambda>_ _ _. retS (finished 0 0)) SOLID_JOBS 5 (lifecycle_db True) = (Inr rec, d')
     \<and> srr_status rec = st_ok \<and> srr_warning rec \<and> srr_fetched rec = Some 0"
proof -
  let ?d = "add_run 1 (lit ''manual'') 5 (lifecycle_db True)"
  have "keys_ok ?d" "ids_below ?d" "refs_ok ?d" by code_simp+
  then have "db_ok (working (open_session ?d))" by (simp add: db_ok_def)
  then show ?thesis
    using manual_run_answers_with_its_record [OF lifecycle_lookup(1,2,3) lifecycle_db_ok(1),
      where run_connector = "\<lambda>_ _ _. retS (finished 0 0)" and now = 5 and r = "Inr (finished 0 0)"]
    by (fastforce simp: lifecycle_source_def retS_def lifecycle_db_def add_run_def finished_def)
qed

end
