(* ===== verification/Spec2Isabelle.thy ===== *)
theory Spec2Isabelle
  imports OffersApi Boot ScoringApi Overview FailuresApi ProfileApi Dispatch CvExtract Fingerprint
    Migrations Seed ScoringLock ParallelRuns Columns Application Prompts
    Intervals ManualRun
begin

text \<open>
  A verification development for recruFlow, a single-user service that collects job offers from nine
  boards, stores each of them once, scores them against the user's profile with a local language
  model, and serves the result over HTTP. The Python code is under \<open>app/\<close>; every definition is
  translated from it and named after it as far as Isabelle allows.

  \<^bold>\<open>How the program works.\<close> A scheduler job or a request runs one connector
  (\<open>app/ingestion/lifecycle.py\<close>); the connector asks its board for pages and hands them to one
  pagination loop (\<open>runner.py\<close>), which maps, validates and stores the postings (\<open>persist.py\<close>,
  \<open>dedup.py\<close>). What cannot be fetched, validated or scored becomes a row of a dead-letter table
  (\<open>app/dlq\<close>), which is retried by hand or by a job. Another job scores the backlog of the active
  profile in batches (\<open>app/scoring\<close>, \<open>app/llm/matcher.py\<close>) and publishes every score to the open event
  streams. Routes read and edit offers, profiles, settings and failures; the profile is first read
  from an uploaded CV (\<open>app/cv\<close>, \<open>app/llm/cv_extraction.py\<close>).

  \<^bold>\<open>How the model works.\<close> A Python value is its HOL counterpart: \<open>str\<close> a list of code points, \<open>int\<close> an
  \<open>int\<close> (bounded where a column is), \<open>float\<close> a rational, a JSON value the datatype \<open>json\<close>, a model of
  pydantic a record with a predicate for its constraints, an exception a value of \<open>exn\<close>. Fallible code
  returns \<open>exn + 'a\<close>. Code on a database session is a function from a session to a result and a
  session (\<open>op\<close>); a session holds the committed tables, the tables the transaction sees, and whether a
  failed statement has aborted it, so that swallowed errors have the effect they have in PostgreSQL.
  A table is the list of its rows, with its keys and foreign keys as checks of the statements. A loop
  is a recursion on what is left of it: \<open>run_pages\<close> and \<open>collect_pages\<close> on the pages left of
  \<open>max_pages\<close>, \<open>attempt_loop\<close> on the three attempts of a fetch, \<open>top_up_loop\<close> on the searches of a
  top-up, everything else on its list; no fuel could run out before the code would stop.
  The network, the language model, the parsers of JSON, XML, PDF and DOCX, the digest, APScheduler,
  the clock and the random choices are arguments. Where a request may be answered differently each
  time, the argument gets the number of the request. The order the server reads the rows of a paged
  listing in is an argument too, any permutation of the table.

  \<^bold>\<open>Theories, in the order of the program.\<close>
  \<^item> \<open>Prelude\<close>, \<open>PyStd\<close>: exceptions, the composition of operations, ordered dictionaries, and what is
    used of Python itself. The collections \<open>run_simps\<close> and \<open>table_simps\<close> carry the proofs about
    operations.
  \<^item> \<open>Schemas\<close>, \<open>Db\<close>: \<open>app/schemas\<close>, \<open>app/db/models.py\<close>, \<open>app/db/session.py\<close>. \<open>db_ok\<close> says that keys are
    unique and references point to rows; \<open>keeps I m\<close> that operation \<open>m\<close> keeps \<open>I\<close>, committed or not,
    and \<open>keeps_intros\<close> collects the rules that carry it through an operation.
  \<^item> \<open>Dedup\<close>, \<open>DeadLetter\<close>, \<open>Persist\<close>, \<open>Runner\<close>: \<open>app/ingestion\<close> and \<open>app/dlq/service.py\<close>. The locale
    \<open>failure_store\<close> is the contract of a dead-letter table, met by both.
  \<^item> \<open>ParallelRuns\<close>: runs that store offers at the same time, each call of \<open>persist_offer\<close> split into
    its query and its insert; \<open>persist_is_check_and_insert\<close> ties the two steps to the whole call.
  \<^item> \<open>Normalize\<close>, \<open>Registry\<close>, \<open>Lifecycle\<close>: the vocabularies of \<open>normalize.py\<close>, the table of connectors
    and the fetch scope, and the two doors of a run with its record in \<open>scheduler_runs\<close>.
  \<^item> \<open>Http\<close>, \<open>Fingerprint\<close>: \<open>app/connectors/http.py\<close>, \<open>proxy_pool.py\<close> and \<open>fingerprint.py\<close>. The locale
    \<open>proxy_source\<close> is what a fetch relies on of the pool; \<open>pool_step\<close> are the critical sections of the
    pool as a step relation, \<open>set_step\<close> the bounded set it implements.
  \<^item> \<open>Boards\<close>, \<open>Connectors\<close>, \<open>Sitemap\<close>, \<open>DetailBoards\<close>, \<open>Pracuj\<close>, \<open>Dispatch\<close>: \<open>app/connectors\<close>. The
    locale \<open>job_board\<close> is what a run relies on of a mapping, met by all nine; \<open>connector_invariant\<close> what
    an invariant of the tables needs to survive any connector, met by four of them in \<open>Dispatch\<close>.
  \<^item> \<open>ProfileRepo\<close>, \<open>ProfileApi\<close>, \<open>CvText\<close>, \<open>CvExtract\<close>: profiles, their routes and the upload of a CV.
  \<^item> \<open>TextMatch\<close>, \<open>Matcher\<close>, \<open>Batch\<close>, \<open>Backlog\<close>, \<open>Events\<close>, \<open>ScoringApi\<close>: \<open>app/llm/matcher.py\<close>,
    \<open>app/scoring\<close> and \<open>app/api/routes/scoring.py\<close>. \<open>denotes\<close> says what a pattern of the matcher means,
    independently of how it is searched. \<open>Prompts\<close> builds the messages the language model is sent, and
    \<open>ScoringLock\<close> is several doors to a batch around \<open>_scoring_lock\<close>; \<open>door_alone_is_the_job\<close> ties one
    door to the scoring job.
  \<^item> \<open>Retry\<close>, \<open>FailuresApi\<close>: \<open>app/dlq/retry.py\<close>, \<open>app/dlq/registry.py\<close> and their routes.
  \<^item> \<open>Settings\<close>, \<open>BulkSettings\<close>, \<open>Boot\<close>: \<open>app/scheduler\<close>, \<open>app/api/routes/scheduler.py\<close>,
    \<open>app/api/routes/ingestion.py\<close> and \<open>app/main.py\<close>. The locale \<open>auto_run_flag\<close> is a setting that
    decides whether a job runs, met by both of them. \<open>Application\<close> adds the settings of
    \<open>app/config.py\<close>, the whole of \<open>lifespan\<close> and the health probes, \<open>Intervals\<close> the interval routes
    behind their request model, \<open>ManualRun\<close> what a manual run answers.
  \<^item> \<open>OffersApi\<close>, \<open>Overview\<close>: \<open>app/api/routes/offers.py\<close> and \<open>connectors.py\<close>.
  \<^item> \<open>Migrations\<close>, \<open>Seed\<close>: \<open>alembic/versions\<close> as schema operations, the schema of \<open>app/db/models.py\<close>,
    and the sample data of \<open>app/db/seed.py\<close>; \<open>Columns\<close> puts the values the code writes against the types
    of their columns. The fuel of \<open>chain\<close> is the number of migrations: a chain
    visits each at most once.

  \<^bold>\<open>What the theorems show.\<close> A run accounts for what it stored, keeps the tables
  and finds nothing new when it is repeated; storing is idempotent, what it stores fits its columns, and
  runs at the same time never store a hash twice; failures are recorded once per resource. A batch
  scores what its selection promises, one batch scores no offer twice, and a score respects its caps;
  the lock keeps batches apart, though the commit behind it does not (below); a stream sends each event once, in order and in time, and leaves no queue behind. At
  most one profile is active. Run records and jobs follow what happened and what is set, at start,
  after a toggle, and after a run that fails. Offers are listed, edited and cleaned up as asked, and
  the pages of a list show each of them once in whatever order the server reads them. A fetch makes
  three attempts, returns what the last came to and takes the proxies that failed out of the pool;
  the pool stays a bounded set, and a top-up stops at its target; a walk over a sitemap reads every address in the end; fingerprints do not repeat. A CV page
  loses no word and reads from top to bottom, and an upload stores a well-formed draft or nothing. The migrations build the
  tables the classes declare and can be taken back; seeding twice is seeding once. The invariants
  hold for the scheduler and the retries with the connectors of the registry put in. Some theorems
  state how the code fails: the retry that waits for its own lock, the run record left running, the
  posting that stops a walk, the fetched postings that are dropped, the commit that comes after the
  scoring lock is released, the pages of dead letters that share an instant, the two runs that store one content twice or wait for each other, the interval that stops every
  later start.

  \<^bold>\<open>Not modelled.\<close> Logging; sleeping and timeouts; concurrent requests beyond the critical sections of the
  pool, the row lock of a retry, the doors to a batch and the inserts of runs; rounding of floats; letters beyond Latin
  Extended-A in case conversion and \<open>\w\<close>; \<open>RecursionError\<close> and \<open>MemoryError\<close>; cancellation; a commit
  that fails; which of several rows a statement takes that asks for one and does not order them fully
  (the first one is taken: of the stored offers of one content, of the scores and the runs of one
  instant); the refusal of the NUL character in texts and documents, and of more arguments than the
  driver sends with one statement; the columns \<open>updated_at\<close>; the framing of server-sent events; FastAPI's reading of requests; starting and closing
  the browser, and the errors of opening a context in it; engine creation;
  the configuration of alembic, and stored values a change of type would refuse.
\<close>

end
